(* ===== verification/Py_Prelude.thy ===== *)
theory Py_Prelude
  imports Complex_Main "HOL-Library.AList" "HOL-Library.Sublist"
begin

text \<open>
  The prelude: the parts of the Python language and its standard library that the modelled
  modules use, as executable HOL functions, with the generic lemmas the component theories
  share.

  Strings are \<^typ>\<open>string\<close>, read as sequences of code points below 256; the character
  classes (whitespace, letters, digits, case) are those Python gives to these code points. In
  messages, characters beyond (arrows, dashes, comparison signs) are spelled in ASCII.
  A \<open>dict\<close> whose order matters is an association list: \<open>d[k] = v\<close> is
  \<^const>\<open>AList.update\<close> (replace in place, else append), \<open>d.setdefault(k, v)\<close> is
  \<open>py_setdefault\<close>. An exception is a value of \<open>exn\<close>.
\<close>

section \<open>Characters\<close>

definition code_point :: "char \<Rightarrow> nat" where
  "code_point c = of_char c"

text \<open>\<open>str.isspace\<close> on one character.\<close>
definition py_isspace :: "char \<Rightarrow> bool" where
  "py_isspace c = (let n = code_point c in
     (9 \<le> n \<and> n \<le> 13) \<or> (28 \<le> n \<and> n \<le> 32) \<or> n = 133 \<or> n = 160)"

definition py_isdecimal :: "char \<Rightarrow> bool" where
  "py_isdecimal c = (let n = code_point c in 48 \<le> n \<and> n \<le> 57)"

text \<open>\<open>str.isalpha\<close> on one character.\<close>
definition py_isalpha :: "char \<Rightarrow> bool" where
  "py_isalpha c = (let n = code_point c in
     (65 \<le> n \<and> n \<le> 90) \<or> (97 \<le> n \<and> n \<le> 122) \<or> n = 170 \<or> n = 181 \<or> n = 186 \<or>
     (192 \<le> n \<and> n \<le> 214) \<or> (216 \<le> n \<and> n \<le> 246) \<or> (248 \<le> n \<and> n \<le> 255))"

text \<open>\<open>str.isdigit\<close>: decimal digits and the superscripts one, two and three.\<close>
definition py_isdigit :: "char \<Rightarrow> bool" where
  "py_isdigit c = (let n = code_point c in py_isdecimal c \<or> n = 178 \<or> n = 179 \<or> n = 185)"

text \<open>\<open>str.isalnum\<close>: letters, digits and the vulgar fractions.\<close>
definition py_isalnum :: "char \<Rightarrow> bool" where
  "py_isalnum c = (let n = code_point c in
     py_isalpha c \<or> py_isdigit c \<or> (188 \<le> n \<and> n \<le> 190))"

definition py_lower_char :: "char \<Rightarrow> char" where
  "py_lower_char c = (let n = code_point c in
     if (65 \<le> n \<and> n \<le> 90) \<or> (192 \<le> n \<and> n \<le> 214) \<or> (216 \<le> n \<and> n \<le> 222)
     then char_of (n + 32) else c)"

section \<open>String methods\<close>

definition py_lstrip :: "string \<Rightarrow> string" where
  "py_lstrip s = dropWhile py_isspace s"

definition py_rstrip :: "string \<Rightarrow> string" where
  "py_rstrip s = rev (dropWhile py_isspace (rev s))"

definition py_strip :: "string \<Rightarrow> string" where
  "py_strip s = py_rstrip (py_lstrip s)"

definition py_lower :: "string \<Rightarrow> string" where
  "py_lower s = map py_lower_char s"

definition py_startswith :: "string \<Rightarrow> string \<Rightarrow> bool" where
  "py_startswith s p = (take (length p) s = p)"

definition py_endswith :: "string \<Rightarrow> string \<Rightarrow> bool" where
  "py_endswith s p = (length p \<le> length s \<and> drop (length s - length p) s = p)"

text \<open>\<open>s.replace(c, d)\<close> for one-character strings.\<close>
definition py_replace_char :: "char \<Rightarrow> char \<Rightarrow> string \<Rightarrow> string" where
  "py_replace_char c d s = map (\<lambda>x. if x = c then d else x) s"

text \<open>\<open>s.split(c, maxsplit)\<close> and \<open>s.split(c)\<close> for a one-character separator.\<close>
fun py_split_max :: "char \<Rightarrow> nat \<Rightarrow> string \<Rightarrow> string list" where
  "py_split_max c 0 s = [s]"
| "py_split_max c (Suc n) s =
     (case dropWhile (\<lambda>x. x \<noteq> c) s of
        [] \<Rightarrow> [s]
      | _ # rest \<Rightarrow> takeWhile (\<lambda>x. x \<noteq> c) s # py_split_max c n rest)"

definition py_split :: "char \<Rightarrow> string \<Rightarrow> string list" where
  "py_split c s = py_split_max c (length s) s"

text \<open>\<open>sub in s\<close>.\<close>
fun py_contains :: "string \<Rightarrow> string \<Rightarrow> bool" where
  "py_contains [] sub = (sub = [])"
| "py_contains (c # s) sub = (py_startswith (c # s) sub \<or> py_contains s sub)"

section \<open>Integers and text\<close>

definition digit_char :: "nat \<Rightarrow> char" where
  "digit_char n = char_of (48 + n)"

fun py_str_nat :: "nat \<Rightarrow> string" where
  "py_str_nat n = (if n < 10 then [digit_char n] else py_str_nat (n div 10) @ [digit_char (n mod 10)])"

declare py_str_nat.simps [simp del]

text \<open>\<open>str(n)\<close>.\<close>
definition py_str_int :: "int \<Rightarrow> string" where
  "py_str_int n = (if n < 0 then CHR ''-'' # py_str_nat (nat (- n)) else py_str_nat (nat n))"

text \<open>
  \<open>int(s)\<close>: surrounding whitespace, one optional sign, decimal digits with single underscores
  between digits; \<open>None\<close> is \<open>ValueError\<close>.
\<close>
fun py_digits :: "bool \<Rightarrow> nat \<Rightarrow> string \<Rightarrow> nat option" where
  "py_digits after_digit acc [] = (if after_digit then Some acc else None)"
| "py_digits after_digit acc (c # s) =
     (if py_isdecimal c then py_digits True (10 * acc + (code_point c - 48)) s
      else if c = CHR ''_'' \<and> after_digit then py_digits False acc s
      else None)"

definition py_int :: "string \<Rightarrow> int option" where
  "py_int s =
     (case py_strip s of
        [] \<Rightarrow> None
      | c # rest \<Rightarrow>
          if c = CHR ''-'' then map_option (\<lambda>n. - int n) (py_digits False 0 rest)
          else if c = CHR ''+'' then map_option int (py_digits False 0 rest)
          else map_option int (py_digits False 0 (c # rest)))"

text \<open>
  \<open>float(s)\<close> for decimal literals: a sign, digits with an optional point and an optional exponent;
  \<open>None\<close> is \<open>ValueError\<close>. Floats are exact rationals; the spellings of infinity and of
  not-a-number are left out.
\<close>
definition digits_or_none :: "string \<Rightarrow> nat option" where
  "digits_or_none s = (if s = [] then Some 0 else py_digits False 0 s)"

definition py_exponent :: "string \<Rightarrow> int option" where
  "py_exponent s =
     (case s of
        [] \<Rightarrow> None
      | c # rest \<Rightarrow>
          if c = CHR ''-'' then map_option (\<lambda>n. - int n) (py_digits False 0 rest)
          else if c = CHR ''+'' then map_option int (py_digits False 0 rest)
          else map_option int (py_digits False 0 s))"

definition py_mantissa :: "string \<Rightarrow> rat option" where
  "py_mantissa s =
     (let ip = takeWhile (\<lambda>c. c \<noteq> CHR ''.'') s; fp = tl (dropWhile (\<lambda>c. c \<noteq> CHR ''.'') s)
      in if ip = [] \<and> fp = [] then None
         else case (digits_or_none ip, digits_or_none fp) of
                (Some i, Some f) \<Rightarrow> Some (of_nat i + of_nat f / 10 ^ length (filter py_isdecimal fp))
              | _ \<Rightarrow> None)"

definition py_unsigned_float :: "string \<Rightarrow> rat option" where
  "py_unsigned_float s =
     (let is_e = (\<lambda>c. c = CHR ''e'' \<or> c = CHR ''E'');
          m = py_mantissa (takeWhile (\<lambda>c. \<not> is_e c) s)
      in case dropWhile (\<lambda>c. \<not> is_e c) s of
           [] \<Rightarrow> m
         | _ # e \<Rightarrow> (case (m, py_exponent e) of
                        (Some x, Some k) \<Rightarrow> Some (if 0 \<le> k then x * 10 ^ nat k else x / 10 ^ nat (- k))
                      | _ \<Rightarrow> None))"

definition py_float :: "string \<Rightarrow> rat option" where
  "py_float s =
     (case py_strip s of
        [] \<Rightarrow> None
      | c # rest \<Rightarrow>
          if c = CHR ''-'' then map_option uminus (py_unsigned_float rest)
          else if c = CHR ''+'' then py_unsigned_float rest
          else py_unsigned_float (c # rest))"

text \<open>\<open>sep.join(xs)\<close>.\<close>
fun py_join :: "string \<Rightarrow> string list \<Rightarrow> string" where
  "py_join sep [] = []"
| "py_join sep [x] = x"
| "py_join sep (x # y # xs) = x @ sep @ py_join sep (y # xs)"

text \<open>\<open>round(x)\<close>: half to even.\<close>
definition py_round :: "rat \<Rightarrow> int" where
  "py_round x =
     (let n = \<lfloor>x\<rfloor>; r = x - of_int n
      in if r < 1 / 2 \<or> r = 1 / 2 \<and> even n then n else n + 1)"

text \<open>\<open>f"{x:.0f}"\<close> and \<open>f"{x:.kf}"\<close> for a positive \<open>k\<close>.\<close>
definition py_fmt0 :: "rat \<Rightarrow> string" where
  "py_fmt0 x = py_str_int (py_round x)"

definition py_fmt :: "nat \<Rightarrow> rat \<Rightarrow> string" where
  "py_fmt k x =
     (let n = py_round (\<bar>x\<bar> * 10 ^ k); m = nat n; frac = py_str_nat (m mod 10 ^ k)
      in (if x < 0 then ''-'' else []) @ py_str_nat (m div 10 ^ k) @ ''.''
         @ replicate (k - length frac) (CHR ''0'') @ frac)"

text \<open>\<open>int(x)\<close> of a float: towards zero.\<close>
definition py_trunc :: "rat \<Rightarrow> int" where
  "py_trunc x = (if 0 \<le> x then \<lfloor>x\<rfloor> else - \<lfloor>- x\<rfloor>)"

text \<open>The middle dot, code point 183.\<close>
definition middot :: string where
  "middot = [char_of (183 :: nat)]"

section \<open>Dictionaries\<close>

definition py_setdefault :: "'k \<Rightarrow> 'v \<Rightarrow> ('k \<times> 'v) list \<Rightarrow> ('k \<times> 'v) list" where
  "py_setdefault k v d = (if k \<in> set (map fst d) then d else d @ [(k, v)])"

text \<open>\<open>x or y\<close> for an optional text: missing, \<open>None\<close> and \<open>""\<close> are falsy.\<close>
definition str_or :: "string option \<Rightarrow> string \<Rightarrow> string" where
  "str_or x y = (case x of None \<Rightarrow> y | Some s \<Rightarrow> if s = [] then y else s)"

text \<open>Truth value of an optional text.\<close>
definition str_truthy :: "string option \<Rightarrow> bool" where
  "str_truthy x = (case x of None \<Rightarrow> False | Some s \<Rightarrow> s \<noteq> [])"

section \<open>Exceptions\<close>

datatype exn =
    ValueError string
  | KeyError string
  | TypeError string
  | UnboundLocalError string
  | LAPIError string
  | MikroTikError string
  | RequestException string
  | RuntimeErr string
  | IntegrityError string

text \<open>\<open>str(e)\<close>.\<close>
fun exn_str :: "exn \<Rightarrow> string" where
  "exn_str (ValueError s) = s"
| "exn_str (KeyError s) = s"
| "exn_str (TypeError s) = s"
| "exn_str (UnboundLocalError s) = s"
| "exn_str (LAPIError s) = s"
| "exn_str (MikroTikError s) = s"
| "exn_str (RequestException s) = s"
| "exn_str (RuntimeErr s) = s"
| "exn_str (IntegrityError s) = s"

section \<open>Outbound effects\<close>

text \<open>What the code sends out: a notification \<open>notifications.send(kind, body, subject=...)\<close> and a SIEM
  event \<open>siem.ship(kind, payload)\<close>; \<open>Notify_on\<close> is a notification with an explicit list of channels. An operation returns the effects it has in order.\<close>
datatype event =
    Notify string string string
  | Notify_on "string list" string string string
  | Ship string "(string \<times> string option) list"

section \<open>Lemmas on strings\<close>

named_theorems py_str "characterisations of the string methods"

lemma py_startswith_iff [py_str]: "py_startswith s p \<longleftrightarrow> (\<exists>t. s = p @ t)"
  unfolding py_startswith_def
proof
  assume "take (length p) s = p"
  then have "s = p @ drop (length p) s" by (metis append_take_drop_id)
  then show "\<exists>t. s = p @ t" ..
qed auto

lemma py_startswith_append [simp]: "py_startswith (p @ t) p"
  by (simp add: py_startswith_def)

lemma py_endswith_iff [py_str]: "py_endswith s p \<longleftrightarrow> (\<exists>t. s = t @ p)"
  unfolding py_endswith_def
proof
  assume "length p \<le> length s \<and> drop (length s - length p) s = p"
  then have "s = take (length s - length p) s @ p" by (metis append_take_drop_id)
  then show "\<exists>t. s = t @ p" ..
qed auto

lemma py_contains_iff [py_str]: "py_contains s sub \<longleftrightarrow> (\<exists>a b. s = a @ sub @ b)"
proof (induction s)
  case Nil
  then show ?case by auto
next
  case (Cons c s)
  show ?case
  proof
    assume "py_contains (c # s) sub"
    then show "\<exists>a b. c # s = a @ sub @ b"
    proof (cases "py_startswith (c # s) sub")
      case True
      then obtain t where "c # s = sub @ t" by (auto simp: py_startswith_iff)
      then show ?thesis by (intro exI [of _ "[]"] exI [of _ t]) simp
    next
      case False
      with \<open>py_contains (c # s) sub\<close> Cons.IH obtain a b where "s = a @ sub @ b" by auto
      then show ?thesis by (intro exI [of _ "c # a"] exI [of _ b]) simp
    qed
  next
    assume "\<exists>a b. c # s = a @ sub @ b"
    then obtain a b where ab: "c # s = a @ sub @ b" by blast
    show "py_contains (c # s) sub"
    proof (cases a)
      case Nil
      with ab have "py_startswith (c # s) sub" by simp
      then show ?thesis by simp
    next
      case (Cons x a')
      with ab have "s = a' @ sub @ b" by simp
      with Cons.IH show ?thesis by auto
    qed
  qed
qed

lemma py_lstrip_idem [simp]: "py_lstrip (py_lstrip s) = py_lstrip s"
  by (simp add: py_lstrip_def)

lemma py_rstrip_idem [simp]: "py_rstrip (py_rstrip s) = py_rstrip s"
  by (simp add: py_rstrip_def)

lemma py_rstrip_prefix: "prefix (py_rstrip s) s"
  unfolding py_rstrip_def
  by (metis dropWhile_eq_drop rev_drop rev_rev_ident take_is_prefix)

lemma py_lstrip_noop_prefix:
  assumes "prefix t s" "py_lstrip s = s"
  shows "py_lstrip t = t"
proof (cases t)
  case Nil
  then show ?thesis by (simp add: py_lstrip_def)
next
  case (Cons c t')
  with assms(1) obtain s' where "s = c # s'" by (auto simp: prefix_def)
  with assms(2) have "\<not> py_isspace c"
    by (metis dropWhile.simps(2) dropWhile_eq_Cons_conv py_lstrip_def)
  with Cons show ?thesis by (simp add: py_lstrip_def)
qed

lemma py_strip_idem [simp]: "py_strip (py_strip s) = py_strip s"
proof -
  have "py_lstrip (py_rstrip (py_lstrip s)) = py_rstrip (py_lstrip s)"
    by (rule py_lstrip_noop_prefix [OF py_rstrip_prefix]) simp
  then show ?thesis by (simp add: py_strip_def)
qed

lemma py_strip_Nil [simp]: "py_strip [] = []"
  by (simp add: py_strip_def py_lstrip_def py_rstrip_def)

lemma set_py_strip: "set (py_strip s) \<subseteq> set s"
proof -
  have "set (py_rstrip t) \<subseteq> set t" for t
    unfolding py_rstrip_def by (metis set_dropWhileD set_rev subsetI)
  moreover have "set (py_lstrip s) \<subseteq> set s"
    unfolding py_lstrip_def by (auto dest: set_dropWhileD)
  ultimately show ?thesis unfolding py_strip_def by blast
qed

lemma py_replace_char_notin: "c \<noteq> d \<Longrightarrow> c \<notin> set (py_replace_char c d s)"
  by (auto simp: py_replace_char_def)

text \<open>Splitting at a separator the first piece does not contain.\<close>
lemma py_split_max_piece:
  "c \<notin> set p \<Longrightarrow> py_split_max c (Suc n) (p @ c # rest) = p # py_split_max c n rest"
proof -
  assume "c \<notin> set p"
  then have "takeWhile (\<lambda>x. x \<noteq> c) (p @ c # rest) = p"
    and "dropWhile (\<lambda>x. x \<noteq> c) (p @ c # rest) = c # rest"
    by (induction p) auto
  then show ?thesis by simp
qed

lemma py_split_max_last: "c \<notin> set p \<Longrightarrow> py_split_max c n p = [p]"
proof -
  assume "c \<notin> set p"
  then have "dropWhile (\<lambda>x. x \<noteq> c) p = []" by (induction p) auto
  then show ?thesis by (cases n) (simp_all del: dropWhile_eq_Nil_conv)
qed

section \<open>Lemmas on numerals\<close>

lemma code_point_digit_char: "n < 10 \<Longrightarrow> code_point (digit_char n) = 48 + n"
  by (simp add: code_point_def digit_char_def)

lemma py_isdecimal_digit_char [simp]: "n < 10 \<Longrightarrow> py_isdecimal (digit_char n)"
  by (simp add: py_isdecimal_def code_point_digit_char Let_def)

lemma py_isdecimal_not_space: "py_isdecimal c \<Longrightarrow> \<not> py_isspace c"
  by (auto simp: py_isdecimal_def py_isspace_def Let_def)

lemma py_str_nat_decimal: "c \<in> set (py_str_nat n) \<Longrightarrow> py_isdecimal c"
proof (induction n rule: py_str_nat.induct)
  case (1 n)
  then show ?case
    by (cases "n < 10") (auto simp: py_str_nat.simps [of n])
qed

lemma py_str_nat_nonempty [simp]: "py_str_nat n \<noteq> []"
  by (subst py_str_nat.simps) simp

lemma py_digits_append:
  "(\<forall>c \<in> set s. py_isdecimal c) \<Longrightarrow> s \<noteq> [] \<Longrightarrow>
   py_digits b acc (s @ t) = py_digits True (foldl (\<lambda>a c. 10 * a + (code_point c - 48)) acc s) t"
proof (induction s arbitrary: b acc)
  case (Cons c s)
  then show ?case by (cases "s = []") auto
qed simp

lemma foldl_py_str_nat: "foldl (\<lambda>a c. 10 * a + (code_point c - 48)) 0 (py_str_nat n) = n"
proof (induction n rule: py_str_nat.induct)
  case (1 n)
  then show ?case
    by (cases "n < 10") (auto simp: py_str_nat.simps [of n] code_point_digit_char)
qed

lemma py_digits_str_nat [simp]: "py_digits b 0 (py_str_nat n) = Some n"
  using py_digits_append [of "py_str_nat n" b 0 "[]"] py_str_nat_decimal
  by (simp add: foldl_py_str_nat)

lemma py_strip_id:
  assumes "s \<noteq> []" "\<not> py_isspace (hd s)" "\<not> py_isspace (last s)"
  shows "py_strip s = s"
proof -
  have "py_lstrip s = s"
    using assms(1,2) by (cases s) (auto simp: py_lstrip_def)
  moreover have "py_rstrip s = s"
    using assms(1,3) by (cases s rule: rev_cases) (auto simp: py_rstrip_def)
  ultimately show ?thesis by (simp add: py_strip_def)
qed

lemma py_strip_str_nat: "py_strip (py_str_nat n) = py_str_nat n"
proof -
  have "py_isdecimal (hd (py_str_nat n))" "py_isdecimal (last (py_str_nat n))"
    using py_str_nat_decimal [of _ n] by simp_all
  then show ?thesis by (simp add: py_strip_id py_isdecimal_not_space)
qed

lemma minus_not_decimal [simp]: "\<not> py_isdecimal (CHR ''-'')" "\<not> py_isdecimal (CHR ''+'')"
  by (simp_all add: py_isdecimal_def code_point_def Let_def)

lemma minus_not_space [simp]: "\<not> py_isspace (CHR ''-'')"
  by (simp add: py_isspace_def code_point_def Let_def)

lemma py_strip_str_int: "py_strip (py_str_int n) = py_str_int n"
proof (cases "n < 0")
  case True
  have "py_isdecimal (last (py_str_nat (nat (- n))))"
    using py_str_nat_decimal [of _ "nat (- n)"] by simp
  with True show ?thesis
    by (simp add: py_str_int_def py_strip_id py_isdecimal_not_space)
qed (simp add: py_str_int_def py_strip_str_nat)

text \<open>\<open>int(str(n)) == n\<close>.\<close>
lemma py_int_str_int [simp]: "py_int (py_str_int n) = Some n"
proof (cases "n < 0")
  case True
  then show ?thesis
    by (simp add: py_int_def py_strip_str_int) (simp add: py_str_int_def)
next
  case False
  obtain c s where cs: "py_str_nat (nat n) = c # s"
    by (cases "py_str_nat (nat n)") auto
  have "py_isdecimal c" using cs py_str_nat_decimal [of c "nat n"] by simp
  then have "c \<noteq> CHR ''-''" "c \<noteq> CHR ''+''" by auto
  with cs False show ?thesis
    using py_digits_str_nat [of False "nat n"] py_strip_str_int [of n]
    by (simp add: py_int_def py_str_int_def)
qed

section \<open>Lemmas on dictionaries\<close>

lemma keys_py_setdefault: "set (map fst (py_setdefault k v d)) = insert k (set (map fst d))"
  by (auto simp: py_setdefault_def)

lemma distinct_py_setdefault [simp]:
  "distinct (map fst d) \<Longrightarrow> distinct (map fst (py_setdefault k v d))"
  by (auto simp: py_setdefault_def)

lemma map_of_py_setdefault:
  "map_of (py_setdefault k v d) k' =
     (case map_of d k' of None \<Rightarrow> if k' = k then Some v else None | Some w \<Rightarrow> Some w)"
proof (cases "k \<in> set (map fst d)")
  case True
  then have "map_of d k \<noteq> None" by (simp add: map_of_eq_None_iff)
  with True show ?thesis by (auto simp: py_setdefault_def split: option.split)
qed (auto simp: py_setdefault_def map_add_def split: option.split)

text \<open>Counting the items of a dictionary whose key satisfies a predicate.\<close>
lemma length_filter_keys:
  assumes "distinct (map fst d)"
  shows "length (filter (\<lambda>(k, v). P k) d) = card {k \<in> fst ` set d. P k}"
  using assms
proof (induction d)
  case (Cons kv d)
  obtain k v where kv: "kv = (k, v)" by (cases kv)
  have fin: "finite {k \<in> fst ` set d. P k}" by simp
  have "{k' \<in> fst ` set (kv # d). P k'} = (if P k then insert k else id) {k \<in> fst ` set d. P k}"
    using kv by auto
  moreover have "k \<notin> {k \<in> fst ` set d. P k}" using Cons.prems kv by auto
  ultimately show ?case using Cons kv fin by simp
qed simp

lemma set_update_item: "x \<in> set (AList.update k v d) \<Longrightarrow> x = (k, v) \<or> x \<in> set d"
  by (induction d) (auto split: if_splits)

lemma str_or_simps [simp]:
  "str_or None y = y" "str_or (Some []) y = y" "str_or (Some (c # s)) y = c # s"
  by (simp_all add: str_or_def)

lemma str_truthy_simps [simp]:
  "str_truthy None = False" "str_truthy (Some []) = False" "str_truthy (Some (c # s)) = True"
  by (simp_all add: str_truthy_def)

text \<open>\<open>str.upper\<close>; the three letters below code point 256 whose upper case lies outside stay as they
  are.\<close>
definition py_upper_char :: "char \<Rightarrow> char" where
  "py_upper_char c = (let n = code_point c in
     if (97 \<le> n \<and> n \<le> 122) \<or> (224 \<le> n \<and> n \<le> 246) \<or> (248 \<le> n \<and> n \<le> 254)
     then char_of (n - 32) else c)"

definition py_upper :: "string \<Rightarrow> string" where
  "py_upper s = map py_upper_char s"

text \<open>\<open>str.splitlines()\<close>: line boundaries are the newline-like characters, and a carriage return followed by
  a newline is one boundary.\<close>
definition is_linebreak :: "char \<Rightarrow> bool" where
  "is_linebreak c = (let n = code_point c in (10 \<le> n \<and> n \<le> 13) \<or> (28 \<le> n \<and> n \<le> 30) \<or> n = 133)"

fun splitlines_acc :: "string \<Rightarrow> string \<Rightarrow> string list" where
  "splitlines_acc acc [] = (if acc = [] then [] else [rev acc])"
| "splitlines_acc acc [c] = (if is_linebreak c then [rev acc] else [rev (c # acc)])"
| "splitlines_acc acc (c # d # s) =
     (if code_point c = 13 \<and> code_point d = 10 then rev acc # splitlines_acc [] s
      else if is_linebreak c then rev acc # splitlines_acc [] (d # s)
      else splitlines_acc (c # acc) (d # s))"

definition py_splitlines :: "string \<Rightarrow> string list" where
  "py_splitlines s = splitlines_acc [] s"

section \<open>Glob patterns\<close>

text \<open>\<open>fnmatch.fnmatchcase\<close>: the character class after an opening bracket; without a closing bracket the
  bracket is literal.\<close>
definition class_body :: "bool \<Rightarrow> string \<Rightarrow> string \<Rightarrow> (bool \<times> string \<times> string) option" where
  "class_body neg first q =
     (case dropWhile (\<lambda>c. c \<noteq> CHR '']'') q of
        [] \<Rightarrow> None
      | _ # rest \<Rightarrow> Some (neg, first @ takeWhile (\<lambda>c. c \<noteq> CHR '']'') q, rest))"

definition class_items :: "bool \<Rightarrow> string \<Rightarrow> (bool \<times> string \<times> string) option" where
  "class_items neg q =
     (case q of c # q' \<Rightarrow> if c = CHR '']'' then class_body neg '']'' q' else class_body neg [] q
              | [] \<Rightarrow> None)"

definition split_class :: "string \<Rightarrow> (bool \<times> string \<times> string) option" where
  "split_class ps =
     (case ps of c # q \<Rightarrow> if c = CHR ''!'' then class_items True q else class_items False ps
               | [] \<Rightarrow> None)"

fun in_class :: "string \<Rightarrow> char \<Rightarrow> bool" where
  "in_class [] c = False"
| "in_class [a] c = (a = c)"
| "in_class [a, b] c = (a = c \<or> b = c)"
| "in_class (a # b # d # rest) c =
     (if b = CHR ''-'' then code_point a \<le> code_point c \<and> code_point c \<le> code_point d \<or> in_class rest c
      else a = c \<or> in_class (b # d # rest) c)"

lemma class_body_shorter: "class_body n f q = Some (neg, cls, rest) \<Longrightarrow> length rest < length q"
  using length_dropWhile_le [of "\<lambda>c. c \<noteq> CHR '']''" q] by (auto simp: class_body_def split: list.splits)

lemma class_items_shorter: "class_items n q = Some (neg, cls, rest) \<Longrightarrow> length rest < length q"
  by (auto simp: class_items_def dest!: class_body_shorter split: list.splits if_splits)

lemma split_class_shorter: "split_class ps = Some (neg, cls, rest) \<Longrightarrow> length rest < length ps"
  by (auto simp: split_class_def dest!: class_items_shorter split: list.splits if_splits)

function fnmatchcase :: "string \<Rightarrow> string \<Rightarrow> bool" where
  "fnmatchcase s [] = (s = [])"
| "fnmatchcase s (p # ps) =
     (if p = CHR ''*'' then fnmatchcase s ps \<or> (case s of [] \<Rightarrow> False | _ # s' \<Rightarrow> fnmatchcase s' (p # ps))
      else if p = CHR ''?'' then (case s of [] \<Rightarrow> False | _ # s' \<Rightarrow> fnmatchcase s' ps)
      else if p = CHR ''['' then
        (case split_class ps of
           None \<Rightarrow> (case s of [] \<Rightarrow> False | c # s' \<Rightarrow> c = p \<and> fnmatchcase s' ps)
         | Some (neg, cls, rest) \<Rightarrow>
             (case s of [] \<Rightarrow> False | c # s' \<Rightarrow> (in_class cls c \<noteq> neg) \<and> fnmatchcase s' rest))
      else (case s of [] \<Rightarrow> False | c # s' \<Rightarrow> c = p \<and> fnmatchcase s' ps))"
  by pat_completeness auto
termination
  by (relation "measure (\<lambda>(s, ps). length s + length ps)") (auto dest: split_class_shorter)

end
