(* ===== verification/Store.thy ===== *)
theory Store
  imports Py_Prelude
begin

text \<open>
  The SQLite store of \<open>db.py\<close>: one record type per table with the columns the modelled code
  reads or writes, a table as the list of its rows in insertion order, and the whole store as a
  record of tables. A table with an \<open>AUTOINCREMENT\<close> key is an \<open>auto_table\<close>: rows paired with
  their ids and the sequence counter, so that ids are never reused. The connection runs in
  autocommit mode (\<open>isolation_level=None\<close>): every statement is its own step, and an exception
  between two statements leaves the first one done.

  A timestamp column holds \<open>datetime.now(timezone.utc).isoformat()\<close>; it is modelled by the
  instant it denotes, in microseconds since the epoch. The text order of two such stamps is the
  order of the instants. SQLite's own \<open>datetime('now', ...)\<close> is a text with a blank where the
  ISO stamp has a \<open>T\<close>, so comparing a column with it compares the calendar days first and then
  finds the column the larger one: \<open>iso_after_sql\<close>.
\<close>

section \<open>Time\<close>

type_synonym instant = int

definition SECOND :: int where "SECOND = 1000000"
definition MINUTE :: int where "MINUTE = 60 * SECOND"
definition HOUR :: int where "HOUR = 3600 * SECOND"
definition DAY :: int where "DAY = 86400 * SECOND"

lemmas time_units = SECOND_def MINUTE_def HOUR_def DAY_def

text \<open>\<open>column > datetime(c)\<close> for an ISO stamp in the column: same day or a later one.\<close>
definition iso_after_sql :: "instant \<Rightarrow> instant \<Rightarrow> bool" where
  "iso_after_sql t c = (c div DAY \<le> t div DAY)"

lemma iso_after_sql_of_le: "c \<le> t \<Longrightarrow> iso_after_sql t c"
  by (simp add: iso_after_sql_def DAY_def SECOND_def zdiv_mono1)

lemma iso_after_sql_slack: "iso_after_sql t c \<Longrightarrow> c - DAY < t"
proof -
  assume "iso_after_sql t c"
  then have "DAY * (c div DAY) \<le> DAY * (t div DAY)"
    by (simp add: iso_after_sql_def DAY_def SECOND_def)
  moreover have "DAY * (t div DAY) \<le> t" "c < DAY * (c div DAY) + DAY"
    using mult_div_mod_eq [of DAY t] mult_div_mod_eq [of DAY c]
      pos_mod_sign [of DAY t] pos_mod_bound [of DAY c]
    unfolding DAY_def SECOND_def by linarith+
  ultimately show ?thesis by linarith
qed

section \<open>Tables\<close>

text \<open>A table with \<open>INTEGER PRIMARY KEY AUTOINCREMENT\<close>.\<close>
record 'r auto_table =
  rows :: "(nat \<times> 'r) list"
  seq :: nat

definition empty_table :: "'r auto_table" where
  "empty_table = \<lparr>rows = [], seq = 0\<rparr>"

text \<open>\<open>INSERT INTO ...\<close>; the second component is \<open>cur.lastrowid\<close>.\<close>
definition insert_row :: "'r \<Rightarrow> 'r auto_table \<Rightarrow> 'r auto_table \<times> nat" where
  "insert_row r t = (let i = seq t + 1 in (\<lparr>rows = rows t @ [(i, r)], seq = i\<rparr>, i))"

text \<open>\<open>UPDATE ... WHERE P\<close>.\<close>
definition update_rows :: "(nat \<Rightarrow> 'r \<Rightarrow> bool) \<Rightarrow> ('r \<Rightarrow> 'r) \<Rightarrow> 'r auto_table \<Rightarrow> 'r auto_table" where
  "update_rows P f t = t\<lparr>rows := map (\<lambda>(i, r). (i, if P i r then f r else r)) (rows t)\<rparr>"

text \<open>\<open>DELETE ... WHERE P\<close>.\<close>
definition delete_rows :: "(nat \<Rightarrow> 'r \<Rightarrow> bool) \<Rightarrow> 'r auto_table \<Rightarrow> 'r auto_table" where
  "delete_rows P t = t\<lparr>rows := filter (\<lambda>(i, r). \<not> P i r) (rows t)\<rparr>"

text \<open>\<open>SELECT ... WHERE P\<close>, in rowid order.\<close>
definition select_rows :: "(nat \<Rightarrow> 'r \<Rightarrow> bool) \<Rightarrow> 'r auto_table \<Rightarrow> (nat \<times> 'r) list" where
  "select_rows P t = filter (\<lambda>(i, r). P i r) (rows t)"

definition count_rows :: "(nat \<Rightarrow> 'r \<Rightarrow> bool) \<Rightarrow> 'r auto_table \<Rightarrow> nat" where
  "count_rows P t = length (select_rows P t)"

text \<open>\<open>INSERT ... ON CONFLICT (key) DO UPDATE SET f\<close> for a unique key of the row.\<close>
definition upsert_row :: "('r \<Rightarrow> 'k) \<Rightarrow> 'r \<Rightarrow> ('r \<Rightarrow> 'r) \<Rightarrow> 'r auto_table \<Rightarrow> 'r auto_table" where
  "upsert_row key new f t =
     (if \<exists>p \<in> set (rows t). key (snd p) = key new
      then update_rows (\<lambda>_ r. key r = key new) f t
      else fst (insert_row new t))"

text \<open>The same for a table whose key is its only identity.\<close>
definition upsert :: "('r \<Rightarrow> 'k) \<Rightarrow> 'r \<Rightarrow> ('r \<Rightarrow> 'r) \<Rightarrow> 'r list \<Rightarrow> 'r list" where
  "upsert key new f t =
     (if \<exists>r \<in> set t. key r = key new
      then map (\<lambda>r. if key r = key new then f r else r) t
      else t @ [new])"

definition find_row :: "('r \<Rightarrow> 'k) \<Rightarrow> 'k \<Rightarrow> 'r list \<Rightarrow> 'r option" where
  "find_row key k t = List.find (\<lambda>r. key r = k) t"

section \<open>The rows of each table\<close>

text \<open>\<open>decisions\<close>: the mirror of the LAPI decisions, unique in
  \<open>(origin_source, value, scope, scenario)\<close>; \<open>until\<close> is the LAPI's text as it came.\<close>
record decision_row =
  dr_origin_source :: string
  dr_lapi_id :: int
  dr_value :: string
  dr_scope :: string
  dr_type :: string
  dr_scenario :: string
  dr_origin :: string
  dr_duration :: string
  dr_until :: "string option"
  dr_first_seen_at :: instant
  dr_last_seen_at :: instant
  dr_deleted_at :: "instant option"

record alert_row =
  al_origin_source :: string
  al_lapi_id :: int
  al_machine_id :: string
  al_scenario :: string
  al_source_ip :: string
  al_source_asn :: string
  al_source_country :: string
  al_events_count :: int
  al_created_at :: string
  al_raw_json :: string

record sync_event =
  se_started_at :: instant
  se_duration_ms :: int
  se_added :: nat
  se_removed :: nat
  se_unchanged :: nat
  se_errors :: nat
  se_source :: string
  se_dry_run :: bool
  se_notes :: string
  se_lapi_fetch_ms :: int
  se_snapshot_ms :: int
  se_diff_ms :: int
  se_apply_ms :: int

record mt_push =
  mp_sync_event_id :: nat
  mp_ip :: string
  mp_action :: string
  mp_success :: bool
  mp_error :: string

record geo_row =
  gc_ip :: string
  gc_country_code :: string
  gc_asn :: string
  gc_as_org :: string

record setting_row =
  set_key :: string
  set_value :: string
  set_updated_at :: instant

text \<open>\<open>sources\<close> with its migrated columns.\<close>
record source_row =
  src_name :: string
  src_url :: string
  src_api_key :: string
  src_enabled :: bool
  src_last_pull_at :: "instant option"
  src_last_pull_n :: int
  src_last_error :: string
  src_created_at :: instant
  src_backoff_until :: "instant option"
  src_paused :: bool
  src_confidence :: int
  src_last_pull_ms :: int

record ip_source_row =
  is_ip :: string
  is_source_name :: string
  is_last_seen_at :: instant

datatype whitelist_kind = WL_ip | WL_cidr | WL_asn | WL_country

record whitelist_row =
  wl_kind :: whitelist_kind
  wl_value :: string
  wl_note :: string
  wl_expires_at :: "instant option"
  wl_created_at :: instant

record whitelist_hit =
  wh_ip :: string
  wh_whitelist_id :: nat
  wh_scenario :: string
  wh_created_at :: instant

datatype queue_status = Q_pending | Q_approved | Q_rejected

record approval_row =
  aq_ip :: string
  aq_scope :: string
  aq_scenario :: string
  aq_origin :: string
  aq_origin_source :: string
  aq_decision_id :: "int option"
  aq_status :: queue_status
  aq_decided_by :: string
  aq_decided_at :: "instant option"
  aq_created_at :: instant

text \<open>\<open>bouncer_targets\<close>; the configuration JSON is kept as its text.\<close>
record bouncer_row =
  bt_name :: string
  bt_kind :: string
  bt_config_json :: string
  bt_enabled :: bool
  bt_dry_run :: bool
  bt_last_error :: string
  bt_created_at :: instant

text \<open>\<open>audit_log\<close>: the trail of operator and system actions, of which no row is ever changed. The two JSON columns
  are kept as the fields of the object, and an empty column as the empty list.\<close>
record audit_row =
  au_created_at :: instant
  au_actor :: string
  au_ip :: string
  au_action :: string
  au_target :: string
  au_before :: "(string \<times> string option) list"
  au_after :: "(string \<times> string option) list"
  au_note :: string

section \<open>The store\<close>

record store =
  decisions :: "decision_row auto_table"
  alerts :: "alert_row auto_table"
  sync_events :: "sync_event auto_table"
  mt_pushes :: "mt_push auto_table"
  geo_cache :: "geo_row list"
  settings :: "setting_row list"
  sources :: "source_row auto_table"
  ip_sources :: "ip_source_row list"
  whitelist :: "whitelist_row auto_table"
  whitelist_hits :: "whitelist_hit auto_table"
  approval_queue :: "approval_row auto_table"
  bouncer_targets :: "bouncer_row auto_table"

definition empty_store :: store where
  "empty_store = \<lparr>decisions = empty_table, alerts = empty_table, sync_events = empty_table,
     mt_pushes = empty_table, geo_cache = [], settings = [], sources = empty_table,
     ip_sources = [], whitelist = empty_table, whitelist_hits = empty_table,
     approval_queue = empty_table, bouncer_targets = empty_table\<rparr>"

section \<open>Settings\<close>

definition get_setting :: "string \<Rightarrow> store \<Rightarrow> string option" where
  "get_setting key db = map_option set_value (find_row set_key key (settings db))"

definition set_setting :: "instant \<Rightarrow> string \<Rightarrow> string \<Rightarrow> store \<Rightarrow> store" where
  "set_setting now key value db =
     db\<lparr>settings := upsert set_key \<lparr>set_key = key, set_value = value, set_updated_at = now\<rparr>
                      (\<lambda>r. r\<lparr>set_value := value, set_updated_at := now\<rparr>) (settings db)\<rparr>"

definition delete_setting :: "string \<Rightarrow> store \<Rightarrow> store" where
  "delete_setting key db = db\<lparr>settings := filter (\<lambda>r. set_key r \<noteq> key) (settings db)\<rparr>"

section \<open>Laws of the tables\<close>

named_theorems tables "table operations as list operations"

text \<open>The invariant of an \<open>AUTOINCREMENT\<close> table: ids are distinct and never above the counter.\<close>
definition auto_ok :: "'r auto_table \<Rightarrow> bool" where
  "auto_ok t = (distinct (map fst (rows t)) \<and> (\<forall>p \<in> set (rows t). 0 < fst p \<and> fst p \<le> seq t))"

text \<open>The row contents of a table, without ids.\<close>
definition contents :: "'r auto_table \<Rightarrow> 'r list" where
  "contents t = map snd (rows t)"

lemma contents_empty [simp]: "contents empty_table = []"
  by (simp add: contents_def empty_table_def)

lemma contents_insert [tables]: "contents (fst (insert_row r t)) = contents t @ [r]"
  by (simp add: contents_def insert_row_def Let_def)

lemma contents_update [tables]:
  "contents (update_rows (\<lambda>_. P) f t) = map (\<lambda>r. if P r then f r else r) (contents t)"
  by (simp add: contents_def update_rows_def comp_def case_prod_beta)

lemma contents_update_rows:
  "contents (update_rows P f t) = map (\<lambda>p. if P (fst p) (snd p) then f (snd p) else snd p) (rows t)"
  by (auto simp: contents_def update_rows_def case_prod_beta)

lemma set_contents_update:
  assumes "r \<in> set (contents (update_rows P f t))"
  obtains "r \<in> set (contents t)" | r0 where "r0 \<in> set (contents t)" "r = f r0"
  using assms unfolding contents_update_rows by (auto simp: contents_def split: if_splits)

lemma map_contents_update:
  assumes "\<And>r. key (f r) = key r"
  shows "map key (contents (update_rows P f t)) = map key (contents t)"
  unfolding contents_update_rows by (simp add: contents_def assms)

lemma contents_delete [tables]:
  "contents (delete_rows (\<lambda>_. P) t) = filter (\<lambda>r. \<not> P r) (contents t)"
  by (simp add: contents_def delete_rows_def filter_map comp_def case_prod_unfold)

lemma contents_select [tables]:
  "map snd (select_rows (\<lambda>_. P) t) = filter P (contents t)"
  by (simp add: contents_def select_rows_def filter_map comp_def case_prod_unfold)

lemma contents_upsert [tables]:
  "contents (upsert_row key new f t) = upsert key new f (contents t)"
proof -
  have "(\<exists>p \<in> set (rows t). key (snd p) = key new) \<longleftrightarrow> (\<exists>r \<in> set (contents t). key r = key new)"
    by (simp add: contents_def)
  then show ?thesis by (simp add: upsert_row_def upsert_def tables)
qed

lemma auto_ok_empty [simp]: "auto_ok empty_table"
  by (simp add: auto_ok_def empty_table_def)

lemma auto_ok_insert [intro]: "auto_ok t \<Longrightarrow> auto_ok (fst (insert_row r t))"
  by (fastforce simp: auto_ok_def insert_row_def Let_def)

lemma insert_row_fresh: "auto_ok t \<Longrightarrow> snd (insert_row r t) \<notin> fst ` set (rows t)"
  by (fastforce simp: auto_ok_def insert_row_def Let_def)

lemma map_fst_update: "map fst (rows (update_rows P f t)) = map fst (rows t)"
  by (simp add: update_rows_def comp_def case_prod_beta)

lemma auto_ok_update [intro]: "auto_ok t \<Longrightarrow> auto_ok (update_rows P f t)"
proof -
  assume ok: "auto_ok t"
  have "fst ` set (rows (update_rows P f t)) = fst ` set (rows t)"
    using map_fst_update [of P f t] by (metis set_map)
  moreover have "seq (update_rows P f t) = seq t" by (simp add: update_rows_def)
  ultimately show ?thesis
    using ok unfolding auto_ok_def map_fst_update by (metis (no_types, lifting) imageE imageI)
qed

lemma auto_ok_delete [intro]: "auto_ok t \<Longrightarrow> auto_ok (delete_rows P t)"
  by (auto simp: auto_ok_def delete_rows_def distinct_map inj_on_def)

lemma auto_ok_upsert [intro]: "auto_ok t \<Longrightarrow> auto_ok (upsert_row key new f t)"
  by (auto simp: upsert_row_def)

text \<open>An upsert keeps the key unique and touches no other key.\<close>
definition keys_unique :: "('r \<Rightarrow> 'k) \<Rightarrow> 'r list \<Rightarrow> bool" where
  "keys_unique key t = distinct (map key t)"

lemma map_key_upsert:
  assumes "\<And>r. key (f r) = key r"
  shows "map key (upsert key new f t) =
    (if key new \<in> key ` set t then map key t else map key t @ [key new])"
proof -
  have "map (key \<circ> (\<lambda>r. if key r = key new then f r else r)) t = map key t"
    by (rule map_cong) (auto simp: assms)
  moreover have "(\<exists>r \<in> set t. key r = key new) \<longleftrightarrow> key new \<in> key ` set t"
    by (metis imageE imageI)
  ultimately show ?thesis by (simp add: upsert_def)
qed

lemma keys_unique_upsert:
  "keys_unique key t \<Longrightarrow> (\<And>r. key (f r) = key r) \<Longrightarrow> keys_unique key (upsert key new f t)"
  by (simp add: keys_unique_def map_key_upsert)

lemma find_row_Some: "find_row key k t = Some r \<Longrightarrow> r \<in> set t \<and> key r = k"
  by (auto simp: find_row_def find_Some_iff)

lemma find_row_None: "find_row key k t = None \<longleftrightarrow> k \<notin> key ` set t"
  by (auto simp: find_row_def find_None_iff)

lemma find_row_append: "find_row key k (xs @ ys) =
    (case find_row key k xs of None \<Rightarrow> find_row key k ys | Some r \<Rightarrow> Some r)"
  unfolding find_row_def by (induction xs) auto

lemma find_row_map_other:
  "(\<And>r. key (f r) = key r) \<Longrightarrow> k \<noteq> k' \<Longrightarrow>
   find_row key k' (map (\<lambda>r. if key r = k then f r else r) t) = find_row key k' t"
  unfolding find_row_def by (induction t) auto

lemma find_row_map_same:
  "(\<And>r. key (f r) = key r) \<Longrightarrow>
   find_row key k (map (\<lambda>r. if key r = k then f r else r) t) = map_option f (find_row key k t)"
  unfolding find_row_def by (induction t) auto

lemma find_row_upsert_other:
  "(\<And>r. key (f r) = key r) \<Longrightarrow> k \<noteq> key new \<Longrightarrow>
   find_row key k (upsert key new f t) = find_row key k t"
  unfolding upsert_def
  by (auto simp: find_row_append find_row_map_other split: option.splits)
    (auto simp: find_row_def)

lemma find_row_upsert_same:
  assumes "\<And>r. key (f r) = key r"
  shows "find_row key (key new) (upsert key new f t) =
    Some (case find_row key (key new) t of None \<Rightarrow> new | Some r \<Rightarrow> f r)"
proof (cases "find_row key (key new) t")
  case None
  then have "\<not> (\<exists>r \<in> set t. key r = key new)" by (metis find_row_None imageI)
  with None show ?thesis by (simp add: upsert_def find_row_append) (simp add: find_row_def)
next
  case (Some r)
  then have "\<exists>r \<in> set t. key r = key new" by (auto dest: find_row_Some)
  with Some show ?thesis by (simp add: upsert_def find_row_map_same assms)
qed

section \<open>The contract of a key-value store\<close>

text \<open>What the clients of the settings table rely on: a read returns the last value written
  under that key, and a write to one key is invisible under every other.\<close>
locale key_value_store =
  fixes get :: "'k \<Rightarrow> 's \<Rightarrow> 'v option"
    and put :: "'k \<Rightarrow> 'v \<Rightarrow> 's \<Rightarrow> 's"
    and del :: "'k \<Rightarrow> 's \<Rightarrow> 's"
  assumes get_put_same: "get k (put k v s) = Some v"
    and get_put_other: "k' \<noteq> k \<Longrightarrow> get k' (put k v s) = get k' s"
    and get_del_same: "get k (del k s) = None"
    and get_del_other: "k' \<noteq> k \<Longrightarrow> get k' (del k s) = get k' s"
begin

lemmas laws = get_put_same get_put_other get_del_same get_del_other

lemma get_put: "get k' (put k v s) = (if k' = k then Some v else get k' s)"
  by (simp add: laws)

lemma get_del: "get k' (del k s) = (if k' = k then None else get k' s)"
  by (simp add: laws)

text \<open>A batch of writes: the last value of each key wins, other keys keep theirs.\<close>
lemma get_puts:
  "get k (fold (\<lambda>(k, v). put k v) kvs s) =
     (case map_of (rev kvs) k of None \<Rightarrow> get k s | Some v \<Rightarrow> Some v)"
proof (induction kvs arbitrary: s)
  case (Cons kv kvs)
  obtain k1 v1 where "kv = (k1, v1)" by force
  then show ?case
    by (simp add: Cons.IH get_put map_add_def split: option.splits)
qed simp

lemma get_dels: "get k (fold del ks s) = (if k \<in> set ks then None else get k s)"
  by (induction ks arbitrary: s) (auto simp: get_del)

end

lemma find_row_filter_other: "k \<noteq> k' \<Longrightarrow>
   find_row key k' (filter (\<lambda>r. key r \<noteq> k) t) = find_row key k' t"
  unfolding find_row_def by (induction t) auto

interpretation settings_kv: key_value_store get_setting "set_setting now" delete_setting for now
proof
  fix k v s
  show "get_setting k (set_setting now k v s) = Some v"
    using find_row_upsert_same [of set_key "\<lambda>r. r\<lparr>set_value := v, set_updated_at := now\<rparr>"
        "\<lparr>set_key = k, set_value = v, set_updated_at = now\<rparr>" "settings s"]
    by (auto simp: get_setting_def set_setting_def split: option.splits)
next
  fix k k' :: string and v s
  assume "k' \<noteq> k"
  then show "get_setting k' (set_setting now k v s) = get_setting k' s"
    by (simp add: get_setting_def set_setting_def find_row_upsert_other)
next
  fix k s
  show "get_setting k (delete_setting k s) = None"
    by (auto simp: get_setting_def delete_setting_def find_row_None)
next
  fix k k' :: string and s
  assume "k' \<noteq> k"
  then show "get_setting k' (delete_setting k s) = get_setting k' s"
    by (simp add: get_setting_def delete_setting_def find_row_filter_other)
qed

lemma get_setting_simps [simp]:
  "get_setting k' (set_setting now k v s) = (if k' = k then Some v else get_setting k' s)"
  "get_setting k' (delete_setting k s) = (if k' = k then None else get_setting k' s)"
  by (simp_all add: settings_kv.get_put settings_kv.get_del)

text \<open>Writing a setting leaves every other table alone.\<close>
lemma set_setting_tables [simp]:
  "decisions (set_setting now k v s) = decisions s"
  "alerts (set_setting now k v s) = alerts s"
  "sync_events (set_setting now k v s) = sync_events s"
  "mt_pushes (set_setting now k v s) = mt_pushes s"
  "geo_cache (set_setting now k v s) = geo_cache s"
  "sources (set_setting now k v s) = sources s"
  "ip_sources (set_setting now k v s) = ip_sources s"
  "whitelist (set_setting now k v s) = whitelist s"
  "whitelist_hits (set_setting now k v s) = whitelist_hits s"
  "approval_queue (set_setting now k v s) = approval_queue s"
  "bouncer_targets (set_setting now k v s) = bouncer_targets s"
  by (simp_all add: set_setting_def)

end
