(* ===== verification/Ratelimit.thy ===== *)
theory Ratelimit
  imports Store Complex_Main
begin

text \<open>
  Token-bucket backpressure (\<open>ratelimit.py\<close>): the bucket class, the registry of buckets created
  on first use, and the per-bucket tunings read from the settings table. Python floats are exact
  rationals here; \<open>time.monotonic()\<close> is the argument \<open>now\<close> of every operation. The locks make each
  operation atomic, so an execution is a sequence of operations. The reporting functions
  \<open>status\<close> and \<open>all_status\<close>, which only format these fields, are left out.
\<close>

section \<open>The bucket\<close>

definition PENALTY_WINDOW_S :: rat where "PENALTY_WINDOW_S = 300"
definition PENALTY_DIVISOR :: rat where "PENALTY_DIVISOR = 2"

record token_bucket =
  b_name :: string
  b_capacity :: int
  b_tokens :: rat
  b_refill_per_s :: rat
  b_last :: rat
  b_penalty_until :: rat
  b_consumed_log :: "rat list"
  b_denied_log :: "rat list"

text \<open>\<open>deque(maxlen=n).append(x)\<close>.\<close>
definition deque_append :: "nat \<Rightarrow> 'a \<Rightarrow> 'a list \<Rightarrow> 'a list" where
  "deque_append n x xs = (let ys = xs @ [x] in drop (length ys - n) ys)"

definition new_bucket :: "rat \<Rightarrow> string \<Rightarrow> int \<Rightarrow> int \<Rightarrow> token_bucket" where
  "new_bucket now name tokens_per_min capacity =
     \<lparr>b_name = name, b_capacity = max 1 capacity, b_tokens = of_int (max 1 capacity),
      b_refill_per_s = max (1 / 1000) (of_int tokens_per_min / 60), b_last = now,
      b_penalty_until = 0, b_consumed_log = [], b_denied_log = []\<rparr>"

definition refill_rate_now :: "rat \<Rightarrow> token_bucket \<Rightarrow> rat" where
  "refill_rate_now now b =
     (if now < b_penalty_until b then b_refill_per_s b / PENALTY_DIVISOR else b_refill_per_s b)"

definition bucket_acquire :: "rat \<Rightarrow> int \<Rightarrow> token_bucket \<Rightarrow> token_bucket \<times> bool" where
  "bucket_acquire now tokens b =
     (let elapsed = max 0 (now - b_last b);
          b = b\<lparr>b_tokens := min (of_int (b_capacity b)) (b_tokens b + elapsed * refill_rate_now now b),
                b_last := now\<rparr>
      in if of_int tokens \<le> b_tokens b
         then (b\<lparr>b_tokens := b_tokens b - of_int tokens,
                 b_consumed_log := deque_append 2000 now (b_consumed_log b)\<rparr>, True)
         else (b\<lparr>b_denied_log := deque_append 200 now (b_denied_log b)\<rparr>, False))"

definition bucket_record_429 :: "rat \<Rightarrow> token_bucket \<Rightarrow> token_bucket" where
  "bucket_record_429 now b = b\<lparr>b_penalty_until := now + PENALTY_WINDOW_S, b_tokens := 0\<rparr>"

section \<open>The registry\<close>

type_synonym registry = "(string \<times> token_bucket) list"

definition DEFAULTS :: "(string \<times> int \<times> int) list" where
  "DEFAULTS =
    [(''DEFAULT'', 600, 120),
     (''lapi'', 600, 60),
     (''bouncer.mikrotik_env'', 1200, 200),
     (''bouncer.mikrotik'', 1200, 200),
     (''bouncer.iptables_ipset'', 6000, 500),
     (''bouncer.cloudflare'', 200, 50),
     (''bouncer.pfsense'', 300, 60),
     (''bouncer.opnsense'', 300, 60),
     (''webhook'', 60, 20),
     (''intel.abuseipdb'', 40, 10),
     (''intel.proxycheck'', 40, 10),
     (''intel.otx'', 300, 60),
     (''intel.cti'', 2, 2)]"

text \<open>\<open>DEFAULTS.get(name) or DEFAULTS["DEFAULT"]\<close>.\<close>
definition defaults_for :: "string \<Rightarrow> int \<times> int" where
  "defaults_for name = (case map_of DEFAULTS name of Some rc \<Rightarrow> rc | None \<Rightarrow> (600, 120))"

definition settings_for :: "store \<Rightarrow> string \<Rightarrow> int \<times> int" where
  "settings_for db name =
     (let rate = get_setting (''ratelimit.'' @ name @ ''.tokens_per_min'') db;
          cap = get_setting (''ratelimit.'' @ name @ ''.capacity'') db;
          base = defaults_for name;
          r = (if str_truthy rate then py_int (the rate) else Some (fst base));
          c = (if str_truthy cap then py_int (the cap) else Some (snd base))
      in case (r, c) of (Some r, Some c) \<Rightarrow> (r, c) | _ \<Rightarrow> base)"

definition get_bucket :: "store \<Rightarrow> rat \<Rightarrow> string \<Rightarrow> registry \<Rightarrow> registry \<times> token_bucket" where
  "get_bucket db now name reg =
     (case map_of reg name of
        Some b \<Rightarrow> (reg, b)
      | None \<Rightarrow> let (r, c) = settings_for db name; b = new_bucket now name r c
                in (AList.update name b reg, b))"

definition acquire :: "store \<Rightarrow> rat \<Rightarrow> string \<Rightarrow> int \<Rightarrow> registry \<Rightarrow> registry \<times> bool" where
  "acquire db now name tokens reg =
     (let (reg, b) = get_bucket db now name reg; (b, ok) = bucket_acquire now tokens b
      in (AList.update name b reg, ok))"

definition record_429 :: "store \<Rightarrow> rat \<Rightarrow> string \<Rightarrow> registry \<Rightarrow> registry" where
  "record_429 db now name reg =
     (let (reg, b) = get_bucket db now name reg in AList.update name (bucket_record_429 now b) reg)"

text \<open>\<open>webhook_bucket_for(url)\<close>; \<open>host\<close> is the host name found in the URL, if any. An override that is
  not an integer stops the reading of the two overrides where it stands.\<close>
definition webhook_bucket_for :: "store \<Rightarrow> rat \<Rightarrow> string option \<Rightarrow> registry \<Rightarrow> registry \<times> token_bucket" where
  "webhook_bucket_for db now host reg =
     (let name = ''webhook.'' @ str_or host ''unknown''
      in if name \<in> set (map fst reg) then get_bucket db now name reg
         else let (r, c) = defaults_for ''webhook'';
                  override_r = get_setting (''ratelimit.'' @ name @ ''.tokens_per_min'') db;
                  override_c = get_setting (''ratelimit.'' @ name @ ''.capacity'') db;
                  ri = (if str_truthy override_r then py_int (the override_r) else Some r);
                  (r, c) = (case ri of
                       None \<Rightarrow> (r, c)
                     | Some r \<Rightarrow> (r, if str_truthy override_c
                                     then (case py_int (the override_c) of None \<Rightarrow> c | Some c \<Rightarrow> c)
                                     else c))
              in get_bucket db now name (AList.update name (new_bucket now name r c) reg))"

section \<open>The bucket invariant\<close>

definition bucket_ok :: "token_bucket \<Rightarrow> bool" where
  "bucket_ok b = (1 \<le> b_capacity b \<and> 0 \<le> b_tokens b \<and> b_tokens b \<le> of_int (b_capacity b)
     \<and> 0 < b_refill_per_s b \<and> length (b_consumed_log b) \<le> 2000 \<and> length (b_denied_log b) \<le> 200)"

lemma length_deque_append [simp]: "length (deque_append n x xs) = min n (Suc (length xs))"
  by (simp add: deque_append_def Let_def)

lemma bucket_ok_new [simp]: "bucket_ok (new_bucket now name r c)"
  by (auto simp: bucket_ok_def new_bucket_def less_max_iff_disj)

lemma refill_rate_bounds:
  assumes "0 < b_refill_per_s b"
  shows "0 < refill_rate_now now b" "refill_rate_now now b \<le> b_refill_per_s b"
  using assms by (auto simp: refill_rate_now_def PENALTY_DIVISOR_def)

lemma bucket_ok_acquire: "bucket_ok b \<Longrightarrow> 0 \<le> n \<Longrightarrow> bucket_ok (fst (bucket_acquire now n b))"
  using refill_rate_bounds(1) [of b now]
  by (auto simp: bucket_ok_def bucket_acquire_def Let_def min_def max_def not_le not_less
      intro: add_nonneg_nonneg mult_nonneg_nonneg less_imp_le)

lemma bucket_ok_429: "bucket_ok b \<Longrightarrow> bucket_ok (bucket_record_429 now b)"
  by (auto simp: bucket_ok_def bucket_record_429_def intro: order_trans)

section \<open>The registry invariant\<close>

definition registry_ok :: "registry \<Rightarrow> bool" where
  "registry_ok reg = (\<forall>b \<in> ran (map_of reg). bucket_ok b)"

lemma registry_ok_update: "registry_ok reg \<Longrightarrow> bucket_ok b \<Longrightarrow> registry_ok (AList.update k b reg)"
  unfolding registry_ok_def update_conv' by (auto simp: ran_def split: if_splits)

lemma get_bucket_ok:
  assumes "registry_ok reg"
  shows "registry_ok (fst (get_bucket db now name reg))" "bucket_ok (snd (get_bucket db now name reg))"
  using assms
  by (auto simp: get_bucket_def case_prod_beta Let_def registry_ok_update split: option.splits)
    (auto simp: registry_ok_def ran_def)

lemma registry_ok_acquire: "registry_ok reg \<Longrightarrow> 0 \<le> n \<Longrightarrow> registry_ok (fst (acquire db now name n reg))"
  by (simp add: acquire_def case_prod_beta Let_def registry_ok_update get_bucket_ok bucket_ok_acquire)

lemma registry_ok_429: "registry_ok reg \<Longrightarrow> registry_ok (record_429 db now name reg)"
  by (simp add: record_429_def case_prod_beta Let_def registry_ok_update get_bucket_ok bucket_ok_429)

lemma get_bucket_frame: "k \<noteq> name \<Longrightarrow> map_of (fst (get_bucket db now name reg)) k = map_of reg k"
  by (auto simp: get_bucket_def case_prod_beta Let_def update_conv' split: option.splits)

lemma acquire_lookup:
  "map_of (fst (acquire db now name n reg)) k =
     (if k = name then Some (fst (bucket_acquire now n (snd (get_bucket db now name reg))))
      else map_of reg k)"
  by (simp add: acquire_def case_prod_beta Let_def update_conv' get_bucket_frame)

lemma acquire_result:
  "snd (acquire db now name n reg) = snd (bucket_acquire now n (snd (get_bucket db now name reg)))"
  by (simp add: acquire_def case_prod_beta Let_def)

lemma record_429_lookup:
  "map_of (record_429 db now name reg) k =
     (if k = name then Some (bucket_record_429 now (snd (get_bucket db now name reg)))
      else map_of reg k)"
  by (simp add: record_429_def case_prod_beta Let_def update_conv' get_bucket_frame)

section \<open>How much a bucket can grant\<close>

text \<open>The calls a process makes on the registry.\<close>
datatype call = Acquire string int | Got429 string

fun run_call :: "store \<Rightarrow> rat \<times> call \<Rightarrow> registry \<Rightarrow> registry \<times> bool" where
  "run_call db (now, Acquire name n) reg = acquire db now name n reg"
| "run_call db (now, Got429 name) reg = (record_429 db now name reg, False)"

text \<open>The tokens granted from one bucket over a run of calls.\<close>
fun granted :: "store \<Rightarrow> string \<Rightarrow> registry \<Rightarrow> (rat \<times> call) list \<Rightarrow> rat" where
  "granted db name reg [] = 0"
| "granted db name reg (c # cs) =
     (let (reg', ok) = run_call db c reg
      in (case snd c of Acquire k n \<Rightarrow> if ok \<and> k = name then of_int n else 0 | Got429 _ \<Rightarrow> 0)
         + granted db name reg' cs)"

definition call_ok :: "call \<Rightarrow> bool" where
  "call_ok c = (case c of Acquire _ n \<Rightarrow> 0 \<le> n | Got429 _ \<Rightarrow> True)"

text \<open>The calls happen in time order within an interval.\<close>
definition timed :: "rat \<Rightarrow> rat \<Rightarrow> (rat \<times> call) list \<Rightarrow> bool" where
  "timed t0 t1 cs = (sorted (map fst cs) \<and> (\<forall>c \<in> set cs. t0 \<le> fst c \<and> fst c \<le> t1 \<and> call_ok (snd c)))"

lemma bucket_acquire_potential:
  assumes "bucket_ok b" "b_last b \<le> now" "0 \<le> n"
  defines "b' \<equiv> fst (bucket_acquire now n b)"
  shows "b_tokens b' + (if snd (bucket_acquire now n b) then of_int n else 0)
           \<le> b_tokens b + b_refill_per_s b * (now - b_last b)"
    and "b_last b' = now" and "b_refill_per_s b' = b_refill_per_s b"
proof -
  have "(now - b_last b) * refill_rate_now now b \<le> b_refill_per_s b * (now - b_last b)"
    using refill_rate_bounds(2) [of b now] assms(1,2)
    by (subst mult.commute) (auto simp: bucket_ok_def intro: mult_right_mono)
  then show "b_tokens b' + (if snd (bucket_acquire now n b) then of_int n else 0)
           \<le> b_tokens b + b_refill_per_s b * (now - b_last b)"
    using assms(2) by (auto simp: b'_def bucket_acquire_def Let_def max_def)
qed (auto simp: b'_def bucket_acquire_def Let_def)

lemma get_bucket_known: "map_of reg name = Some b \<Longrightarrow> get_bucket db now name reg = (reg, b)"
  by (simp add: get_bucket_def)

lemma granted_known:
  assumes "map_of reg name = Some b" "bucket_ok b" "timed (b_last b) t1 cs" "b_last b \<le> t1"
  shows "granted db name reg cs \<le> b_tokens b + b_refill_per_s b * (t1 - b_last b)"
  using assms
proof (induction cs arbitrary: reg b)
  case Nil
  then show ?case by (simp add: bucket_ok_def)
next
  case (Cons c cs)
  obtain now op where c: "c = (now, op)" by force
  have time: "b_last b \<le> now" "now \<le> t1" "call_ok op" "timed now t1 cs" "timed (b_last b) t1 cs"
    using Cons.prems(3) by (auto simp: c timed_def)
  show ?case
  proof (cases op)
    case (Acquire k n)
    show ?thesis
    proof (cases "k = name")
      case True
      let ?b' = "fst (bucket_acquire now n b)"
      have n: "0 \<le> n" using time(3) Acquire by (simp add: call_ok_def)
      note pot = bucket_acquire_potential [OF Cons.prems(2) time(1) n]
      have step: "map_of (fst (acquire db now name n reg)) name = Some ?b'"
        using Cons.prems(1) by (simp add: acquire_lookup get_bucket_known)
      have "granted db name (fst (acquire db now name n reg)) cs
              \<le> b_tokens ?b' + b_refill_per_s b * (t1 - now)"
        using Cons.IH [OF step bucket_ok_acquire [OF Cons.prems(2) n]] time(2,4) pot(2,3) by simp
      moreover have "snd (acquire db now name n reg) = snd (bucket_acquire now n b)"
        using Cons.prems(1) by (simp add: acquire_result get_bucket_known)
      moreover have "b_refill_per_s b * (t1 - b_last b)
          = b_refill_per_s b * (now - b_last b) + b_refill_per_s b * (t1 - now)"
        by (simp add: algebra_simps)
      ultimately show ?thesis
        using pot(1) True Acquire by (auto simp: c case_prod_beta Let_def)
    next
      case False
      then have "map_of (fst (acquire db now k n reg)) name = Some b"
        using Cons.prems(1) by (simp add: acquire_lookup)
      then show ?thesis
        using Cons.IH [OF _ Cons.prems(2) time(5) Cons.prems(4)] False Acquire
        by (simp add: c case_prod_beta Let_def)
    qed
  next
    case (Got429 k)
    let ?b' = "if k = name then bucket_record_429 now b else b"
    have "map_of (record_429 db now k reg) name = Some ?b'"
      using Cons.prems(1) by (auto simp: record_429_lookup get_bucket_known)
    moreover have "bucket_ok ?b'" "b_last ?b' = b_last b" "b_refill_per_s ?b' = b_refill_per_s b"
        "b_tokens ?b' \<le> b_tokens b"
      using Cons.prems(2) by (auto simp: bucket_ok_429) (auto simp: bucket_record_429_def bucket_ok_def)
    ultimately show ?thesis
      using Cons.IH [of "record_429 db now k reg" ?b'] time(5) Cons.prems(4) Got429
      by (auto simp: c case_prod_beta Let_def)
  qed
qed

lemma granted_unknown_step:
  "map_of reg name = None \<Longrightarrow> snd c = op \<Longrightarrow> (case op of Acquire k _ \<Rightarrow> k | Got429 k \<Rightarrow> k) \<noteq> name \<Longrightarrow>
   map_of (fst (run_call db c reg)) name = None"
  by (cases c; cases op) (auto simp: acquire_lookup record_429_lookup)



end
