(* ===== verification/Crowdsec.thy ===== *)
theory Crowdsec
  imports Ratelimit
begin

text \<open>
  The CrowdSec LAPI clients (\<open>crowdsec.py\<close>): the bouncer-key client, whose calls pass through the
  \<open>lapi\<close> token bucket, and the machine client with its cached login token. The HTTP library is a
  parameter: a function from the request to its outcome, either the text of a
  \<open>requests.RequestException\<close> or a response. A response body is JSON of the shape the LAPI documents
  for that endpoint, so the body type is a type parameter. Headers and time-outs are part of the
  library call and not observed. Message texts spell non-ASCII punctuation in ASCII.
\<close>

section \<open>HTTP\<close>

record 'b response =
  status_code :: nat
  r_text :: string
  r_content :: bool
  r_json :: "string + 'b"

type_synonym params = "(string \<times> string) list"
type_synonym 'b http = "string \<Rightarrow> params \<Rightarrow> string + 'b response"

definition py_rstrip_char :: "char \<Rightarrow> string \<Rightarrow> string" where
  "py_rstrip_char c s = rev (dropWhile (\<lambda>x. x = c) (rev s))"

section \<open>Bodies\<close>

text \<open>One decision object of the LAPI; a missing key and \<open>null\<close> are both \<open>None\<close>.\<close>
record lapi_decision =
  ld_id :: "int option"
  ld_value :: "string option"
  ld_scope :: "string option"
  ld_type :: "string option"
  ld_scenario :: "string option"
  ld_origin :: "string option"
  ld_duration :: "string option"
  ld_until :: "string option"

record lapi_delta =
  delta_new :: "lapi_decision list"
  delta_deleted :: "lapi_decision list"

record lapi_alert =
  la_id :: "int option"
  la_machine_id :: "string option"
  la_scenario :: "string option"
  la_ip :: "string option"
  la_value :: "string option"
  la_as_number :: "string option"
  la_asn :: "string option"
  la_cn :: "string option"
  la_country :: "string option"
  la_events_count :: "int option"
  la_created_at :: "string option"
  la_dump :: string

section \<open>The bouncer-key client\<close>

record lapi_client =
  lc_url :: string
  lc_api_key :: string
  lc_name :: string

text \<open>\<open>LAPIClient._get\<close>; \<open>None\<close> is an empty body. The bucket registry is threaded through.\<close>
definition lapi_get :: "store \<Rightarrow> rat \<Rightarrow> 'b http \<Rightarrow> lapi_client \<Rightarrow> string \<Rightarrow> params \<Rightarrow> registry
    \<Rightarrow> registry \<times> (exn + 'b option)" where
  "lapi_get db now http c path params reg =
     (let url = py_rstrip_char (CHR ''/'') (lc_url c) @ path;
          (reg, ok) = acquire db now ''lapi'' 1 reg
      in if \<not> ok then (reg, Inl (LAPIError (lc_name c @ '': backpressure - lapi bucket exhausted'')))
         else case http url params of
           Inl e \<Rightarrow> (reg, Inl (LAPIError (lc_name c @ '': GET '' @ path @ '' network error: '' @ e)))
         | Inr r \<Rightarrow>
             if status_code r = 429
             then (record_429 db now ''lapi'' reg, Inl (LAPIError (lc_name c @ '': 429 rate limited'')))
             else if status_code r = 401
             then (reg, Inl (LAPIError (lc_name c @ '': 401 Unauthorized - bad bouncer key'')))
             else if status_code r = 403
             then (reg, Inl (LAPIError (lc_name c @ '': 403 Forbidden'')))
             else if status_code r \<ge> 400
             then (reg, Inl (LAPIError (lc_name c @ '': GET '' @ path @ '' -> HTTP ''
                     @ py_str_nat (status_code r) @ '': '' @ take 200 (r_text r))))
             else if \<not> r_content r then (reg, Inr None)
             else case r_json r of
                    Inl e \<Rightarrow> (reg, Inl (LAPIError (lc_name c @ '': invalid JSON from '' @ path @ '': '' @ e)))
                  | Inr b \<Rightarrow> (reg, Inr (Some b)))"

record lapi_health =
  lh_ok :: bool
  lh_sample_size :: nat
  lh_error :: string

definition client_health :: "store \<Rightarrow> rat \<Rightarrow> lapi_decision list http \<Rightarrow> lapi_client \<Rightarrow> registry
    \<Rightarrow> registry \<times> lapi_health" where
  "client_health db now http c reg =
     (case lapi_get db now http c ''/v1/decisions'' [(''limit'', ''1'')] reg of
        (reg, Inr data) \<Rightarrow> (reg, \<lparr>lh_ok = True,
             lh_sample_size = (case data of None \<Rightarrow> 0 | Some ds \<Rightarrow> length ds), lh_error = []\<rparr>)
      | (reg, Inl e) \<Rightarrow> (reg, \<lparr>lh_ok = False, lh_sample_size = 0, lh_error = exn_str e\<rparr>))"

definition client_decisions :: "store \<Rightarrow> rat \<Rightarrow> lapi_decision list http \<Rightarrow> lapi_client \<Rightarrow> string \<Rightarrow> registry
    \<Rightarrow> registry \<times> (exn + lapi_decision list)" where
  "client_decisions db now http c scope reg =
     (case lapi_get db now http c ''/v1/decisions'' [(''scope'', scope), (''type'', ''ban'')] reg of
        (reg, Inr data) \<Rightarrow> (reg, Inr (case data of None \<Rightarrow> [] | Some ds \<Rightarrow> ds))
      | (reg, Inl e) \<Rightarrow> (reg, Inl e))"

definition client_decisions_stream :: "store \<Rightarrow> rat \<Rightarrow> lapi_delta http \<Rightarrow> lapi_client \<Rightarrow> bool \<Rightarrow> registry
    \<Rightarrow> registry \<times> (exn + lapi_delta)" where
  "client_decisions_stream db now http c startup reg =
     (let params = (''scopes'', ''Ip,Range'') # (if startup then [(''startup'', ''true'')] else [])
      in case lapi_get db now http c ''/v1/decisions/stream'' params reg of
           (reg, Inr data) \<Rightarrow> (reg, Inr (case data of
               None \<Rightarrow> \<lparr>delta_new = [], delta_deleted = []\<rparr> | Some d \<Rightarrow> d))
         | (reg, Inl e) \<Rightarrow> (reg, Inl e))"

section \<open>The machine client\<close>

record machine_client =
  mc_url :: string
  mc_machine_id :: string
  mc_password :: string
  mc_token :: "string option"

definition new_machine_client :: "string \<Rightarrow> string \<Rightarrow> string \<Rightarrow> machine_client" where
  "new_machine_client url machine_id password =
     \<lparr>mc_url = py_rstrip_char (CHR ''/'') url, mc_machine_id = machine_id, mc_password = password,
      mc_token = None\<rparr>"

text \<open>\<open>_login\<close>; the login endpoint answers with an optional token.\<close>
definition machine_login :: "string option http \<Rightarrow> machine_client \<Rightarrow> exn + machine_client" where
  "machine_login post m =
     (case post (mc_url m @ ''/v1/watchers/login'')
             [(''machine_id'', mc_machine_id m), (''password'', mc_password m)] of
        Inl e \<Rightarrow> Inl (LAPIError (''machine login network error: '' @ e))
      | Inr r \<Rightarrow>
          if status_code r \<noteq> 200
          then Inl (LAPIError (''machine login HTTP '' @ py_str_nat (status_code r) @ '': '' @ take 200 (r_text r)))
          else case r_json r of
                 Inl e \<Rightarrow> Inl (LAPIError (''machine login invalid JSON: '' @ e))
               | Inr tok \<Rightarrow> if str_truthy tok then Inr (m\<lparr>mc_token := tok\<rparr>)
                            else Inl (LAPIError ''machine login: no token in response''))"

text \<open>One \<open>_get\<close> with a given token, and the retry after a 401. The GET endpoint sees the token.\<close>
definition machine_get_once :: "(string \<Rightarrow> 'b http) \<Rightarrow> machine_client \<Rightarrow> string \<Rightarrow> params
    \<Rightarrow> exn + 'b response" where
  "machine_get_once get m path params =
     (case get (the (mc_token m)) (mc_url m @ path) params of
        Inl e \<Rightarrow> Inl (LAPIError (''machine GET '' @ path @ '' network error: '' @ e))
      | Inr r \<Rightarrow> Inr r)"

definition machine_result :: "string \<Rightarrow> 'b response \<Rightarrow> exn + 'b option" where
  "machine_result path r =
     (if status_code r \<ge> 400
      then Inl (LAPIError (''machine GET '' @ path @ '' -> HTTP '' @ py_str_nat (status_code r)
                            @ '': '' @ take 200 (r_text r)))
      else if \<not> r_content r then Inr None
      else case r_json r of
             Inl e \<Rightarrow> Inl (LAPIError (''machine GET '' @ path @ '' invalid JSON: '' @ e))
           | Inr b \<Rightarrow> Inr (Some b))"

function machine_get :: "string option http \<Rightarrow> (string \<Rightarrow> 'b http) \<Rightarrow> bool \<Rightarrow> machine_client \<Rightarrow> string \<Rightarrow> params
    \<Rightarrow> machine_client \<times> (exn + 'b option)" where
  "machine_get post get retry m path params =
     (case (if str_truthy (mc_token m) then Inr m else machine_login post m) of
        Inl e \<Rightarrow> (m, Inl e)
      | Inr m \<Rightarrow>
          case machine_get_once get m path params of
            Inl e \<Rightarrow> (m, Inl e)
          | Inr r \<Rightarrow>
              if status_code r = 401 \<and> retry
              then machine_get post get False (m\<lparr>mc_token := None\<rparr>) path params
              else (m, machine_result path r))"
  by auto
termination
  by (relation "measure (\<lambda>(_, _, retry, _). if retry then 1 else 0)") auto

declare machine_get.simps [simp del]

definition machine_alerts :: "string option http \<Rightarrow> (string \<Rightarrow> lapi_alert list http) \<Rightarrow> machine_client
    \<Rightarrow> string option \<Rightarrow> nat \<Rightarrow> machine_client \<times> (exn + lapi_alert list)" where
  "machine_alerts post get m since limit =
     (let params = (''limit'', py_str_nat limit)
            # (if str_truthy since then [(''since'', the since)] else [])
      in case machine_get post get True m ''/v1/alerts'' params of
           (m, Inr data) \<Rightarrow> (m, Inr (case data of None \<Rightarrow> [] | Some as \<Rightarrow> as))
         | (m, Inl e) \<Rightarrow> (m, Inl e))"

section \<open>Properties of the clients\<close>

lemma lapi_get_error: "lapi_get db now http c path params reg = (reg', Inl e) \<Longrightarrow> \<exists>s. e = LAPIError s"
  by (auto simp: lapi_get_def Let_def case_prod_beta split: if_splits sum.splits)

lemma lapi_get_registry_ok:
  "registry_ok reg \<Longrightarrow> registry_ok (fst (lapi_get db now http c path params reg))"
  by (auto simp: lapi_get_def Let_def case_prod_beta registry_ok_acquire registry_ok_429
      split: if_splits sum.splits)

lemma client_decisions_error:
  "client_decisions db now http c scope reg = (reg', Inl e) \<Longrightarrow> \<exists>s. e = LAPIError s"
  by (auto simp: client_decisions_def split: prod.splits sum.splits dest: lapi_get_error)

lemma client_stream_error:
  "client_decisions_stream db now http c st reg = (reg', Inl e) \<Longrightarrow> \<exists>s. e = LAPIError s"
  by (auto simp: client_decisions_stream_def Let_def split: prod.splits sum.splits dest: lapi_get_error)

text \<open>The outcome of a LAPI call on every branch: it succeeds exactly when the bucket grants a
  token and the server answers below 400 with an empty or a well-formed body; every failure is a
  \<open>LAPIError\<close>; and a 429 answer leaves the bucket drained and under penalty for five minutes.\<close>
theorem lapi_get_outcome:
  assumes "lapi_get db now http c path params reg = (reg', out)"
    and "url = py_rstrip_char (CHR ''/'') (lc_url c) @ path"
  shows "((\<exists>data. out = Inr data) \<longleftrightarrow>
        snd (acquire db now ''lapi'' 1 reg) \<and>
        (\<exists>r. http url params = Inr r \<and> status_code r < 400 \<and> (\<not> r_content r \<or> (\<exists>b. r_json r = Inr b))))
    \<and> (\<forall>e. out = Inl e \<longrightarrow> (\<exists>s. e = LAPIError s))
    \<and> (\<forall>r. snd (acquire db now ''lapi'' 1 reg) \<and> http url params = Inr r \<and> status_code r = 429 \<longrightarrow>
        (\<exists>b. map_of reg' ''lapi'' = Some b \<and> b_tokens b = 0 \<and> b_penalty_until b = now + 300))"
proof (intro conjI allI impI)
  show "(\<exists>data. out = Inr data) \<longleftrightarrow>
      snd (acquire db now ''lapi'' 1 reg) \<and>
      (\<exists>r. http url params = Inr r \<and> status_code r < 400 \<and> (\<not> r_content r \<or> (\<exists>b. r_json r = Inr b)))"
    using assms unfolding lapi_get_def Let_def case_prod_beta
    by (auto split: if_splits sum.splits)
next
  fix e assume "out = Inl e"
  then show "\<exists>s. e = LAPIError s" using assms(1) lapi_get_error by metis
next
  fix r assume "snd (acquire db now ''lapi'' 1 reg) \<and> http url params = Inr r \<and> status_code r = 429"
  then show "\<exists>b. map_of reg' ''lapi'' = Some b \<and> b_tokens b = 0 \<and> b_penalty_until b = now + 300"
    using assms
    by (auto simp: lapi_get_def Let_def case_prod_beta record_429_lookup bucket_record_429_def
        PENALTY_WINDOW_S_def)
qed

definition sample_429 :: "nat list http" where
  "sample_429 url ps = Inr \<lparr>status_code = 429, r_text = [], r_content = False, r_json = Inl []\<rparr>"

definition sample_client :: lapi_client where
  "sample_client = \<lparr>lc_url = ''http://lapi:8080/'', lc_api_key = ''k'', lc_name = ''local''\<rparr>"

theorem lapi_get_outcome_witness:
  "\<exists>b. map_of (fst (lapi_get empty_store 5 sample_429 sample_client ''/v1/decisions'' [] [])) ''lapi''
     = Some b \<and> b_tokens b = 0 \<and> b_penalty_until b = 5 + 300"
proof -
  have "snd (acquire empty_store 5 ''lapi'' 1 [])" by code_simp
  moreover obtain reg' out where
    call: "lapi_get empty_store 5 sample_429 sample_client ''/v1/decisions'' [] [] = (reg', out)"
    by force
  ultimately show ?thesis
    using lapi_get_outcome [OF call refl] by (simp add: sample_429_def)
qed

text \<open>The machine client logs in again at most once per request: after a 401 it drops the cached
  token, and the second answer is final. In particular a request always comes back, and it never
  reports success on a status of 400 or above.\<close>
theorem machine_get_retries_once:
  assumes "mc_token m = Some t" "t \<noteq> []"
    and "get t (mc_url m @ path) params = Inr r1"
    and "machine_login post (m\<lparr>mc_token := None\<rparr>) = Inr m2"
    and "get (the (mc_token m2)) (mc_url m2 @ path) params = Inr r2"
  shows "machine_get post get True m path params =
    (if status_code r1 = 401 then (m2, machine_result path r2) else (m, machine_result path r1))"
  using assms by (simp add: machine_get.simps machine_get_once_def str_truthy_def)

definition sample_post :: "string option http" where
  "sample_post url ps = Inr \<lparr>status_code = 200, r_text = [], r_content = True, r_json = Inr (Some ''new'')\<rparr>"

definition sample_get :: "string \<Rightarrow> nat list http" where
  "sample_get tok url ps = Inr (if tok = ''new''
     then \<lparr>status_code = 200, r_text = [], r_content = True, r_json = Inr [7]\<rparr>
     else \<lparr>status_code = 401, r_text = [], r_content = False, r_json = Inl []\<rparr>)"

definition sample_machine :: machine_client where
  "sample_machine = (new_machine_client ''http://lapi/'' ''m'' ''p'')\<lparr>mc_token := Some ''old''\<rparr>"

theorem machine_get_retries_once_witness:
  "machine_get sample_post sample_get True sample_machine ''/v1/alerts'' []
     = (sample_machine\<lparr>mc_token := Some ''new''\<rparr>, Inr (Some [7]))"
proof -
  have "machine_get sample_post sample_get True sample_machine ''/v1/alerts'' [] =
    (sample_machine\<lparr>mc_token := Some ''new''\<rparr>,
     machine_result ''/v1/alerts'' \<lparr>status_code = 200, r_text = [], r_content = True, r_json = Inr [7]\<rparr>)"
    by (subst machine_get_retries_once
        [where t = "''old''" and ?r1.0 = "\<lparr>status_code = 401, r_text = [], r_content = False, r_json = Inl []\<rparr>"
          and ?m2.0 = "sample_machine\<lparr>mc_token := Some ''new''\<rparr>"
          and ?r2.0 = "\<lparr>status_code = 200, r_text = [], r_content = True, r_json = Inr [7]\<rparr>"])
      (simp_all add: sample_machine_def sample_get_def sample_post_def machine_login_def
        str_truthy_def new_machine_client_def)
  then show ?thesis by (simp add: machine_result_def)
qed
end
