(* ===== verification/Federation.thy ===== *)
theory Federation
  imports Crowdsec
begin

text \<open>
  The table of LAPI sources (\<open>federation.py\<close>): seeding the local source from the environment,
  listing, and the updates the poller and the federation page make. The environment is a map from
  names to texts; its two \<open>_envstr\<close> helpers (here and in \<open>mikrotik.py\<close>) are the same function.
\<close>

type_synonym environment = "string \<Rightarrow> string option"

definition envstr :: "environment \<Rightarrow> string \<Rightarrow> string \<Rightarrow> string" where
  "envstr env name dflt =
     (let raw = (case env name of None \<Rightarrow> dflt | Some s \<Rightarrow> s)
      in py_strip (hd (py_split_max (CHR ''#'') 1 raw)))"

definition envint :: "environment \<Rightarrow> string \<Rightarrow> int \<Rightarrow> int" where
  "envint env name dflt =
     (let v = envstr env name [] in if v = [] then dflt
      else case py_int v of Some n \<Rightarrow> n | None \<Rightarrow> dflt)"

record source =
  s_id :: nat
  s_name :: string
  s_url :: string
  s_api_key :: string
  s_enabled :: bool
  s_last_pull_at :: "instant option"
  s_last_pull_n :: int
  s_last_error :: string
  s_backoff_until :: "instant option"
  s_paused :: bool
  s_confidence :: int
  s_last_pull_ms :: int

text \<open>The row an \<open>INSERT INTO sources (name, url, api_key, enabled, confidence, created_at)\<close> makes; the
  other columns take their defaults.\<close>
definition new_source_row :: "instant \<Rightarrow> string \<Rightarrow> string \<Rightarrow> string \<Rightarrow> int \<Rightarrow> source_row" where
  "new_source_row now name url api_key confidence =
     \<lparr>src_name = name, src_url = url, src_api_key = api_key, src_enabled = True,
      src_last_pull_at = None, src_last_pull_n = 0, src_last_error = [], src_created_at = now,
      src_backoff_until = None, src_paused = False, src_confidence = confidence, src_last_pull_ms = 0\<rparr>"

definition seed_local_source :: "environment \<Rightarrow> instant \<Rightarrow> store \<Rightarrow> store" where
  "seed_local_source env now db =
     (let url = envstr env ''CROWDSEC_LAPI_URL'' ''http://127.0.0.1:8080'';
          key = envstr env ''CROWDSEC_BOUNCER_KEY'' ''''
      in if key = [] then db
         else if select_rows (\<lambda>_ r. src_name r = ''local'') (sources db) \<noteq> []
         then db\<lparr>sources := update_rows (\<lambda>_ r. src_name r = ''local'')
                              (\<lambda>r. r\<lparr>src_url := url, src_api_key := key\<rparr>) (sources db)\<rparr>
         else db\<lparr>sources := fst (insert_row (new_source_row now ''local'' url key 1) (sources db))\<rparr>)"

definition source_of_row :: "nat \<times> source_row \<Rightarrow> source" where
  "source_of_row p = (case p of (i, r) \<Rightarrow>
     \<lparr>s_id = i, s_name = src_name r, s_url = src_url r, s_api_key = src_api_key r,
      s_enabled = src_enabled r, s_last_pull_at = src_last_pull_at r,
      s_last_pull_n = src_last_pull_n r, s_last_error = src_last_error r,
      s_backoff_until = src_backoff_until r, s_paused = src_paused r,
      s_confidence = src_confidence r, s_last_pull_ms = src_last_pull_ms r\<rparr>)"

text \<open>The rows are stored in id order, which is what \<open>ORDER BY id\<close> asks for.\<close>
definition list_sources :: "bool \<Rightarrow> store \<Rightarrow> source list" where
  "list_sources include_disabled db =
     map source_of_row (select_rows (\<lambda>_ r. include_disabled \<or> src_enabled r) (sources db))"

definition clients :: "store \<Rightarrow> lapi_client list" where
  "clients db = map (\<lambda>s. \<lparr>lc_url = s_url s, lc_api_key = s_api_key s, lc_name = s_name s\<rparr>)
                  (filter (\<lambda>s. \<not> s_paused s) (list_sources False db))"

definition update_source :: "nat \<Rightarrow> (source_row \<Rightarrow> source_row) \<Rightarrow> store \<Rightarrow> store" where
  "update_source i f db = db\<lparr>sources := update_rows (\<lambda>j _. j = i) f (sources db)\<rparr>"

definition record_pull :: "instant \<Rightarrow> nat \<Rightarrow> int \<Rightarrow> string \<Rightarrow> int \<Rightarrow> store \<Rightarrow> store" where
  "record_pull now source_id count error duration_ms =
     update_source source_id (\<lambda>r. r\<lparr>src_last_pull_at := Some now, src_last_pull_n := count,
       src_last_error := error, src_last_pull_ms := duration_ms\<rparr>)"

definition set_backoff :: "nat \<Rightarrow> instant option \<Rightarrow> store \<Rightarrow> store" where
  "set_backoff source_id until = update_source source_id (\<lambda>r. r\<lparr>src_backoff_until := until\<rparr>)"

definition set_paused :: "nat \<Rightarrow> bool \<Rightarrow> store \<Rightarrow> store" where
  "set_paused source_id paused = update_source source_id (\<lambda>r. r\<lparr>src_paused := paused\<rparr>)"

definition set_enabled :: "nat \<Rightarrow> bool \<Rightarrow> store \<Rightarrow> store" where
  "set_enabled source_id enabled = update_source source_id (\<lambda>r. r\<lparr>src_enabled := enabled\<rparr>)"

definition set_confidence :: "nat \<Rightarrow> int \<Rightarrow> store \<Rightarrow> store" where
  "set_confidence source_id confidence =
     update_source source_id (\<lambda>r. r\<lparr>src_confidence := max 1 confidence\<rparr>)"

text \<open>The \<open>UNIQUE\<close> name makes a second insert fail.\<close>
definition add_source :: "instant \<Rightarrow> string \<Rightarrow> string \<Rightarrow> string \<Rightarrow> int \<Rightarrow> store \<Rightarrow> store \<times> (exn + nat)" where
  "add_source now name url api_key confidence db =
     (if select_rows (\<lambda>_ r. src_name r = name) (sources db) \<noteq> []
      then (db, Inl (IntegrityError ''UNIQUE constraint failed: sources.name''))
      else let (t, i) = insert_row (new_source_row now name url api_key (max 1 confidence)) (sources db)
           in (db\<lparr>sources := t\<rparr>, Inr i))"

definition delete_source :: "nat \<Rightarrow> store \<Rightarrow> store \<times> (exn + unit)" where
  "delete_source source_id db =
     (case select_rows (\<lambda>i _. i = source_id) (sources db) of
        (_, r) # _ \<Rightarrow>
          if src_name r = ''local''
          then (db, Inl (ValueError ''cannot delete the local source - manage it via .env''))
          else (db\<lparr>sources := delete_rows (\<lambda>i _. i = source_id) (sources db)\<rparr>, Inr ())
      | [] \<Rightarrow> (db\<lparr>sources := delete_rows (\<lambda>i _. i = source_id) (sources db)\<rparr>, Inr ()))"

section \<open>The invariant of the sources table\<close>

definition sources_ok :: "store \<Rightarrow> bool" where
  "sources_ok db = (auto_ok (sources db) \<and> keys_unique src_name (contents (sources db))
     \<and> (\<forall>r \<in> set (contents (sources db)). 1 \<le> src_confidence r))"

text \<open>The operations of the federation page and the poller.\<close>
datatype source_op =
    Seed environment instant
  | Pulled instant nat int string int
  | Backoff nat "instant option"
  | Paused nat bool
  | Enabled nat bool
  | Confidence nat int
  | Add instant string string string int
  | Delete nat

fun run_source_op :: "source_op \<Rightarrow> store \<Rightarrow> store" where
  "run_source_op (Seed env now) = seed_local_source env now"
| "run_source_op (Pulled now i n e ms) = record_pull now i n e ms"
| "run_source_op (Backoff i u) = set_backoff i u"
| "run_source_op (Paused i b) = set_paused i b"
| "run_source_op (Enabled i b) = set_enabled i b"
| "run_source_op (Confidence i c) = set_confidence i c"
| "run_source_op (Add now n u k c) = (\<lambda>db. fst (add_source now n u k c db))"
| "run_source_op (Delete i) = (\<lambda>db. fst (delete_source i db))"

lemma sources_ok_update:
  assumes "sources_ok db" "\<And>r. src_name (f r) = src_name r"
    "\<And>r. 1 \<le> src_confidence r \<Longrightarrow> 1 \<le> src_confidence (f r)"
  shows "sources_ok (db\<lparr>sources := update_rows P f (sources db)\<rparr>)"
  using assms by (auto simp: sources_ok_def keys_unique_def map_contents_update
      elim!: set_contents_update)

lemma sources_ok_update_source:
  "sources_ok db \<Longrightarrow> (\<And>r. src_name (f r) = src_name r) \<Longrightarrow>
   (\<And>r. 1 \<le> src_confidence r \<Longrightarrow> 1 \<le> src_confidence (f r)) \<Longrightarrow> sources_ok (update_source i f db)"
  unfolding update_source_def by (rule sources_ok_update)

lemma select_name_empty:
  "select_rows (\<lambda>_ r. src_name r = n) t = [] \<longleftrightarrow> n \<notin> src_name ` set (contents t)"
  by (auto simp: select_rows_def filter_empty_conv contents_def image_iff)

lemma sources_ok_insert:
  assumes "sources_ok db" "select_rows (\<lambda>_ r. src_name r = n) (sources db) = []" "1 \<le> c"
  shows "sources_ok (db\<lparr>sources := fst (insert_row (new_source_row now n u k c) (sources db))\<rparr>)"
  using assms
  by (auto simp: sources_ok_def select_name_empty tables keys_unique_def new_source_row_def image_iff)

lemma sources_ok_delete:
  "sources_ok db \<Longrightarrow> sources_ok (db\<lparr>sources := delete_rows P (sources db)\<rparr>)"
  by (auto simp: sources_ok_def keys_unique_def contents_def delete_rows_def auto_ok_def
      distinct_map inj_on_def)

lemma sources_ok_op: "sources_ok db \<Longrightarrow> sources_ok (run_source_op op db)"
proof (cases op)
  case (Seed env now)
  assume "sources_ok db"
  then show ?thesis
    by (simp add: Seed seed_local_source_def Let_def sources_ok_update sources_ok_insert)
next
  case (Add now n u k c)
  assume "sources_ok db"
  then show ?thesis
    by (simp add: Add add_source_def Let_def case_prod_beta sources_ok_insert)
next
  case (Delete i)
  assume "sources_ok db"
  then show ?thesis
    by (auto simp: Delete delete_source_def sources_ok_delete split: list.splits)
qed (simp_all add: record_pull_def set_backoff_def set_paused_def set_enabled_def set_confidence_def
    sources_ok_update_source)

definition source_names :: "store \<Rightarrow> string set" where
  "source_names db = src_name ` set (contents (sources db))"

lemma source_names_update [simp]:
  "(\<And>r. src_name (f r) = src_name r) \<Longrightarrow>
   source_names (db\<lparr>sources := update_rows P f (sources db)\<rparr>) = source_names db"
  by (simp add: source_names_def map_contents_update flip: set_map)

lemma source_names_update_source [simp]:
  "(\<And>r. src_name (f r) = src_name r) \<Longrightarrow> source_names (update_source i f db) = source_names db"
  by (simp add: update_source_def)

lemma delete_keeps_local:
  assumes "sources_ok db" "''local'' \<in> source_names db"
  shows "''local'' \<in> source_names (fst (delete_source i db))"
proof (cases "select_rows (\<lambda>j _. j = i) (sources db)")
  case Nil
  then have "filter (\<lambda>(j, r). j \<noteq> i) (rows (sources db)) = rows (sources db)"
    by (auto simp: select_rows_def filter_empty_conv intro!: filter_True)
  then have "delete_rows (\<lambda>j _. j = i) (sources db) = sources db"
    by (simp add: delete_rows_def)
  with Nil assms(2) show ?thesis by (simp add: delete_source_def)
next
  case (Cons p ps)
  obtain j r where p: "p = (j, r)" by force
  then have jr: "(j, r) \<in> set (rows (sources db))" "j = i"
    using Cons by (auto simp: select_rows_def filter_eq_Cons_iff)
  show ?thesis
  proof (cases "src_name r = ''local''")
    case True
    with Cons p assms(2) show ?thesis by (simp add: delete_source_def)
  next
    case False
    obtain k r' where r': "(k, r') \<in> set (rows (sources db))" "src_name r' = ''local''"
      using assms(2) by (auto simp: source_names_def contents_def)
    have "k \<noteq> i"
      using assms(1) jr r' False eq_key_imp_eq_value [of "rows (sources db)" i r r']
      by (auto simp: sources_ok_def auto_ok_def)
    with r' have "r' \<in> set (contents (delete_rows (\<lambda>j _. j = i) (sources db)))"
      by (force simp: contents_def delete_rows_def)
    with False Cons p r'(2) show ?thesis
      by (auto simp: delete_source_def source_names_def image_iff) metis
  qed
qed

lemma local_kept:
  assumes "sources_ok db" "''local'' \<in> source_names db"
  shows "''local'' \<in> source_names (run_source_op op db)"
proof (cases op)
  case (Seed env now)
  then show ?thesis
    using assms(2) by (auto simp: seed_local_source_def Let_def) (auto simp: source_names_def tables)
next
  case (Add now n u k c)
  then show ?thesis
    using assms(2) by (auto simp: add_source_def Let_def case_prod_beta source_names_def tables)
next
  case (Delete i)
  then show ?thesis using delete_keeps_local [OF assms] by simp
qed (use assms(2) in \<open>simp_all add: record_pull_def set_backoff_def set_paused_def set_enabled_def
      set_confidence_def\<close>)

text \<open>Whatever the poller and the federation page do to the sources table, ids and names stay
  unique, every confidence stays at least one, and the local source, once there, is never deleted.\<close>
theorem sources_invariant:
  assumes "sources_ok db"
  shows "sources_ok (fold run_source_op ops db) \<and>
    (''local'' \<in> source_names db \<longrightarrow> ''local'' \<in> source_names (fold run_source_op ops db))"
  using assms by (induction ops arbitrary: db) (auto simp: sources_ok_op local_kept)

definition sample_env :: environment where
  "sample_env = [''CROWDSEC_BOUNCER_KEY'' \<mapsto> ''secret # rotated'']"

definition sample_ops :: "source_op list" where
  "sample_ops = [Seed sample_env 1, Add 2 ''vps-b'' ''http://b:8080'' ''k'' 0, Delete 1,
     Add 3 ''local'' ''http://evil'' ''k'' 1, Paused 2 True, Delete 2]"

theorem sources_invariant_witness:
  "sources_ok empty_store \<and> sources_ok (fold run_source_op sample_ops empty_store)
   \<and> ''local'' \<in> source_names (fold run_source_op sample_ops (seed_local_source sample_env 0 empty_store))
   \<and> map s_name (list_sources True (fold run_source_op sample_ops empty_store)) = [''local'']"
proof (intro conjI)
  show "sources_ok empty_store" by code_simp
  then show "sources_ok (fold run_source_op sample_ops empty_store)"
    using sources_invariant by blast
  have "sources_ok (seed_local_source sample_env 0 empty_store)" by code_simp
  moreover have "''local'' \<in> source_names (seed_local_source sample_env 0 empty_store)" by code_simp
  ultimately show "''local'' \<in> source_names (fold run_source_op sample_ops (seed_local_source sample_env 0 empty_store))"
    using sources_invariant by blast
  show "map s_name (list_sources True (fold run_source_op sample_ops empty_store)) = [''local'']"
    by code_simp
qed

end
