(* ===== verification/Mirror.thy ===== *)
theory Mirror
  imports Federation
begin

text \<open>
  The local mirror of the LAPI decisions (the pull half of \<open>poller.py\<close>): the upsert keyed on the
  identity of a decision, the full bootstrap pull with its tombstones, and the application of a
  stream delta. Every statement commits on its own, so an operation returns the store it leaves
  together with its result or the exception that stopped it.
\<close>

section \<open>Identities\<close>

type_synonym identity = "string \<times> string \<times> string \<times> string"

text \<open>\<open>UNIQUE (origin_source, value, scope, scenario)\<close>.\<close>
definition row_key :: "decision_row \<Rightarrow> identity" where
  "row_key r = (dr_origin_source r, dr_value r, dr_scope r, dr_scenario r)"

definition decision_key :: "lapi_decision \<Rightarrow> string \<times> string \<times> string" where
  "decision_key d = (str_or (ld_value d) '''', str_or (ld_scope d) ''Ip'', str_or (ld_scenario d) '''')"

definition new_decision_row :: "string \<Rightarrow> lapi_decision \<Rightarrow> int \<Rightarrow> instant \<Rightarrow> decision_row" where
  "new_decision_row origin_source d i now =
     \<lparr>dr_origin_source = origin_source, dr_lapi_id = i,
      dr_value = str_or (ld_value d) '''', dr_scope = str_or (ld_scope d) ''Ip'',
      dr_type = str_or (ld_type d) ''ban'', dr_scenario = str_or (ld_scenario d) '''',
      dr_origin = str_or (ld_origin d) '''', dr_duration = str_or (ld_duration d) '''',
      dr_until = ld_until d, dr_first_seen_at = now, dr_last_seen_at = now, dr_deleted_at = None\<rparr>"

text \<open>\<open>ON CONFLICT ... DO UPDATE SET\<close>: the columns a re-ban refreshes.\<close>
definition refresh_row :: "decision_row \<Rightarrow> decision_row \<Rightarrow> decision_row" where
  "refresh_row excluded r = r\<lparr>dr_lapi_id := dr_lapi_id excluded, dr_type := dr_type excluded,
     dr_origin := dr_origin excluded, dr_duration := dr_duration excluded,
     dr_until := dr_until excluded, dr_last_seen_at := dr_last_seen_at excluded, dr_deleted_at := None\<rparr>"

definition upsert_decision :: "string \<Rightarrow> lapi_decision \<Rightarrow> instant \<Rightarrow> store \<Rightarrow> exn + store" where
  "upsert_decision origin_source d now db =
     (case ld_id d of
        None \<Rightarrow> Inl (KeyError ''id'')
      | Some i \<Rightarrow>
          let new = new_decision_row origin_source d i now
          in Inr (db\<lparr>decisions := upsert_row row_key new (refresh_row new) (decisions db)\<rparr>))"

section \<open>Bootstrap\<close>

fun upsert_all :: "string \<Rightarrow> instant \<Rightarrow> lapi_decision list \<Rightarrow> store \<Rightarrow> store \<times> exn option" where
  "upsert_all src now [] db = (db, None)"
| "upsert_all src now (d # ds) db =
     (case upsert_decision src d now db of
        Inl e \<Rightarrow> (db, Some e)
      | Inr db \<Rightarrow> upsert_all src now ds db)"

definition active_rows :: "string \<Rightarrow> store \<Rightarrow> decision_row list" where
  "active_rows src db =
     filter (\<lambda>r. dr_origin_source r = src \<and> dr_deleted_at r = None) (contents (decisions db))"

definition tombstone :: "string \<Rightarrow> instant \<Rightarrow> string \<times> string \<times> string \<Rightarrow> store \<Rightarrow> store" where
  "tombstone src now k db =
     db\<lparr>decisions := update_rows (\<lambda>_ r. row_key r = (src, k)) (\<lambda>r. r\<lparr>dr_deleted_at := Some now\<rparr>)
                       (decisions db)\<rparr>"

definition tombstone_missing :: "string \<Rightarrow> instant \<Rightarrow> (string \<times> string \<times> string) set \<Rightarrow> store \<Rightarrow> store" where
  "tombstone_missing src now seen_keys db =
     fold (\<lambda>r db. let k = snd (row_key r) in if k \<notin> seen_keys then tombstone src now k db else db)
       (active_rows src db) db"

text \<open>The per-IP source tracker.\<close>
definition track_ip :: "string \<Rightarrow> instant \<Rightarrow> lapi_decision \<Rightarrow> store \<Rightarrow> store" where
  "track_ip src now d db =
     (let val = py_strip (str_or (ld_value d) '''')
      in if val = [] then db
         else db\<lparr>ip_sources := upsert (\<lambda>r. (is_ip r, is_source_name r))
                \<lparr>is_ip = val, is_source_name = src, is_last_seen_at = now\<rparr>
                (\<lambda>r. r\<lparr>is_last_seen_at := now\<rparr>) (ip_sources db)\<rparr>)"

definition bootstrap_apply :: "string \<Rightarrow> instant \<Rightarrow> lapi_decision list \<Rightarrow> store \<Rightarrow> store \<times> (exn + nat)" where
  "bootstrap_apply src now ds db =
     (case upsert_all src now ds db of
        (db, Some e) \<Rightarrow> (db, Inl e)
      | (db, None) \<Rightarrow>
          let db = tombstone_missing src now (set (map decision_key ds)) db;
              db = fold (track_ip src now) ds db
          in (db, Inr (length ds)))"

text \<open>\<open>_bootstrap\<close>: two pulls, then the apply.\<close>
definition bootstrap :: "rat \<Rightarrow> instant \<Rightarrow> lapi_decision list http \<Rightarrow> lapi_client \<Rightarrow> registry \<Rightarrow> store
    \<Rightarrow> registry \<times> store \<times> (exn + nat)" where
  "bootstrap tick now http c reg db =
     (case client_decisions db tick http c ''Ip'' reg of
        (reg, Inl e) \<Rightarrow> (reg, db, Inl e)
      | (reg, Inr ips) \<Rightarrow>
          case client_decisions db tick http c ''Range'' reg of
            (reg, Inl e) \<Rightarrow> (reg, db, Inl e)
          | (reg, Inr ranges) \<Rightarrow> (reg, bootstrap_apply (lc_name c) now (ips @ ranges) db))"

section \<open>Stream deltas\<close>

fun stream_new :: "string \<Rightarrow> instant \<Rightarrow> lapi_decision list \<Rightarrow> store \<Rightarrow> store \<times> exn option" where
  "stream_new src now [] db = (db, None)"
| "stream_new src now (d # ds) db =
     (case upsert_decision src d now db of
        Inl e \<Rightarrow> (db, Some e)
      | Inr db \<Rightarrow> stream_new src now ds (track_ip src now d db))"

definition stream_delete :: "string \<Rightarrow> instant \<Rightarrow> lapi_decision \<Rightarrow> store \<Rightarrow> store" where
  "stream_delete src now d db =
     (case ld_id d of
        None \<Rightarrow> db
      | Some lid \<Rightarrow>
          db\<lparr>decisions := update_rows
               (\<lambda>_ r. dr_origin_source r = src \<and> dr_lapi_id r = lid \<and> dr_deleted_at r = None)
               (\<lambda>r. r\<lparr>dr_deleted_at := Some now\<rparr>) (decisions db)\<rparr>)"

definition opt_int_str :: "int option \<Rightarrow> string option" where
  "opt_int_str = map_option py_str_int"

definition created_event :: "string \<Rightarrow> lapi_decision \<Rightarrow> event" where
  "created_event src d = Ship ''decision.created''
     [(''ip'', ld_value d), (''scope'', ld_scope d), (''scenario'', ld_scenario d),
      (''origin'', ld_origin d), (''source'', Some src), (''lapi_id'', opt_int_str (ld_id d)),
      (''until'', ld_until d), (''duration'', ld_duration d)]"

definition deleted_event :: "string \<Rightarrow> lapi_decision \<Rightarrow> event" where
  "deleted_event src d = Ship ''decision.deleted''
     [(''ip'', ld_value d), (''source'', Some src), (''lapi_id'', opt_int_str (ld_id d))]"

definition stream_apply_delta :: "string \<Rightarrow> instant \<Rightarrow> lapi_delta \<Rightarrow> store
    \<Rightarrow> store \<times> event list \<times> (exn + nat)" where
  "stream_apply_delta src now delta db =
     (let new = delta_new delta; deleted = delta_deleted delta
      in if new = [] \<and> deleted = [] then (db, [], Inr 0)
         else case stream_new src now new db of
           (db, Some e) \<Rightarrow> (db, [], Inl e)
         | (db, None) \<Rightarrow>
             (fold (stream_delete src now) deleted db,
              map (created_event src) new @ map (deleted_event src) deleted,
              Inr (length new + length deleted)))"

definition stream_apply :: "rat \<Rightarrow> instant \<Rightarrow> lapi_delta http \<Rightarrow> lapi_client \<Rightarrow> registry \<Rightarrow> store
    \<Rightarrow> registry \<times> store \<times> event list \<times> (exn + nat)" where
  "stream_apply tick now http c reg db =
     (case client_decisions_stream db tick http c False reg of
        (reg, Inl e) \<Rightarrow> (reg, db, [], Inl e)
      | (reg, Inr delta) \<Rightarrow> (reg, stream_apply_delta (lc_name c) now delta db))"

text \<open>\<open>COUNT(DISTINCT value)\<close> over the active rows.\<close>
definition count_active :: "store \<Rightarrow> nat" where
  "count_active db =
     length (remdups (map dr_value (filter (\<lambda>r. dr_deleted_at r = None) (contents (decisions db)))))"

section \<open>The mirror as a map from identities to rows\<close>

text \<open>The row of an identity, and the invariant of the table.\<close>
definition lookup :: "store \<Rightarrow> identity \<Rightarrow> decision_row option" where
  "lookup db k = find_row row_key k (contents (decisions db))"

definition mirror_ok :: "store \<Rightarrow> bool" where
  "mirror_ok db = (auto_ok (decisions db) \<and> keys_unique row_key (contents (decisions db)))"

text \<open>The abstract state: the LAPI id of every identity that is active in the mirror.\<close>
definition live_id :: "decision_row \<Rightarrow> int option" where
  "live_id r = (if dr_deleted_at r = None then Some (dr_lapi_id r) else None)"

definition live :: "store \<Rightarrow> identity \<rightharpoonup> int" where
  "live db k = (case lookup db k of Some r \<Rightarrow> live_id r | None \<Rightarrow> None)"

lemma row_key_refresh [simp]: "row_key (refresh_row new r) = row_key r"
  by (simp add: row_key_def refresh_row_def)

lemma row_key_new [simp]: "row_key (new_decision_row src d i now) = (src, decision_key d)"
  by (simp add: row_key_def new_decision_row_def decision_key_def)

lemma row_key_delete [simp]: "row_key (r\<lparr>dr_deleted_at := x\<rparr>) = row_key r"
  by (simp add: row_key_def)

lemma fst_row_key [simp]: "fst (row_key r) = dr_origin_source r"
  by (simp add: row_key_def)

lemma lookup_key: "lookup db k = Some r \<Longrightarrow> row_key r = k"
  by (auto simp: lookup_def dest: find_row_Some)

lemma find_row_map_if:
  "(\<And>r. key (f r) = key r) \<Longrightarrow>
   find_row key k (map (\<lambda>r. if P r then f r else r) t) = map_option (\<lambda>r. if P r then f r else r) (find_row key k t)"
  unfolding find_row_def by (induction t) auto

lemma lookup_update:
  "(\<And>r. row_key (f r) = row_key r) \<Longrightarrow>
   lookup (db\<lparr>decisions := update_rows (\<lambda>_. P) f (decisions db)\<rparr>) k
     = map_option (\<lambda>r. if P r then f r else r) (lookup db k)"
  by (simp add: lookup_def tables find_row_map_if)

lemma lookup_upsert:
  assumes "upsert_decision src d now db = Inr db'"
  shows "lookup db' k = (if k = (src, decision_key d)
     then Some (case lookup db k of
            None \<Rightarrow> new_decision_row src d (the (ld_id d)) now
          | Some r \<Rightarrow> refresh_row (new_decision_row src d (the (ld_id d)) now) r)
     else lookup db k)"
  using assms
    find_row_upsert_same [of row_key "refresh_row (new_decision_row src d (the (ld_id d)) now)"
      "new_decision_row src d (the (ld_id d)) now" "contents (decisions db)"]
  by (auto simp: upsert_decision_def Let_def lookup_def tables find_row_upsert_other split: option.splits)

lemma live_upsert: "upsert_decision src d now db = Inr db' \<Longrightarrow>
    live db' = (live db)((src, decision_key d) \<mapsto> the (ld_id d))"
  by (rule ext) (auto simp: live_def lookup_upsert live_id_def refresh_row_def new_decision_row_def
      split: option.splits)

lemma upsert_decision_ok: "ld_id d \<noteq> None \<Longrightarrow> \<exists>db'. upsert_decision src d now db = Inr db'"
  by (auto simp: upsert_decision_def Let_def)

lemma track_ip_decisions [simp]: "decisions (track_ip src now d db) = decisions db"
  by (simp add: track_ip_def Let_def)

lemma track_ips_decisions [simp]: "decisions (fold (track_ip src now) ds db) = decisions db"
  by (induction ds arbitrary: db) simp_all

lemma lookup_cong: "decisions db = decisions db' \<Longrightarrow> lookup db = lookup db'"
  by (auto simp: lookup_def)

lemma live_cong: "decisions db = decisions db' \<Longrightarrow> live db = live db'"
  by (auto simp: live_def fun_eq_iff dest: lookup_cong)

section \<open>The specification of a pull\<close>

text \<open>The ids a list of decisions gives to the identities of one source; a later entry wins.\<close>
definition id_map :: "lapi_decision list \<Rightarrow> (string \<times> string \<times> string) \<rightharpoonup> int" where
  "id_map ds = map_of (rev (map (\<lambda>d. (decision_key d, the (ld_id d))) ds))"

lemma id_map_Nil [simp]: "id_map [] = Map.empty"
  by (simp add: id_map_def)

lemma id_map_Cons: "id_map (d # ds) = [decision_key d \<mapsto> the (ld_id d)] ++ id_map ds"
  by (simp add: id_map_def)

lemma id_map_None: "id_map ds k = None \<longleftrightarrow> k \<notin> decision_key ` set ds"
  by (simp add: id_map_def map_of_eq_None_iff image_image)

text \<open>A full pull replaces what is live for the source; a delta adds and then deletes by id.\<close>
definition spec_bootstrap :: "string \<Rightarrow> lapi_decision list \<Rightarrow> (identity \<rightharpoonup> int) \<Rightarrow> identity \<rightharpoonup> int" where
  "spec_bootstrap src ds m = (\<lambda>(s, k). if s = src then id_map ds k else m (s, k))"

definition spec_stream :: "string \<Rightarrow> lapi_delta \<Rightarrow> (identity \<rightharpoonup> int) \<Rightarrow> identity \<rightharpoonup> int" where
  "spec_stream src delta m = (\<lambda>(s, k).
     if s \<noteq> src then m (s, k)
     else case ((\<lambda>k. m (src, k)) ++ id_map (delta_new delta)) k of
            None \<Rightarrow> None
          | Some i \<Rightarrow> if Some i \<in> ld_id ` set (delta_deleted delta) then None else Some i)"

lemma live_upsert_all:
  assumes "\<forall>d \<in> set ds. ld_id d \<noteq> None"
  shows "\<exists>db'. upsert_all src now ds db = (db', None) \<and>
    (\<forall>s k. live db' (s, k) = (if s = src then ((\<lambda>k. live db (src, k)) ++ id_map ds) k else live db (s, k)))"
  using assms
proof (induction ds arbitrary: db)
  case (Cons d ds)
  then obtain db1 where db1: "upsert_decision src d now db = Inr db1"
    using upsert_decision_ok by (metis list.set_intros(1))
  obtain db' where db': "upsert_all src now ds db1 = (db', None)"
    and live': "\<forall>s k. live db' (s, k) = (if s = src then ((\<lambda>k. live db1 (src, k)) ++ id_map ds) k else live db1 (s, k))"
    using Cons by (metis list.set_intros(2))
  have "live db' (s, k) = (if s = src then ((\<lambda>k. live db (src, k)) ++ id_map (d # ds)) k else live db (s, k))"
    for s k
    using live' [rule_format, of s k]
    by (simp add: live_upsert [OF db1] id_map_Cons map_add_def split: option.splits)
  with db1 db' show ?case by auto
qed simp

lemma upsert_all_cong:
  "decisions db1 = decisions db2 \<Longrightarrow>
   snd (upsert_all src now ds db1) = snd (upsert_all src now ds db2) \<and>
   decisions (fst (upsert_all src now ds db1)) = decisions (fst (upsert_all src now ds db2))"
  by (induction ds arbitrary: db1 db2) (auto simp: upsert_decision_def Let_def split: option.splits)

lemma stream_new_upsert_all:
  "snd (stream_new src now ds db) = snd (upsert_all src now ds db) \<and>
   decisions (fst (stream_new src now ds db)) = decisions (fst (upsert_all src now ds db))"
proof (induction ds arbitrary: db)
  case (Cons d ds)
  show ?case
  proof (cases "upsert_decision src d now db")
    case (Inr db1)
    have "decisions (track_ip src now d db1) = decisions db1" by simp
    with Cons.IH [of "track_ip src now d db1"] upsert_all_cong [of "track_ip src now d db1" db1] Inr
    show ?thesis by simp
  qed simp
qed simp

lemma lookup_tombstone: "lookup (tombstone src now k0 db) k =
    map_option (\<lambda>r. if row_key r = (src, k0) then r\<lparr>dr_deleted_at := Some now\<rparr> else r) (lookup db k)"
  by (simp add: tombstone_def lookup_update)

lemma live_tombstone: "live (tombstone src now k0 db) = (live db)((src, k0) := None)"
  by (rule ext) (auto simp: live_def lookup_tombstone live_id_def split: option.splits dest: lookup_key)

lemma live_tombstones:
  "live (fold (\<lambda>r db. let k = snd (row_key r) in if k \<notin> seen then tombstone src now k db else db) rs db) (s, k)
     = (if s = src \<and> k \<notin> seen \<and> k \<in> (snd \<circ> row_key) ` set rs then None else live db (s, k))"
  by (induction rs arbitrary: db) (auto simp: live_tombstone Let_def)

lemma live_active_row: "live db (src, k) = Some i \<Longrightarrow> k \<in> (snd \<circ> row_key) ` set (active_rows src db)"
proof -
  assume "live db (src, k) = Some i"
  then obtain r where "lookup db (src, k) = Some r" "dr_deleted_at r = None"
    by (auto simp: live_def live_id_def split: option.splits if_splits)
  then have "row_key r = (src, k)" "r \<in> set (contents (decisions db))" "dr_deleted_at r = None"
    by (auto simp: lookup_def dest: find_row_Some)
  then have "r \<in> set (active_rows src db)" "snd (row_key r) = k"
    by (auto simp: active_rows_def row_key_def)
  then show ?thesis by force
qed

lemma live_tombstone_missing:
  "live (tombstone_missing src now seen db) (s, k) =
     (if s = src \<and> k \<notin> seen then None else live db (s, k))"
  unfolding tombstone_missing_def live_tombstones
  using live_active_row [of db src k] by (cases "live db (src, k)") auto

lemma bootstrap_refines:
  assumes "\<forall>d \<in> set ds. ld_id d \<noteq> None"
  shows "snd (bootstrap_apply src now ds db) = Inr (length ds) \<and>
    live (fst (bootstrap_apply src now ds db)) = spec_bootstrap src ds (live db)"
proof -
  obtain db' where db': "upsert_all src now ds db = (db', None)"
    and live': "\<forall>s k. live db' (s, k) = (if s = src then ((\<lambda>k. live db (src, k)) ++ id_map ds) k else live db (s, k))"
    using live_upsert_all [OF assms] by blast
  have "live (fst (bootstrap_apply src now ds db)) (s, k) = spec_bootstrap src ds (live db) (s, k)" for s k
  proof -
    have "live (fst (bootstrap_apply src now ds db))
        = live (tombstone_missing src now (set (map decision_key ds)) db')"
      by (rule live_cong) (simp add: bootstrap_apply_def db' Let_def)
    then have "live (fst (bootstrap_apply src now ds db)) (s, k)
        = live (tombstone_missing src now (set (map decision_key ds)) db') (s, k)" by simp
    also have "\<dots> = spec_bootstrap src ds (live db) (s, k)"
      using live' [rule_format, of s k] id_map_None [of ds k]
      by (cases "id_map ds k") (simp_all add: live_tombstone_missing spec_bootstrap_def map_add_def)
    finally show ?thesis .
  qed
  then show ?thesis by (auto simp: bootstrap_apply_def db' Let_def)
qed

text \<open>(C4) A full pull makes the mirror of its source equal to what the LAPI returned, whatever the
  mirror held before: the identities of the pulled decisions are live with the ids the LAPI gave, every
  other identity of that source is tombstoned, and the other sources are untouched. The decision table,
  with its upserts, tombstones and row updates, refines the replacement of a map.\<close>
theorem bootstrap_refines_replacement:
  assumes "\<forall>d \<in> set ds. ld_id d \<noteq> None"
  shows "snd (bootstrap_apply src now ds db) = Inr (length ds) \<and>
    live (fst (bootstrap_apply src now ds db)) = spec_bootstrap src ds (live db)"
  by (rule bootstrap_refines [OF assms])

definition sample_ld :: "int \<Rightarrow> string \<Rightarrow> string \<Rightarrow> lapi_decision" where
  "sample_ld i v sc = \<lparr>ld_id = Some i, ld_value = Some v, ld_scope = Some ''Ip'', ld_type = Some ''ban'',
     ld_scenario = Some sc, ld_origin = Some ''crowdsec'', ld_duration = Some ''4h'', ld_until = None\<rparr>"

definition sample_mirror :: store where
  "sample_mirror = fst (bootstrap_apply ''local'' 10
     [sample_ld 1 ''192.0.2.1'' ''ssh-bf'', sample_ld 2 ''192.0.2.2'' ''http-probing''] empty_store)"

theorem bootstrap_refines_replacement_witness:
  "live (fst (bootstrap_apply ''local'' 20 [sample_ld 3 ''192.0.2.1'' ''ssh-bf''] sample_mirror))
       (''local'', ''192.0.2.1'', ''Ip'', ''ssh-bf'') = Some 3
   \<and> live (fst (bootstrap_apply ''local'' 20 [sample_ld 3 ''192.0.2.1'' ''ssh-bf''] sample_mirror))
       (''local'', ''192.0.2.2'', ''Ip'', ''http-probing'') = None"
  using bootstrap_refines_replacement [of "[sample_ld 3 ''192.0.2.1'' ''ssh-bf'']" "''local''" 20 sample_mirror]
  by (simp add: spec_bootstrap_def id_map_def decision_key_def sample_ld_def str_or_def)

section \<open>The stream refines a map update\<close>

lemma live_stream_delete:
  "live (stream_delete src now d db) (s, k) =
     (if s = src \<and> ld_id d \<noteq> None \<and> live db (s, k) = ld_id d then None else live db (s, k))"
proof (cases "ld_id d")
  case None
  then show ?thesis by (simp add: stream_delete_def)
next
  case (Some lid)
  show ?thesis
  proof (cases "lookup db (s, k)")
    case (Some r)
    then have "dr_origin_source r = s" using lookup_key [of db "(s, k)" r] by (simp add: row_key_def)
    with Some \<open>ld_id d = Some lid\<close> show ?thesis
      by (auto simp add: stream_delete_def live_def live_id_def lookup_update)
  qed (simp add: stream_delete_def live_def lookup_update \<open>ld_id d = Some lid\<close>)
qed

lemma live_stream_deletes:
  "live (fold (stream_delete src now) ds db) (s, k) =
     (case live db (s, k) of
        None \<Rightarrow> None
      | Some i \<Rightarrow> if s = src \<and> Some i \<in> ld_id ` set ds then None else Some i)"
proof (induction ds arbitrary: db)
  case (Cons d ds)
  show ?case
    by (simp only: fold_simps Cons.IH live_stream_delete list.set image_insert)
      (auto split: option.splits if_splits)
qed (simp split: option.splits)

lemma stream_refines:
  assumes "\<forall>d \<in> set (delta_new delta). ld_id d \<noteq> None"
  shows "live (fst (stream_apply_delta src now delta db)) = spec_stream src delta (live db) \<and>
    snd (snd (stream_apply_delta src now delta db))
      = Inr (length (delta_new delta) + length (delta_deleted delta))"
proof -
  obtain db' where db': "upsert_all src now (delta_new delta) db = (db', None)"
    and live': "\<forall>s k. live db' (s, k) = (if s = src then ((\<lambda>k. live db (src, k)) ++ id_map (delta_new delta)) k else live db (s, k))"
    using live_upsert_all [OF assms] by blast
  then obtain db2 where db2: "stream_new src now (delta_new delta) db = (db2, None)"
    and dec: "decisions db2 = decisions db'"
    using stream_new_upsert_all [of src now "delta_new delta" db]
    by (cases "stream_new src now (delta_new delta) db") auto
  have "live (fst (stream_apply_delta src now delta db)) (s, k) = spec_stream src delta (live db) (s, k)" for s k
  proof (cases "delta_new delta = [] \<and> delta_deleted delta = []")
    case True
    then show ?thesis
      by (simp add: stream_apply_delta_def spec_stream_def split: option.splits)
  next
    case False
    then have "live (fst (stream_apply_delta src now delta db)) (s, k)
        = live (fold (stream_delete src now) (delta_deleted delta) db2) (s, k)"
      by (auto simp: stream_apply_delta_def db2 Let_def)
    also have "\<dots> = spec_stream src delta (live db) (s, k)"
      using live' [rule_format, of s k] live_cong [OF dec]
      by (auto simp: live_stream_deletes spec_stream_def split: option.splits)
    finally show ?thesis .
  qed
  then show ?thesis by (auto simp: stream_apply_delta_def db2 Let_def)
qed

text \<open>(C5) A stream delta refines the update of the live map: the new decisions overwrite the ids of
  their identities, then every identity of the source whose current id is in the deleted list stops
  being live. A deletion of an id that a re-ban has since replaced changes nothing.\<close>
theorem stream_refines_update:
  assumes "\<forall>d \<in> set (delta_new delta). ld_id d \<noteq> None"
  shows "live (fst (stream_apply_delta src now delta db)) = spec_stream src delta (live db) \<and>
    snd (snd (stream_apply_delta src now delta db))
      = Inr (length (delta_new delta) + length (delta_deleted delta))"
  by (rule stream_refines [OF assms])

definition sample_delta :: lapi_delta where
  "sample_delta = \<lparr>delta_new = [sample_ld 7 ''192.0.2.1'' ''ssh-bf''],
     delta_deleted = [sample_ld 1 ''192.0.2.1'' ''ssh-bf'', sample_ld 2 ''192.0.2.2'' ''http-probing'']\<rparr>"

theorem stream_refines_update_witness:
  "live (fst (stream_apply_delta ''local'' 30 sample_delta sample_mirror))
       (''local'', ''192.0.2.1'', ''Ip'', ''ssh-bf'') = Some 7
   \<and> live (fst (stream_apply_delta ''local'' 30 sample_delta sample_mirror))
       (''local'', ''192.0.2.2'', ''Ip'', ''http-probing'') = None"
proof -
  have "live sample_mirror = spec_bootstrap ''local''
      [sample_ld 1 ''192.0.2.1'' ''ssh-bf'', sample_ld 2 ''192.0.2.2'' ''http-probing''] (live empty_store)"
    unfolding sample_mirror_def
    by (rule bootstrap_refines [THEN conjunct2]) (simp add: sample_ld_def)
  then show ?thesis
    using stream_refines_update [of sample_delta "''local''" 30 sample_mirror]
    by (simp add: spec_stream_def spec_bootstrap_def id_map_def decision_key_def sample_ld_def
        str_or_def sample_delta_def map_add_def)
qed

section \<open>Runs of pulls\<close>

datatype pull = Full string instant "lapi_decision list" | Delta string instant lapi_delta

fun run_pull :: "pull \<Rightarrow> store \<Rightarrow> store" where
  "run_pull (Full src now ds) db = fst (bootstrap_apply src now ds db)"
| "run_pull (Delta src now delta) db = fst (stream_apply_delta src now delta db)"

fun pull_source_name :: "pull \<Rightarrow> string" where
  "pull_source_name (Full src _ _) = src"
| "pull_source_name (Delta src _ _) = src"

fun pulled :: "pull \<Rightarrow> lapi_decision list" where
  "pulled (Full _ _ ds) = ds"
| "pulled (Delta _ _ delta) = delta_new delta"

definition pull_ok :: "pull \<Rightarrow> bool" where
  "pull_ok p = (\<forall>d \<in> set (pulled p). ld_id d \<noteq> None)"

fun spec_pull :: "pull \<Rightarrow> (identity \<rightharpoonup> int) \<Rightarrow> identity \<rightharpoonup> int" where
  "spec_pull (Full src _ ds) m = spec_bootstrap src ds m"
| "spec_pull (Delta src _ delta) m = spec_stream src delta m"

lemma live_run_pull: "pull_ok p \<Longrightarrow> live (run_pull p db) = spec_pull p (live db)"
  by (cases p) (simp_all add: pull_ok_def bootstrap_refines stream_refines)

lemma spec_pull_commute:
  "pull_source_name p \<noteq> pull_source_name q \<Longrightarrow> spec_pull p (spec_pull q m) = spec_pull q (spec_pull p m)"
  by (cases p; cases q)
    (auto simp: fun_eq_iff spec_bootstrap_def spec_stream_def map_add_def split: option.splits)

text \<open>The pulls of different sources commute: whichever of two parallel pulls writes first, the
  same decisions are live afterwards. This is why the thread pool that runs them needs no ordering.\<close>
theorem pulls_of_different_sources_commute:
  assumes "pull_ok p" "pull_ok q" "pull_source_name p \<noteq> pull_source_name q"
  shows "live (run_pull p (run_pull q db)) = live (run_pull q (run_pull p db))"
  by (simp only: live_run_pull assms(1,2) spec_pull_commute [OF assms(3)])

theorem pulls_of_different_sources_commute_witness:
  "live (run_pull (Full ''a'' 1 [sample_ld 1 ''192.0.2.1'' ''x'']) (run_pull (Delta ''local'' 2 sample_delta) sample_mirror))
   = live (run_pull (Delta ''local'' 2 sample_delta) (run_pull (Full ''a'' 1 [sample_ld 1 ''192.0.2.1'' ''x'']) sample_mirror))"
  by (rule pulls_of_different_sources_commute) (simp_all add: pull_ok_def sample_ld_def sample_delta_def)

section \<open>One row per identity\<close>

lemma mirror_ok_update:
  "mirror_ok db \<Longrightarrow> (\<And>r. row_key (f r) = row_key r) \<Longrightarrow>
   mirror_ok (db\<lparr>decisions := update_rows P f (decisions db)\<rparr>)"
  by (auto simp: mirror_ok_def keys_unique_def map_contents_update)

lemma mirror_ok_upsert: "mirror_ok db \<Longrightarrow> upsert_decision src d now db = Inr db' \<Longrightarrow> mirror_ok db'"
  by (auto simp: upsert_decision_def Let_def mirror_ok_def tables keys_unique_upsert split: option.splits)

lemma mirror_ok_cong: "decisions db = decisions db' \<Longrightarrow> mirror_ok db = mirror_ok db'"
  by (simp add: mirror_ok_def)

text \<open>What a step of the mirror keeps: the invariant, the age of every row, and no identity out of
  thin air.\<close>
definition grows :: "identity set \<Rightarrow> store \<Rightarrow> store \<Rightarrow> bool" where
  "grows ks db db' = ((mirror_ok db \<longrightarrow> mirror_ok db') \<and>
     row_key ` set (contents (decisions db')) \<subseteq> row_key ` set (contents (decisions db)) \<union> ks \<and>
     (\<forall>k r. lookup db k = Some r \<longrightarrow>
        (\<exists>r'. lookup db' k = Some r' \<and> dr_first_seen_at r' = dr_first_seen_at r)))"

lemma grows_refl: "decisions db = decisions db' \<Longrightarrow> grows ks db db'"
  using lookup_cong [of db db'] by (auto simp: grows_def mirror_ok_def)

lemma grows_trans:
  assumes "grows ks a b" "grows ks b c"
  shows "grows ks a c"
proof -
  have "\<exists>r''. lookup c k = Some r'' \<and> dr_first_seen_at r'' = dr_first_seen_at r"
    if "lookup a k = Some r" for k r
  proof -
    from assms(1) that obtain r' where "lookup b k = Some r'" "dr_first_seen_at r' = dr_first_seen_at r"
      unfolding grows_def by blast
    with assms(2) show ?thesis unfolding grows_def by metis
  qed
  moreover have "row_key ` set (contents (decisions c)) \<subseteq> row_key ` set (contents (decisions a)) \<union> ks"
    using assms unfolding grows_def by blast
  ultimately show ?thesis using assms by (simp add: grows_def)
qed

lemma grows_update:
  assumes "\<And>r. row_key (f r) = row_key r" "\<And>r. dr_first_seen_at (f r) = dr_first_seen_at r"
  shows "grows ks db (db\<lparr>decisions := update_rows (\<lambda>_. P) f (decisions db)\<rparr>)"
  using assms by (auto simp: grows_def mirror_ok_update lookup_update tables)

lemma grows_upsert:
  assumes "upsert_decision src d now db = Inr db'" "(src, decision_key d) \<in> ks"
  shows "grows ks db db'"
proof -
  have "row_key ` set (contents (decisions db')) \<subseteq> row_key ` set (contents (decisions db)) \<union> ks"
  proof -
    have "\<exists>new. row_key new = (src, decision_key d) \<and>
        contents (decisions db') = upsert row_key new (refresh_row new) (contents (decisions db))"
      using assms(1) by (auto simp: upsert_decision_def Let_def tables split: option.splits) (metis row_key_new)
    then obtain new where new: "row_key new = (src, decision_key d)"
      "contents (decisions db') = upsert row_key new (refresh_row new) (contents (decisions db))" by blast
    then have "map row_key (contents (decisions db')) =
        (if row_key new \<in> row_key ` set (contents (decisions db)) then map row_key (contents (decisions db))
         else map row_key (contents (decisions db)) @ [row_key new])"
      by (simp add: map_key_upsert)
    then have "set (map row_key (contents (decisions db'))) \<subseteq> row_key ` set (contents (decisions db)) \<union> ks"
      using assms(2) new(1) by auto
    then show ?thesis by simp
  qed
  then show ?thesis
    using mirror_ok_upsert [OF _ assms(1)]
    by (auto simp: grows_def lookup_upsert [OF assms(1)] refresh_row_def)
qed

lemma grows_upsert_all: "(\<And>d. d \<in> set ds \<Longrightarrow> (src, decision_key d) \<in> ks) \<Longrightarrow>
    grows ks db (fst (upsert_all src now ds db))"
proof (induction ds arbitrary: db)
  case (Cons d ds)
  then show ?case
    by (cases "upsert_decision src d now db")
      (auto intro: grows_refl grows_trans [OF grows_upsert])
qed (simp add: grows_refl)

lemma grows_fold: "(\<And>x db. x \<in> set xs \<Longrightarrow> grows ks db (f x db)) \<Longrightarrow> grows ks db (fold f xs db)"
  by (induction xs arbitrary: db) (auto intro: grows_refl grows_trans)

lemma grows_tombstone_missing: "grows ks db (tombstone_missing src now seen db)"
  unfolding tombstone_missing_def
  by (rule grows_fold) (auto simp: Let_def tombstone_def intro: grows_refl grows_update)

lemma grows_stream_deletes: "grows ks db (fold (stream_delete src now) ds db)"
  by (rule grows_fold) (auto simp: stream_delete_def intro: grows_refl grows_update split: option.splits)

lemma grows_cong: "grows ks db db1 \<Longrightarrow> decisions db1 = decisions db2 \<Longrightarrow> grows ks db db2"
  by (rule grows_trans [OF _ grows_refl])

lemma grows_run_pull:
  assumes "(\<lambda>d. (pull_source_name p, decision_key d)) ` set (pulled p) \<subseteq> ks"
  shows "grows ks db (run_pull p db)"
proof (cases p)
  case (Full src now ds)
  obtain db1 e where up: "upsert_all src now ds db = (db1, e)" by force
  have "grows ks db db1"
    using grows_upsert_all [of ds src ks db now] assms up Full by (auto simp: image_subset_iff)
  moreover have "grows ks db1 (fst (bootstrap_apply src now ds db))"
  proof (cases e)
    case None
    then show ?thesis
      by (auto simp: bootstrap_apply_def up Let_def intro: grows_cong [OF grows_tombstone_missing])
  qed (simp add: bootstrap_apply_def up grows_refl)
  ultimately show ?thesis using Full by (auto intro: grows_trans)
next
  case (Delta src now delta)
  obtain db1 e where st: "stream_new src now (delta_new delta) db = (db1, e)" by force
  have "grows ks db (fst (upsert_all src now (delta_new delta) db))"
    using assms Delta by (intro grows_upsert_all) (auto simp: image_subset_iff)
  then have "grows ks db db1"
    using stream_new_upsert_all [of src now "delta_new delta" db] st by (auto intro: grows_cong)
  moreover have "grows ks db1 (fold (stream_delete src now) (delta_deleted delta) db1)"
    by (rule grows_stream_deletes)
  ultimately show ?thesis using Delta
    by (auto simp: stream_apply_delta_def st Let_def grows_refl split: option.splits intro: grows_trans)
qed

text \<open>The mirror tracks state, not history: over any run of pulls, failing ones included, ids and
  identities stay unique, so the table has as many rows as there are identities, no identity appears
  that no pull delivered, and a row, once there, keeps the time it was first seen.\<close>
theorem mirror_one_row_per_identity:
  assumes "mirror_ok db" "db' = fold run_pull ps db"
  shows "mirror_ok db' \<and>
    length (contents (decisions db')) = card (row_key ` set (contents (decisions db'))) \<and>
    row_key ` set (contents (decisions db')) \<subseteq> row_key ` set (contents (decisions db))
      \<union> {(pull_source_name p, decision_key d) | p d. p \<in> set ps \<and> d \<in> set (pulled p)} \<and>
    (\<forall>k r. lookup db k = Some r \<longrightarrow>
       (\<exists>r'. lookup db' k = Some r' \<and> dr_first_seen_at r' = dr_first_seen_at r))"
proof -
  let ?ks = "{(pull_source_name p, decision_key d) | p d. p \<in> set ps \<and> d \<in> set (pulled p)}"
  have "grows ?ks db db'"
    unfolding assms(2) by (rule grows_fold) (rule grows_run_pull, auto)
  moreover from this have "mirror_ok db'" using assms(1) by (simp add: grows_def)
  moreover from this have "card (set (map row_key (contents (decisions db')))) = length (contents (decisions db'))"
    by (simp only: mirror_ok_def keys_unique_def distinct_card length_map)
  ultimately show ?thesis by (simp add: grows_def)
qed

theorem mirror_one_row_per_identity_witness:
  "mirror_ok empty_store \<and>
   length (contents (decisions (fold run_pull
     [Full ''local'' 1 [sample_ld 1 ''192.0.2.1'' ''ssh-bf''], Delta ''local'' 2 sample_delta,
      Full ''local'' 3 [sample_ld 9 ''192.0.2.1'' ''ssh-bf'']] empty_store))) = 1 \<and>
   mirror_ok (fold run_pull
     [Full ''local'' 1 [sample_ld 1 ''192.0.2.1'' ''ssh-bf''], Delta ''local'' 2 sample_delta,
      Full ''local'' 3 [sample_ld 9 ''192.0.2.1'' ''ssh-bf'']] empty_store)"
proof (intro conjI)
  show ok: "mirror_ok empty_store" by code_simp
  show "mirror_ok (fold run_pull
     [Full ''local'' 1 [sample_ld 1 ''192.0.2.1'' ''ssh-bf''], Delta ''local'' 2 sample_delta,
      Full ''local'' 3 [sample_ld 9 ''192.0.2.1'' ''ssh-bf'']] empty_store)"
    using mirror_one_row_per_identity [OF ok refl] by blast
qed code_simp

text \<open>A failed call to the LAPI leaves the mirror as it was.\<close>
lemma upsert_all_error: "upsert_all src now ds db = (db', Some e) \<Longrightarrow> e = KeyError ''id''"
  by (induction ds arbitrary: db) (auto simp: upsert_decision_def Let_def split: option.splits)

lemma bootstrap_failed_call:
  "bootstrap t now http c reg db = (reg', db', Inl (LAPIError s)) \<Longrightarrow> db' = db"
  by (auto simp: bootstrap_def bootstrap_apply_def Let_def split: prod.splits sum.splits option.splits
      dest: upsert_all_error)

lemma stream_new_error: "stream_new src now ds db = (db', Some e) \<Longrightarrow> e = KeyError ''id''"
  by (induction ds arbitrary: db) (auto simp: upsert_decision_def Let_def split: option.splits)

lemma stream_failed_call:
  "stream_apply t now http c reg db = (reg', db', es, Inl (LAPIError s)) \<Longrightarrow> db' = db \<and> es = []"
  by (auto simp: stream_apply_def stream_apply_delta_def Let_def split: prod.splits sum.splits option.splits if_splits
      dest: stream_new_error)

end
