(* ===== verification/Alarms.thy ===== *)
theory Alarms
  imports Store
begin

text \<open>
  Edge-triggered alarms. Several components keep a flag "the operator was told" and compare it with
  a fresh measurement on every check: the SLO alerts, the two disk thresholds, the up and down
  messages of a source. The interface is stated once: a check emits \<open>Raise\<close> exactly when it sets
  the flag and \<open>Clear\<close> exactly when it clears it. Then the messages of any run alternate, so the
  operator gets one message per breach and one per recovery. An alarm with a threshold and a
  recovery margin is a special case.
\<close>

datatype signal = Raise | Clear

text \<open>The messages alternate; the first argument tells whether the alarm is up before them.\<close>
fun alternating :: "bool \<Rightarrow> signal list \<Rightarrow> bool" where
  "alternating up [] = True"
| "alternating up (Raise # xs) = (\<not> up \<and> alternating True xs)"
| "alternating up (Clear # xs) = (up \<and> alternating False xs)"

text \<open>A run of checks and the messages it emits.\<close>
fun run_checks :: "('i \<Rightarrow> 's \<Rightarrow> 's) \<Rightarrow> 'i list \<Rightarrow> 's \<Rightarrow> 's" where
  "run_checks check [] s = s"
| "run_checks check (i # is) s = run_checks check is (check i s)"

fun run_signals :: "('i \<Rightarrow> 's \<Rightarrow> 's) \<Rightarrow> ('i \<Rightarrow> 's \<Rightarrow> signal list) \<Rightarrow> 'i list \<Rightarrow> 's \<Rightarrow> signal list" where
  "run_signals check signals [] s = []"
| "run_signals check signals (i # is) s = signals i s @ run_signals check signals is (check i s)"

fun run_ok :: "('i \<Rightarrow> 's \<Rightarrow> 's) \<Rightarrow> ('i \<Rightarrow> 's \<Rightarrow> bool) \<Rightarrow> 'i list \<Rightarrow> 's \<Rightarrow> bool" where
  "run_ok check ok [] s = True"
| "run_ok check ok (i # is) s = (ok i s \<and> run_ok check ok is (check i s))"

text \<open>The message that goes with a change of the flag.\<close>
definition edge_signal :: "bool \<Rightarrow> bool \<Rightarrow> signal list" where
  "edge_signal before after = (if before = after then [] else if after then [Raise] else [Clear])"

text \<open>The state of the alarm after a list of messages.\<close>
fun up_after :: "bool \<Rightarrow> signal list \<Rightarrow> bool" where
  "up_after up [] = up"
| "up_after up (x # xs) = up_after (x = Raise) xs"

lemma edge_signal_simps [simp]:
  "edge_signal b b = []" "edge_signal False True = [Raise]" "edge_signal True False = [Clear]"
  by (simp_all add: edge_signal_def)

lemma alternating_append: "alternating up (xs @ ys) = (alternating up xs \<and> alternating (up_after up xs) ys)"
proof (induction xs arbitrary: up)
  case (Cons x xs)
  then show ?case by (cases x) auto
qed simp

lemma alternating_edge: "alternating b (edge_signal b a) \<and> up_after b (edge_signal b a) = a"
  by (cases b; cases a) simp_all

lemma up_after_append [simp]: "up_after up (xs @ ys) = up_after (up_after up xs) ys"
  by (induction xs arbitrary: up) auto

lemma alternating_counts:
  "alternating up xs \<Longrightarrow>
   length (filter ((=) Raise) xs) + (if up then 1 else 0) = length (filter ((=) Clear) xs) + (if up_after up xs then 1 else 0)"
proof (induction xs arbitrary: up)
  case (Cons x xs)
  show ?case
  proof (cases x)
    case Raise
    then show ?thesis using Cons.IH [of True] Cons.prems by auto
  next
    case Clear
    then show ?thesis using Cons.IH [of False] Cons.prems by auto
  qed
qed simp

locale edge_alarm =
  fixes alerted :: "'s \<Rightarrow> bool"
    and check :: "'i \<Rightarrow> 's \<Rightarrow> 's"
    and signals :: "'i \<Rightarrow> 's \<Rightarrow> signal list"
    and ok :: "'i \<Rightarrow> 's \<Rightarrow> bool"
  assumes edge: "ok i s \<Longrightarrow> signals i s = edge_signal (alerted s) (alerted (check i s))"
begin

lemma run_edges:
  "run_ok check ok is s \<Longrightarrow>
   alternating (alerted s) (run_signals check signals is s)
   \<and> up_after (alerted s) (run_signals check signals is s) = alerted (run_checks check is s)"
proof (induction "is" arbitrary: s)
  case (Cons i "is")
  then have "alternating (alerted (check i s)) (run_signals check signals is (check i s))
      \<and> up_after (alerted (check i s)) (run_signals check signals is (check i s)) = alerted (run_checks check is (check i s))"
    by simp
  moreover have "signals i s = edge_signal (alerted s) (alerted (check i s))" using Cons.prems edge by simp
  ultimately show ?case using alternating_edge [of "alerted s" "alerted (check i s)"]
    by (simp add: alternating_append)
qed simp

lemma raises_and_clears:
  "run_ok check ok is s \<Longrightarrow>
   length (filter ((=) Raise) (run_signals check signals is s)) + (if alerted s then 1 else 0)
   = length (filter ((=) Clear) (run_signals check signals is s)) + (if alerted (run_checks check is s) then 1 else 0)"
  using run_edges [of "is" s] alternating_counts [of "alerted s" "run_signals check signals is s"] by simp

end

text \<open>An alarm with a threshold: up at \<open>high\<close> or above, down below \<open>low\<close>, unchanged between.\<close>
locale threshold_alarm =
  fixes alerted :: "'s \<Rightarrow> bool"
    and check :: "'i \<Rightarrow> 's \<Rightarrow> 's"
    and signals :: "'i \<Rightarrow> 's \<Rightarrow> signal list"
    and ok :: "'i \<Rightarrow> 's \<Rightarrow> bool"
    and level :: "'i \<Rightarrow> 's \<Rightarrow> rat"
    and high :: "'i \<Rightarrow> 's \<Rightarrow> rat"
    and low :: "'i \<Rightarrow> 's \<Rightarrow> rat"
  assumes flag: "ok i s \<Longrightarrow> alerted (check i s) =
      (if high i s \<le> level i s then True else if level i s < low i s then False else alerted s)"
    and message: "ok i s \<Longrightarrow> signals i s = edge_signal (alerted s) (alerted (check i s))"
begin

sublocale edge_alarm alerted check signals ok
  by unfold_locales (rule message)

text \<open>Inside the margin nothing is sent, and a clear needs a fall below it.\<close>
lemma margin_quiet: "ok i s \<Longrightarrow> low i s \<le> level i s \<Longrightarrow> level i s < high i s \<Longrightarrow> signals i s = []"
  by (simp add: message flag)

lemma cleared_below: "ok i s \<Longrightarrow> Clear \<in> set (signals i s) \<Longrightarrow> level i s < low i s"
  by (auto simp: message flag edge_signal_def split: if_splits)

lemma raised_above: "ok i s \<Longrightarrow> Raise \<in> set (signals i s) \<Longrightarrow> high i s \<le> level i s"
  by (auto simp: message flag edge_signal_def split: if_splits)

end

end
