(* ===== verification/Source_Pull.thy ===== *)
theory Source_Pull
  imports Mirror Alarms
begin

text \<open>
  The pull of one source in a poller cycle (\<open>poller.py\<close>, \<open>_pull_source\<close> and \<open>_in_backoff\<close>): the
  choice between a full pull and a delta, the bookkeeping in the sources table, the exponential
  backoff of a failing source, and the messages on the edges between up and down. The exchange with
  the LAPI and the measured duration are arguments.
\<close>

section \<open>Operations\<close>

text \<open>The dictionaries the poller keeps per source name.\<close>
record pull_state =
  ps_bootstrap_done :: "string \<rightharpoonup> bool"
  ps_fail_streak :: "string \<rightharpoonup> nat"
  ps_prev_lapi_ok :: "string \<rightharpoonup> bool"

definition fresh_pull_state :: pull_state where
  "fresh_pull_state = \<lparr>ps_bootstrap_done = Map.empty, ps_fail_streak = Map.empty, ps_prev_lapi_ok = Map.empty\<rparr>"

definition in_backoff :: "instant \<Rightarrow> source \<Rightarrow> bool" where
  "in_backoff now s = (case s_backoff_until s of None \<Rightarrow> False | Some until \<Rightarrow> now < until)"

record pull_result =
  pl_name :: string
  pl_ok :: bool
  pl_error :: string
  pl_count :: nat
  pl_duration_ms :: int

text \<open>What the outside contributes to one pull: two clocks, the duration, and the answers of the LAPI.\<close>
record pull_input =
  pi_mono :: rat
  pi_now :: instant
  pi_duration_ms :: int
  pi_decisions :: "lapi_decision list http"
  pi_stream :: "lapi_delta http"

type_synonym pull_world = "registry \<times> pull_state \<times> store"

definition backoff_minutes :: "nat \<Rightarrow> nat" where
  "backoff_minutes streak = min 30 (2 ^ (streak - 1))"

definition streak_of :: "string \<Rightarrow> pull_state \<Rightarrow> nat" where
  "streak_of n st = (case ps_fail_streak st n of Some k \<Rightarrow> k | None \<Rightarrow> 0)"

definition prev_ok :: "string \<Rightarrow> pull_state \<Rightarrow> bool" where
  "prev_ok n st = (case ps_prev_lapi_ok st n of Some b \<Rightarrow> b | None \<Rightarrow> True)"

text \<open>The pull itself: everything on the first cycle of a source, deltas afterwards.\<close>
definition fetch_source :: "pull_input \<Rightarrow> source \<Rightarrow> pull_world \<Rightarrow> registry \<times> store \<times> event list \<times> (exn + nat)" where
  "fetch_source i src w =
     (case w of (reg, st, db) \<Rightarrow>
        let c = \<lparr>lc_url = s_url src, lc_api_key = s_api_key src, lc_name = s_name src\<rparr>
        in if ps_bootstrap_done st (s_name src) \<noteq> Some True
           then (case bootstrap (pi_mono i) (pi_now i) (pi_decisions i) c reg db of (reg, db, r) \<Rightarrow> (reg, db, [], r))
           else stream_apply (pi_mono i) (pi_now i) (pi_stream i) c reg db)"

definition up_events :: "source \<Rightarrow> event list" where
  "up_events src =
     [Notify ''lapi_down'' (''Source `'' @ s_name src @ ''` recovered ('' @ s_url src @ '').'') (''Source recovered: '' @ s_name src),
      Ship ''source.up'' [(''source'', Some (s_name src)), (''url'', Some (s_url src))]]"

definition down_events :: "source \<Rightarrow> string \<Rightarrow> nat \<Rightarrow> event list" where
  "down_events src err backoff_min =
     [Notify ''lapi_down'' (''Source `'' @ s_name src @ ''` failed: '' @ err @ ''. Backing off '' @ py_str_nat backoff_min @ '' min.'')
        (''Source down: '' @ s_name src),
      Ship ''source.down'' [(''source'', Some (s_name src)), (''url'', Some (s_url src)), (''error'', Some err),
        (''backoff_min'', Some (py_str_nat backoff_min))]]"

definition pull_source :: "pull_input \<Rightarrow> source \<Rightarrow> pull_world \<Rightarrow> pull_world \<times> event list \<times> pull_result" where
  "pull_source i src w =
     (let n = s_name src; st = fst (snd w); now = pi_now i; ms = pi_duration_ms i;
          out = \<lparr>pl_name = n, pl_ok = False, pl_error = [], pl_count = 0, pl_duration_ms = ms\<rparr>
      in case fetch_source i src w of
           (reg, db, es, Inr count) \<Rightarrow>
             ((reg, st\<lparr>ps_bootstrap_done := (ps_bootstrap_done st)(n \<mapsto> True), ps_fail_streak := (ps_fail_streak st)(n \<mapsto> 0),
                       ps_prev_lapi_ok := (ps_prev_lapi_ok st)(n \<mapsto> True)\<rparr>,
               set_backoff (s_id src) None (record_pull now (s_id src) (int count) [] ms db)),
              es @ (if prev_ok n st then [] else up_events src),
              out\<lparr>pl_ok := True, pl_count := count\<rparr>)
         | (reg, db, es, Inl (LAPIError err)) \<Rightarrow>
             let streak = streak_of n st + 1;
                 backoff_min = backoff_minutes streak
             in ((reg, st\<lparr>ps_fail_streak := (ps_fail_streak st)(n \<mapsto> streak), ps_prev_lapi_ok := (ps_prev_lapi_ok st)(n \<mapsto> False)\<rparr>,
                  set_backoff (s_id src) (Some (now + int backoff_min * MINUTE)) (record_pull now (s_id src) 0 err ms db)),
                 es @ (if prev_ok n st then down_events src err backoff_min else []),
                 out\<lparr>pl_error := err\<rparr>)
         | (reg, db, es, Inl e) \<Rightarrow>
             ((reg, st, record_pull now (s_id src) 0 (exn_str e) ms db), es, out\<lparr>pl_error := exn_str e\<rparr>))"

section \<open>What a pull leaves in the sources table\<close>

lemma sources_upsert_decision: "upsert_decision src d now db = Inr db' \<Longrightarrow> sources db' = sources db"
  by (auto simp: upsert_decision_def Let_def split: option.splits)

lemma sources_track_ip [simp]: "sources (track_ip src now d db) = sources db"
  by (simp add: track_ip_def Let_def)

lemma sources_track_ips [simp]: "sources (fold (track_ip src now) ds db) = sources db"
  by (induction ds arbitrary: db) simp_all

lemma sources_upsert_all: "sources (fst (upsert_all src now ds db)) = sources db"
  by (induction ds arbitrary: db) (auto dest: sources_upsert_decision split: sum.splits)

lemma sources_stream_new: "sources (fst (stream_new src now ds db)) = sources db"
  by (induction ds arbitrary: db) (auto dest: sources_upsert_decision split: sum.splits)

lemma sources_tombstone [simp]: "sources (tombstone src now k db) = sources db"
  by (simp add: tombstone_def)

lemma sources_tombstone_missing [simp]: "sources (tombstone_missing src now seen db) = sources db"
proof -
  have "sources (fold (\<lambda>r db. let k = snd (row_key r) in if k \<notin> seen then tombstone src now k db else db) rs db0) = sources db0"
    for rs db0
    by (induction rs arbitrary: db0) (auto simp: Let_def)
  then show ?thesis by (simp add: tombstone_missing_def)
qed

lemma sources_stream_deletes [simp]: "sources (fold (stream_delete src now) ds db) = sources db"
  by (induction ds arbitrary: db) (simp_all add: stream_delete_def split: option.split)

lemma sources_bootstrap_apply: "sources (fst (bootstrap_apply src now ds db)) = sources db"
  using sources_upsert_all [of src now ds db]
  by (auto simp: bootstrap_apply_def Let_def split: prod.splits option.splits)

lemma sources_stream_apply_delta: "sources (fst (stream_apply_delta src now delta db)) = sources db"
  using sources_stream_new [of src now "delta_new delta" db]
  by (auto simp: stream_apply_delta_def Let_def split: prod.splits option.splits)

lemma sources_fetch: "fetch_source i src (reg, st, db) = (reg', db', es, r) \<Longrightarrow> sources db' = sources db"
  using sources_bootstrap_apply sources_stream_apply_delta
  by (auto simp: fetch_source_def bootstrap_def stream_apply_def Let_def split: prod.splits sum.splits if_splits)
    (metis fst_conv)+

text \<open>The row of a source.\<close>
definition source_row_of :: "nat \<Rightarrow> store \<Rightarrow> source_row option" where
  "source_row_of i db = map_of (rows (sources db)) i"

lemma map_of_update_rows: "map_of (rows (update_rows (\<lambda>j _. j = i) f t)) k = (if k = i then map_option f (map_of (rows t) k) else map_of (rows t) k)"
proof -
  have "map_of (map (\<lambda>(j, r). (j, if j = i then f r else r)) rs) k = (if k = i then map_option f (map_of rs k) else map_of rs k)"
    for rs :: "(nat \<times> 'a) list"
    by (induction rs) auto
  then show ?thesis by (simp add: update_rows_def)
qed

lemma source_row_simps [simp]:
  "source_row_of k (set_backoff i u db) = (if k = i then map_option (\<lambda>r. r\<lparr>src_backoff_until := u\<rparr>) (source_row_of k db) else source_row_of k db)"
  "source_row_of k (record_pull now i n e ms db) = (if k = i then map_option (\<lambda>r. r\<lparr>src_last_pull_at := Some now, src_last_pull_n := n,
      src_last_error := e, src_last_pull_ms := ms\<rparr>) (source_row_of k db) else source_row_of k db)"
  by (simp_all add: source_row_of_def set_backoff_def record_pull_def update_source_def map_of_update_rows)

lemma source_row_cong: "sources db = sources db' \<Longrightarrow> source_row_of i db = source_row_of i db'"
  by (simp add: source_row_of_def)

section \<open>Runs of pulls of one source\<close>

text \<open>A pull, after whatever the rest of the program did; the rest leaves this source's entries alone.\<close>
type_synonym pull_call = "(pull_world \<Rightarrow> pull_world) \<times> pull_input"

definition pull_step :: "source \<Rightarrow> pull_call \<Rightarrow> pull_world \<Rightarrow> pull_world" where
  "pull_step src c w = fst (pull_source (snd c) src (fst c w))"

definition fetch_outcome :: "source \<Rightarrow> pull_call \<Rightarrow> pull_world \<Rightarrow> exn + nat" where
  "fetch_outcome src c w = snd (snd (snd (fetch_source (snd c) src (fst c w))))"

definition pull_fails :: "source \<Rightarrow> pull_call \<Rightarrow> pull_world \<Rightarrow> bool" where
  "pull_fails src c w = (case fetch_outcome src c w of Inl (LAPIError _) \<Rightarrow> True | _ \<Rightarrow> False)"

definition w_state :: "pull_world \<Rightarrow> pull_state" where "w_state w = fst (snd w)"
definition w_store :: "pull_world \<Rightarrow> store" where "w_store w = snd (snd w)"

definition keeps_source :: "source \<Rightarrow> pull_call \<Rightarrow> pull_world \<Rightarrow> bool" where
  "keeps_source src c w =
     (streak_of (s_name src) (w_state (fst c w)) = streak_of (s_name src) (w_state w)
      \<and> prev_ok (s_name src) (w_state (fst c w)) = prev_ok (s_name src) (w_state w)
      \<and> source_row_of (s_id src) (w_store (fst c w)) = source_row_of (s_id src) (w_store w))"

lemma pull_step_cases:
  obtains (ok) count es where "fetch_outcome src c w = Inr count"
      "streak_of (s_name src) (w_state (pull_step src c w)) = 0" "prev_ok (s_name src) (w_state (pull_step src c w))"
      "fst (snd (pull_source (snd c) src (fst c w))) = es @ (if prev_ok (s_name src) (w_state (fst c w)) then [] else up_events src)"
      "es = fst (snd (snd (fetch_source (snd c) src (fst c w))))"
      "source_row_of (s_id src) (w_store (pull_step src c w)) = map_option (\<lambda>r. r\<lparr>src_last_pull_at := Some (pi_now (snd c)),
         src_last_pull_n := int count, src_last_error := [], src_last_pull_ms := pi_duration_ms (snd c), src_backoff_until := None\<rparr>)
         (source_row_of (s_id src) (w_store (fst c w)))"
    | (failed) err es k where "fetch_outcome src c w = Inl (LAPIError err)" "k = streak_of (s_name src) (w_state (fst c w)) + 1"
      "streak_of (s_name src) (w_state (pull_step src c w)) = k" "\<not> prev_ok (s_name src) (w_state (pull_step src c w))"
      "fst (snd (pull_source (snd c) src (fst c w))) =
         es @ (if prev_ok (s_name src) (w_state (fst c w)) then down_events src err (backoff_minutes k) else [])"
      "es = fst (snd (snd (fetch_source (snd c) src (fst c w))))"
      "source_row_of (s_id src) (w_store (pull_step src c w)) = map_option (\<lambda>r. r\<lparr>src_last_pull_at := Some (pi_now (snd c)),
         src_last_pull_n := 0, src_last_error := err, src_last_pull_ms := pi_duration_ms (snd c),
         src_backoff_until := Some (pi_now (snd c) + int (backoff_minutes k) * MINUTE)\<rparr>) (source_row_of (s_id src) (w_store (fst c w)))"
    | (crashed) e where "fetch_outcome src c w = Inl e" "\<not> pull_fails src c w" "w_state (pull_step src c w) = w_state (fst c w)"
      "fst (snd (pull_source (snd c) src (fst c w))) = fst (snd (snd (fetch_source (snd c) src (fst c w))))"
proof -
  obtain reg st db where w: "fst c w = (reg, st, db)" using prod_cases3 by blast
  obtain reg' db' es r where f: "fetch_source (snd c) src (reg, st, db) = (reg', db', es, r)" using prod_cases4 by blast
  have row: "source_row_of k db' = source_row_of k db" for k using sources_fetch [OF f] by (rule source_row_cong)
  note defs = fetch_outcome_def pull_fails_def pull_step_def pull_source_def w_state_def w_store_def Let_def
  show thesis
  proof (cases r)
    case (Inr count)
    show thesis
      by (rule ok [of count es]) (use w f row Inr in
          \<open>auto simp: defs streak_of_def prev_ok_def option.map_comp comp_def intro!: option.map_cong\<close>)
  next
    case (Inl e)
    show thesis
    proof (cases "\<exists>err. e = LAPIError err")
      case True
      then obtain err where e: "e = LAPIError err" by blast
      show thesis
        by (rule failed [of err "streak_of (s_name src) st + 1" es]) (use w f row Inl e in
            \<open>auto simp: defs streak_of_def prev_ok_def option.map_comp comp_def intro!: option.map_cong\<close>)
    next
      case False
      show thesis
        by (rule crashed [of e]) (use w f Inl False in \<open>auto simp: defs split: exn.splits\<close>)
    qed
  qed
qed


text \<open>A success clears the streak and the backoff.\<close>
lemma success_clears_backoff:
  assumes "fetch_outcome src c w = Inr count" and "source_row_of (s_id src) (w_store (fst c w)) = Some row0"
  shows "streak_of (s_name src) (w_state (pull_step src c w)) = 0
    \<and> (\<exists>row. source_row_of (s_id src) (w_store (pull_step src c w)) = Some row \<and> \<not> in_backoff now (source_of_row (s_id src, row)))"
  by (cases rule: pull_step_cases [of src c w]) (use assms in \<open>auto simp: in_backoff_def source_of_row_def\<close>)

section \<open>Messages\<close>

fun ship_kind :: "event \<Rightarrow> string" where
  "ship_kind (Ship k _) = k"
| "ship_kind _ = []"

definition pull_signals :: "source \<Rightarrow> pull_call \<Rightarrow> pull_world \<Rightarrow> signal list" where
  "pull_signals src c w =
     (let kinds = map ship_kind (fst (snd (pull_source (snd c) src (fst c w))))
      in (if ''source.down'' \<in> set kinds then [Raise] else []) @ (if ''source.up'' \<in> set kinds then [Clear] else []))"

lemma fetch_kinds:
  "''source.down'' \<notin> ship_kind ` set (fst (snd (snd (fetch_source i src w))))"
  "''source.up'' \<notin> ship_kind ` set (fst (snd (snd (fetch_source i src w))))"
  by (auto simp: fetch_source_def stream_apply_def stream_apply_delta_def Let_def created_event_def deleted_event_def
      split: prod.splits sum.splits option.splits if_splits)

lemma pull_signals_extra:
  assumes "fst (snd (pull_source (snd c) src (fst c w))) = fst (snd (snd (fetch_source (snd c) src (fst c w)))) @ extra"
  shows "pull_signals src c w = (if ''source.down'' \<in> ship_kind ` set extra then [Raise] else [])
    @ (if ''source.up'' \<in> ship_kind ` set extra then [Clear] else [])"
  using fetch_kinds [of "snd c" src "fst c w"] unfolding pull_signals_def assms Let_def by (simp add: image_Un)

interpretation source_alarm: edge_alarm "\<lambda>w. \<not> prev_ok (s_name src) (w_state w)" "pull_step src" "pull_signals src" "keeps_source src" for src
proof
  fix c w assume k: "keeps_source src c w"
  show "pull_signals src c w = edge_signal (\<not> prev_ok (s_name src) (w_state w)) (\<not> prev_ok (s_name src) (w_state (pull_step src c w)))"
  proof (cases rule: pull_step_cases [of src c w])
    case (ok count es)
    then show ?thesis using k pull_signals_extra [OF ok(4) [unfolded ok(5)]]
      by (cases "prev_ok (s_name src) (w_state w)") (simp_all add: keeps_source_def up_events_def edge_signal_def)
  next
    case (failed err es n)
    then show ?thesis using k pull_signals_extra [OF failed(5) [unfolded failed(6)]]
      by (cases "prev_ok (s_name src) (w_state w)") (simp_all add: keeps_source_def down_events_def edge_signal_def)
  next
    case (crashed e)
    then show ?thesis using k pull_signals_extra [of c src w "[]"] by (simp add: keeps_source_def edge_signal_def)
  qed
qed

text \<open>The "down" and "recovered" messages about a source alternate, however its pulls go.\<close>
lemma source_messages_alternate:
  assumes "run_ok (pull_step src) (keeps_source src) calls w" and "prev_ok (s_name src) (w_state w)"
  shows "alternating False (run_signals (pull_step src) (pull_signals src) calls w)"
  using source_alarm.run_edges [OF assms(1)] assms(2) by simp

section \<open>Examples\<close>

definition remote_row :: source_row where
  "remote_row = new_source_row 0 ''remote'' ''http://192.0.2.9:8080'' ''key'' 50"

definition remote :: source where "remote = source_of_row (2, remote_row)"

definition remote_world :: pull_world where
  "remote_world = ([], fresh_pull_state, empty_store\<lparr>sources := \<lparr>rows = [(2, remote_row)], seq = 2\<rparr>\<rparr>)"

fun time_out :: "'b http" where "time_out url params = Inl ''timed out''"

definition unreachable :: "instant \<Rightarrow> pull_call" where
  "unreachable t = (id, \<lparr>pi_mono = of_int (t div SECOND), pi_now = t, pi_duration_ms = 5, pi_decisions = time_out,
     pi_stream = time_out\<rparr>)"

lemma lapi_get_time_out: "\<exists>reg' err. lapi_get db now time_out c path ps reg = (reg', Inl (LAPIError err))"
  by (auto simp: lapi_get_def Let_def split: prod.splits)

lemma client_time_out:
  "\<exists>reg' err. client_decisions db now time_out c scope reg = (reg', Inl (LAPIError err))"
  "\<exists>reg' err. client_decisions_stream db now time_out c startup reg = (reg', Inl (LAPIError err))"
proof -
  from lapi_get_time_out obtain reg1 e1 where
    "lapi_get db now time_out c ''/v1/decisions'' [(''scope'', scope), (''type'', ''ban'')] reg
      = (reg1, Inl (LAPIError e1) :: exn + lapi_decision list option)" by blast
  then show "\<exists>reg' err. client_decisions db now time_out c scope reg = (reg', Inl (LAPIError err))"
    by (simp add: client_decisions_def)
  from lapi_get_time_out obtain reg2 e2 where
    "lapi_get db now time_out c ''/v1/decisions/stream''
       ((''scopes'', ''Ip,Range'') # (if startup then [(''startup'', ''true'')] else [])) reg
      = (reg2, Inl (LAPIError e2) :: exn + lapi_delta option)" by blast
  then show "\<exists>reg' err. client_decisions_stream db now time_out c startup reg = (reg', Inl (LAPIError err))"
    by (simp add: client_decisions_stream_def)
qed

lemma unreachable_fails: "pull_fails src (unreachable t) w"
proof -
  obtain reg st db where w: "w = (reg, st, db)" using prod_cases3 by blast
  let ?c = "\<lparr>lc_url = s_url src, lc_api_key = s_api_key src, lc_name = s_name src\<rparr>"
  obtain reg1 e1 where "client_decisions db (of_int (t div SECOND)) time_out ?c ''Ip'' reg = (reg1, Inl (LAPIError e1))"
    using client_time_out(1) by blast
  moreover obtain reg2 e2 where
    "client_decisions_stream db (of_int (t div SECOND)) time_out ?c False reg = (reg2, Inl (LAPIError e2))"
    using client_time_out(2) by blast
  ultimately show ?thesis
    by (simp add: w pull_fails_def fetch_outcome_def fetch_source_def unreachable_def bootstrap_def stream_apply_def Let_def)
qed


end
