(* ===== verification/Reconcile.thy ===== *)
theory Reconcile
  imports Py_Prelude
begin

text \<open>
  The diff engine, \<open>src/reconcile.py\<close>: the ownership comment Protek writes on every entry
  (\<open>encode_comment\<close>, \<open>decode_comment\<close>, \<open>is_owned\<close>), the address normalisation and the pure
  \<open>reconcile\<close> of desired decisions against the entries of an address-list.

  The loops of \<open>reconcile\<close> are the functions \<open>collect_desired\<close>, \<open>split_owned\<close>,
  \<open>diff_adds\<close> and \<open>diff_removes\<close>, run in the order of the source. A decision and an
  address-list entry are dictionaries in the source; here they are records whose optional
  fields are \<open>None\<close> where the key is missing or holds \<open>None\<close>.
\<close>

section \<open>Data\<close>

record decision =
  d_value :: "string option"
  d_scope :: "string option"
  d_scenario :: "string option"
  d_origin :: "string option"
  d_origin_source :: "string option"
  d_lapi_id :: "int option"
  d_id :: "int option"

record entry =
  e_id :: "string option"
  e_dot_id :: "string option"
  e_numbers :: "string option"
  e_address :: "string option"
  e_comment :: "string option"
  e_list :: "string option"

record comment_meta =
  cm_origin_source :: string
  cm_scenario :: string
  cm_lapi_id :: string

record reconcile_diff =
  to_add :: "(string \<times> string) list"
  to_remove :: "string list"
  unchanged :: nat
  foreign_kept :: nat

definition empty_diff :: reconcile_diff where
  "empty_diff = \<lparr>to_add = [], to_remove = [], unchanged = 0, foreign_kept = 0\<rparr>"

definition changes :: "reconcile_diff \<Rightarrow> nat" where
  "changes d = length (to_add d) + length (to_remove d)"

section \<open>The ownership comment\<close>

definition OWNER_PREFIX :: string where
  "OWNER_PREFIX = ''protek:''"

definition sanitize :: "string \<Rightarrow> string" where
  "sanitize s = py_strip (py_replace_char (CHR '':'') (CHR ''_'') s)"

text \<open>\<open>str(decision.get("lapi_id") or decision.get("id") or "0")\<close>; the integer 0 is falsy.\<close>
definition lapi_id_text :: "decision \<Rightarrow> string" where
  "lapi_id_text d =
     (case d_lapi_id d of
        Some n \<Rightarrow> if n \<noteq> 0 then py_str_int n
                   else (case d_id d of Some m \<Rightarrow> if m \<noteq> 0 then py_str_int m else ''0'' | None \<Rightarrow> ''0'')
      | None \<Rightarrow> (case d_id d of Some m \<Rightarrow> if m \<noteq> 0 then py_str_int m else ''0'' | None \<Rightarrow> ''0''))"

definition encode_comment :: "decision \<Rightarrow> string" where
  "encode_comment d =
     (let src = sanitize (str_or (d_origin_source d) ''local'');
          scen = sanitize (str_or (d_scenario d) '''');
          lid = sanitize (lapi_id_text d)
      in OWNER_PREFIX @ src @ '':'' @ scen @ '':'' @ lid)"

text \<open>The \<open>while len(parts) < 3: parts.append("")\<close> loop.\<close>
definition pad_parts :: "string list \<Rightarrow> string list" where
  "pad_parts parts = parts @ replicate (3 - length parts) []"

definition decode_comment :: "string option \<Rightarrow> comment_meta option" where
  "decode_comment comment =
     (case comment of
        None \<Rightarrow> None
      | Some c \<Rightarrow>
          if c = [] \<or> \<not> py_startswith c OWNER_PREFIX then None
          else
            let body = drop (length OWNER_PREFIX) c;
                parts = pad_parts (py_split_max (CHR '':'') 2 body)
            in Some \<lparr>cm_origin_source = parts ! 0, cm_scenario = parts ! 1, cm_lapi_id = parts ! 2\<rparr>)"

definition is_owned :: "string option \<Rightarrow> bool" where
  "is_owned comment =
     (case comment of None \<Rightarrow> False | Some c \<Rightarrow> c \<noteq> [] \<and> py_startswith c OWNER_PREFIX)"

definition normalize_addr :: "string option \<Rightarrow> string" where
  "normalize_addr addr =
     (let a = py_lower (py_strip (str_or addr ''''));
          b = (if py_endswith a ''/32'' then take (length a - 3) a else a)
      in if py_endswith b ''/128'' then take (length b - 4) b else b)"

section \<open>The diff\<close>

fun collect_desired :: "(string \<times> decision) list \<Rightarrow> decision list \<Rightarrow> (string \<times> decision) list" where
  "collect_desired acc [] = acc"
| "collect_desired acc (d # ds) =
     (let val = py_strip (str_or (d_value d) '''')
      in if val = [] then collect_desired acc ds
         else collect_desired (py_setdefault val d acc) ds)"

fun split_owned :: "(string \<times> entry) list \<Rightarrow> reconcile_diff \<Rightarrow> entry list
    \<Rightarrow> (string \<times> entry) list \<times> reconcile_diff" where
  "split_owned owned diff [] = (owned, diff)"
| "split_owned owned diff (e # es) =
     (if is_owned (e_comment e)
      then split_owned (AList.update (normalize_addr (e_address e)) e owned) diff es
      else split_owned owned (diff\<lparr>foreign_kept := foreign_kept diff + 1\<rparr>) es)"

fun diff_adds :: "(string \<times> entry) list \<Rightarrow> reconcile_diff \<Rightarrow> (string \<times> decision) list
    \<Rightarrow> reconcile_diff" where
  "diff_adds owned diff [] = diff"
| "diff_adds owned diff ((addr, d) # items) =
     (if normalize_addr (Some addr) \<in> set (map fst owned)
      then diff_adds owned (diff\<lparr>unchanged := unchanged diff + 1\<rparr>) items
      else diff_adds owned (diff\<lparr>to_add := to_add diff @ [(addr, encode_comment d)]\<rparr>) items)"

text \<open>\<open>e.get("id") or e.get(".id")\<close>; \<open>None\<close> when neither is truthy.\<close>
definition diff_entry_id :: "entry \<Rightarrow> string option" where
  "diff_entry_id e =
     (if str_truthy (e_id e) then e_id e
      else if str_truthy (e_dot_id e) then e_dot_id e else None)"

fun diff_removes :: "string set \<Rightarrow> reconcile_diff \<Rightarrow> (string \<times> entry) list \<Rightarrow> reconcile_diff" where
  "diff_removes desired_norm diff [] = diff"
| "diff_removes desired_norm diff ((addr, e) # items) =
     (if addr \<in> desired_norm then diff_removes desired_norm diff items
      else case diff_entry_id e of
             None \<Rightarrow> diff_removes desired_norm diff items
           | Some eid \<Rightarrow> diff_removes desired_norm (diff\<lparr>to_remove := to_remove diff @ [eid]\<rparr>) items)"

definition reconcile :: "decision list \<Rightarrow> entry list \<Rightarrow> reconcile_diff" where
  "reconcile desired_decisions current_mt_entries =
     (let desired_by_addr = collect_desired [] desired_decisions;
          (owned_by_addr, diff) = split_owned [] empty_diff current_mt_entries;
          diff = diff_adds owned_by_addr diff desired_by_addr;
          desired_norm = set (map (\<lambda>a. normalize_addr (Some a)) (map fst desired_by_addr))
      in diff_removes desired_norm diff owned_by_addr)"

section \<open>Vocabulary of the specification\<close>

text \<open>The address a decision asks for, the addresses a decision list asks for, and the
  entries of an address-list that are Protek's.\<close>

definition dec_key :: "decision \<Rightarrow> string" where
  "dec_key d = py_strip (str_or (d_value d) '''')"

definition desired_keys :: "decision list \<Rightarrow> string set" where
  "desired_keys ds = {dec_key d | d. d \<in> set ds \<and> dec_key d \<noteq> []}"

definition addr_norm :: "string \<Rightarrow> string" where
  "addr_norm a = normalize_addr (Some a)"

definition entry_norm :: "entry \<Rightarrow> string" where
  "entry_norm e = normalize_addr (e_address e)"

definition owned_entries :: "entry list \<Rightarrow> entry list" where
  "owned_entries es = filter (\<lambda>e. is_owned (e_comment e)) es"

definition owned_norms :: "entry list \<Rightarrow> string set" where
  "owned_norms es = entry_norm ` set (owned_entries es)"

text \<open>Protek's entries nobody asks for any more.\<close>
definition stale :: "decision list \<Rightarrow> entry list \<Rightarrow> entry list" where
  "stale ds es = filter (\<lambda>e. entry_norm e \<notin> addr_norm ` desired_keys ds) (owned_entries es)"

lemma desired_keys_code [code]: "desired_keys ds = set (filter (\<lambda>k. k \<noteq> []) (map dec_key ds))"
  by (auto simp: desired_keys_def)

section \<open>The loops in closed form\<close>

named_theorems diff_loops "closed forms of the loops of reconcile"

lemma collect_desired_distinct:
  "distinct (map fst acc) \<Longrightarrow> distinct (map fst (collect_desired acc ds))"
  by (induction ds arbitrary: acc) (simp_all add: Let_def)

lemma collect_desired_keys:
  "set (map fst (collect_desired acc ds)) = set (map fst acc) \<union> desired_keys ds"
proof (induction ds arbitrary: acc)
  case Nil
  then show ?case by (simp add: desired_keys_def)
next
  case (Cons d ds)
  have keys: "desired_keys (d # ds) =
      (if dec_key d = [] then {} else {dec_key d}) \<union> desired_keys ds"
    by (auto simp: desired_keys_def)
  show ?case
    using Cons.IH [of acc] Cons.IH [of "py_setdefault (dec_key d) d acc"]
    by (simp add: Let_def keys keys_py_setdefault [simplified] flip: dec_key_def)
qed

text \<open>The decision kept for an address is the first one that asks for it.\<close>
lemma collect_desired_lookup:
  "map_of (collect_desired acc ds) k =
     (case map_of acc k of
        Some d \<Rightarrow> Some d
      | None \<Rightarrow> if k = [] then None else find (\<lambda>d. dec_key d = k) ds)"
proof (induction ds arbitrary: acc)
  case (Cons d ds)
  then show ?case
    by (auto simp: Let_def map_of_py_setdefault split: option.split simp flip: dec_key_def)
qed (simp split: option.split)

lemma collect_desired_item:
  "(k, d) \<in> set (collect_desired [] ds) \<longleftrightarrow> k \<noteq> [] \<and> find (\<lambda>d. dec_key d = k) ds = Some d"
proof -
  have "(k, d) \<in> set (collect_desired [] ds) \<longleftrightarrow> map_of (collect_desired [] ds) k = Some d"
    using collect_desired_distinct [of "[]" ds] by (simp add: map_of_eq_Some_iff)
  then show ?thesis by (auto simp: collect_desired_lookup)
qed

lemma split_owned_closed [diff_loops]:
  "split_owned owned diff es =
     (foldl (\<lambda>m e. AList.update (entry_norm e) e m) owned (owned_entries es),
      diff\<lparr>foreign_kept := foreign_kept diff + length (filter (\<lambda>e. \<not> is_owned (e_comment e)) es)\<rparr>)"
  by (induction es arbitrary: owned diff) (simp_all add: owned_entries_def entry_norm_def)

lemma diff_adds_closed [diff_loops]:
  "diff_adds owned diff items =
     diff\<lparr>to_add := to_add diff @ map (\<lambda>(a, d). (a, encode_comment d))
             (filter (\<lambda>(a, d). addr_norm a \<notin> fst ` set owned) items),
          unchanged := unchanged diff +
             length (filter (\<lambda>(a, d). addr_norm a \<in> fst ` set owned) items)\<rparr>"
  by (induction owned diff items rule: diff_adds.induct) (simp_all add: addr_norm_def)

definition removal_ids :: "string set \<Rightarrow> (string \<times> entry) list \<Rightarrow> string list" where
  "removal_ids N items =
     List.map_filter (\<lambda>(a, e). if a \<in> N then None else diff_entry_id e) items"

lemma diff_removes_closed [diff_loops]:
  "diff_removes N diff items = diff\<lparr>to_remove := to_remove diff @ removal_ids N items\<rparr>"
proof (induction N diff items rule: diff_removes.induct)
  case (2 N diff addr e items)
  then show ?case
    by (cases "diff_entry_id e") (simp_all add: removal_ids_def List.map_filter_def)
qed (simp add: removal_ids_def List.map_filter_def)

text \<open>The dictionary of owned entries by address.\<close>
definition owned_map :: "entry list \<Rightarrow> (string \<times> entry) list" where
  "owned_map es = foldl (\<lambda>m e. AList.update (entry_norm e) e m) [] (owned_entries es)"

lemma owned_fold_keys:
  "fst ` set (foldl (\<lambda>m e. AList.update (entry_norm e) e m) m es) = fst ` set m \<union> entry_norm ` set es"
  by (induction es arbitrary: m) (auto simp: dom_update)

lemma owned_fold_distinct:
  "distinct (map fst m) \<Longrightarrow>
   distinct (map fst (foldl (\<lambda>m e. AList.update (entry_norm e) e m) m es))"
  by (induction es arbitrary: m) (auto simp: distinct_update)

lemma owned_fold_range:
  "(a, e) \<in> set (foldl (\<lambda>m e. AList.update (entry_norm e) e m) m es) \<Longrightarrow>
   (a, e) \<in> set m \<or> (e \<in> set es \<and> a = entry_norm e)"
  by (induction es arbitrary: m) (fastforce dest: set_update_item)+

lemma owned_map_keys: "fst ` set (owned_map es) = owned_norms es"
  by (simp add: owned_map_def owned_fold_keys owned_norms_def)

lemma owned_map_distinct: "distinct (map fst (owned_map es))"
  by (simp add: owned_map_def owned_fold_distinct)

lemma owned_map_item: "(a, e) \<in> set (owned_map es) \<Longrightarrow> e \<in> set (owned_entries es) \<and> a = entry_norm e"
  unfolding owned_map_def using owned_fold_range [where m = "[]"] by fastforce

lemma owned_map_ex: "a \<in> owned_norms es \<Longrightarrow> \<exists>e. (a, e) \<in> set (owned_map es)"
  using owned_map_keys [of es] by force

lemma reconcile_closed:
  "reconcile ds es =
     \<lparr>to_add = map (\<lambda>(a, d). (a, encode_comment d))
        (filter (\<lambda>(a, d). addr_norm a \<notin> owned_norms es) (collect_desired [] ds)),
      to_remove = removal_ids (addr_norm ` desired_keys ds) (owned_map es),
      unchanged = length (filter (\<lambda>(a, d). addr_norm a \<in> owned_norms es) (collect_desired [] ds)),
      foreign_kept = length (filter (\<lambda>e. \<not> is_owned (e_comment e)) es)\<rparr>"
proof -
  have "(\<lambda>a. normalize_addr (Some a)) ` fst ` set (collect_desired [] ds) = addr_norm ` desired_keys ds"
    using collect_desired_keys [of "[]" ds] by (simp add: addr_norm_def [abs_def])
  then show ?thesis
    by (simp add: reconcile_def diff_loops empty_diff_def owned_map_def [symmetric] owned_map_keys
        image_image Let_def)
qed

section \<open>The comment: round trip and ownership\<close>

lemma sanitize_no_colon: "CHR '':'' \<notin> set (sanitize s)"
  unfolding sanitize_def using set_py_strip py_replace_char_notin [of "CHR '':''" "CHR ''_''" s] by blast

lemma split_three:
  assumes "c \<notin> set a" "c \<notin> set b"
  shows "py_split_max c 2 (a @ [c] @ b @ [c] @ r) = [a, b, r]"
  using assms py_split_max_piece [of c a 1 "b @ c # r"] py_split_max_piece [of c b 0 r]
  by (simp add: numeral_2_eq_2)

lemma is_owned_encode [simp]: "is_owned (Some (encode_comment d))"
  by (simp add: is_owned_def encode_comment_def Let_def OWNER_PREFIX_def py_startswith_def)

text \<open>(C40) Comment round trip. Decoding the comment Protek writes for a decision gives back the
  decision's source, scenario and LAPI id, each as sanitised, and the comment is recognised as
  Protek's own: colons in a scenario name cannot shift the fields.\<close>

theorem decode_encode_comment:
  "decode_comment (Some (encode_comment d)) =
     Some \<lparr>cm_origin_source = sanitize (str_or (d_origin_source d) ''local''),
           cm_scenario = sanitize (str_or (d_scenario d) ''''),
           cm_lapi_id = sanitize (lapi_id_text d)\<rparr>
   \<and> is_owned (Some (encode_comment d))"
proof -
  let ?a = "sanitize (str_or (d_origin_source d) ''local'')"
  let ?b = "sanitize (str_or (d_scenario d) '''')"
  let ?l = "sanitize (lapi_id_text d)"
  have split: "py_split_max (CHR '':'') 2 (?a @ '':'' @ ?b @ '':'' @ ?l) = [?a, ?b, ?l]"
    by (rule split_three) (rule sanitize_no_colon)+
  have start: "py_startswith (encode_comment d) OWNER_PREFIX"
    by (simp add: encode_comment_def Let_def)
  have body: "drop (length OWNER_PREFIX) (encode_comment d) = ?a @ '':'' @ ?b @ '':'' @ ?l"
    by (simp add: encode_comment_def Let_def)
  have nonempty: "encode_comment d \<noteq> []"
    by (simp add: encode_comment_def Let_def OWNER_PREFIX_def)
  show ?thesis
    using start nonempty by (simp add: decode_comment_def body split pad_parts_def Let_def
        del: append.simps)
qed

section \<open>What the diff proposes\<close>

definition entry_ids :: "entry list \<Rightarrow> string list" where
  "entry_ids es = List.map_filter diff_entry_id es"

lemma removal_ids_iff:
  "i \<in> set (removal_ids N items) \<longleftrightarrow> (\<exists>(a, e) \<in> set items. a \<notin> N \<and> diff_entry_id e = Some i)"
  by (induction items) (auto simp: removal_ids_def map_filter_simps split: option.splits if_splits)

lemma to_remove_entry:
  assumes "i \<in> set (to_remove (reconcile ds es))"
  shows "\<exists>e \<in> set (stale ds es). diff_entry_id e = Some i"
proof -
  from assms obtain a e where ae: "(a, e) \<in> set (owned_map es)"
    and "a \<notin> addr_norm ` desired_keys ds" and "diff_entry_id e = Some i"
    by (auto simp: reconcile_closed removal_ids_iff)
  with owned_map_item [OF ae] show ?thesis by (auto simp: stale_def)
qed

lemma entry_ids_unique:
  assumes "distinct (entry_ids es)" "e \<in> set es" "f \<in> set es"
    "diff_entry_id e = Some i" "diff_entry_id f = Some i"
  shows "e = f"
  using assms
proof (induction es)
  case (Cons x es)
  have mem: "diff_entry_id y = Some i \<Longrightarrow> y \<in> set es \<Longrightarrow> i \<in> set (entry_ids es)" for y
    by (force simp: entry_ids_def List.map_filter_def)
  from Cons show ?case
    by (cases "diff_entry_id x") (auto simp: entry_ids_def List.map_filter_def dest: mem
        [unfolded entry_ids_def List.map_filter_def])
qed simp

text \<open>(C1) The ownership rule. Where the ids of the address-list are unique, an entry without the
  \<open>protek:\<close> comment is never proposed for removal, whatever the desired set is; and every
  proposed removal is the id of an entry of Protek's that no decision asks for.\<close>

theorem foreign_entries_never_removed:
  assumes "distinct (entry_ids es)"
    and "f \<in> set es" "\<not> is_owned (e_comment f)" "diff_entry_id f = Some i"
  shows "i \<notin> set (to_remove (reconcile ds es))
    \<and> (\<forall>j \<in> set (to_remove (reconcile ds es)). \<exists>e \<in> set es. is_owned (e_comment e)
         \<and> diff_entry_id e = Some j \<and> entry_norm e \<notin> addr_norm ` desired_keys ds)"
proof
  show "i \<notin> set (to_remove (reconcile ds es))"
  proof
    assume "i \<in> set (to_remove (reconcile ds es))"
    then obtain e where e: "e \<in> set (stale ds es)" "diff_entry_id e = Some i"
      using to_remove_entry by blast
    then have "e \<in> set es" "is_owned (e_comment e)" by (auto simp: stale_def owned_entries_def)
    with entry_ids_unique [OF assms(1) _ assms(2) e(2) assms(4)] assms(3) show False by simp
  qed
  show "\<forall>j \<in> set (to_remove (reconcile ds es)). \<exists>e \<in> set es. is_owned (e_comment e)
         \<and> diff_entry_id e = Some j \<and> entry_norm e \<notin> addr_norm ` desired_keys ds"
    using to_remove_entry [of _ ds es] by (fastforce simp: stale_def owned_entries_def)
qed

definition sample_decision :: "string \<Rightarrow> int \<Rightarrow> decision" where
  "sample_decision v n = \<lparr>d_value = Some v, d_scope = Some ''Ip'', d_scenario = Some ''crowdsecurity/ssh-bf'',
     d_origin = Some ''crowdsec'', d_origin_source = Some ''local'', d_lapi_id = Some n, d_id = None\<rparr>"

definition sample_entry :: "string \<Rightarrow> string \<Rightarrow> string \<Rightarrow> entry" where
  "sample_entry i a c = \<lparr>e_id = None, e_dot_id = Some i, e_numbers = None, e_address = Some a,
     e_comment = Some c, e_list = Some ''crowdsec''\<rparr>"

definition sample_list :: "entry list" where
  "sample_list = [sample_entry ''*A'' ''1.1.1.1'' ''protek:local::1'',
     sample_entry ''*B'' ''1.1.1.1/32'' ''protek:local::1'',
     sample_entry ''*Z'' ''9.9.9.9'' ''manually added'']"

text \<open>Witness: the hand-made entry \<open>*Z\<close> survives an empty desired set, which removes \<open>*B\<close>.\<close>

theorem foreign_entries_never_removed_witness:
  "distinct (entry_ids sample_list) \<and> ''*Z'' \<notin> set (to_remove (reconcile [] sample_list))
   \<and> to_remove (reconcile [] sample_list) = [''*B'']"
proof -
  have ids: "distinct (entry_ids sample_list)" by code_simp
  have mem: "sample_entry ''*Z'' ''9.9.9.9'' ''manually added'' \<in> set sample_list"
    by (simp add: sample_list_def)
  have foreign: "\<not> is_owned (e_comment (sample_entry ''*Z'' ''9.9.9.9'' ''manually added''))"
    by code_simp
  have idz: "diff_entry_id (sample_entry ''*Z'' ''9.9.9.9'' ''manually added'') = Some ''*Z''"
    by code_simp
  have "to_remove (reconcile [] sample_list) = [''*B'']" by code_simp
  with foreign_entries_never_removed [OF ids mem foreign idz, of "[]"] ids show ?thesis by blast
qed

text \<open>Additions are exactly what is missing. The diff adds an address if and only if some
  decision asks for it and no entry of Protek's has the same normalised address; it is added
  once, under the comment of the first decision that asks for it (first wins).\<close>

theorem reconcile_adds_exact:
  "((a, c) \<in> set (to_add (reconcile ds es)) \<longleftrightarrow>
      a \<in> desired_keys ds \<and> addr_norm a \<notin> owned_norms es
      \<and> (\<exists>d. find (\<lambda>d. dec_key d = a) ds = Some d \<and> c = encode_comment d))
   \<and> distinct (map fst (to_add (reconcile ds es)))"
proof
  have "a \<in> desired_keys ds \<longleftrightarrow> (\<exists>d. (a, d) \<in> set (collect_desired [] ds))"
    using collect_desired_keys [of "[]" ds] by (force simp: image_iff)
  then show "(a, c) \<in> set (to_add (reconcile ds es)) \<longleftrightarrow>
      a \<in> desired_keys ds \<and> addr_norm a \<notin> owned_norms es
      \<and> (\<exists>d. find (\<lambda>d. dec_key d = a) ds = Some d \<and> c = encode_comment d)"
    by (auto simp: reconcile_closed collect_desired_item image_iff)
  have "distinct (map fst (filter (\<lambda>(a, d). addr_norm a \<notin> owned_norms es) (collect_desired [] ds)))"
    using collect_desired_distinct [of "[]" ds] by (simp add: distinct_map_filter)
  then show "distinct (map fst (to_add (reconcile ds es)))"
    by (simp add: reconcile_closed comp_def case_prod_beta')
qed



section \<open>Convergence\<close>

text \<open>
  What an address-list looks like once the router has absorbed some additions and removals: the
  entries with a removed id are gone, each addition is a new entry under a fresh id, everything
  else is untouched.
\<close>
definition new_entry :: "string \<Rightarrow> string \<times> string \<Rightarrow> entry" where
  "new_entry i ac = \<lparr>e_id = None, e_dot_id = Some i, e_numbers = None, e_address = Some (fst ac),
     e_comment = Some (snd ac), e_list = None\<rparr>"

definition absorb :: "(string \<times> string) list \<Rightarrow> string list \<Rightarrow> string list \<Rightarrow> entry list \<Rightarrow> entry list" where
  "absorb adds removes fresh es =
     filter (\<lambda>e. case diff_entry_id e of None \<Rightarrow> True | Some i \<Rightarrow> i \<notin> set removes) es
     @ map2 new_entry fresh adds"

text \<open>The ids are sound: unique, and every Protek entry has one.\<close>
definition ids_ok :: "entry list \<Rightarrow> bool" where
  "ids_ok es = (distinct (entry_ids es) \<and> (\<forall>e \<in> set (owned_entries es). diff_entry_id e \<noteq> None))"

text \<open>A supply of ids, as the router gives them to new entries: never empty, never reused.\<close>
definition fresh_ok :: "(entry list \<Rightarrow> nat \<Rightarrow> string list) \<Rightarrow> bool" where
  "fresh_ok fresh = (\<forall>es n. length (fresh es n) = n \<and> distinct (fresh es n)
     \<and> set (fresh es n) \<inter> set (entry_ids es) = {} \<and> [] \<notin> set (fresh es n))"

text \<open>One live cycle on such a router: the diff, cut to the batch cap on each side, absorbed.\<close>
definition sync_cycle :: "nat \<Rightarrow> (entry list \<Rightarrow> nat \<Rightarrow> string list) \<Rightarrow> decision list \<Rightarrow> entry list \<Rightarrow> entry list" where
  "sync_cycle cap fresh ds es =
     (let r = reconcile ds es; A = take cap (to_add r); R = take cap (to_remove r)
      in absorb A R (fresh es (length A)) es)"

lemma entry_ids_append: "entry_ids (xs @ ys) = entry_ids xs @ entry_ids ys"
  by (simp add: entry_ids_def List.map_filter_def)

lemma set_entry_ids: "i \<in> set (entry_ids es) \<longleftrightarrow> (\<exists>e \<in> set es. diff_entry_id e = Some i)"
  by (force simp: entry_ids_def List.map_filter_def)

lemma diff_entry_id_new [simp]: "i \<noteq> [] \<Longrightarrow> diff_entry_id (new_entry i ac) = Some i"
  by (simp add: diff_entry_id_def new_entry_def str_truthy_def)

lemma entry_ids_new: "[] \<notin> set fresh \<Longrightarrow> length fresh = length adds \<Longrightarrow>
  entry_ids (map2 new_entry fresh adds) = fresh"
  by (induction fresh adds rule: list_induct2') (auto simp: entry_ids_def map_filter_simps)

lemma distinct_entry_ids_filter: "distinct (entry_ids es) \<Longrightarrow> distinct (entry_ids (filter P es))"
proof (induction es)
  case (Cons e es)
  have "set (entry_ids (filter P es)) \<subseteq> set (entry_ids es)" by (auto simp: set_entry_ids)
  with Cons show ?case
    by (cases "diff_entry_id e") (auto simp: entry_ids_def map_filter_simps)
qed (simp add: entry_ids_def map_filter_simps)

text \<open>The entries that survive a removal list.\<close>
abbreviation survives :: "string list \<Rightarrow> entry \<Rightarrow> bool" where
  "survives removes e \<equiv> (case diff_entry_id e of None \<Rightarrow> True | Some i \<Rightarrow> i \<notin> set removes)"

lemma map2_new_entry:
  "e \<in> set (map2 new_entry fresh adds) \<Longrightarrow>
   \<exists>i ac. e = new_entry i ac \<and> i \<in> set fresh \<and> ac \<in> set adds"
  by (auto dest: set_zip_leftD set_zip_rightD)

text \<open>
  The situation of one cycle: a sound address-list, a prefix of the proposed additions and
  removals, and fresh ids for the additions.
\<close>
definition sync_ok :: "decision list \<Rightarrow> entry list \<Rightarrow> nat \<Rightarrow> string list \<Rightarrow> bool" where
  "sync_ok ds es cap fresh =
     (ids_ok es \<and> length fresh = length (take cap (to_add (reconcile ds es)))
      \<and> distinct fresh \<and> set fresh \<inter> set (entry_ids es) = {} \<and> [] \<notin> set fresh)"

definition after_sync :: "decision list \<Rightarrow> entry list \<Rightarrow> nat \<Rightarrow> string list \<Rightarrow> entry list" where
  "after_sync ds es cap fresh =
     absorb (take cap (to_add (reconcile ds es))) (take cap (to_remove (reconcile ds es))) fresh es"

lemma after_sync_eq:
  "after_sync ds es cap fresh =
     filter (survives (take cap (to_remove (reconcile ds es)))) es
     @ map2 new_entry fresh (take cap (to_add (reconcile ds es)))"
  by (simp add: after_sync_def absorb_def)

lemma not_stale_survives:
  assumes "ids_ok es" "e \<in> set es" "e \<notin> set (stale ds es)"
  shows "survives (take cap (to_remove (reconcile ds es))) e"
proof (cases "diff_entry_id e")
  case (Some i)
  have "i \<notin> set (take cap (to_remove (reconcile ds es)))"
  proof
    assume "i \<in> set (take cap (to_remove (reconcile ds es)))"
    then have "i \<in> set (to_remove (reconcile ds es))" by (rule in_set_takeD)
    then obtain f where f: "f \<in> set (stale ds es)" "diff_entry_id f = Some i"
      using to_remove_entry by blast
    then have "f \<in> set es" by (auto simp: stale_def owned_entries_def)
    with f Some assms have "f = e" by (auto simp: ids_ok_def intro: entry_ids_unique)
    with f(1) assms(3) show False by simp
  qed
  with Some show ?thesis by simp
qed simp

lemma added_item:
  assumes "(a, c) \<in> set (take cap (to_add (reconcile ds es)))"
  shows "a \<in> desired_keys ds \<and> addr_norm a \<notin> owned_norms es \<and> is_owned (Some c)"
  using in_set_takeD [OF assms] reconcile_adds_exact [of a c ds es] by auto

lemma new_entries:
  assumes "e \<in> set (map2 new_entry fresh (take cap (to_add (reconcile ds es))))"
  shows "is_owned (e_comment e) \<and> entry_norm e \<in> addr_norm ` desired_keys ds"
proof -
  from map2_new_entry [OF assms] obtain i a c
    where "e = new_entry i (a, c)" "(a, c) \<in> set (take cap (to_add (reconcile ds es)))" by auto
  then show ?thesis
    using added_item by (auto simp: new_entry_def entry_norm_def addr_norm_def)
qed

lemma after_sync_foreign:
  assumes "ids_ok es"
  shows "filter (\<lambda>e. \<not> is_owned (e_comment e)) (after_sync ds es cap fresh) =
     filter (\<lambda>e. \<not> is_owned (e_comment e)) es"
proof -
  let ?A = "take cap (to_add (reconcile ds es))" and ?R = "take cap (to_remove (reconcile ds es))"
  have "filter (\<lambda>e. \<not> is_owned (e_comment e)) (map2 new_entry fresh ?A) = []"
    using new_entries by (simp add: filter_empty_conv)
  moreover have "filter (\<lambda>e. \<not> is_owned (e_comment e)) (filter (survives ?R) es) =
      filter (\<lambda>e. \<not> is_owned (e_comment e)) es"
    unfolding filter_filter
    by (rule filter_cong) (auto simp: stale_def owned_entries_def intro: not_stale_survives [OF assms])
  ultimately show ?thesis by (simp add: after_sync_eq)
qed

lemma after_sync_ids:
  assumes "sync_ok ds es cap fresh"
  shows "ids_ok (after_sync ds es cap fresh)"
proof -
  let ?A = "take cap (to_add (reconcile ds es))" and ?R = "take cap (to_remove (reconcile ds es))"
  have "entry_ids (after_sync ds es cap fresh) = entry_ids (filter (survives ?R) es) @ fresh"
    using assms by (simp add: sync_ok_def after_sync_eq entry_ids_append entry_ids_new)
  moreover have "distinct (entry_ids (filter (survives ?R) es))"
    using assms by (simp add: sync_ok_def ids_ok_def distinct_entry_ids_filter)
  moreover have "set (entry_ids (filter (survives ?R) es)) \<subseteq> set (entry_ids es)"
    by (auto simp: set_entry_ids)
  ultimately have "distinct (entry_ids (after_sync ds es cap fresh))"
    using assms by (auto simp: sync_ok_def)
  moreover have "diff_entry_id e \<noteq> None" if "e \<in> set (owned_entries (after_sync ds es cap fresh))" for e
  proof (cases "e \<in> set (owned_entries es)")
    case True
    then show ?thesis using assms by (simp add: sync_ok_def ids_ok_def)
  next
    case False
    with that have "e \<in> set (map2 new_entry fresh ?A)" by (auto simp: after_sync_eq owned_entries_def)
    from map2_new_entry [OF this] obtain i ac where "e = new_entry i ac" "i \<in> set fresh" by blast
    then show ?thesis using assms by (cases "i = []") (auto simp: sync_ok_def)
  qed
  ultimately show ?thesis by (simp add: ids_ok_def)
qed

lemma after_sync_stale:
  "stale ds (after_sync ds es cap fresh) =
     filter (survives (take cap (to_remove (reconcile ds es)))) (stale ds es)"
proof -
  have "stale ds (map2 new_entry fresh (take cap (to_add (reconcile ds es)))) = []"
    using new_entries by (auto simp: stale_def owned_entries_def filter_empty_conv)
  then show ?thesis
    by (simp add: after_sync_eq stale_def owned_entries_def filter_filter conj_ac)
qed

lemma after_sync_keeps_desired:
  assumes "ids_ok es"
  shows "owned_norms es \<inter> addr_norm ` desired_keys ds \<subseteq> owned_norms (after_sync ds es cap fresh)"
proof
  fix n
  assume "n \<in> owned_norms es \<inter> addr_norm ` desired_keys ds"
  then obtain e where e: "e \<in> set es" "is_owned (e_comment e)" "entry_norm e = n"
      "n \<in> addr_norm ` desired_keys ds"
    by (auto simp: owned_norms_def owned_entries_def)
  then have "survives (take cap (to_remove (reconcile ds es))) e"
    by (intro not_stale_survives [OF assms]) (auto simp: stale_def)
  with e show "n \<in> owned_norms (after_sync ds es cap fresh)"
    by (auto simp: after_sync_eq owned_norms_def owned_entries_def image_Un)
qed

lemma after_sync_added:
  assumes "length fresh = length (take cap (to_add (reconcile ds es)))"
    and "(a, c) \<in> set (take cap (to_add (reconcile ds es)))"
  shows "addr_norm a \<in> owned_norms (after_sync ds es cap fresh)"
proof -
  let ?A = "take cap (to_add (reconcile ds es))"
  from assms(2) obtain k where k: "k < length ?A" "?A ! k = (a, c)" by (auto simp: in_set_conv_nth)
  then have mem: "new_entry (fresh ! k) (a, c) \<in> set (map2 new_entry fresh ?A)"
    using assms(1) by (force simp: set_zip)
  then have "new_entry (fresh ! k) (a, c) \<in> set (owned_entries (after_sync ds es cap fresh))"
    using new_entries [OF mem] by (auto simp: after_sync_eq owned_entries_def)
  moreover have "entry_norm (new_entry (fresh ! k) (a, c)) = addr_norm a"
    by (simp add: new_entry_def entry_norm_def addr_norm_def)
  ultimately show ?thesis unfolding owned_norms_def by force
qed

text \<open>What a state still lacks: stale entries and missing addresses.\<close>
definition backlog :: "decision list \<Rightarrow> entry list \<Rightarrow> nat" where
  "backlog ds es = length (stale ds es) + card {a \<in> desired_keys ds. addr_norm a \<notin> owned_norms es}"

lemma finite_desired_keys [simp]: "finite (desired_keys ds)"
  by (simp add: desired_keys_def)

lemma stale_removed:
  assumes "ids_ok es" "stale ds es \<noteq> []"
  shows "to_remove (reconcile ds es) \<noteq> []"
proof -
  obtain e where "e \<in> set (stale ds es)" using assms(2) by (cases "stale ds es") auto
  then have e: "e \<in> set (owned_entries es)" "entry_norm e \<notin> addr_norm ` desired_keys ds"
    by (simp_all add: stale_def)
  have "entry_norm e \<in> owned_norms es" unfolding owned_norms_def using e(1) by (rule imageI)
  then obtain f where f: "(entry_norm e, f) \<in> set (owned_map es)" using owned_map_ex by blast
  have "diff_entry_id f \<noteq> None" using assms(1) owned_map_item [OF f] by (simp add: ids_ok_def)
  then obtain i where "diff_entry_id f = Some i" by blast
  with f e(2) have "i \<in> set (removal_ids (addr_norm ` desired_keys ds) (owned_map es))"
    unfolding removal_ids_iff by (intro bexI [of _ "(entry_norm e, f)"]) simp_all
  then have "removal_ids (addr_norm ` desired_keys ds) (owned_map es) \<noteq> []"
    by (rule contrapos_pn) simp
  then show ?thesis by (simp add: reconcile_closed)
qed

lemma after_sync_stale_less:
  assumes "ids_ok es" "0 < cap" "stale ds es \<noteq> []"
  shows "length (stale ds (after_sync ds es cap fresh)) < length (stale ds es)"
proof -
  obtain i R where R: "to_remove (reconcile ds es) = i # R"
    using stale_removed [OF assms(1,3)] by (cases "to_remove (reconcile ds es)") auto
  then obtain e where e: "e \<in> set (stale ds es)" "diff_entry_id e = Some i"
    using to_remove_entry [of i ds es] by auto
  then have "\<not> survives (take cap (to_remove (reconcile ds es))) e"
    using R assms(2) by (cases cap) auto
  with e(1) show ?thesis unfolding after_sync_stale by (rule length_filter_less)
qed

lemma missing_after_sync:
  assumes "ids_ok es"
  shows "{a \<in> desired_keys ds. addr_norm a \<notin> owned_norms (after_sync ds es cap fresh)}
    \<subseteq> {a \<in> desired_keys ds. addr_norm a \<notin> owned_norms es}"
  using after_sync_keeps_desired [OF assms, of ds cap fresh] by auto

lemma after_sync_missing_less:
  assumes "sync_ok ds es cap fresh" "0 < cap" "to_add (reconcile ds es) \<noteq> []"
  shows "card {a \<in> desired_keys ds. addr_norm a \<notin> owned_norms (after_sync ds es cap fresh)}
    < card {a \<in> desired_keys ds. addr_norm a \<notin> owned_norms es}"
proof (rule psubset_card_mono)
  obtain a c A where A: "to_add (reconcile ds es) = (a, c) # A"
    using assms(3) by (cases "to_add (reconcile ds es)") auto
  then have ac: "(a, c) \<in> set (take cap (to_add (reconcile ds es)))" using assms(2) by (cases cap) auto
  have "addr_norm a \<in> owned_norms (after_sync ds es cap fresh)"
    using after_sync_added [OF _ ac] assms(1) by (simp add: sync_ok_def)
  then show "{a \<in> desired_keys ds. addr_norm a \<notin> owned_norms (after_sync ds es cap fresh)}
    \<subset> {a \<in> desired_keys ds. addr_norm a \<notin> owned_norms es}"
    using missing_after_sync [of es ds cap fresh] added_item [OF ac] assms(1)
    by (auto simp: sync_ok_def)
qed simp

lemma to_add_empty_iff:
  "to_add (reconcile ds es) = [] \<longleftrightarrow> {a \<in> desired_keys ds. addr_norm a \<notin> owned_norms es} = {}"
  using collect_desired_keys [of "[]" ds] by (force simp: reconcile_closed filter_empty_conv)

lemma backlog_mono:
  assumes "ids_ok es"
  shows "backlog ds (after_sync ds es cap fresh) \<le> backlog ds es"
proof -
  have "card {a \<in> desired_keys ds. addr_norm a \<notin> owned_norms (after_sync ds es cap fresh)}
    \<le> card {a \<in> desired_keys ds. addr_norm a \<notin> owned_norms es}"
    by (rule card_mono) (simp_all add: missing_after_sync [OF assms])
  then show ?thesis
    unfolding backlog_def after_sync_stale by (intro add_mono length_filter_le)
qed

lemma backlog_decreases:
  assumes "sync_ok ds es cap fresh" "0 < cap" "0 < backlog ds es"
  shows "backlog ds (after_sync ds es cap fresh) < backlog ds es"
proof (cases "stale ds es = []")
  case True
  then have "to_add (reconcile ds es) \<noteq> []"
    using assms(3) unfolding to_add_empty_iff backlog_def
    by (metis add_cancel_right_left card.empty less_numeral_extra(3) list.size(3))
  from after_sync_missing_less [OF assms(1,2) this] True show ?thesis
    by (simp add: backlog_def after_sync_stale)
next
  case False
  have ids: "ids_ok es" using assms(1) by (simp add: sync_ok_def)
  have "card {a \<in> desired_keys ds. addr_norm a \<notin> owned_norms (after_sync ds es cap fresh)}
    \<le> card {a \<in> desired_keys ds. addr_norm a \<notin> owned_norms es}"
    by (rule card_mono) (simp_all add: missing_after_sync [OF ids])
  with after_sync_stale_less [OF ids assms(2) False, of fresh] show ?thesis
    by (simp add: backlog_def)
qed

lemma sync_cycle_after:
  "fresh_ok fresh \<Longrightarrow> ids_ok es \<Longrightarrow>
   sync_ok ds es cap (fresh es (length (take cap (to_add (reconcile ds es)))))
   \<and> sync_cycle cap fresh ds es = after_sync ds es cap (fresh es (length (take cap (to_add (reconcile ds es)))))"
  by (simp add: sync_ok_def fresh_ok_def sync_cycle_def after_sync_def Let_def)

lemma backlog_zero:
  assumes "backlog ds es = 0"
  shows "to_add (reconcile ds es) = []" "to_remove (reconcile ds es) = []"
    "unchanged (reconcile ds es) = card (desired_keys ds)"
proof -
  have none: "{a \<in> desired_keys ds. addr_norm a \<notin> owned_norms es} = {}" and st: "stale ds es = []"
    using assms by (simp_all add: backlog_def)
  show "to_add (reconcile ds es) = []" using none unfolding to_add_empty_iff .
  show "to_remove (reconcile ds es) = []"
    using to_remove_entry [of _ ds es] st by (cases "to_remove (reconcile ds es)") auto
  have "{a \<in> desired_keys ds. addr_norm a \<in> owned_norms es} = desired_keys ds" using none by auto
  then show "unchanged (reconcile ds es) = card (desired_keys ds)"
    using length_filter_keys [OF collect_desired_distinct [of "[]" ds], of "\<lambda>a. addr_norm a \<in> owned_norms es"]
      collect_desired_keys [of "[]" ds] by (simp add: reconcile_closed)
qed

lemma sync_cycles_invariant:
  assumes "fresh_ok fresh" "ids_ok es" "0 < cap"
  shows "ids_ok ((sync_cycle cap fresh ds ^^ n) es)
    \<and> filter (\<lambda>e. \<not> is_owned (e_comment e)) ((sync_cycle cap fresh ds ^^ n) es) =
        filter (\<lambda>e. \<not> is_owned (e_comment e)) es
    \<and> backlog ds ((sync_cycle cap fresh ds ^^ n) es) \<le> backlog ds es - n"
proof (induction n)
  case (Suc n)
  let ?x = "(sync_cycle cap fresh ds ^^ n) es"
  let ?f = "fresh ?x (length (take cap (to_add (reconcile ds ?x))))"
  have IH: "ids_ok ?x" "backlog ds ?x \<le> backlog ds es - n"
    "filter (\<lambda>e. \<not> is_owned (e_comment e)) ?x = filter (\<lambda>e. \<not> is_owned (e_comment e)) es"
    using Suc by simp_all
  have ok: "sync_ok ds ?x cap ?f" and eq: "sync_cycle cap fresh ds ?x = after_sync ds ?x cap ?f"
    using sync_cycle_after [OF assms(1) IH(1)] by blast+
  have "backlog ds (after_sync ds ?x cap ?f) \<le> backlog ds ?x - 1"
  proof (cases "backlog ds ?x = 0")
    case True
    then show ?thesis using backlog_mono [OF IH(1), of ds cap ?f] by linarith
  next
    case False
    then show ?thesis using backlog_decreases [OF ok assms(3)] by simp
  qed
  then show ?case
    using after_sync_ids [OF ok] after_sync_foreign [OF IH(1), of ds cap ?f] IH by (simp add: eq)
qed (simp add: assms)


text \<open>An id supply for examples: longer than every id in use.\<close>
definition sample_fresh :: "entry list \<Rightarrow> nat \<Rightarrow> string list" where
  "sample_fresh es n = map (\<lambda>k. replicate (Suc k + sum_list (map length (entry_ids es))) (CHR ''x'')) [0..<n]"

lemma sample_fresh_ok: "fresh_ok sample_fresh"
proof -
  have "i \<in> set (entry_ids es) \<Longrightarrow> length i \<le> sum_list (map length (entry_ids es))" for i es
    by (rule member_le_sum_list) simp_all
  then have "set (sample_fresh es n) \<inter> set (entry_ids es) = {}" for es n
    by (fastforce simp: sample_fresh_def)
  moreover have "distinct (sample_fresh es n)" for es n
    by (auto simp: sample_fresh_def distinct_map inj_on_def)
  ultimately show ?thesis by (auto simp: fresh_ok_def sample_fresh_def)
qed

lemma backlog_bound: "backlog ds es \<le> length es + length ds"
proof -
  have "card {a \<in> desired_keys ds. addr_norm a \<notin> owned_norms es} \<le> card (desired_keys ds)"
    by (rule card_mono) auto
  also have "\<dots> \<le> length ds"
    unfolding desired_keys_code by (rule order_trans [OF card_length]) (metis length_filter_le length_map)
  finally have "card {a \<in> desired_keys ds. addr_norm a \<notin> owned_norms es} \<le> length ds" .
  moreover have "length (stale ds es) \<le> length es"
    unfolding stale_def owned_entries_def by (meson length_filter_le order_trans)
  ultimately show ?thesis by (simp add: backlog_def)
qed


text \<open>Two distinct bans conflated. The normalisation strips \<open>/32\<close> from any address, so the
  IPv6 range \<open>2001:db8::/32\<close> and the IPv6 host \<open>2001:db8::\<close> count as the same address: with
  the host already on the list, the range is reported as unchanged and never pushed.\<close>

theorem ipv6_range_conflated_with_host:
  "reconcile
     [\<lparr>d_value = Some ''2001:db8::/32'', d_scope = Some ''Range'', d_scenario = Some ''s'',
       d_origin = None, d_origin_source = Some ''local'', d_lapi_id = Some 7, d_id = None\<rparr>]
     [\<lparr>e_id = None, e_dot_id = Some ''v6:*1'', e_numbers = None, e_address = Some ''2001:db8::/128'',
       e_comment = Some ''protek:local:s:3'', e_list = Some ''crowdsec''\<rparr>]
   = \<lparr>to_add = [], to_remove = [], unchanged = 1, foreign_kept = 0\<rparr>"
  by code_simp

end
