(* ===== verification/Ip_Address.thy ===== *)
theory Ip_Address
  imports Py_Prelude
begin

text \<open>
  The part of Python's \<open>ipaddress\<close> module the code relies on: \<open>ip_address\<close>, \<open>ip_network\<close> with
  \<open>strict=False\<close>, and membership of an address in a network. \<open>None\<close> is the \<open>ValueError\<close> of the
  constructors. An address is its family and its number; a scope id is parsed and dropped, since
  membership does not look at it.
\<close>

datatype ip = V4 int | V6 int

text \<open>A network: family, number with the host bits cleared, prefix length.\<close>
datatype network = Net4 int nat | Net6 int nat

definition ascii_digits :: "string \<Rightarrow> bool" where
  "ascii_digits s = (s \<noteq> [] \<and> list_all py_isdecimal s)"

definition digits_value :: "string \<Rightarrow> int" where
  "digits_value s = foldl (\<lambda>a c. 10 * a + (int (code_point c) - 48)) 0 s"

section \<open>IPv4\<close>

definition parse_octet :: "string \<Rightarrow> int option" where
  "parse_octet s =
     (if \<not> ascii_digits s then None
      else if length s > 3 then None
      else if s \<noteq> ''0'' \<and> hd s = CHR ''0'' then None
      else if digits_value s > 255 then None
      else Some (digits_value s))"

definition ipv4_int :: "string \<Rightarrow> int option" where
  "ipv4_int s =
     (let octets = py_split (CHR ''.'') s
      in if length octets \<noteq> 4 then None
         else map_option (foldl (\<lambda>a b. 256 * a + b) 0) (those (map parse_octet octets)))"

definition ipv4_address :: "string \<Rightarrow> int option" where
  "ipv4_address s = (if CHR ''/'' \<in> set s then None else ipv4_int s)"

section \<open>IPv6\<close>

definition hex_value :: "char \<Rightarrow> int option" where
  "hex_value c = (let n = int (code_point c) in
     if 48 \<le> n \<and> n \<le> 57 then Some (n - 48)
     else if 65 \<le> n \<and> n \<le> 70 then Some (n - 55)
     else if 97 \<le> n \<and> n \<le> 102 then Some (n - 87) else None)"

definition parse_hextet :: "string \<Rightarrow> int option" where
  "parse_hextet s =
     (if s = [] \<or> length s > 4 then None
      else map_option (foldl (\<lambda>a b. 16 * a + b) 0) (those (map hex_value s)))"

text \<open>A part of an IPv6 text between colons: a text, or a half of an embedded IPv4 address.\<close>
type_synonym part = "string + int"

definition part_empty :: "part \<Rightarrow> bool" where
  "part_empty p = (p = Inl [])"

definition parse_part :: "part \<Rightarrow> int option" where
  "parse_part p = (case p of Inl s \<Rightarrow> parse_hextet s | Inr n \<Rightarrow> Some n)"

definition ipv6_parts :: "string \<Rightarrow> part list option" where
  "ipv6_parts s =
     (let parts = py_split (CHR '':'') s
      in if length parts < 3 then None
         else if CHR ''.'' \<in> set (last parts)
         then case ipv4_address (last parts) of
                None \<Rightarrow> None
              | Some v \<Rightarrow> Some (map Inl (butlast parts) @ [Inr (v div 65536), Inr (v mod 65536)])
         else Some (map Inl parts))"

definition hextets_value :: "int list \<Rightarrow> int" where
  "hextets_value hs = foldl (\<lambda>a h. 65536 * a + h) 0 hs"

definition ipv6_int :: "string \<Rightarrow> int option" where
  "ipv6_int s =
     (case ipv6_parts s of
        None \<Rightarrow> None
      | Some parts \<Rightarrow>
          if length parts > 9 then None
          else case filter (\<lambda>i. part_empty (parts ! i)) [1 ..< length parts - 1] of
            [] \<Rightarrow>
              if length parts \<noteq> 8 \<or> part_empty (hd parts) \<or> part_empty (last parts) then None
              else map_option hextets_value (those (map parse_part parts))
          | [skip_index] \<Rightarrow>
              let parts_hi = (if part_empty (hd parts) then skip_index - 1 else skip_index);
                  parts_lo = (let n = length parts - skip_index - 1
                              in if part_empty (last parts) then n - 1 else n)
              in if part_empty (hd parts) \<and> parts_hi \<noteq> 0 then None
                 else if part_empty (last parts) \<and> parts_lo \<noteq> 0 then None
                 else if 8 < parts_hi + parts_lo + 1 then None
                 else case (those (map parse_part (take parts_hi parts)),
                            those (map parse_part (drop (length parts - parts_lo) parts))) of
                   (Some hi, Some lo) \<Rightarrow>
                     Some (hextets_value (hi @ replicate (8 - (parts_hi + parts_lo)) 0 @ lo))
                 | _ \<Rightarrow> None
          | _ \<Rightarrow> None)"

text \<open>\<open>addr.partition('%')\<close>: the scope id must be non-empty and without another percent sign.\<close>
definition ipv6_address :: "string \<Rightarrow> int option" where
  "ipv6_address s =
     (if CHR ''/'' \<in> set s then None
      else case py_split (CHR ''%'') s of
             [addr] \<Rightarrow> ipv6_int addr
           | [addr, scope_id] \<Rightarrow> if scope_id = [] then None else ipv6_int addr
           | _ \<Rightarrow> None)"

definition ip_address :: "string \<Rightarrow> ip option" where
  "ip_address s =
     (case ipv4_address s of
        Some n \<Rightarrow> Some (V4 n)
      | None \<Rightarrow> map_option V6 (ipv6_address s))"

section \<open>Networks\<close>

definition prefix_from_string :: "nat \<Rightarrow> string \<Rightarrow> nat option" where
  "prefix_from_string max_len s =
     (if ascii_digits s \<and> digits_value s \<le> int max_len then Some (nat (digits_value s)) else None)"

text \<open>The prefix length of a dotted netmask: ones followed by zeroes.\<close>
definition prefix_from_ip_int :: "int \<Rightarrow> nat option" where
  "prefix_from_ip_int n = List.find (\<lambda>p. n = 2 ^ 32 - 2 ^ (32 - p)) [0 ..< 33]"

definition prefix_from_ip_string :: "string \<Rightarrow> nat option" where
  "prefix_from_ip_string s =
     (case ipv4_int s of
        None \<Rightarrow> None
      | Some n \<Rightarrow> case prefix_from_ip_int n of
                    Some p \<Rightarrow> Some p
                  | None \<Rightarrow> prefix_from_ip_int (2 ^ 32 - 1 - n))"

definition make_netmask4 :: "string \<Rightarrow> nat option" where
  "make_netmask4 s = (case prefix_from_string 32 s of
     Some p \<Rightarrow> Some p | None \<Rightarrow> prefix_from_ip_string s)"

text \<open>Clearing the host bits below the prefix.\<close>
definition mask_to :: "nat \<Rightarrow> nat \<Rightarrow> int \<Rightarrow> int" where
  "mask_to width p n = n div 2 ^ (width - p) * 2 ^ (width - p)"

definition split_netmask :: "string \<Rightarrow> (string \<times> string option) option" where
  "split_netmask s = (case py_split (CHR ''/'') s of
      [a] \<Rightarrow> Some (a, None) | [a, m] \<Rightarrow> Some (a, Some m) | _ \<Rightarrow> None)"

definition ipv4_network :: "string \<Rightarrow> network option" where
  "ipv4_network s =
     (case split_netmask s of
        None \<Rightarrow> None
      | Some (a, m) \<Rightarrow>
          case (ipv4_address a, case m of None \<Rightarrow> Some 32 | Some m \<Rightarrow> make_netmask4 m) of
            (Some n, Some p) \<Rightarrow> Some (Net4 (mask_to 32 p n) p)
          | _ \<Rightarrow> None)"

definition ipv6_network :: "string \<Rightarrow> network option" where
  "ipv6_network s =
     (case split_netmask s of
        None \<Rightarrow> None
      | Some (a, m) \<Rightarrow>
          case (ipv6_address a, case m of None \<Rightarrow> Some 128 | Some m \<Rightarrow> prefix_from_string 128 m) of
            (Some n, Some p) \<Rightarrow> Some (Net6 (mask_to 128 p n) p)
          | _ \<Rightarrow> None)"

text \<open>\<open>ip_network(s, strict=False)\<close>.\<close>
definition ip_network :: "string \<Rightarrow> network option" where
  "ip_network s = (case ipv4_network s of Some n \<Rightarrow> Some n | None \<Rightarrow> ipv6_network s)"

fun net_version :: "network \<Rightarrow> nat" where
  "net_version (Net4 _ _) = 4"
| "net_version (Net6 _ _) = 6"

text \<open>\<open>addr in network\<close>.\<close>
fun in_network :: "ip \<Rightarrow> network \<Rightarrow> bool" where
  "in_network (V4 n) (Net4 a p) = (mask_to 32 p n = a)"
| "in_network (V6 n) (Net6 a p) = (mask_to 128 p n = a)"
| "in_network _ _ = False"

section \<open>Laws\<close>

lemma mask_to_idem [simp]: "mask_to w p (mask_to w p n) = mask_to w p n"
  by (simp add: mask_to_def)

text \<open>A network with an address in it contains that address, and two networks of one family with the same
  prefix length are equal or disjoint.\<close>
lemma in_own_network: "ipv4_address a = Some n \<Longrightarrow> p \<le> 32 \<Longrightarrow> in_network (V4 n) (Net4 (mask_to 32 p n) p)"
  by simp

text \<open>Membership is agreement on the prefix.\<close>
lemma in_network_prefix: "p \<le> 32 \<Longrightarrow>
    in_network (V4 n) (Net4 (mask_to 32 p m) p) \<longleftrightarrow> n div 2 ^ (32 - p) = m div 2 ^ (32 - p)"
  by (simp add: mask_to_def)

lemma in_network_shorter:
  assumes "q \<le> p" "p \<le> 32" "in_network (V4 n) (Net4 (mask_to 32 p m) p)"
  shows "in_network (V4 n) (Net4 (mask_to 32 q m) q)"
proof -
  have "(2::int) ^ (32 - q) = 2 ^ (32 - p) * 2 ^ (p - q)"
    using assms(1,2) by (simp flip: power_add)
  then have "x div 2 ^ (32 - q) = x div 2 ^ (32 - p) div 2 ^ (p - q)" for x :: int
    by (simp add: zdiv_zmult2_eq)
  then show ?thesis using assms by (simp add: mask_to_def)
qed

lemma in_network_version: "in_network a n \<Longrightarrow> (\<exists>k. a = V4 k) \<longleftrightarrow> net_version n = 4"
  by (cases "(a, n)" rule: in_network.cases) auto

end
