(* ===== verification/Mikrotik.thy ===== *)
theory Mikrotik
  imports Reconcile Ip_Address Federation
begin

text \<open>
  The MikroTik side: the RouterOS client (\<open>mikrotik.py\<close>) and the two adapters on top of it, the
  legacy one configured by the environment (\<open>bouncers/mikrotik_adapter.py\<close>) and the one configured
  by a row of \<open>bouncer_targets\<close> (\<open>bouncers/mikrotik_db_adapter.py\<close>). The RouterOS library is a
  parameter: a record of the calls the code makes, over an arbitrary type of router states. A call
  that fails returns the text of its exception.
\<close>

section \<open>Results of an apply, shared by all adapters\<close>

record push_entry =
  p_ip :: string
  p_action :: string
  p_success :: bool
  p_error :: string

record apply_result =
  applied_add :: nat
  applied_remove :: nat
  errors :: nat
  push_log :: "push_entry list"

definition pushed :: "string \<Rightarrow> string \<Rightarrow> push_entry" where
  "pushed action ip = \<lparr>p_ip = ip, p_action = action, p_success = True, p_error = []\<rparr>"

definition pushed_idem :: "string \<Rightarrow> string \<Rightarrow> push_entry" where
  "pushed_idem action ip = \<lparr>p_ip = ip, p_action = action, p_success = True, p_error = ''idempotent''\<rparr>"

definition push_failed :: "string \<Rightarrow> string \<Rightarrow> string \<Rightarrow> push_entry" where
  "push_failed action ip e = \<lparr>p_ip = ip, p_action = action, p_success = False, p_error = e\<rparr>"

definition no_result :: apply_result where
  "no_result = \<lparr>applied_add = 0, applied_remove = 0, errors = 0, push_log = []\<rparr>"

text \<open>The accounting after one operation: a success counts as applied, a failure as an error, and both
  are logged.\<close>
definition log_add :: "push_entry \<Rightarrow> apply_result \<Rightarrow> apply_result" where
  "log_add p res = (if p_success p then res\<lparr>applied_add := applied_add res + 1, push_log := push_log res @ [p]\<rparr>
     else res\<lparr>errors := errors res + 1, push_log := push_log res @ [p]\<rparr>)"

definition log_remove :: "push_entry \<Rightarrow> apply_result \<Rightarrow> apply_result" where
  "log_remove p res = (if p_success p then res\<lparr>applied_remove := applied_remove res + 1, push_log := push_log res @ [p]\<rparr>
     else res\<lparr>errors := errors res + 1, push_log := push_log res @ [p]\<rparr>)"

section \<open>The RouterOS client\<close>

record 'w router_api =
  ra_connect :: "'w \<Rightarrow> string option"
  ra_resource :: "string \<Rightarrow> 'w \<Rightarrow> string option"
  ra_get :: "string \<Rightarrow> string \<Rightarrow> 'w \<Rightarrow> string + entry list"
  ra_add :: "string \<Rightarrow> string \<Rightarrow> string \<Rightarrow> string \<Rightarrow> 'w \<Rightarrow> 'w \<times> string option"
  ra_remove :: "string \<Rightarrow> string \<Rightarrow> 'w \<Rightarrow> 'w \<times> string option"
  ra_version :: "'w \<Rightarrow> string + string option"

record mt_config =
  mt_host :: string
  mt_username :: string
  mt_password :: string
  mt_port :: int
  mt_use_ssl :: bool

text \<open>The constructor: an argument that is missing (or, for host and user, empty) comes from the
  environment; the password is not cut at a \<open>#\<close>.\<close>
definition mt_new :: "environment \<Rightarrow> string option \<Rightarrow> string option \<Rightarrow> string option \<Rightarrow> int option \<Rightarrow> bool option
    \<Rightarrow> mt_config" where
  "mt_new env host username password port use_ssl =
     \<lparr>mt_host = str_or host (envstr env ''MT_HOST'' ''''),
      mt_username = str_or username (envstr env ''MT_USERNAME'' ''''),
      mt_password = (case password of Some p \<Rightarrow> p
         | None \<Rightarrow> (case env ''MT_PASSWORD'' of None \<Rightarrow> [] | Some s \<Rightarrow> s)),
      mt_port = (case port of Some p \<Rightarrow> p | None \<Rightarrow> envint env ''MT_PORT'' 8728),
      mt_use_ssl = (case use_ssl of Some b \<Rightarrow> b
         | None \<Rightarrow> py_lower (envstr env ''MT_USE_SSL'' ''false'') \<in> {''1'', ''true'', ''yes''})\<rparr>"

definition mt_is_configured :: "mt_config \<Rightarrow> bool" where
  "mt_is_configured m = (mt_host m \<noteq> [] \<and> mt_username m \<noteq> [] \<and> mt_password m \<noteq> [])"

definition mt_connect :: "'w router_api \<Rightarrow> mt_config \<Rightarrow> 'w \<Rightarrow> exn option" where
  "mt_connect api m w =
     (if \<not> mt_is_configured m
      then Some (MikroTikError ''MikroTik not configured - set MT_HOST/MT_USERNAME/MT_PASSWORD in .env'')
      else case ra_connect api w of
             None \<Rightarrow> None
           | Some e \<Rightarrow> Some (MikroTikError (''connect failed: '' @ e)))"

record mt_health =
  mh_ok :: bool
  mh_configured :: bool
  mh_error :: string
  mh_version :: "string option"

definition health :: "'w router_api \<Rightarrow> mt_config \<Rightarrow> 'w \<Rightarrow> mt_health" where
  "health api m w =
     (if \<not> mt_is_configured m
      then \<lparr>mh_ok = False, mh_configured = False, mh_error = ''MT_HOST / MT_USERNAME / MT_PASSWORD not set'', mh_version = None\<rparr>
      else case mt_connect api m w of
        Some e \<Rightarrow> \<lparr>mh_ok = False, mh_configured = True, mh_error = exn_str e, mh_version = None\<rparr>
      | None \<Rightarrow>
          (case ra_version api w of
             Inl e \<Rightarrow> \<lparr>mh_ok = False, mh_configured = True, mh_error = e, mh_version = None\<rparr>
           | Inr v \<Rightarrow> \<lparr>mh_ok = True, mh_configured = True, mh_error = [], mh_version = v\<rparr>))"

text \<open>\<open>entry_id\<close>: the first truthy of \<open>id\<close>, \<open>.id\<close> and \<open>numbers\<close>.\<close>
definition entry_id :: "entry \<Rightarrow> string option" where
  "entry_id e = (if str_truthy (e_id e) then e_id e else if str_truthy (e_dot_id e) then e_dot_id e else e_numbers e)"

definition V4_PATH :: string where "V4_PATH = ''/ip/firewall/address-list''"
definition V6_PATH :: string where "V6_PATH = ''/ipv6/firewall/address-list''"

text \<open>The loop body of \<open>get_address_list\<close> on one entry: \<open>.id\<close> gets the family prefix; other keys stay.\<close>
definition raw_id :: "entry \<Rightarrow> string" where
  "raw_id e = str_or (e_dot_id e) (str_or (e_id e) (str_or (e_numbers e) ''''))"

definition mark_family :: "string \<Rightarrow> entry \<Rightarrow> entry" where
  "mark_family family e =
     (if raw_id e \<noteq> [] then e\<lparr>e_dot_id := Some (family @ '':'' @ raw_id e)\<rparr> else e)"

definition family_entries :: "'w router_api \<Rightarrow> string \<Rightarrow> 'w \<Rightarrow> string \<times> string \<Rightarrow> entry list" where
  "family_entries api list_name w fp =
     (case fp of (family, path) \<Rightarrow>
        (case ra_resource api path w of
           Some _ \<Rightarrow> []
         | None \<Rightarrow> (case ra_get api path list_name w of
                     Inl _ \<Rightarrow> []
                   | Inr es \<Rightarrow> map (mark_family family) es)))"

definition get_address_list :: "'w router_api \<Rightarrow> mt_config \<Rightarrow> string \<Rightarrow> 'w \<Rightarrow> exn + entry list" where
  "get_address_list api m list_name w =
     (if \<not> mt_is_configured m then Inl (MikroTikError ''MikroTik not configured'')
      else case mt_connect api m w of
             Some e \<Rightarrow> Inl e
           | None \<Rightarrow> Inr (concat (map (family_entries api list_name w) [(''v4'', V4_PATH), (''v6'', V6_PATH)])))"

definition address_list_name :: "environment \<Rightarrow> string" where
  "address_list_name env = str_or (Some (envstr env ''MT_ADDRESS_LIST'' ''crowdsec'')) ''crowdsec''"

section \<open>The adapters\<close>

definition is_ipv6 :: "string \<Rightarrow> bool" where
  "is_ipv6 addr = (case ip_network (py_strip addr) of Some n \<Rightarrow> net_version n = 6 | None \<Rightarrow> False)"

definition split_id :: "string \<Rightarrow> string \<times> string" where
  "split_id prefixed_id =
     (if py_startswith prefixed_id ''v6:'' then (V6_PATH, drop 3 prefixed_id)
      else if py_startswith prefixed_id ''v4:'' then (V4_PATH, drop 3 prefixed_id)
      else (V4_PATH, prefixed_id))"

definition snapshot :: "'w router_api \<Rightarrow> mt_config \<Rightarrow> string \<Rightarrow> 'w \<Rightarrow> entry list" where
  "snapshot api m list_name w =
     (if \<not> mt_is_configured m then []
      else case get_address_list api m list_name w of Inl _ \<Rightarrow> [] | Inr es \<Rightarrow> es)"

text \<open>One addition and one removal of \<open>apply\<close>.\<close>
definition add_one :: "'w router_api \<Rightarrow> bool \<Rightarrow> string \<Rightarrow> string \<times> string \<Rightarrow> 'w \<Rightarrow> 'w \<times> push_entry" where
  "add_one api has_v6 list_name ac w =
     (case ac of (addr, comment) \<Rightarrow>
       if is_ipv6 addr \<and> \<not> has_v6
       then (w, push_failed ''add'' addr ''ipv6 address-list resource unavailable'')
       else case ra_add api (if is_ipv6 addr then V6_PATH else V4_PATH) list_name addr comment w of
         (w, None) \<Rightarrow> (w, pushed ''add'' addr)
       | (w, Some e) \<Rightarrow>
           let msg = py_lower e
           in if py_contains msg ''already have such entry'' \<or> py_contains msg ''duplicate'' \<or> py_contains msg ''already exists''
              then (w, pushed_idem ''add'' addr)
              else (w, push_failed ''add'' addr (take 300 e)))"

definition remove_one :: "'w router_api \<Rightarrow> bool \<Rightarrow> string \<Rightarrow> 'w \<Rightarrow> 'w \<times> push_entry" where
  "remove_one api has_v6 mt_id w =
     (case split_id mt_id of (path, real_id) \<Rightarrow>
       if path = V6_PATH \<and> \<not> has_v6
       then (w, push_failed ''remove'' mt_id ''ipv6 address-list resource unavailable'')
       else case ra_remove api path real_id w of
         (w, None) \<Rightarrow> (w, pushed ''remove'' mt_id)
       | (w, Some e) \<Rightarrow>
           let msg = py_lower e
           in if py_contains msg ''no such item'' \<or> py_contains msg ''not found''
              then (w, pushed_idem ''remove'' mt_id)
              else (w, push_failed ''remove'' mt_id (take 300 e)))"

text \<open>A loop of operations, each logged as it returns.\<close>
fun push_loop :: "(push_entry \<Rightarrow> apply_result \<Rightarrow> apply_result) \<Rightarrow> ('x \<Rightarrow> 'w \<Rightarrow> 'w \<times> push_entry) \<Rightarrow> 'x list
    \<Rightarrow> 'w \<times> apply_result \<Rightarrow> 'w \<times> apply_result" where
  "push_loop lg f [] s = s"
| "push_loop lg f (x # xs) (w, res) = (case f x w of (w, p) \<Rightarrow> push_loop lg f xs (w, lg p res))"

definition mt_apply :: "'w router_api \<Rightarrow> mt_config \<Rightarrow> string \<Rightarrow> (string \<times> string) list \<Rightarrow> string list \<Rightarrow> 'w
    \<Rightarrow> 'w \<times> (exn + apply_result)" where
  "mt_apply api m list_name adds remove_ids w =
     (if \<not> mt_is_configured m then (w, Inr no_result)
      else case mt_connect api m w of
        Some e \<Rightarrow> (w, Inl e)
      | None \<Rightarrow>
          (case ra_resource api V4_PATH w of
             Some e \<Rightarrow> (w, Inl (RuntimeErr e))
           | None \<Rightarrow>
               let has_v6 = (ra_resource api V6_PATH w = None);
                   s = push_loop log_add (add_one api has_v6 list_name) adds (w, no_result);
                   (w, res) = push_loop log_remove (remove_one api has_v6) remove_ids s
               in (w, Inr res)))"

text \<open>The database-configured adapter has the same helpers and the same loops, word for word.\<close>
definition db_is_ipv6 :: "string \<Rightarrow> bool" where "db_is_ipv6 = is_ipv6"
definition db_split_id :: "string \<Rightarrow> string \<times> string" where "db_split_id = split_id"

definition db_snapshot :: "'w router_api \<Rightarrow> mt_config \<Rightarrow> string \<Rightarrow> 'w \<Rightarrow> entry list" where
  "db_snapshot = snapshot"

definition db_apply :: "'w router_api \<Rightarrow> mt_config \<Rightarrow> string \<Rightarrow> (string \<times> string) list \<Rightarrow> string list \<Rightarrow> 'w
    \<Rightarrow> 'w \<times> (exn + apply_result)" where
  "db_apply = mt_apply"

section \<open>Accounting\<close>

text \<open>What every result of an apply satisfies: the counters are the counts of its log.\<close>
definition accounted :: "apply_result \<Rightarrow> bool" where
  "accounted res = (errors res = length (filter (\<lambda>p. \<not> p_success p) (push_log res))
     \<and> applied_add res + applied_remove res = length (filter p_success (push_log res)))"

lemma accounted_no_result [simp]: "accounted no_result"
  by (simp add: accounted_def no_result_def)

lemma accounted_log [simp]: "accounted res \<Longrightarrow> accounted (log_add p res)" "accounted res \<Longrightarrow> accounted (log_remove p res)"
  by (auto simp: accounted_def log_add_def log_remove_def)

lemma push_loop_accounted:
  "accounted (snd s) \<Longrightarrow> (\<And>p res. accounted res \<Longrightarrow> accounted (lg p res)) \<Longrightarrow>
   accounted (snd (push_loop lg f xs s))"
  by (induction lg f xs s rule: push_loop.induct) (auto split: prod.splits)

lemma push_loop_log:
  assumes "\<And>p res. push_log (lg p res) = push_log res @ [p]" "\<And>x w. p_ip (snd (f x w)) = ip x"
  shows "map p_ip (push_log (snd (push_loop lg f xs s))) = map p_ip (push_log (snd s)) @ map ip xs"
  by (induction xs arbitrary: s)
    (auto simp: assms split: prod.splits, metis assms(2) snd_conv)

lemma log_add_log [simp]: "push_log (log_add p res) = push_log res @ [p]"
  by (simp add: log_add_def)

lemma log_remove_log [simp]: "push_log (log_remove p res) = push_log res @ [p]"
  by (simp add: log_remove_def)

lemma add_one_ip: "p_ip (snd (add_one api v6 l ac w)) = fst ac"
  by (auto simp: add_one_def push_failed_def pushed_def pushed_idem_def Let_def split: prod.splits option.splits)

lemma remove_one_ip: "p_ip (snd (remove_one api v6 i w)) = i"
  by (auto simp: remove_one_def push_failed_def pushed_def pushed_idem_def Let_def split: prod.splits option.splits)

text \<open>Nothing is lost in an apply: when the router session opens, the log of the result names every
  requested addition and then every requested removal, once each and in order; the error counter is the
  number of failed entries of the log and the applied counters are the number of successful ones. A
  failure of one operation never stops the ones behind it.\<close>
theorem mt_apply_logs_everything:
  assumes "mt_apply api m list_name adds remove_ids w = (w', Inr res)" "mt_is_configured m"
  shows "map p_ip (push_log res) = map fst adds @ remove_ids \<and>
    errors res = length (filter (\<lambda>p. \<not> p_success p) (push_log res)) \<and>
    applied_add res + applied_remove res = length (filter p_success (push_log res))"
proof -
  define v6 where "v6 = (ra_resource api V6_PATH w = None)"
  define s where "s = push_loop log_add (add_one api v6 list_name) adds (w, no_result)"
  have res: "res = snd (push_loop log_remove (remove_one api v6) remove_ids s)"
    using assms by (auto simp: mt_apply_def s_def v6_def Let_def split: option.splits prod.splits)
  have "map p_ip (push_log res) = map p_ip (push_log (snd s)) @ remove_ids"
    unfolding res by (subst push_loop_log [where ip = "\<lambda>i. i"]) (simp_all add: remove_one_ip)
  moreover have "map p_ip (push_log (snd s)) = map fst adds"
    unfolding s_def by (subst push_loop_log [where ip = fst]) (simp_all add: add_one_ip no_result_def)
  moreover have "accounted res"
    unfolding res s_def by (intro push_loop_accounted) simp_all
  ultimately show ?thesis by (simp add: accounted_def)
qed

section \<open>The routing of ids by family\<close>

lemma split_id_mark: "split_id (''v4:'' @ i) = (V4_PATH, i)" "split_id (''v6:'' @ i) = (V6_PATH, i)"
  by (simp_all add: split_id_def py_startswith_def)

section \<open>A router, as the adapters rely on it\<close>

text \<open>
  The documented behaviour of the RouterOS address lists: \<open>get\<close> returns the entries of the list asked
  for, \<open>add\<close> appends an entry with the given address and comment under an id not in use, or fails and
  changes nothing, \<open>remove\<close> deletes the entries with that id in that resource, or fails and changes
  nothing. \<open>table path w\<close> are the entries of a resource.
\<close>
locale routeros =
  fixes api :: "'w router_api" and table :: "string \<Rightarrow> 'w \<Rightarrow> entry list"
  assumes get: "ra_get api path l w = Inr (filter (\<lambda>e. e_list e = Some l) (table path w))"
    and add_fail: "ra_add api path l a c w = (w', Some e) \<Longrightarrow> table p w' = table p w"
    and add: "ra_add api path l a c w = (w', None) \<Longrightarrow>
      \<exists>new. e_comment new = Some c \<and> e_address new = Some a \<and>
        table p w' = (if p = path then table p w @ [new] else table p w)"
    and remove_fail: "ra_remove api path i w = (w', Some e) \<Longrightarrow> table p w' = table p w"
    and remove: "ra_remove api path i w = (w', None) \<Longrightarrow>
      table p w' = (if p = path then filter (\<lambda>e. raw_id e \<noteq> i) (table p w) else table p w)"
begin

text \<open>The entries of other tools in a resource.\<close>
definition foreign :: "string \<Rightarrow> 'w \<Rightarrow> entry list" where
  "foreign p w = filter (\<lambda>e. \<not> is_owned (e_comment e)) (table p w)"

lemma add_one_foreign:
  assumes "is_owned (Some c)"
  shows "foreign p (fst (add_one api v6 l (a, c) w)) = foreign p w"
proof (cases "is_ipv6 a \<and> \<not> v6")
  case True
  then show ?thesis by (simp add: add_one_def)
next
  case False
  define path where "path = (if is_ipv6 a then V6_PATH else V4_PATH)"
  obtain w' r where r: "ra_add api path l a c w = (w', r)" by force
  have "foreign p w' = foreign p w"
  proof (cases r)
    case None
    with r obtain new where "e_comment new = Some c"
      "table p w' = (if p = path then table p w @ [new] else table p w)" using add by blast
    then show ?thesis using assms by (auto simp: foreign_def)
  next
    case (Some e)
    with r show ?thesis using add_fail by (simp add: foreign_def)
  qed
  moreover have "fst (add_one api v6 l (a, c) w) = w'"
    using r False by (auto simp: add_one_def path_def Let_def split: option.splits)
  ultimately show ?thesis by simp
qed

lemma remove_one_foreign:
  assumes "\<And>e. e \<in> set (foreign (fst (split_id i)) w) \<Longrightarrow> raw_id e \<noteq> snd (split_id i)"
  shows "foreign p (fst (remove_one api v6 i w)) = foreign p w"
proof -
  obtain path rid where sp: "split_id i = (path, rid)" by force
  obtain w' r where r: "ra_remove api path rid w = (w', r)" by force
  have "foreign p w' = foreign p w"
  proof (cases r)
    case None
    with r have "table p w' = (if p = path then filter (\<lambda>e. raw_id e \<noteq> rid) (table p w) else table p w)"
      using remove by blast
    moreover have "filter (\<lambda>e. \<not> is_owned (e_comment e)) (filter (\<lambda>e. raw_id e \<noteq> rid) (table path w))
        = filter (\<lambda>e. \<not> is_owned (e_comment e)) (table path w)"
      using assms sp by (auto simp: foreign_def intro!: filter_cong)
    ultimately show ?thesis by (simp add: foreign_def)
  next
    case (Some e)
    with r show ?thesis using remove_fail by (simp add: foreign_def)
  qed
  moreover have "fst (remove_one api v6 i w) \<in> {w, w'}"
    using r sp by (auto simp: remove_one_def Let_def split: option.splits prod.splits if_splits)
  ultimately show ?thesis by auto
qed

lemma add_loop_foreign:
  "\<forall>ac \<in> set adds. is_owned (Some (snd ac)) \<Longrightarrow>
   foreign p (fst (push_loop log_add (add_one api v6 l) adds s)) = foreign p (fst s)"
proof (induction adds arbitrary: s)
  case (Cons ac adds)
  obtain w res a c where "s = (w, res)" "ac = (a, c)" by (metis surj_pair)
  with Cons add_one_foreign [of c p v6 l a w] show ?case by (auto split: prod.splits)
qed simp

lemma remove_loop_foreign:
  "\<forall>i \<in> set ids. \<forall>e \<in> set (foreign (fst (split_id i)) (fst s)). raw_id e \<noteq> snd (split_id i) \<Longrightarrow>
   foreign p (fst (push_loop log_remove (remove_one api v6) ids s)) = foreign p (fst s)"
proof (induction ids arbitrary: s)
  case (Cons i ids)
  obtain w res where s: "s = (w, res)" by force
  have step: "foreign q (fst (remove_one api v6 i w)) = foreign q w" for q
    using Cons.prems s by (intro remove_one_foreign) auto
  have "foreign p (fst (push_loop log_remove (remove_one api v6) ids
      (fst (remove_one api v6 i w), log_remove (snd (remove_one api v6 i w)) res))) = foreign p w"
    using Cons.IH [of "(fst (remove_one api v6 i w), log_remove (snd (remove_one api v6 i w)) res)"]
      Cons.prems s step by simp
  then show ?case by (simp add: s case_prod_beta)
qed simp

lemma apply_foreign:
  assumes "\<forall>ac \<in> set adds. is_owned (Some (snd ac))"
    "\<forall>i \<in> set ids. \<forall>e \<in> set (foreign (fst (split_id i)) w). raw_id e \<noteq> snd (split_id i)"
  shows "foreign p (fst (mt_apply api m l adds ids w)) = foreign p w"
proof -
  define v6 where "v6 = (ra_resource api V6_PATH w = None)"
  define s where "s = push_loop log_add (add_one api v6 l) adds (w, no_result)"
  have s: "foreign q (fst s) = foreign q w" for q
    unfolding s_def using add_loop_foreign [OF assms(1), of q v6 l "(w, no_result)"] by simp
  have "foreign p (fst (push_loop log_remove (remove_one api v6) ids s)) = foreign p (fst s)"
    by (rule remove_loop_foreign) (use assms(2) s in simp)
  then show ?thesis
    using s by (auto simp: mt_apply_def s_def v6_def Let_def split: option.splits prod.splits)
qed

end

text \<open>The dot variant of the library: entries carry \<open>.id\<close> and no \<open>id\<close>, unique in each resource.\<close>
definition dot_ids :: "entry list \<Rightarrow> bool" where
  "dot_ids es = (distinct (map raw_id es) \<and> (\<forall>e \<in> set es. e_id e = None))"

text \<open>One live cycle of the reconciler on a MikroTik target: snapshot, diff, apply.\<close>
definition mt_cycle :: "'w router_api \<Rightarrow> mt_config \<Rightarrow> string \<Rightarrow> nat \<Rightarrow> decision list \<Rightarrow> 'w \<Rightarrow> 'w" where
  "mt_cycle api m list_name batch_cap ds w =
     (let diff = reconcile ds (snapshot api m list_name w)
      in fst (mt_apply api m list_name (take batch_cap (to_add diff)) (take batch_cap (to_remove diff)) w))"

context routeros
begin

lemma snapshot_entry:
  assumes "e \<in> set (snapshot api m l w)"
  shows "\<exists>fam path e0. (fam, path) \<in> {(''v4'', V4_PATH), (''v6'', V6_PATH)} \<and>
    e0 \<in> set (table path w) \<and> e = mark_family fam e0"
  using assms
  by (auto simp: snapshot_def get_address_list_def family_entries_def get
      split: if_splits option.splits)

lemma removal_hits_owned:
  assumes "\<And>p. dot_ids (table p w)" "i \<in> set (to_remove (reconcile ds (snapshot api m l w)))"
    "e \<in> set (foreign (fst (split_id i)) w)"
  shows "raw_id e \<noteq> snd (split_id i)"
proof
  assume same: "raw_id e = snd (split_id i)"
  obtain s where s: "s \<in> set (snapshot api m l w)" "is_owned (e_comment s)" "diff_entry_id s = Some i"
    using to_remove_entry [OF assms(2)] by (auto simp: stale_def owned_entries_def)
  then obtain fam path e0 where e0: "(fam, path) \<in> {(''v4'', V4_PATH), (''v6'', V6_PATH)}"
    "e0 \<in> set (table path w)" "s = mark_family fam e0" using snapshot_entry by metis
  have "e_id e0 = None" using assms(1) [of path] e0(2) by (auto simp: dot_ids_def)
  with s(3) e0(3) have "raw_id e0 \<noteq> []" "i = fam @ '':'' @ raw_id e0"
    by (auto simp: mark_family_def diff_entry_id_def raw_id_def str_or_def str_truthy_def
        split: if_splits option.splits)
  then have "split_id i = (path, raw_id e0)" using e0(1) split_id_mark by auto
  moreover from this have "e \<in> set (table path w)" "\<not> is_owned (e_comment e)"
    using assms(3) by (auto simp: foreign_def)
  ultimately have "e = e0"
    using same e0(2) assms(1) [of path] by (auto simp: dot_ids_def distinct_map inj_on_def)
  moreover have "is_owned (e_comment e0)" using s(2) e0(3) by (auto simp: mark_family_def split: if_splits)
  ultimately show False using assms(3) by (simp add: foreign_def)
qed

lemma cycle_foreign:
  assumes "\<And>p. dot_ids (table p w)"
  shows "foreign p (mt_cycle api m l cap ds w) = foreign p w"
  unfolding mt_cycle_def Let_def
proof (rule apply_foreign)
  show "\<forall>ac \<in> set (take cap (to_add (reconcile ds (snapshot api m l w)))). is_owned (Some (snd ac))"
    by (auto simp: reconcile_closed dest!: in_set_takeD)
  show "\<forall>i \<in> set (take cap (to_remove (reconcile ds (snapshot api m l w)))).
      \<forall>e \<in> set (foreign (fst (split_id i)) w). raw_id e \<noteq> snd (split_id i)"
    using removal_hits_owned [OF assms] by (auto dest!: in_set_takeD)
qed

end

section \<open>A reference router\<close>

text \<open>Two address lists and a counter for ids; the flag says under which key the library returns an id.\<close>
record sim_router =
  sim4 :: "entry list"
  sim6 :: "entry list"
  sim_next :: nat
  sim_dot :: bool

definition sim_table :: "string \<Rightarrow> sim_router \<Rightarrow> entry list" where
  "sim_table p w = (if p = V4_PATH then sim4 w else if p = V6_PATH then sim6 w else [])"

definition sim_set :: "string \<Rightarrow> entry list \<Rightarrow> sim_router \<Rightarrow> sim_router" where
  "sim_set p es w = (if p = V4_PATH then w\<lparr>sim4 := es\<rparr> else if p = V6_PATH then w\<lparr>sim6 := es\<rparr> else w)"

definition sim_entry :: "bool \<Rightarrow> string \<Rightarrow> string \<Rightarrow> string \<Rightarrow> string \<Rightarrow> entry" where
  "sim_entry dot i l a c = \<lparr>e_id = (if dot then None else Some i), e_dot_id = (if dot then Some i else None),
     e_numbers = None, e_address = Some a, e_comment = Some c, e_list = Some l\<rparr>"

definition sim_add :: "string \<Rightarrow> string \<Rightarrow> string \<Rightarrow> string \<Rightarrow> sim_router \<Rightarrow> sim_router \<times> string option" where
  "sim_add path l a c w =
     (if path \<notin> {V4_PATH, V6_PATH} then (w, Some ''no such command'')
      else if \<exists>e \<in> set (sim_table path w). e_list e = Some l \<and> e_address e = Some a
      then (w, Some ''failure: already have such entry'')
      else (sim_set path (sim_table path w @ [sim_entry (sim_dot w) (''*'' @ py_str_nat (sim_next w)) l a c])
              (w\<lparr>sim_next := sim_next w + 1\<rparr>), None))"

definition sim_remove :: "string \<Rightarrow> string \<Rightarrow> sim_router \<Rightarrow> sim_router \<times> string option" where
  "sim_remove path i w =
     (if \<exists>e \<in> set (sim_table path w). raw_id e = i
      then (sim_set path (filter (\<lambda>e. raw_id e \<noteq> i) (sim_table path w)) w, None)
      else (w, Some ''no such item''))"

definition sim_api :: "sim_router router_api" where
  "sim_api = \<lparr>ra_connect = (\<lambda>_. None), ra_resource = (\<lambda>_ _. None),
     ra_get = (\<lambda>path l w. Inr (filter (\<lambda>e. e_list e = Some l) (sim_table path w))),
     ra_add = sim_add, ra_remove = sim_remove, ra_version = (\<lambda>_. Inr (Some ''7.15''))\<rparr>"

lemma V4_V6_distinct [simp]: "V4_PATH \<noteq> V6_PATH" "V6_PATH \<noteq> V4_PATH"
  by (simp_all add: V4_PATH_def V6_PATH_def)


interpretation sim: routeros sim_api sim_table
proof
  fix path l a c p e :: string and w w' :: sim_router
  show "ra_get sim_api path l w = Inr (filter (\<lambda>e. e_list e = Some l) (sim_table path w))"
    by (simp add: sim_api_def)
  show "sim_table p w' = sim_table p w" if "ra_add sim_api path l a c w = (w', Some e)"
    using that by (auto simp: sim_api_def sim_add_def split: if_splits)
  show "\<exists>new. e_comment new = Some c \<and> e_address new = Some a \<and>
        sim_table p w' = (if p = path then sim_table p w @ [new] else sim_table p w)"
    if "ra_add sim_api path l a c w = (w', None)"
    using that
    by (intro exI [of _ "sim_entry (sim_dot w) (''*'' @ py_str_nat (sim_next w)) l a c"])
      (auto simp: sim_api_def sim_add_def sim_set_def sim_entry_def sim_table_def split: if_splits)
next
  fix path i p e :: string and w w' :: sim_router
  show "sim_table p w' = sim_table p w" if "ra_remove sim_api path i w = (w', Some e)"
    using that by (auto simp: sim_api_def sim_remove_def split: if_splits)
  show "sim_table p w' = (if p = path then filter (\<lambda>e. raw_id e \<noteq> i) (sim_table p w) else sim_table p w)"
    if "ra_remove sim_api path i w = (w', None)"
    using that by (auto simp: sim_api_def sim_remove_def sim_set_def sim_table_def split: if_splits)
qed


definition sample_mt :: mt_config where
  "sample_mt = \<lparr>mt_host = ''10.0.0.1'', mt_username = ''protek'', mt_password = ''p'', mt_port = 8728, mt_use_ssl = False\<rparr>"

definition sample_router :: "bool \<Rightarrow> sim_router" where
  "sample_router dot =
     \<lparr>sim4 = [sim_entry dot ''*1'' ''crowdsec'' ''203.0.113.9'' ''office uplink''],
      sim6 = [sim_entry dot ''*1'' ''crowdsec'' ''2001:db8::7'' ''protek:local:ssh-bf:4''],
      sim_next = 2, sim_dot = dot\<rparr>"


text \<open>With the library variant that returns the id under \<open>id\<close>, removals of IPv6 entries go to the IPv4
  list: the snapshot puts the family prefix on \<open>.id\<close> only, the diff prefers \<open>id\<close>, and a bare id counts as
  IPv4. Here the stale IPv6 ban stays, and the operator's own IPv4 entry with the same id is deleted.\<close>
theorem ipv6_removal_hits_ipv4_entry:
  "sim_table V4_PATH (mt_cycle sim_api sample_mt ''crowdsec'' 9 [] (sample_router False)) = []
   \<and> sim_table V6_PATH (mt_cycle sim_api sample_mt ''crowdsec'' 9 [] (sample_router False))
       = sim6 (sample_router False)"
  by (intro conjI) code_simp+

theorem mt_apply_logs_everything_witness:
  "\<exists>w' res. mt_apply sim_api sample_mt ''crowdsec''
       [(''192.0.2.1'', ''protek:local:a:1''), (''203.0.113.9'', ''protek:local:a:2'')] [''v6:*1'', ''v4:*77'']
       (sample_router True) = (w', Inr res)
     \<and> map p_ip (push_log res) = [''192.0.2.1'', ''203.0.113.9'', ''v6:*1'', ''v4:*77''] \<and> errors res = 0"
proof -
  let ?call = "mt_apply sim_api sample_mt ''crowdsec''
       [(''192.0.2.1'', ''protek:local:a:1''), (''203.0.113.9'', ''protek:local:a:2'')] [''v6:*1'', ''v4:*77'']
       (sample_router True)"
  have "isl (snd ?call) = False" by code_simp
  then obtain w' res where call: "?call = (w', Inr res)" by (metis isl_def prod.collapse sum.exhaust_sel)
  have "errors (projr (snd ?call)) = 0" by code_simp
  moreover have "mt_is_configured sample_mt" by code_simp
  ultimately show ?thesis
    using call mt_apply_logs_everything [OF call] by auto
qed

end
