(* ===== verification/Adapters.thy ===== *)
theory Adapters
  imports Mikrotik "HOL-Library.List_Lexorder" "HOL-Library.Char_ord"
begin

text \<open>
  The other bouncer adapters: the RouterOS REST adapter, ipset, pfSense and OPNsense. The HTTP library
  and the process runner are parameters over an arbitrary type of device states; an outcome is the
  text of the exception or a response. URLs, authentication and time-outs are part of the call.
\<close>

section \<open>RouterOS over REST\<close>

record rest_body =
  rb_detail :: "string option"
  rb_message :: "string option"

text \<open>The calls: list the entries (\<open>None\<close> is a body that is not a list), add one, delete one by id.\<close>
record 'w rest_api =
  rs_get :: "string \<Rightarrow> 'w \<Rightarrow> string + entry list option response"
  rs_put :: "string \<Rightarrow> string \<Rightarrow> string \<Rightarrow> 'w \<Rightarrow> 'w \<times> (string + rest_body response)"
  rs_delete :: "string \<Rightarrow> 'w \<Rightarrow> 'w \<times> (string + rest_body response)"

record rest_config =
  rc_host :: string
  rc_username :: string
  rc_password :: string
  rc_list_name :: string

definition rest_is_configured :: "rest_config \<Rightarrow> bool" where
  "rest_is_configured c = (rc_host c \<noteq> [] \<and> rc_username c \<noteq> [] \<and> rc_password c \<noteq> [])"

definition rest_entry :: "entry \<Rightarrow> entry" where
  "rest_entry e = \<lparr>e_id = None, e_dot_id = Some (str_or (e_dot_id e) ''''), e_numbers = None,
     e_address = Some (str_or (e_address e) ''''), e_comment = Some (str_or (e_comment e) ''''),
     e_list = Some (str_or (e_list e) '''')\<rparr>"

definition rest_snapshot :: "'w rest_api \<Rightarrow> rest_config \<Rightarrow> 'w \<Rightarrow> entry list" where
  "rest_snapshot api c w =
     (if \<not> rest_is_configured c then []
      else case rs_get api (rc_list_name c) w of
        Inl _ \<Rightarrow> []
      | Inr r \<Rightarrow>
          if status_code r \<ge> 400 then []
          else if \<not> r_content r then []
          else case r_json r of Inl _ \<Rightarrow> [] | Inr None \<Rightarrow> [] | Inr (Some es) \<Rightarrow> map rest_entry es)"

text \<open>\<open>body.get("detail") or body.get("message") or ...\<close>.\<close>
definition body_text :: "rest_body \<Rightarrow> string option" where
  "body_text b = (if str_truthy (rb_detail b) then rb_detail b else rb_message b)"

definition is_duplicate :: "rest_body response \<Rightarrow> bool" where
  "is_duplicate r =
     (case (if r_content r then r_json r else Inr \<lparr>rb_detail = None, rb_message = None\<rparr>) of
        Inl _ \<Rightarrow> False
      | Inr b \<Rightarrow>
          let msg = py_lower (str_or (body_text b) '''')
          in py_contains msg ''already have such entry'' \<or> py_contains msg ''duplicate'' \<or> py_contains msg ''already exists'')"

definition error_text :: "rest_body response \<Rightarrow> string" where
  "error_text r =
     (case (if r_content r then r_json r else Inr \<lparr>rb_detail = None, rb_message = None\<rparr>) of
        Inl _ \<Rightarrow> take 200 (r_text r)
      | Inr b \<Rightarrow> str_or (body_text b) (take 200 (r_text r)))"

definition rest_add_one :: "'w rest_api \<Rightarrow> string \<Rightarrow> string \<times> string \<Rightarrow> 'w \<Rightarrow> 'w \<times> push_entry" where
  "rest_add_one api list_name ac w =
     (case ac of (addr, comment) \<Rightarrow>
        (case rs_put api list_name addr comment w of
           (w, Inl e) \<Rightarrow> (w, push_failed ''add'' addr (take 200 e))
         | (w, Inr r) \<Rightarrow>
             if status_code r \<in> {200, 201} then (w, pushed ''add'' addr)
             else if status_code r = 400 \<and> is_duplicate r then (w, pushed_idem ''add'' addr)
             else (w, push_failed ''add'' addr (error_text r))))"

definition rest_remove_one :: "'w rest_api \<Rightarrow> string \<Rightarrow> 'w \<Rightarrow> 'w \<times> push_entry" where
  "rest_remove_one api rid w =
     (case rs_delete api rid w of
        (w, Inl e) \<Rightarrow> (w, push_failed ''remove'' rid (take 200 e))
      | (w, Inr r) \<Rightarrow>
          if status_code r \<in> {200, 204} then (w, pushed ''remove'' rid)
          else if status_code r = 404 then (w, pushed_idem ''remove'' rid)
          else (w, push_failed ''remove'' rid (error_text r)))"

definition rest_apply :: "'w rest_api \<Rightarrow> rest_config \<Rightarrow> (string \<times> string) list \<Rightarrow> string list \<Rightarrow> 'w \<Rightarrow> 'w \<times> apply_result" where
  "rest_apply api c adds remove_ids w =
     (if \<not> rest_is_configured c then (w, no_result)
      else push_loop log_remove (rest_remove_one api) remove_ids
             (push_loop log_add (rest_add_one api (rc_list_name c)) adds (w, no_result)))"

section \<open>ipset\<close>

text \<open>\<open>subprocess.run\<close> of the ipset binary: an exception text, or return code, output and errors.\<close>
type_synonym 'w command = "string list \<Rightarrow> 'w \<Rightarrow> 'w \<times> (string + (int \<times> string \<times> string))"

record ipset_bouncer =
  ip_set_v4 :: string
  ip_set_v6 :: string
  ip_max_v4 :: nat
  ip_max_v6 :: nat
  ip_binary :: "string option"
  ip_ensured :: bool

definition ipset_is_configured :: "ipset_bouncer \<Rightarrow> bool" where
  "ipset_is_configured b = str_truthy (ip_binary b)"

definition ensure_set :: "'w command \<Rightarrow> string \<Rightarrow> string \<Rightarrow> string \<Rightarrow> nat \<Rightarrow> 'w \<Rightarrow> 'w \<times> exn option" where
  "ensure_set run bin setname family maxelem w =
     (case run [bin, ''create'', setname, ''hash:net'', ''family'', family, ''hashsize'', ''4096'',
                ''maxelem'', py_str_nat maxelem, ''-exist''] w of
        (w, Inl e) \<Rightarrow> (w, Some (RuntimeErr e)) | (w, Inr _) \<Rightarrow> (w, None))"

text \<open>A failing \<open>ipset create\<close> is not an error here; only an exception of the runner stops.\<close>
definition ensure_sets :: "'w command \<Rightarrow> ipset_bouncer \<Rightarrow> 'w \<Rightarrow> 'w \<times> (exn + ipset_bouncer)" where
  "ensure_sets run b w =
     (if ip_ensured b then (w, Inr b)
      else case ensure_set run (the (ip_binary b)) (ip_set_v4 b) ''inet'' (ip_max_v4 b) w of
        (w, Some e) \<Rightarrow> (w, Inl e)
      | (w, None) \<Rightarrow>
          (case ensure_set run (the (ip_binary b)) (ip_set_v6 b) ''inet6'' (ip_max_v6 b) w of
             (w, Some e) \<Rightarrow> (w, Inl e)
           | (w, None) \<Rightarrow> (w, Inr (b\<lparr>ip_ensured := True\<rparr>))))"

text \<open>The members of a set listing: the non-blank lines after the \<open>Members:\<close> line.\<close>
fun members :: "bool \<Rightarrow> string list \<Rightarrow> string list" where
  "members seen [] = []"
| "members seen (line # ls) =
     (if seen then (let addr = py_strip line in if addr = [] then members seen ls else addr # members seen ls)
      else members (py_startswith line ''Members:'') ls)"

definition ipset_entry :: "string \<Rightarrow> string \<Rightarrow> entry" where
  "ipset_entry setname addr = \<lparr>e_id = None, e_dot_id = Some (setname @ ''|'' @ addr), e_numbers = None,
     e_address = Some addr, e_comment = Some ''protek:ipset::0'', e_list = Some setname\<rparr>"

definition list_set :: "'w command \<Rightarrow> string \<Rightarrow> string \<Rightarrow> 'w \<Rightarrow> 'w \<times> entry list" where
  "list_set run bin setname w =
     (case run [bin, ''list'', setname] w of
        (w, Inl _) \<Rightarrow> (w, [])
      | (w, Inr (rc, stdout, _)) \<Rightarrow>
          (w, if rc \<noteq> 0 then [] else map (ipset_entry setname) (members False (py_splitlines stdout))))"

definition ipset_snapshot :: "'w command \<Rightarrow> ipset_bouncer \<Rightarrow> 'w \<Rightarrow> 'w \<times> (exn + entry list)" where
  "ipset_snapshot run b w =
     (if \<not> ipset_is_configured b then (w, Inr [])
      else case ensure_sets run b w of
        (w, Inl e) \<Rightarrow> (w, Inl e)
      | (w, Inr b) \<Rightarrow>
          let (w, v4) = list_set run (the (ip_binary b)) (ip_set_v4 b) w;
              (w, v6) = list_set run (the (ip_binary b)) (ip_set_v6 b) w
          in (w, Inr (v4 @ v6)))"

text \<open>\<open>_set_for\<close>: a colon decides first; an address that does not parse goes to the IPv4 set.\<close>
definition set_for :: "ipset_bouncer \<Rightarrow> string \<Rightarrow> string" where
  "set_for b addr =
     (if CHR '':'' \<in> set addr then ip_set_v6 b
      else case ip_network addr of
             Some n \<Rightarrow> if net_version n = 6 then ip_set_v6 b else ip_set_v4 b
           | None \<Rightarrow> ip_set_v4 b)"

definition ipset_op :: "'w command \<Rightarrow> string \<Rightarrow> string \<Rightarrow> string \<Rightarrow> string \<Rightarrow> string \<Rightarrow> 'w \<Rightarrow> 'w \<times> push_entry" where
  "ipset_op run bin verb action target addr w =
     (case run [bin, verb, target, addr, ''-exist''] w of
        (w, Inl e) \<Rightarrow> (w, push_failed action addr (take 300 e))
      | (w, Inr (rc, stdout, stderr)) \<Rightarrow>
          if rc = 0 then (w, pushed action addr)
          else (w, push_failed action addr (take 300 (str_or (Some stderr) stdout))))"

text \<open>A removal handle is \<open>setname|address\<close>; a handle without the bar is skipped.\<close>
fun ipset_removes :: "'w command \<Rightarrow> string \<Rightarrow> string list \<Rightarrow> 'w \<times> apply_result \<Rightarrow> 'w \<times> apply_result" where
  "ipset_removes run bin [] s = s"
| "ipset_removes run bin (rid # rids) (w, res) =
     (case py_split_max (CHR ''|'') 1 rid of
        [target, addr] \<Rightarrow>
          (case ipset_op run bin ''del'' ''remove'' target addr w of
             (w, p) \<Rightarrow> ipset_removes run bin rids (w, log_remove p res))
      | _ \<Rightarrow> ipset_removes run bin rids (w, res))"

definition ipset_apply :: "'w command \<Rightarrow> ipset_bouncer \<Rightarrow> (string \<times> string) list \<Rightarrow> string list \<Rightarrow> 'w
    \<Rightarrow> 'w \<times> (exn + apply_result)" where
  "ipset_apply run b adds remove_ids w =
     (if \<not> ipset_is_configured b then (w, Inr no_result)
      else case ensure_sets run b w of
        (w, Inl e) \<Rightarrow> (w, Inl e)
      | (w, Inr b) \<Rightarrow>
          let bin = the (ip_binary b);
              s = push_loop log_add (\<lambda>ac w. ipset_op run bin ''add'' ''add'' (set_for b (fst ac)) (fst ac) w) adds (w, no_result);
              (w, res) = ipset_removes run bin remove_ids s
          in (w, Inr res))"

section \<open>pfSense\<close>

text \<open>The alias endpoint: read the addresses, replace them all, apply pending changes.\<close>
record 'w pf_api =
  pf_get :: "string \<Rightarrow> 'w \<Rightarrow> string + string list response"
  pf_patch :: "string \<Rightarrow> string list \<Rightarrow> 'w \<Rightarrow> 'w \<times> (string + unit response)"
  pf_post_apply :: "'w \<Rightarrow> 'w \<times> string option"

record pf_config =
  pf_base_url :: string
  pf_api_key :: string
  pf_alias_name :: string

definition pf_is_configured :: "pf_config \<Rightarrow> bool" where
  "pf_is_configured c = (pf_base_url c \<noteq> [] \<and> pf_api_key c \<noteq> [])"

definition pf_entry :: "string \<Rightarrow> string \<Rightarrow> entry" where
  "pf_entry alias a = \<lparr>e_id = None, e_dot_id = Some a, e_numbers = None, e_address = Some a,
     e_comment = Some ''protek:pfsense::0'', e_list = Some alias\<rparr>"

definition pf_snapshot :: "'w pf_api \<Rightarrow> pf_config \<Rightarrow> 'w \<Rightarrow> entry list" where
  "pf_snapshot api c w =
     (if \<not> pf_is_configured c then []
      else case pf_get api (pf_alias_name c) w of
        Inl _ \<Rightarrow> []
      | Inr r \<Rightarrow>
          if status_code r \<ge> 400 then []
          else case r_json r of Inl _ \<Rightarrow> [] | Inr addrs \<Rightarrow> map (pf_entry (pf_alias_name c)) addrs)"

definition bulk_log :: "bool \<Rightarrow> string \<Rightarrow> push_entry list" where
  "bulk_log ok e = [\<lparr>p_ip = ''(bulk)'', p_action = ''patch'', p_success = ok, p_error = e\<rparr>]"

text \<open>\<open>sorted(set)\<close> of texts.\<close>
definition py_sorted_set :: "string list \<Rightarrow> string list" where
  "py_sorted_set xs = sort (remdups xs)"

definition pf_apply :: "'w pf_api \<Rightarrow> pf_config \<Rightarrow> (string \<times> string) list \<Rightarrow> string list \<Rightarrow> 'w \<Rightarrow> 'w \<times> apply_result" where
  "pf_apply api c adds remove_ids w =
     (if \<not> pf_is_configured c then (w, no_result\<lparr>errors := 1\<rparr>)
      else
        let current = map (\<lambda>e. str_or (e_address e) '''') (pf_snapshot api c w);
            added = map fst adds;
            new_set = filter (\<lambda>a. a \<notin> set remove_ids) (current @ added)
        in case pf_patch api (pf_alias_name c) (py_sorted_set new_set) w of
          (w, Inl e) \<Rightarrow> (w, no_result\<lparr>errors := 1, push_log := bulk_log False (take 300 e)\<rparr>)
        | (w, Inr r) \<Rightarrow>
            if status_code r \<ge> 400
            then (w, no_result\<lparr>errors := 1, push_log := bulk_log False
                    (''pfSense '' @ py_str_nat (status_code r) @ '': '' @ take 200 (r_text r))\<rparr>)
            else case pf_post_apply api w of
              (w, Some e) \<Rightarrow> (w, no_result\<lparr>errors := 1, push_log := bulk_log False (take 300 e)\<rparr>)
            | (w, None) \<Rightarrow> (w, \<lparr>applied_add = length (remdups added), applied_remove = length (remdups remove_ids),
                 errors = 0, push_log = bulk_log True []\<rparr>))"

section \<open>OPNsense\<close>

record 'w opn_api =
  opn_list :: "string \<Rightarrow> 'w \<Rightarrow> string + string option list response"
  opn_add :: "string \<Rightarrow> string \<Rightarrow> 'w \<Rightarrow> 'w \<times> (string + unit response)"
  opn_delete :: "string \<Rightarrow> string \<Rightarrow> 'w \<Rightarrow> 'w \<times> (string + unit response)"

record opn_config =
  opn_base_url :: string
  opn_api_key :: string
  opn_api_secret :: string
  opn_alias_name :: string

definition opn_is_configured :: "opn_config \<Rightarrow> bool" where
  "opn_is_configured c = (opn_base_url c \<noteq> [] \<and> opn_api_key c \<noteq> [] \<and> opn_api_secret c \<noteq> [])"

definition opn_entry :: "string \<Rightarrow> string \<Rightarrow> entry" where
  "opn_entry alias a = \<lparr>e_id = None, e_dot_id = Some a, e_numbers = None, e_address = Some a,
     e_comment = Some ''protek:opnsense::0'', e_list = Some alias\<rparr>"

text \<open>A row without an \<open>ip\<close> is left out.\<close>
definition opn_snapshot :: "'w opn_api \<Rightarrow> opn_config \<Rightarrow> 'w \<Rightarrow> entry list" where
  "opn_snapshot api c w =
     (if \<not> opn_is_configured c then []
      else case opn_list api (opn_alias_name c) w of
        Inl _ \<Rightarrow> []
      | Inr r \<Rightarrow>
          if status_code r \<ge> 400 then []
          else case r_json r of
            Inl _ \<Rightarrow> []
          | Inr rs \<Rightarrow> map (\<lambda>r. opn_entry (opn_alias_name c) (the r)) (filter str_truthy rs))"

definition opn_op :: "(string \<Rightarrow> string \<Rightarrow> 'w \<Rightarrow> 'w \<times> (string + unit response)) \<Rightarrow> string \<Rightarrow> string \<Rightarrow> string \<Rightarrow> 'w \<Rightarrow> 'w \<times> push_entry" where
  "opn_op call alias action addr w =
     (case call alias addr w of
        (w, Inl e) \<Rightarrow> (w, push_failed action addr (take 300 e))
      | (w, Inr r) \<Rightarrow>
          if status_code r \<in> {200, 201} then (w, pushed action addr)
          else (w, push_failed action addr
                  (''OPNsense '' @ py_str_nat (status_code r) @ '': '' @ take 200 (r_text r))))"

definition opn_apply :: "'w opn_api \<Rightarrow> opn_config \<Rightarrow> (string \<times> string) list \<Rightarrow> string list \<Rightarrow> 'w \<Rightarrow> 'w \<times> apply_result" where
  "opn_apply api c adds remove_ids w =
     (if \<not> opn_is_configured c then (w, no_result\<lparr>errors := 1\<rparr>)
      else push_loop log_remove (opn_op (opn_delete api) (opn_alias_name c) ''remove'') remove_ids
             (push_loop log_add (\<lambda>ac. opn_op (opn_add api) (opn_alias_name c) ''add'' (fst ac)) adds (w, no_result)))"

section \<open>Cloudflare\<close>

record cf_item =
  ci_ip :: "string option"
  ci_comment :: "string option"
  ci_id :: "string option"

record cf_page =
  cp_result :: "cf_item list"
  cp_after :: "string option"

record cf_list =
  cl_name :: "string option"
  cl_kind :: "string option"
  cl_id :: "string option"

record 'w cf_api =
  cf_lists :: "'w \<Rightarrow> string + cf_list list response"
  cf_create :: "string \<Rightarrow> 'w \<Rightarrow> 'w \<times> (string + string option response)"
  cf_items :: "string \<Rightarrow> string \<Rightarrow> 'w \<Rightarrow> string + cf_page response"
  cf_post :: "string \<Rightarrow> (string \<times> string) list \<Rightarrow> 'w \<Rightarrow> 'w \<times> (string + unit response)"
  cf_delete :: "string \<Rightarrow> string list \<Rightarrow> 'w \<Rightarrow> 'w \<times> (string + unit response)"

record cf_bouncer =
  cf_account_id :: string
  cf_list_id :: string
  cf_api_token :: string
  cf_list_name :: string
  cf_auto_create :: bool

definition cf_is_configured :: "cf_bouncer \<Rightarrow> bool" where
  "cf_is_configured b = (cf_account_id b \<noteq> [] \<and> cf_api_token b \<noteq> [])"

text \<open>The creation half of \<open>_ensure_list\<close>.\<close>
definition cf_create_list :: "'w cf_api \<Rightarrow> cf_bouncer \<Rightarrow> 'w \<Rightarrow> 'w \<times> cf_bouncer \<times> string option \<times> string" where
  "cf_create_list api b w =
     (case cf_create api (cf_list_name b) w of
        (w, Inl e) \<Rightarrow> (w, b, None, ''network error creating CF list: '' @ e)
      | (w, Inr r) \<Rightarrow>
          if status_code r \<in> {200, 201}
          then (case r_json r of
                  Inl e \<Rightarrow> (w, b, None, ''network error creating CF list: '' @ e)
                | Inr i \<Rightarrow> (w, b\<lparr>cf_list_id := str_or i ''''\<rparr>, Some (str_or i ''''), ''''))
          else (w, b, None, ''CF create-list HTTP '' @ py_str_nat (status_code r) @ '': '' @ take 300 (r_text r)))"

text \<open>\<open>_ensure_list\<close>: the configured id, an existing list of that name, or a new list.\<close>
definition cf_ensure_list :: "'w cf_api \<Rightarrow> cf_bouncer \<Rightarrow> 'w \<Rightarrow> 'w \<times> cf_bouncer \<times> string option \<times> string" where
  "cf_ensure_list api b w =
     (if cf_list_id b \<noteq> [] then (w, b, Some (cf_list_id b), '''')
      else if \<not> cf_auto_create b then (w, b, None, ''auto_create_list=false and no list_id provided'')
      else case cf_lists api w of
        Inl e \<Rightarrow> (w, b, None, ''network error listing CF lists: '' @ e)
      | Inr r \<Rightarrow>
          if status_code r = 200
          then (case r_json r of
                  Inl e \<Rightarrow> (w, b, None, ''network error listing CF lists: '' @ e)
                | Inr ls \<Rightarrow>
                    (case List.find (\<lambda>l. cl_name l = Some (cf_list_name b) \<and> cl_kind l = Some ''ip'') ls of
                       Some l \<Rightarrow> (w, b\<lparr>cf_list_id := str_or (cl_id l) ''''\<rparr>, Some (str_or (cl_id l) ''''), '''')
                     | None \<Rightarrow> cf_create_list api b w))
          else if status_code r \<in> {401, 403}
          then (w, b, None, ''CF token rejected listing lists (HTTP '' @ py_str_nat (status_code r)
                  @ ''). Token needs Account -> Account Filter Lists: Edit.'')
          else cf_create_list api b w)"

definition SNAPSHOT_PAGE_SIZE :: nat where "SNAPSHOT_PAGE_SIZE = 500"

definition cf_entry :: "string \<Rightarrow> cf_item \<Rightarrow> entry" where
  "cf_entry lid item = \<lparr>e_id = None, e_dot_id = Some (str_or (ci_id item) ''''), e_numbers = None,
     e_address = Some (str_or (ci_ip item) ''''), e_comment = Some (str_or (ci_comment item) ''''),
     e_list = Some lid\<rparr>"

text \<open>The paging loop of \<open>snapshot\<close>. It ends when the API says so; \<open>None\<close> is a loop that never ends.\<close>
partial_function (option) cf_pages :: "'w cf_api \<Rightarrow> string \<Rightarrow> string \<Rightarrow> entry list \<Rightarrow> 'w \<Rightarrow> entry list option" where
  "cf_pages api lid cursor out w =
     (case cf_items api lid cursor w of
        Inl _ \<Rightarrow> Some out
      | Inr r \<Rightarrow>
          if status_code r \<ge> 400 then Some out
          else (case r_json r of
             Inl _ \<Rightarrow> Some out
           | Inr page \<Rightarrow>
               let items = cp_result page;
                   out = out @ map (cf_entry lid) items;
                   cursor = str_or (cp_after page) ''''
               in if cursor = [] \<or> length items < SNAPSHOT_PAGE_SIZE then Some out
                  else cf_pages api lid cursor out w))"

definition cf_snapshot :: "'w cf_api \<Rightarrow> cf_bouncer \<Rightarrow> 'w \<Rightarrow> ('w \<times> cf_bouncer \<times> entry list) option" where
  "cf_snapshot api b w =
     (case (if cf_list_id b \<noteq> [] then (w, b, Some (cf_list_id b), '''') else cf_ensure_list api b w) of
        (w, b, lid, _) \<Rightarrow>
          if \<not> str_truthy lid then Some (w, b, [])
          else map_option (\<lambda>es. (w, b, es)) (cf_pages api (the lid) '''' [] w))"

text \<open>How a bulk loop of \<open>apply\<close> ends: ran to its end or broke off, or an exception left the whole method.\<close>
datatype cf_end = CF_done | CF_raised string

definition cf_log :: "string \<Rightarrow> string \<Rightarrow> bool \<Rightarrow> string \<Rightarrow> apply_result \<Rightarrow> apply_result" where
  "cf_log ip action ok e res = res\<lparr>push_log := push_log res @ [\<lparr>p_ip = ip, p_action = action, p_success = ok, p_error = e\<rparr>]\<rparr>"

definition CF_BUCKET :: string where "CF_BUCKET = ''bouncer.cloudflare''"

text \<open>The chunked loop over additions and, with the other endpoint, over removals: one token per chunk,
  stop on an empty bucket or on a 429, count one error for a chunk that fails.\<close>
function cf_bulk :: "store \<Rightarrow> rat \<Rightarrow> ('x list \<Rightarrow> 'w \<Rightarrow> 'w \<times> (string + unit response)) \<Rightarrow> string \<Rightarrow> nat set \<Rightarrow> ('x \<Rightarrow> string)
    \<Rightarrow> (nat \<Rightarrow> apply_result \<Rightarrow> apply_result) \<Rightarrow> 'x list \<Rightarrow> 'w \<times> registry \<times> apply_result \<Rightarrow> ('w \<times> registry \<times> apply_result) \<times> cf_end" where
  "cf_bulk db now call action oks name count xs (w, reg, res) =
     (if xs = [] then ((w, reg, res), CF_done)
      else case acquire db now CF_BUCKET 1 reg of
        (reg, False) \<Rightarrow> ((w, reg, cf_log ''(deferred)'' action False ''backpressure - bucket exhausted'' res), CF_done)
      | (reg, True) \<Rightarrow>
          (let chunk = take 1000 xs
           in case call chunk w of
                (w, Inl e) \<Rightarrow> ((w, reg, res), CF_raised e)
              | (w, Inr r) \<Rightarrow>
                  if status_code r = 429
                  then ((w, record_429 db now CF_BUCKET reg,
                         cf_log ''(bulk)'' action False ''CF 429 rate limited'' (res\<lparr>errors := errors res + 1\<rparr>)), CF_done)
                  else if status_code r \<in> oks
                  then cf_bulk db now call action oks name count (drop 1000 xs)
                         (w, reg, fold (\<lambda>x. cf_log (name x) action True '''') chunk (count (length chunk) res))
                  else cf_bulk db now call action oks name count (drop 1000 xs)
                         (w, reg, cf_log ''(bulk)'' action False
                            (''CF '' @ py_str_nat (status_code r) @ '': '' @ take 200 (r_text r)) (res\<lparr>errors := errors res + 1\<rparr>))))"
  by pat_completeness auto
termination
  by (relation "measure (\<lambda>(_, _, _, _, _, _, _, xs, _). length xs)") auto

definition cf_apply :: "store \<Rightarrow> rat \<Rightarrow> 'w cf_api \<Rightarrow> cf_bouncer \<Rightarrow> (string \<times> string) list \<Rightarrow> string list \<Rightarrow> 'w \<times> registry
    \<Rightarrow> ('w \<times> registry) \<times> cf_bouncer \<times> apply_result" where
  "cf_apply db now api b adds remove_ids s =
     (case s of (w, reg) \<Rightarrow>
        (case (if cf_list_id b \<noteq> [] then (w, b, Some (cf_list_id b), '''') else cf_ensure_list api b w) of
           (w, b, lid, diag) \<Rightarrow>
             if \<not> str_truthy lid then ((w, reg), b, no_result\<lparr>errors := 1\<rparr>)
             else
               let payload = map (\<lambda>(a, c). (a, take 500 c)) adds;
                   (s, e) = cf_bulk db now (cf_post api (the lid)) ''add'' {200, 201, 202} fst
                     (\<lambda>n res. res\<lparr>applied_add := applied_add res + n\<rparr>) payload (w, reg, no_result);
                   (s, e) = (case e of
                       CF_raised _ \<Rightarrow> (s, e)
                     | CF_done \<Rightarrow> cf_bulk db now (cf_delete api (the lid)) ''remove'' {200, 202} (\<lambda>i. i)
                         (\<lambda>n res. res\<lparr>applied_remove := applied_remove res + n\<rparr>) remove_ids s);
                   (w, reg, res) = s
               in ((w, reg), b, case e of
                     CF_done \<Rightarrow> res
                   | CF_raised msg \<Rightarrow> cf_log '''' ''?'' False (take 300 msg) (res\<lparr>errors := errors res + 1\<rparr>))))"

section \<open>Logs and counters\<close>

text \<open>Two logged loops, additions then removals: the whole request is in the log.\<close>
lemma two_loops_logged:
  fixes f :: "string \<times> string \<Rightarrow> 'w \<Rightarrow> 'w \<times> push_entry" and g :: "string \<Rightarrow> 'w \<Rightarrow> 'w \<times> push_entry"
    and adds ids w
  assumes "\<And>x w. p_ip (snd (f x w)) = fst x" "\<And>i w. p_ip (snd (g i w)) = i"
  defines "res \<equiv> snd (push_loop log_remove g ids (push_loop log_add f adds (w, no_result)))"
  shows "map p_ip (push_log res) = map fst adds @ ids" "accounted res"
proof -
  have "map p_ip (push_log (snd (push_loop log_add f adds (w, no_result)))) = map fst adds"
    using push_loop_log [of log_add f fst, OF log_add_log assms(1)] by (simp add: no_result_def)
  then show "map p_ip (push_log res) = map fst adds @ ids"
    unfolding res_def using push_loop_log [of log_remove g "\<lambda>i. i", OF log_remove_log assms(2)] by simp
  show "accounted res" unfolding res_def by (intro push_loop_accounted) simp_all
qed

lemma rest_add_one_ip: "p_ip (snd (rest_add_one api l ac w)) = fst ac"
  by (auto simp: rest_add_one_def push_failed_def pushed_def pushed_idem_def split: prod.splits sum.splits)

lemma rest_remove_one_ip: "p_ip (snd (rest_remove_one api i w)) = i"
  by (auto simp: rest_remove_one_def push_failed_def pushed_def pushed_idem_def split: prod.splits sum.splits)

lemma opn_op_ip: "p_ip (snd (opn_op call alias action addr w)) = addr"
  by (auto simp: opn_op_def push_failed_def pushed_def split: prod.splits sum.splits)

text \<open>The REST and the OPNsense adapter account for every request like the MikroTik one: whatever the
  device answers, the log has one entry per requested operation in order, the error counter is the number
  of failures and the applied counters add up to the number of successes.\<close>
theorem rest_and_opnsense_log_everything:
  assumes "rest_is_configured c" "opn_is_configured oc"
  shows "map p_ip (push_log (snd (rest_apply api c adds ids w))) = map fst adds @ ids
    \<and> accounted (snd (rest_apply api c adds ids w))
    \<and> map p_ip (push_log (snd (opn_apply oapi oc adds ids v))) = map fst adds @ ids
    \<and> accounted (snd (opn_apply oapi oc adds ids v))"
  using assms two_loops_logged [of "rest_add_one api (rc_list_name c)" "rest_remove_one api" ids adds w]
    two_loops_logged [of "\<lambda>ac. opn_op (opn_add oapi) (opn_alias_name oc) ''add'' (fst ac)"
      "opn_op (opn_delete oapi) (opn_alias_name oc) ''remove''" ids adds v]
  by (simp add: rest_apply_def opn_apply_def rest_add_one_ip rest_remove_one_ip opn_op_ip)

definition dead_rest :: "unit rest_api" where
  "dead_rest = \<lparr>rs_get = (\<lambda>_ _. Inl ''timeout''), rs_put = (\<lambda>_ _ _ w. (w, Inl ''timeout'')), rs_delete = (\<lambda>_ w. (w, Inl ''timeout''))\<rparr>"

definition dead_opn :: "unit opn_api" where
  "dead_opn = \<lparr>opn_list = (\<lambda>_ _. Inl ''timeout''), opn_add = (\<lambda>_ _ w. (w, Inl ''timeout'')), opn_delete = (\<lambda>_ _ w. (w, Inl ''timeout''))\<rparr>"

definition sample_rest_config :: rest_config where
  "sample_rest_config = \<lparr>rc_host = ''10.0.0.1'', rc_username = ''u'', rc_password = ''p'', rc_list_name = ''crowdsec''\<rparr>"

definition sample_opn_config :: opn_config where
  "sample_opn_config = \<lparr>opn_base_url = ''https://fw'', opn_api_key = ''k'', opn_api_secret = ''s'', opn_alias_name = ''protek_bans''\<rparr>"

theorem rest_and_opnsense_log_everything_witness:
  "map p_ip (push_log (snd (rest_apply dead_rest sample_rest_config [(''192.0.2.1'', ''c'')] [''*3''] ()))) = [''192.0.2.1'', ''*3'']
   \<and> errors (snd (rest_apply dead_rest sample_rest_config [(''192.0.2.1'', ''c'')] [''*3''] ())) = 2
   \<and> accounted (snd (opn_apply dead_opn sample_opn_config [(''192.0.2.1'', ''c'')] [''192.0.2.9''] ()))"
proof -
  have "rest_is_configured sample_rest_config" "opn_is_configured sample_opn_config" by code_simp+
  note all = rest_and_opnsense_log_everything [OF this]
  have "errors (snd (rest_apply dead_rest sample_rest_config [(''192.0.2.1'', ''c'')] [''*3''] ())) = 2" by code_simp
  then show ?thesis
    using all [of dead_rest "[(''192.0.2.1'', ''c'')]" "[''*3'']" "()" dead_opn "()"]
      all [of dead_rest "[(''192.0.2.1'', ''c'')]" "[''192.0.2.9'']" "()" dead_opn "()"] by simp
qed

section \<open>pfSense replaces the whole alias\<close>

lemma set_py_sorted_set: "set (py_sorted_set xs) = set xs" "distinct (py_sorted_set xs)" "sorted (py_sorted_set xs)"
  by (simp_all add: py_sorted_set_def)

text \<open>A reference pfSense: an alias, and whether reading it fails.\<close>
record sim_pf =
  pf_addresses :: "string list"
  pf_read_fails :: bool

definition sim_pf_api :: "sim_pf pf_api" where
  "sim_pf_api = \<lparr>pf_get = (\<lambda>_ w. Inr \<lparr>status_code = (if pf_read_fails w then 503 else 200), r_text = [],
       r_content = True, r_json = Inr (pf_addresses w)\<rparr>),
     pf_patch = (\<lambda>_ as w. (w\<lparr>pf_addresses := as\<rparr>, Inr \<lparr>status_code = 200, r_text = [], r_content = False, r_json = Inl []\<rparr>)),
     pf_post_apply = (\<lambda>w. (w, None))\<rparr>"

text \<open>When the alias can be read, an apply on pfSense replaces it by the old addresses plus the
  additions minus the removals, and reports exactly that.\<close>
theorem pf_apply_updates_alias:
  assumes "pf_is_configured c" "\<not> pf_read_fails w"
  shows "set (pf_addresses (fst (pf_apply sim_pf_api c adds ids w)))
      = (set (pf_addresses w) \<union> fst ` set adds) - set ids
    \<and> snd (pf_apply sim_pf_api c adds ids w) = \<lparr>applied_add = card (fst ` set adds), applied_remove = card (set ids),
        errors = 0, push_log = bulk_log True []\<rparr>"
proof -
  have "map (\<lambda>e. str_or (e_address e) '''') (pf_snapshot sim_pf_api c w) = pf_addresses w"
    using assms by (simp add: pf_snapshot_def sim_pf_api_def pf_entry_def comp_def str_or_def map_idI)
  then show ?thesis
    using assms by (auto simp: pf_apply_def sim_pf_api_def Let_def set_py_sorted_set length_remdups_card_conv)
qed

definition sample_pf_config :: pf_config where
  "sample_pf_config = \<lparr>pf_base_url = ''https://fw'', pf_api_key = ''k'', pf_alias_name = ''protek_bans''\<rparr>"

theorem pf_apply_updates_alias_witness:
  "set (pf_addresses (fst (pf_apply sim_pf_api sample_pf_config [(''192.0.2.9'', ''c'')] [''192.0.2.1'']
      \<lparr>pf_addresses = [''192.0.2.1'', ''192.0.2.2''], pf_read_fails = False\<rparr>))) = {''192.0.2.2'', ''192.0.2.9''}"
proof -
  have "pf_is_configured sample_pf_config" by code_simp
  with pf_apply_updates_alias [of sample_pf_config "\<lparr>pf_addresses = [''192.0.2.1'', ''192.0.2.2''], pf_read_fails = False\<rparr>"
      "[(''192.0.2.9'', ''c'')]" "[''192.0.2.1'']"]
  show ?thesis by auto
qed

text \<open>One failed read empties the alias: the snapshot turns a failure into an empty list, the new set is
  then the additions alone, and the patch replaces every existing ban by them. The result still reports
  success.\<close>
theorem pf_apply_wipes_alias_after_failed_read:
  "pf_apply sim_pf_api sample_pf_config [(''192.0.2.9'', ''c'')] []
      \<lparr>pf_addresses = [''192.0.2.1'', ''192.0.2.2'', ''192.0.2.3''], pf_read_fails = True\<rparr>
   = (\<lparr>pf_addresses = [''192.0.2.9''], pf_read_fails = True\<rparr>,
      \<lparr>applied_add = 1, applied_remove = 0, errors = 0, push_log = bulk_log True []\<rparr>)"
  by code_simp

section \<open>Cloudflare paging\<close>

text \<open>An API that serves a list of items page by page: a cursor names an offset, and a page says where the
  next one starts as long as there is more.\<close>
definition pages_of :: "cf_item list \<Rightarrow> nat \<Rightarrow> cf_page" where
  "pages_of items n = \<lparr>cp_result = take SNAPSHOT_PAGE_SIZE (drop n items),
     cp_after = (if n + SNAPSHOT_PAGE_SIZE < length items then Some (py_str_nat (n + SNAPSHOT_PAGE_SIZE)) else None)\<rparr>"

definition cursor_at :: "nat \<Rightarrow> string" where
  "cursor_at n = (if n = 0 then '''' else py_str_nat n)"

definition serves :: "'w cf_api \<Rightarrow> string \<Rightarrow> 'w \<Rightarrow> cf_item list \<Rightarrow> bool" where
  "serves api lid w items = (\<forall>n \<le> length items. \<exists>t. cf_items api lid (cursor_at n) w
     = Inr \<lparr>status_code = 200, r_text = t, r_content = True, r_json = Inr (pages_of items n)\<rparr>)"

lemma cf_pages_serves:
  assumes "serves api lid w items" "n \<le> length items"
  shows "cf_pages api lid (cursor_at n) out w = Some (out @ map (cf_entry lid) (drop n items))"
  using assms(2)
proof (induction "length items - n" arbitrary: n out rule: less_induct)
  case less
  obtain t where page: "cf_items api lid (cursor_at n) w
      = Inr \<lparr>status_code = 200, r_text = t, r_content = True, r_json = Inr (pages_of items n)\<rparr>"
    using assms(1) less.prems by (auto simp: serves_def)
  show ?case
  proof (cases "n + SNAPSHOT_PAGE_SIZE < length items")
    case True
    let ?m = "n + SNAPSHOT_PAGE_SIZE"
    have "cf_pages api lid (cursor_at n) out w
        = cf_pages api lid (py_str_nat ?m) (out @ map (cf_entry lid) (take SNAPSHOT_PAGE_SIZE (drop n items))) w"
      using True by (subst cf_pages.simps) (simp add: page pages_of_def Let_def str_or_def)
    also have "py_str_nat ?m = cursor_at ?m" by (simp add: cursor_at_def SNAPSHOT_PAGE_SIZE_def)
    also have "cf_pages api lid (cursor_at ?m) (out @ map (cf_entry lid) (take SNAPSHOT_PAGE_SIZE (drop n items))) w
        = Some (out @ map (cf_entry lid) (take SNAPSHOT_PAGE_SIZE (drop n items)) @ map (cf_entry lid) (drop ?m items))"
      using less.hyps [of ?m] True by (simp add: SNAPSHOT_PAGE_SIZE_def)
    also have "map (cf_entry lid) (take SNAPSHOT_PAGE_SIZE (drop n items)) @ map (cf_entry lid) (drop ?m items)
        = map (cf_entry lid) (drop n items)"
      by (metis add.commute append_take_drop_id drop_drop map_append)
    finally show ?thesis .
  next
    case False
    then show ?thesis by (subst cf_pages.simps) (simp add: page pages_of_def Let_def str_or_def)
  qed
qed

text \<open>The Cloudflare snapshot terminates and is complete: against an API that serves a list of any
  length in pages, the loop ends and returns every item once, in order. An item without a comment comes
  back with an empty one, so it counts as not owned.\<close>
theorem cf_snapshot_complete:
  assumes "cf_list_id b \<noteq> []" "serves api (cf_list_id b) w items"
  shows "cf_snapshot api b w = Some (w, b, map (cf_entry (cf_list_id b)) items)
    \<and> (\<forall>item \<in> set items. ci_comment item = None \<longrightarrow> \<not> is_owned (e_comment (cf_entry (cf_list_id b) item)))"
  using assms cf_pages_serves [OF assms(2), of 0 "[]"]
  by (auto simp: cf_snapshot_def cursor_at_def str_truthy_def cf_entry_def is_owned_def str_or_def)

definition sample_cf :: "cf_item list \<Rightarrow> unit cf_api" where
  "sample_cf items = \<lparr>cf_lists = (\<lambda>_. Inl ''x''), cf_create = (\<lambda>_ w. (w, Inl ''x'')),
     cf_items = (\<lambda>lid cursor w. Inr \<lparr>status_code = 200, r_text = [], r_content = True,
        r_json = Inr (pages_of items (case py_int cursor of None \<Rightarrow> 0 | Some n \<Rightarrow> nat n))\<rparr>),
     cf_post = (\<lambda>_ _ w. (w, Inl ''x'')), cf_delete = (\<lambda>_ _ w. (w, Inl ''x''))\<rparr>"

lemma sample_cf_serves: "serves (sample_cf items) lid w items"
  using py_int_str_int [of "int n" for n]
  by (auto simp: serves_def sample_cf_def cursor_at_def py_str_int_def) (simp_all add: py_int_def)

definition sample_cf_bouncer :: cf_bouncer where
  "sample_cf_bouncer = \<lparr>cf_account_id = ''acc'', cf_list_id = ''lid'', cf_api_token = ''t'', cf_list_name = ''protek_bans'',
     cf_auto_create = True\<rparr>"

theorem cf_snapshot_complete_witness:
  "\<exists>es. cf_snapshot (sample_cf (replicate 1201 \<lparr>ci_ip = Some ''192.0.2.1'', ci_comment = None, ci_id = Some ''i''\<rparr>))
      sample_cf_bouncer () = Some ((), sample_cf_bouncer, es) \<and> length es = 1201"
  using cf_snapshot_complete [of sample_cf_bouncer
      "sample_cf (replicate 1201 \<lparr>ci_ip = Some ''192.0.2.1'', ci_comment = None, ci_id = Some ''i''\<rparr>)" "()"
      "replicate 1201 \<lparr>ci_ip = Some ''192.0.2.1'', ci_comment = None, ci_id = Some ''i''\<rparr>"]
  by (simp add: sample_cf_serves sample_cf_bouncer_def)

end
