(* ===== verification/Bouncers.thy ===== *)
theory Bouncers
  imports Adapters
begin

text \<open>
  The bouncer protocol and the loading of targets (\<open>bouncers/__init__.py\<close>). A bouncer is a record of
  the attributes and methods the reconciler and the blocking check use, over a type of device states;
  the adapters of the previous theories are turned into such records. Building an adapter object from
  a kind, a name and the configuration text (a JSON parse and a constructor call, for built-in and
  plug-in kinds alike) is a parameter.
\<close>

text \<open>A firewall rule as RouterOS returns it: a dictionary of texts.\<close>
type_synonym fw_rule = "(string \<times> string) list"

text \<open>The four tables by key; \<open>None\<close> is a table that does not exist.\<close>
type_synonym fw_tables = "string \<Rightarrow> fw_rule list option"

text \<open>The \<open>source_filter\<close> option: a comma-separated text or a list.\<close>
datatype source_filter = SF_text string | SF_list "string list"

record 'w bouncer =
  b_bname :: string
  b_kind :: string
  b_is_configured :: bool
  b_snapshot :: "'w \<Rightarrow> 'w \<times> (exn + entry list)"
  b_apply :: "(string \<times> string) list \<Rightarrow> string list \<Rightarrow> 'w \<Rightarrow> 'w \<times> (exn + apply_result)"
  b_firewall_rules :: "('w \<Rightarrow> string + fw_tables) option"
  b_list_name :: string
  b_origins :: "string list"
  b_exclude_origins :: "string list"
  b_max_entries :: "int option"
  b_min_reputation :: "int option"
  b_source_filter :: "source_filter option"
  b_scenario_filter :: "string option"

text \<open>A bouncer without filters, as the legacy adapter is.\<close>
definition plain_bouncer :: "string \<Rightarrow> string \<Rightarrow> bool \<Rightarrow> ('w \<Rightarrow> 'w \<times> (exn + entry list))
    \<Rightarrow> ((string \<times> string) list \<Rightarrow> string list \<Rightarrow> 'w \<Rightarrow> 'w \<times> (exn + apply_result)) \<Rightarrow> 'w bouncer" where
  "plain_bouncer name kind configured snap app =
     \<lparr>b_bname = name, b_kind = kind, b_is_configured = configured, b_snapshot = snap, b_apply = app,
      b_firewall_rules = None, b_list_name = [], b_origins = [], b_exclude_origins = [], b_max_entries = None,
      b_min_reputation = None, b_source_filter = None, b_scenario_filter = None\<rparr>"

definition mikrotik_legacy :: "'w router_api \<Rightarrow> ('w \<Rightarrow> string + fw_tables) \<Rightarrow> environment \<Rightarrow> string \<Rightarrow> 'w bouncer" where
  "mikrotik_legacy api fw env name =
     (let m = mt_new env None None None None None; l = address_list_name env
      in (plain_bouncer name ''mikrotik_env'' (mt_is_configured m)
            (\<lambda>w. (w, Inr (snapshot api m l w))) (mt_apply api m l))
         \<lparr>b_list_name := l, b_firewall_rules := Some fw\<rparr>)"

definition mikrotik_db :: "'w router_api \<Rightarrow> ('w \<Rightarrow> string + fw_tables) \<Rightarrow> environment \<Rightarrow> string \<Rightarrow> string \<Rightarrow> string \<Rightarrow> string \<Rightarrow> int \<Rightarrow> bool
    \<Rightarrow> string \<Rightarrow> 'w bouncer" where
  "mikrotik_db api fw env name host username password port use_ssl address_list =
     (let m = mt_new env (Some host) (Some username) (Some password) (Some port) (Some use_ssl);
          l = str_or (Some address_list) ''crowdsec''
      in (plain_bouncer name ''mikrotik'' (mt_is_configured m)
            (\<lambda>w. (w, Inr (db_snapshot api m l w))) (db_apply api m l))
         \<lparr>b_list_name := l, b_firewall_rules := Some fw\<rparr>)"

definition mikrotik_rest :: "'w rest_api \<Rightarrow> ('w \<Rightarrow> string + fw_tables) \<Rightarrow> string \<Rightarrow> rest_config \<Rightarrow> 'w bouncer" where
  "mikrotik_rest api fw name c =
     (plain_bouncer name ''mikrotik_rest'' (rest_is_configured c)
        (\<lambda>w. (w, Inr (rest_snapshot api c w)))
        (\<lambda>adds ids w. case rest_apply api c adds ids w of (w, res) \<Rightarrow> (w, Inr res)))
     \<lparr>b_list_name := rc_list_name c, b_firewall_rules := Some fw\<rparr>"

definition ipset :: "'w command \<Rightarrow> string \<Rightarrow> ipset_bouncer \<Rightarrow> 'w bouncer" where
  "ipset run name b =
     plain_bouncer name ''iptables_ipset'' (ipset_is_configured b) (ipset_snapshot run b) (ipset_apply run b)"

definition pfsense :: "'w pf_api \<Rightarrow> string \<Rightarrow> pf_config \<Rightarrow> 'w bouncer" where
  "pfsense api name c =
     plain_bouncer name ''pfsense'' (pf_is_configured c) (\<lambda>w. (w, Inr (pf_snapshot api c w)))
       (\<lambda>adds ids w. case pf_apply api c adds ids w of (w, res) \<Rightarrow> (w, Inr res))"

definition opnsense :: "'w opn_api \<Rightarrow> string \<Rightarrow> opn_config \<Rightarrow> 'w bouncer" where
  "opnsense api name c =
     plain_bouncer name ''opnsense'' (opn_is_configured c) (\<lambda>w. (w, Inr (opn_snapshot api c w)))
       (\<lambda>adds ids w. case opn_apply api c adds ids w of (w, res) \<Rightarrow> (w, Inr res))"

section \<open>Loading\<close>

definition ENV_NAME_SETTING :: string where "ENV_NAME_SETTING = ''settings.mt_env_name''"
definition ENV_NAME_DEFAULT :: string where "ENV_NAME_DEFAULT = ''mikrotik''"

definition env_target_name :: "store \<Rightarrow> string" where
  "env_target_name db =
     str_or (Some (py_strip (str_or (get_setting ENV_NAME_SETTING db) ''''))) ENV_NAME_DEFAULT"

text \<open>\<open>make_bouncer\<close> is the parameter \<open>make_bouncer\<close>: name, kind and configuration text to a bouncer, or nothing for
  an unknown kind or a failing constructor.\<close>
definition load_all_targets :: "(string \<Rightarrow> 'w bouncer) \<Rightarrow> (string \<Rightarrow> string \<Rightarrow> string \<Rightarrow> 'w bouncer option) \<Rightarrow> store \<Rightarrow> 'w bouncer list" where
  "load_all_targets legacy make_bouncer db =
     (let legacy_mt = legacy (env_target_name db);
          rs = select_rows (\<lambda>_ r. bt_enabled r) (bouncer_targets db)
      in (if b_is_configured legacy_mt then [legacy_mt] else [])
         @ List.map_filter (\<lambda>(_, r). make_bouncer (bt_name r) (bt_kind r) (bt_config_json r)) rs)"

end
