(* ===== verification/Blocking.thy ===== *)
theory Blocking
  imports Bouncers
begin

text \<open>
  Is the router dropping what Protek pushes (\<open>blocking.py\<close>): the verdict on a router's firewall rules,
  the summary over the targets and the counts of IPv6 entries it uses. Rules are dictionaries of texts
  in router order. The properties relate a verdict to what the rules do to a packet.
\<close>

section \<open>Rules\<close>

definition BLOCK_ACTIONS :: "string set" where "BLOCK_ACTIONS = {''drop'', ''reject'', ''tarpit''}"
definition IRRELEVANT :: "string set" where "IRRELEVANT = {''output'', ''postrouting''}"

text \<open>\<open>_BUILTIN\<close>: the chains of a table every inbound packet traverses and the traffic they cover.\<close>
definition BUILTIN :: "string \<Rightarrow> string \<Rightarrow> string list option" where
  "BUILTIN table chain =
     (if table = ''raw'' \<and> chain = ''prerouting'' then Some [''forward'', ''input'']
      else if table = ''filter'' \<and> chain = ''input'' then Some [''input'']
      else if table = ''filter'' \<and> chain = ''forward'' then Some [''forward'']
      else None)"

definition NON_MATCHERS :: "string list" where
  "NON_MATCHERS =
    [''.id'', ''id'', ''.nextid'', ''.about'', ''chain'', ''action'', ''disabled'', ''dynamic'',
     ''invalid'', ''comment'', ''log'', ''log-prefix'', ''bytes'', ''packets'',
     ''jump-target'', ''reject-with'', ''address-list'', ''address-list-timeout'',
     ''passthrough'', ''new-connection-mark'', ''new-packet-mark'', ''new-routing-mark'',
     ''new-dscp'', ''new-ttl'', ''new-mss'', ''new-priority'', ''to-addresses'',
     ''to-ports'', ''route-dst'', ''hw-offload'', ''place-before'']"

definition truthy :: "string option \<Rightarrow> bool" where
  "truthy v = (case v of None \<Rightarrow> False | Some s \<Rightarrow> py_lower (py_strip s) \<in> {''true'', ''yes'', ''1''})"

definition rule_int :: "string option \<Rightarrow> int" where
  "rule_int v = (case v of None \<Rightarrow> 0 | Some s \<Rightarrow> (case py_int (py_strip s) of None \<Rightarrow> 0 | Some n \<Rightarrow> n))"

abbreviation fld :: "fw_rule \<Rightarrow> string \<Rightarrow> string option" where "fld r k \<equiv> map_of r k"

definition is_unconditional_accept :: "fw_rule \<Rightarrow> bool" where
  "is_unconditional_accept rule =
     (if str_or (fld rule ''action'') ''accept'' \<noteq> ''accept'' then False
      else if truthy (fld rule ''disabled'') \<or> truthy (fld rule ''invalid'') then False
      else list_all (\<lambda>k. k \<in> set NON_MATCHERS) (map fst rule))"

record rule_match =
  m_table :: string
  m_chain :: string
  m_position :: nat
  m_action :: "string option"
  m_enabled :: bool
  m_shadowed :: bool
  m_builtin :: bool
  m_packets :: int
  m_comment :: string

definition rule_enabled :: "fw_rule \<Rightarrow> bool" where
  "rule_enabled rule = (\<not> truthy (fld rule ''disabled'') \<and> \<not> truthy (fld rule ''invalid''))"

definition rule_chain :: "fw_rule \<Rightarrow> string" where
  "rule_chain rule = str_or (fld rule ''chain'') ''''"

text \<open>A drop rule on the list.\<close>
definition drops_list :: "string \<Rightarrow> fw_rule \<Rightarrow> bool" where
  "drops_list list_name rule = (str_or (fld rule ''src-address-list'') '''' = list_name \<and>
     str_or (fld rule ''action'') '''' \<in> BLOCK_ACTIONS)"

definition mk_match :: "string \<Rightarrow> nat \<Rightarrow> string set \<Rightarrow> fw_rule \<Rightarrow> rule_match" where
  "mk_match table pos seen rule =
     (let chain = rule_chain rule
      in \<lparr>m_table = table, m_chain = chain, m_position = pos, m_action = fld rule ''action'',
          m_enabled = rule_enabled rule, m_shadowed = (rule_enabled rule \<and> chain \<in> seen),
          m_builtin = (BUILTIN table chain \<noteq> None), m_packets = rule_int (fld rule ''packets''),
          m_comment = str_or (fld rule ''comment'') ''''\<rparr>)"

text \<open>The loop over one table; a drop rule in an irrelevant chain is skipped with \<open>continue\<close>.\<close>
fun scan_table :: "string \<Rightarrow> string \<Rightarrow> nat \<Rightarrow> string set \<Rightarrow> fw_rule list \<Rightarrow> rule_match list" where
  "scan_table list_name table pos seen [] = []"
| "scan_table list_name table pos seen (rule # rules) =
     (let chain = rule_chain rule;
          seen' = (if is_unconditional_accept rule then insert chain seen else seen)
      in if drops_list list_name rule
         then if chain \<in> IRRELEVANT then scan_table list_name table (pos + 1) seen rules
              else mk_match table pos seen rule # scan_table list_name table (pos + 1) seen' rules
         else scan_table list_name table (pos + 1) seen' rules)"

datatype verdict = VNone | VDisabled | VShadowed | VUnknown | VUnverified | VBlocking

record family_verdict =
  fv_status :: verdict
  fv_rules :: "rule_match list"
  fv_coverage :: "string list"
  fv_packets :: int
  fv_custom_chains :: "string list"

definition analyze_family :: "string \<Rightarrow> fw_rule list option \<Rightarrow> fw_rule list option \<Rightarrow> family_verdict" where
  "analyze_family list_name filter_rules raw_rules =
     (let matches = scan_table list_name ''raw'' 0 {} (case raw_rules of None \<Rightarrow> [] | Some rs \<Rightarrow> rs)
                  @ scan_table list_name ''filter'' 0 {} (case filter_rules of None \<Rightarrow> [] | Some rs \<Rightarrow> rs);
          live = filter (\<lambda>m. m_enabled m \<and> \<not> m_shadowed m) matches;
          live_builtin = filter m_builtin live;
          coverage = concat (map (\<lambda>m. case BUILTIN (m_table m) (m_chain m) of None \<Rightarrow> [] | Some c \<Rightarrow> c) live_builtin);
          status = (if live_builtin \<noteq> [] then VBlocking
                    else if live \<noteq> [] then VUnverified
                    else if list_ex m_enabled matches then VShadowed
                    else if matches \<noteq> [] then VDisabled
                    else VNone)
      in \<lparr>fv_status = status, fv_rules = matches, fv_coverage = py_sorted_set coverage,
          fv_packets = sum_list (map m_packets live),
          fv_custom_chains = py_sorted_set (map m_chain (filter (\<lambda>m. \<not> m_builtin m) live))\<rparr>)"

text \<open>The warnings of a verdict, by name.\<close>
datatype warning = Only_input | Only_forward | V6_bans_pass int | No_v6_rule

record target_verdict =
  tv_target :: string
  tv_list :: string
  tv_status :: verdict
  tv_rules :: "rule_match list"
  tv_coverage :: "string list"
  tv_packets :: int
  tv_custom_chains :: "string list"
  tv_v6_status :: "verdict option"
  tv_v6_rules :: "rule_match list"
  tv_v6_entries :: "int option"
  tv_v6_gap :: bool
  tv_warnings :: "warning list"
  tv_error :: string

definition analyze :: "string \<Rightarrow> string \<Rightarrow> fw_tables \<Rightarrow> int option \<Rightarrow> target_verdict" where
  "analyze target list_name tables v6_entries =
     (let v4 = analyze_family list_name (tables ''filter'') (tables ''raw'');
          has_v6 = (tables ''filter6'' \<noteq> None \<or> tables ''raw6'' \<noteq> None);
          v6 = (if has_v6 then Some (analyze_family list_name (tables ''filter6'') (tables ''raw6'')) else None);
          w1 = (if fv_status v4 = VBlocking
                then (if ''forward'' \<notin> set (fv_coverage v4) then [Only_input]
                      else if ''input'' \<notin> set (fv_coverage v4) then [Only_forward] else [])
                else []);
          v6_gap = ((case v6 of None \<Rightarrow> False | Some v \<Rightarrow> fv_status v \<noteq> VBlocking)
                    \<and> fv_status v4 = VBlocking \<and> v6_entries \<noteq> Some 0);
          w2 = (if v6_gap then (case v6_entries of Some n \<Rightarrow> [V6_bans_pass n] | None \<Rightarrow> [No_v6_rule]) else [])
      in \<lparr>tv_target = target, tv_list = list_name, tv_status = fv_status v4, tv_rules = fv_rules v4,
          tv_coverage = fv_coverage v4, tv_packets = fv_packets v4, tv_custom_chains = fv_custom_chains v4,
          tv_v6_status = map_option fv_status v6,
          tv_v6_rules = (case v6 of None \<Rightarrow> [] | Some v \<Rightarrow> fv_rules v), tv_v6_entries = v6_entries,
          tv_v6_gap = v6_gap, tv_warnings = w1 @ w2, tv_error = []\<rparr>)"

section \<open>Fetching\<close>

definition API_PATHS :: "(string \<times> string) list" where
  "API_PATHS = [(''filter'', ''/ip/firewall/filter''), (''raw'', ''/ip/firewall/raw''),
     (''filter6'', ''/ipv6/firewall/filter''), (''raw6'', ''/ipv6/firewall/raw'')]"

text \<open>The loop shared by \<open>fetch_rules_api\<close> and \<open>fetch_rules_rest\<close>: a failing IPv4 table raises, a failing
  IPv6 table is absent. \<open>get\<close> is the read of one path.\<close>
fun fetch_loop :: "(string \<Rightarrow> string + fw_rule list) \<Rightarrow> fw_tables \<Rightarrow> (string \<times> string) list \<Rightarrow> string + fw_tables" where
  "fetch_loop get out [] = Inr out"
| "fetch_loop get out ((key, path) # ps) =
     (case get path of
        Inr rs \<Rightarrow> fetch_loop get (out(key := Some rs)) ps
      | Inl e \<Rightarrow> if key \<in> {''filter'', ''raw''} then Inl e else fetch_loop get (out(key := None)) ps)"

definition fetch_rules_rest :: "(string \<Rightarrow> string + fw_rule list) \<Rightarrow> string + fw_tables" where
  "fetch_rules_rest get = fetch_loop get (\<lambda>_. None) API_PATHS"

definition fetch_rules_api :: "'w router_api \<Rightarrow> (string \<Rightarrow> 'w \<Rightarrow> string + fw_rule list) \<Rightarrow> mt_config \<Rightarrow> 'w \<Rightarrow> string + fw_tables" where
  "fetch_rules_api api get m w =
     (case mt_connect api m w of
        Some e \<Rightarrow> Inl (exn_str e)
      | None \<Rightarrow> fetch_loop (\<lambda>path. get path w) (\<lambda>_. None) API_PATHS)"

section \<open>Targets\<close>

definition V6_KEY :: string where "V6_KEY = ''blocking.v6_entries.''"

definition note_v6_entries :: "instant \<Rightarrow> string \<Rightarrow> nat \<Rightarrow> store \<times> (string \<rightharpoonup> nat) \<Rightarrow> store \<times> (string \<rightharpoonup> nat)" where
  "note_v6_entries now target n s =
     (case s of (db, seen) \<Rightarrow>
        if seen target = Some n then (db, seen)
        else (set_setting now (V6_KEY @ target) (py_str_nat n) db, seen(target \<mapsto> n)))"

definition v6_entries :: "store \<Rightarrow> string \<Rightarrow> int option" where
  "v6_entries db target =
     (case get_setting (V6_KEY @ target) db of
        None \<Rightarrow> None | Some raw \<Rightarrow> if raw = [] then None else py_int raw)"

definition check_target :: "store \<Rightarrow> 'w bouncer \<Rightarrow> 'w \<Rightarrow> target_verdict option" where
  "check_target db b w =
     (case b_firewall_rules b of
        None \<Rightarrow> None
      | Some fetch \<Rightarrow>
          (case fetch w of
             Inl e \<Rightarrow> Some \<lparr>tv_target = b_bname b, tv_list = b_list_name b, tv_status = VUnknown, tv_rules = [],
               tv_coverage = [], tv_packets = 0, tv_custom_chains = [], tv_v6_status = None, tv_v6_rules = [],
               tv_v6_entries = None, tv_v6_gap = False, tv_warnings = [], tv_error = take 300 e\<rparr>
           | Inr tables \<Rightarrow> Some (analyze (b_bname b) (b_list_name b) tables (v6_entries db (b_bname b)))))"

fun severity :: "verdict \<Rightarrow> nat" where
  "severity VNone = 0"
| "severity VDisabled = 1"
| "severity VShadowed = 2"
| "severity VUnknown = 3"
| "severity VUnverified = 4"
| "severity VBlocking = 5"

record summary =
  su_status :: "verdict option"
  su_partial :: bool
  su_worst :: "string option"
  su_targets :: "target_verdict list"

text \<open>\<open>min(results, key=...)\<close>: the first of the worst.\<close>
fun min_severity :: "target_verdict \<Rightarrow> target_verdict list \<Rightarrow> target_verdict" where
  "min_severity m [] = m"
| "min_severity m (r # rs) = min_severity (if severity (tv_status r) < severity (tv_status m) then r else m) rs"

definition has_gap :: "target_verdict \<Rightarrow> bool" where
  "has_gap r = (tv_status r = VBlocking \<and> tv_warnings r \<noteq> [])"

definition summarize :: "target_verdict list \<Rightarrow> summary" where
  "summarize results =
     (case results of
        [] \<Rightarrow> \<lparr>su_status = None, su_partial = False, su_worst = None, su_targets = []\<rparr>
      | r # rs \<Rightarrow>
          let worst = min_severity r rs;
              partial = list_ex has_gap results;
              worst = (if tv_status worst = VBlocking \<and> partial
                       then (case List.find has_gap results of Some x \<Rightarrow> x | None \<Rightarrow> worst) else worst)
          in \<lparr>su_status = Some (tv_status worst), su_partial = partial, su_worst = Some (tv_target worst),
              su_targets = results\<rparr>)"

definition SETTING_KEY :: string where "SETTING_KEY = ''blocking.status''"

text \<open>\<open>refresh\<close>; \<open>dumps\<close> is the JSON text of the summary with its time stamp.\<close>
definition refresh :: "(summary \<times> instant \<Rightarrow> string) \<Rightarrow> instant \<Rightarrow> 'w bouncer list \<Rightarrow> 'w \<Rightarrow> store \<Rightarrow> store \<times> summary" where
  "refresh dumps now targets w db =
     (let results = List.map_filter (\<lambda>b. check_target db b w) targets;
          out = summarize results
      in (set_setting now SETTING_KEY (dumps (out, now)) db, out))"

definition label_for :: "verdict option \<Rightarrow> bool \<Rightarrow> string" where
  "label_for status partial =
     (case status of
        None \<Rightarrow> ''''
      | Some VBlocking \<Rightarrow> if partial then ''Blocking - with gaps'' else ''Blocking active''
      | Some VNone \<Rightarrow> ''Not blocking - no drop rule''
      | Some VDisabled \<Rightarrow> ''Not blocking - drop rule disabled''
      | Some VShadowed \<Rightarrow> ''Not blocking - drop rule never fires''
      | Some VUnverified \<Rightarrow> ''Probably blocking - rule in a custom chain''
      | Some VUnknown \<Rightarrow> ''Couldn't check the firewall'')"

datatype pill = Pill_ok | Pill_warn | Pill_down

definition pill_state :: "verdict option \<Rightarrow> bool \<Rightarrow> pill option" where
  "pill_state status partial =
     (case status of
        None \<Rightarrow> None
      | Some VBlocking \<Rightarrow> Some (if partial then Pill_warn else Pill_ok)
      | Some VUnverified \<Rightarrow> Some Pill_warn
      | Some VUnknown \<Rightarrow> Some Pill_warn
      | Some _ \<Rightarrow> Some Pill_down)"

section \<open>The scan, declaratively\<close>

lemma drop_not_accept: "drops_list l r \<Longrightarrow> \<not> is_unconditional_accept r"
  by (auto simp: drops_list_def is_unconditional_accept_def BLOCK_ACTIONS_def str_or_def split: option.splits if_splits)

definition accept_chains :: "fw_rule list \<Rightarrow> string set" where
  "accept_chains rs = rule_chain ` {q \<in> set rs. is_unconditional_accept q}"

lemma accept_chains_Cons: "accept_chains (r # rs) =
    (if is_unconditional_accept r then insert (rule_chain r) (accept_chains rs) else accept_chains rs)"
  by (auto simp: accept_chains_def)

lemma scan_table_iff:
  "m \<in> set (scan_table l t pos seen rules) \<longleftrightarrow>
   (\<exists>pre r post. rules = pre @ r # post \<and> drops_list l r \<and> rule_chain r \<notin> IRRELEVANT \<and>
      m = mk_match t (pos + length pre) (seen \<union> accept_chains pre) r)"
proof (induction rules arbitrary: pos seen)
  case (Cons rule rules)
  let ?seen = "if is_unconditional_accept rule then insert (rule_chain rule) seen else seen"
  have tail: "(\<exists>pre r post. rules = pre @ r # post \<and> drops_list l r \<and> rule_chain r \<notin> IRRELEVANT \<and>
        m = mk_match t (pos + 1 + length pre) (?seen \<union> accept_chains pre) r)
    \<longleftrightarrow> (\<exists>pre r post. rule # rules = pre @ r # post \<and> pre \<noteq> [] \<and> drops_list l r \<and> rule_chain r \<notin> IRRELEVANT \<and>
        m = mk_match t (pos + length pre) (seen \<union> accept_chains pre) r)" (is "?L \<longleftrightarrow> ?R")
  proof
    assume ?L
    then obtain pre r post where "rules = pre @ r # post" "drops_list l r" "rule_chain r \<notin> IRRELEVANT"
      "m = mk_match t (pos + 1 + length pre) (?seen \<union> accept_chains pre) r" by blast
    then show ?R
      by (intro exI [of _ "rule # pre"] exI [of _ r] exI [of _ post]) (auto simp: accept_chains_Cons)
  next
    assume ?R
    then obtain pre r post where R: "rule # rules = pre @ r # post" "pre \<noteq> []" "drops_list l r" "rule_chain r \<notin> IRRELEVANT"
      "m = mk_match t (pos + length pre) (seen \<union> accept_chains pre) r" by blast
    then obtain pre' where "pre = rule # pre'" "rules = pre' @ r # post" by (cases pre) auto
    with R show ?L
      by (intro exI [of _ pre'] exI [of _ r] exI [of _ post]) (auto simp: accept_chains_Cons)
  qed
  have head: "(\<exists>pre r post. rule # rules = pre @ r # post \<and> drops_list l r \<and> rule_chain r \<notin> IRRELEVANT \<and>
        m = mk_match t (pos + length pre) (seen \<union> accept_chains pre) r)
    \<longleftrightarrow> (drops_list l rule \<and> rule_chain rule \<notin> IRRELEVANT \<and> m = mk_match t pos seen rule) \<or>
       (\<exists>pre r post. rule # rules = pre @ r # post \<and> pre \<noteq> [] \<and> drops_list l r \<and> rule_chain r \<notin> IRRELEVANT \<and>
        m = mk_match t (pos + length pre) (seen \<union> accept_chains pre) r)" (is "?A \<longleftrightarrow> ?B \<or> ?C")
  proof
    assume ?A
    then obtain pre r post where A: "rule # rules = pre @ r # post" "drops_list l r" "rule_chain r \<notin> IRRELEVANT"
      "m = mk_match t (pos + length pre) (seen \<union> accept_chains pre) r" by blast
    then show "?B \<or> ?C" by (cases "pre = []") (auto simp: accept_chains_def)
  next
    assume "?B \<or> ?C"
    then show ?A
    proof
      assume ?B
      then show ?A by (intro exI [of _ "[]"] exI [of _ rule] exI [of _ rules]) (simp add: accept_chains_def)
    qed blast
  qed
  show ?case
  proof (cases "drops_list l rule")
    case True
    then have "?seen = seen" using drop_not_accept by simp
    then show ?thesis
      unfolding head tail [symmetric] using True by (auto simp: Let_def Cons.IH)
  next
    case False
    then show ?thesis unfolding head tail [symmetric] by (simp add: Let_def Cons.IH)
  qed
qed simp

section \<open>Verdicts and packets\<close>

text \<open>The rules of a table of one family.\<close>
definition table_rules :: "fw_rule list option \<Rightarrow> fw_rule list option \<Rightarrow> string \<Rightarrow> fw_rule list" where
  "table_rules filter_rules raw_rules table =
     (case (if table = ''raw'' then raw_rules else if table = ''filter'' then filter_rules else None) of
        None \<Rightarrow> [] | Some rs \<Rightarrow> rs)"

text \<open>A live drop rule: enabled, in a chain every packet passes, with no accept-all before it.\<close>
definition live_drop :: "string \<Rightarrow> string \<Rightarrow> fw_rule list \<Rightarrow> fw_rule \<Rightarrow> bool" where
  "live_drop l table rules r =
     (drops_list l r \<and> rule_enabled r \<and> BUILTIN table (rule_chain r) \<noteq> None \<and>
      (\<exists>pre post. rules = pre @ r # post \<and> rule_chain r \<notin> accept_chains pre))"

text \<open>How a chain treats one packet: \<open>hit\<close> says which rules the packet matches, and the first terminal rule
  it hits decides.\<close>
definition terminal :: "fw_rule \<Rightarrow> bool" where
  "terminal r = (str_or (fld r ''action'') ''accept'' \<in> insert ''accept'' BLOCK_ACTIONS)"

definition decides :: "(fw_rule \<Rightarrow> bool) \<Rightarrow> string \<Rightarrow> fw_rule list \<Rightarrow> fw_rule \<Rightarrow> bool" where
  "decides hit chain rules r =
     (\<exists>pre post. rules = pre @ r # post \<and> rule_chain r = chain \<and> hit r \<and> terminal r \<and>
        (\<forall>q \<in> set pre. \<not> (rule_chain q = chain \<and> hit q \<and> terminal q)))"

text \<open>A packet never hits a disabled rule and always hits an accept-all.\<close>
definition packet :: "(fw_rule \<Rightarrow> bool) \<Rightarrow> bool" where
  "packet hit = (\<forall>r. (hit r \<longrightarrow> rule_enabled r) \<and> (is_unconditional_accept r \<longrightarrow> hit r))"

lemma accept_terminal: "is_unconditional_accept r \<Longrightarrow> terminal r"
  by (auto simp: is_unconditional_accept_def terminal_def split: if_splits)

lemma BUILTIN_relevant: "BUILTIN table chain \<noteq> None \<Longrightarrow> chain \<notin> IRRELEVANT \<and> table \<in> {''raw'', ''filter''}"
  by (auto simp: BUILTIN_def IRRELEVANT_def split: if_splits)

lemma live_builtin_iff:
  "(\<exists>m \<in> set (scan_table l table 0 {} rules). m_enabled m \<and> \<not> m_shadowed m \<and> m_builtin m)
   \<longleftrightarrow> (\<exists>r. live_drop l table rules r)"
proof
  assume "\<exists>m \<in> set (scan_table l table 0 {} rules). m_enabled m \<and> \<not> m_shadowed m \<and> m_builtin m"
  then obtain pre r post m where "rules = pre @ r # post" "drops_list l r"
    "m = mk_match table (0 + length pre) ({} \<union> accept_chains pre) r"
    "m_enabled m" "\<not> m_shadowed m" "m_builtin m"
    unfolding Bex_def scan_table_iff by blast
  then show "\<exists>r. live_drop l table rules r"
    by (intro exI [of _ r]) (auto simp: live_drop_def mk_match_def Let_def)
next
  assume "\<exists>r. live_drop l table rules r"
  then obtain r pre post where r: "drops_list l r" "rule_enabled r" "BUILTIN table (rule_chain r) \<noteq> None"
    "rules = pre @ r # post" "rule_chain r \<notin> accept_chains pre"
    by (auto simp: live_drop_def)
  let ?m = "mk_match table (0 + length pre) ({} \<union> accept_chains pre) r"
  have "?m \<in> set (scan_table l table 0 {} rules)"
    unfolding scan_table_iff using r BUILTIN_relevant by blast
  moreover have "m_enabled ?m \<and> \<not> m_shadowed ?m \<and> m_builtin ?m"
    using r by (simp add: mk_match_def Let_def)
  ultimately show "\<exists>m \<in> set (scan_table l table 0 {} rules). m_enabled m \<and> \<not> m_shadowed m \<and> m_builtin m"
    by blast
qed

lemma analyze_family_blocking:
  "fv_status (analyze_family l fr rr) = VBlocking \<longleftrightarrow>
     (\<exists>table r. live_drop l table (table_rules fr rr table) r)"
proof -
  have "fv_status (analyze_family l fr rr) = VBlocking \<longleftrightarrow>
      (\<exists>m \<in> set (scan_table l ''raw'' 0 {} (table_rules fr rr ''raw'')). m_enabled m \<and> \<not> m_shadowed m \<and> m_builtin m)
    \<or> (\<exists>m \<in> set (scan_table l ''filter'' 0 {} (table_rules fr rr ''filter'')). m_enabled m \<and> \<not> m_shadowed m \<and> m_builtin m)"
    by (auto simp: analyze_family_def Let_def table_rules_def filter_empty_conv)
  also have "\<dots> \<longleftrightarrow> (\<exists>table \<in> {''raw'', ''filter''}. \<exists>r. live_drop l table (table_rules fr rr table) r)"
    by (simp add: live_builtin_iff)
  also have "\<dots> \<longleftrightarrow> (\<exists>table r. live_drop l table (table_rules fr rr table) r)"
    unfolding live_drop_def using BUILTIN_relevant by blast
  finally show ?thesis .
qed

lemma decides_live:
  assumes "packet hit" "decides hit chain rules r" "drops_list l r" "BUILTIN table chain \<noteq> None"
  shows "live_drop l table rules r"
proof -
  obtain pre post where r: "rules = pre @ r # post" "rule_chain r = chain" "hit r"
    "\<forall>q \<in> set pre. \<not> (rule_chain q = chain \<and> hit q \<and> terminal q)"
    using assms(2) by (auto simp: decides_def)
  have "rule_chain r \<notin> accept_chains pre"
  proof
    assume "rule_chain r \<in> accept_chains pre"
    then obtain q where "q \<in> set pre" "is_unconditional_accept q" "rule_chain q = chain"
      using r(2) by (auto simp: accept_chains_def)
    with r(4) assms(1) accept_terminal show False by (auto simp: packet_def)
  qed
  moreover have "rule_enabled r" using assms(1) r(3) by (auto simp: packet_def)
  ultimately show ?thesis using assms(3,4) r(1,2) by (auto simp: live_drop_def)
qed


definition sample_rules :: "bool \<Rightarrow> fw_rule list" where
  "sample_rules accept_first =
     (if accept_first then [[(''chain'', ''forward''), (''action'', ''accept''), (''comment'', ''temp'')]] else [])
     @ [[(''chain'', ''forward''), (''action'', ''drop''), (''src-address-list'', ''crowdsec''), (''packets'', ''12'')]]"


section \<open>The summary\<close>

lemma min_severity_le:
  "severity (tv_status (min_severity m rs)) \<le> severity (tv_status m) \<and>
   (\<forall>r \<in> set rs. severity (tv_status (min_severity m rs)) \<le> severity (tv_status r)) \<and>
   min_severity m rs \<in> insert m (set rs)"
proof (induction rs arbitrary: m)
  case (Cons r rs)
  show ?case
    using Cons.IH [of "if severity (tv_status r) < severity (tv_status m) then r else m"] by auto
qed simp

lemma severity_inj: "severity a = severity b \<Longrightarrow> a = b"
  by (cases a; cases b) auto

text \<open>The topbar never shows green over a problem: the pill is green only if every MikroTik target is
  blocking and none of them has a warning, and it is red whenever some target is not dropping the list at
  all.\<close>
theorem pill_green_only_if_all_block:
  assumes "results \<noteq> []" "s = summarize results"
  shows "(pill_state (su_status s) (su_partial s) = Some Pill_ok \<longleftrightarrow>
       (\<forall>r \<in> set results. tv_status r = VBlocking \<and> tv_warnings r = []))
    \<and> (pill_state (su_status s) (su_partial s) = Some Pill_down \<longleftrightarrow>
       (\<exists>r \<in> set results. tv_status r \<in> {VNone, VDisabled, VShadowed}))"
proof -
  obtain r rs where results: "results = r # rs" using assms(1) by (cases results) auto
  define worst where "worst = min_severity r rs"
  have min: "x \<in> set results \<Longrightarrow> severity (tv_status worst) \<le> severity (tv_status x)" for x
    using min_severity_le [of r rs] by (auto simp: worst_def results)
  have mem: "worst \<in> set results" using min_severity_le [of r rs] by (simp add: worst_def results)
  have partial: "su_partial s = list_ex has_gap results"
    by (simp add: assms(2) summarize_def results Let_def)
  have status: "su_status s = Some (tv_status worst)"
  proof (cases "tv_status worst = VBlocking \<and> list_ex has_gap results")
    case True
    then obtain x where "List.find has_gap results = Some x" "has_gap x"
      by (cases "List.find has_gap results") (auto simp: find_None_iff list_ex_iff find_Some_iff)
    with True show ?thesis
      by (simp add: assms(2) summarize_def results Let_def worst_def [symmetric] has_gap_def)
  next
    case False
    then show ?thesis by (auto simp: assms(2) summarize_def results Let_def worst_def [symmetric])
  qed
  have all: "tv_status worst = VBlocking \<longleftrightarrow> (\<forall>x \<in> set results. tv_status x = VBlocking)"
  proof
    assume b: "tv_status worst = VBlocking"
    show "\<forall>x \<in> set results. tv_status x = VBlocking"
    proof
      fix x assume "x \<in> set results"
      then have "5 \<le> severity (tv_status x)" using min b by fastforce
      then show "tv_status x = VBlocking" by (cases "tv_status x") auto
    qed
  qed (use mem in blast)
  have bad: "(\<exists>x \<in> set results. severity (tv_status x) < 3) \<longleftrightarrow> severity (tv_status worst) < 3"
    using min mem by (meson le_less_trans)
  have down: "severity v < 3 \<longleftrightarrow> v \<in> {VNone, VDisabled, VShadowed}" for v by (cases v) auto
  have "pill_state (su_status s) (su_partial s) = Some Pill_ok \<longleftrightarrow> tv_status worst = VBlocking \<and> \<not> list_ex has_gap results"
    by (cases "tv_status worst") (auto simp: pill_state_def status partial)
  moreover have "pill_state (su_status s) (su_partial s) = Some Pill_down \<longleftrightarrow> severity (tv_status worst) < 3"
    by (cases "tv_status worst") (auto simp: pill_state_def status)
  ultimately show ?thesis
    using all bad unfolding down by (auto simp: list_ex_iff has_gap_def)
qed

theorem pill_green_only_if_all_block_witness:
  "pill_state (su_status (summarize [analyze ''a'' ''crowdsec'' [''filter'' \<mapsto> sample_rules True] None]))
     (su_partial (summarize [analyze ''a'' ''crowdsec'' [''filter'' \<mapsto> sample_rules True] None])) = Some Pill_down"
proof -
  have "tv_status (analyze ''a'' ''crowdsec'' [''filter'' \<mapsto> sample_rules True] None) = VShadowed" by code_simp
  then show ?thesis
    using pill_green_only_if_all_block [of "[analyze ''a'' ''crowdsec'' [''filter'' \<mapsto> sample_rules True] None]", OF _ refl]
    by simp
qed

end
