(* ===== verification/Scenarios_Admin.thy ===== *)
theory Scenarios_Admin
  imports Store Ip_Address
begin

text \<open>
  Whitelist, approval queue and the files of custom scenarios (\<open>scenarios_admin.py\<close>). The command
  runner \<open>subprocess.run\<close> is a parameter from the argument vector to its outcome (an exception text,
  or return code, standard output and standard error); a definition that runs commands also returns
  the vectors it ran. Path resolution, which follows symbolic links, is a parameter as well; a path
  is the list of its components. The statistics queries of the scenarios page are left out.
\<close>

section \<open>Hub commands\<close>

type_synonym runner = "string list \<Rightarrow> string + (int \<times> string \<times> string)"

record cmd_result =
  c_ok :: bool
  c_error :: string

definition cmd_ok :: cmd_result where "cmd_ok = \<lparr>c_ok = True, c_error = []\<rparr>"
definition cmd_fail :: "string \<Rightarrow> cmd_result" where "cmd_fail e = \<lparr>c_ok = False, c_error = e\<rparr>"

definition name_safe :: "string \<Rightarrow> bool" where
  "name_safe name =
     (if name = [] \<or> py_startswith name ''-'' then False
      else list_all (\<lambda>c. py_isalnum c \<or> c \<in> set ''/_-.'') name)"

definition HUB_KINDS :: "string set" where
  "HUB_KINDS = {''parsers'', ''scenarios'', ''collections'', ''postoverflows'', ''contexts''}"

text \<open>The result of a finished command.\<close>
definition cmd_outcome :: "string + (int \<times> string \<times> string) \<Rightarrow> cmd_result" where
  "cmd_outcome out =
     (case out of
        Inl e \<Rightarrow> cmd_fail e
      | Inr (rc, stdout, stderr) \<Rightarrow>
          if rc \<noteq> 0 then cmd_fail (take 400 (str_or (Some stderr) stdout)) else cmd_ok)"

definition hub_install :: "runner \<Rightarrow> string \<Rightarrow> string \<Rightarrow> string list list \<times> cmd_result" where
  "hub_install run kind name =
     (if \<not> name_safe name then ([], cmd_fail ''invalid name'')
      else if kind \<notin> HUB_KINDS then ([], cmd_fail ''invalid kind'')
      else let argv = [''cscli'', kind, ''install'', name] in ([argv], cmd_outcome (run argv)))"

definition hub_remove :: "runner \<Rightarrow> string \<Rightarrow> string \<Rightarrow> string list list \<times> cmd_result" where
  "hub_remove run kind name =
     (if \<not> name_safe name then ([], cmd_fail ''invalid name'')
      else if kind \<notin> HUB_KINDS then ([], cmd_fail ''invalid kind'')
      else let argv = [''cscli'', kind, ''remove'', name, ''--force''] in ([argv], cmd_outcome (run argv)))"

definition reload_agent :: "runner \<Rightarrow> string list list \<times> cmd_result" where
  "reload_agent run =
     (let reload = [''systemctl'', ''reload'', ''crowdsec'']; restart = [''systemctl'', ''restart'', ''crowdsec'']
      in case run reload of
           Inl e \<Rightarrow> ([reload], cmd_fail e)
         | Inr (rc, _, _) \<Rightarrow>
             if rc = 0 then ([reload], cmd_ok)
             else case run restart of
                    Inl e \<Rightarrow> ([reload, restart], cmd_fail e)
                  | Inr (rc, _, stderr) \<Rightarrow>
                      ([reload, restart], if rc \<noteq> 0 then cmd_fail (take 300 stderr) else cmd_ok))"

section \<open>Custom scenario files\<close>

type_synonym path = "string list"

definition CUSTOM_DIR :: path where
  "CUSTOM_DIR = [''etc'', ''crowdsec'', ''scenarios'']"

text \<open>\<open>Path.resolve\<close>; \<open>None\<close> is the \<open>OSError\<close> or \<open>ValueError\<close> it may raise.\<close>
type_synonym resolver = "path \<Rightarrow> path option"

definition path_safe :: "resolver \<Rightarrow> string \<Rightarrow> bool" where
  "path_safe resolve name =
     (if name = [] \<or> py_startswith name ''-'' \<or> \<not> py_endswith name ''.yaml'' then False
      else if CHR ''/'' \<in> set name \<or> CHR 0x5C \<in> set name \<or> py_contains name ''..'' then False
      else if \<not> list_all (\<lambda>c. py_isalnum c \<or> c \<in> set ''_-.'') name then False
      else case (resolve (CUSTOM_DIR @ [name]), resolve CUSTOM_DIR) of
             (Some p, Some d) \<Rightarrow> take (length d) p = d
           | _ \<Rightarrow> False)"

type_synonym files = "path \<rightharpoonup> string"

definition read_custom_scenario :: "resolver \<Rightarrow> files \<Rightarrow> string \<Rightarrow> string option" where
  "read_custom_scenario resolve fs name =
     (if \<not> path_safe resolve name then None
      else case resolve (CUSTOM_DIR @ [name]) of None \<Rightarrow> None | Some p \<Rightarrow> fs p)"

text \<open>\<open>save_custom_scenario\<close>; \<open>os_error\<close> is the error of the write, if it fails. The file written is the
  one the path resolves to.\<close>
definition save_custom_scenario :: "resolver \<Rightarrow> string option \<Rightarrow> string \<Rightarrow> string \<Rightarrow> files \<Rightarrow> files \<times> cmd_result" where
  "save_custom_scenario resolve os_error name content fs =
     (if \<not> path_safe resolve name
      then (fs, cmd_fail ''name must be a bare alphanumeric *.yaml filename'')
      else if length content > 200000 then (fs, cmd_fail ''file too large'')
      else case (os_error, resolve (CUSTOM_DIR @ [name])) of
             (None, Some p) \<Rightarrow> (fs(p \<mapsto> content), cmd_ok)
           | (Some e, _) \<Rightarrow> (fs, cmd_fail e)
           | (None, None) \<Rightarrow> (fs, cmd_fail ''unresolvable path''))"

section \<open>Whitelist\<close>

text \<open>A rule as \<open>dict(row)\<close>: the row with its id.\<close>
type_synonym rule = "nat \<times> whitelist_row"

definition list_whitelist :: "instant \<Rightarrow> bool \<Rightarrow> store \<Rightarrow> rule list" where
  "list_whitelist now include_expired db =
     rev (select_rows (\<lambda>_ r. include_expired \<or>
        (case wl_expires_at r of None \<Rightarrow> True | Some t \<Rightarrow> iso_after_sql t now)) (whitelist db))"

fun kind_of :: "string \<Rightarrow> whitelist_kind option" where
  "kind_of s = (if s = ''ip'' then Some WL_ip else if s = ''cidr'' then Some WL_cidr
     else if s = ''asn'' then Some WL_asn else if s = ''country'' then Some WL_country else None)"

text \<open>The validation of \<open>add_whitelist\<close>: the value to store, or the error.\<close>
definition check_value :: "whitelist_kind \<Rightarrow> string \<Rightarrow> string + string" where
  "check_value kind value =
     (case kind of
        WL_ip \<Rightarrow> if ip_address value = None then Inl ''invalid IP'' else Inr value
      | WL_cidr \<Rightarrow> if ip_network value = None then Inl ''invalid CIDR'' else Inr value
      | WL_asn \<Rightarrow> if py_startswith (py_upper value) ''AS'' \<and> drop 2 value \<noteq> [] \<and> list_all py_isdigit (drop 2 value)
                  then Inr value else Inl ''ASN must look like AS12345''
      | WL_country \<Rightarrow> if length value = 2 \<and> list_all py_isalpha value
                      then Inr (py_upper value) else Inl ''country must be 2-letter ISO code'')"

definition add_whitelist :: "instant \<Rightarrow> string \<Rightarrow> string \<Rightarrow> string \<Rightarrow> instant option \<Rightarrow> store \<Rightarrow> store \<times> cmd_result" where
  "add_whitelist now kind value note expires_at db =
     (case kind_of kind of
        None \<Rightarrow> (db, cmd_fail ''invalid kind'')
      | Some k \<Rightarrow>
          case check_value k (py_strip value) of
            Inl e \<Rightarrow> (db, cmd_fail e)
          | Inr v \<Rightarrow>
              let new = \<lparr>wl_kind = k, wl_value = v, wl_note = note, wl_expires_at = expires_at, wl_created_at = now\<rparr>;
                  t = delete_rows (\<lambda>_ r. wl_kind r = k \<and> wl_value r = v) (whitelist db)
              in (db\<lparr>whitelist := fst (insert_row new t)\<rparr>, cmd_ok))"

definition delete_whitelist :: "nat \<Rightarrow> store \<Rightarrow> store" where
  "delete_whitelist wid db = db\<lparr>whitelist := delete_rows (\<lambda>i _. i = wid) (whitelist db)\<rparr>"

fun matches_loop :: "string \<Rightarrow> ip option \<Rightarrow> string \<Rightarrow> string \<Rightarrow> rule list \<Rightarrow> rule option" where
  "matches_loop ip addr asn country [] = None"
| "matches_loop ip addr asn country ((i, w) # rules) =
     (if wl_kind w = WL_ip \<and> wl_value w = ip then Some (i, w)
      else if wl_kind w = WL_cidr \<and> addr \<noteq> None \<and>
              (case ip_network (wl_value w) of None \<Rightarrow> False | Some n \<Rightarrow> in_network (the addr) n) then Some (i, w)
      else if wl_kind w = WL_asn \<and> asn \<noteq> [] \<and> py_upper (wl_value w) = py_upper asn then Some (i, w)
      else if wl_kind w = WL_country \<and> country \<noteq> [] \<and> py_upper (wl_value w) = py_upper country then Some (i, w)
      else matches_loop ip addr asn country rules)"

definition matches_whitelist :: "string \<Rightarrow> string \<Rightarrow> string \<Rightarrow> rule list \<Rightarrow> rule option" where
  "matches_whitelist ip asn country rules = matches_loop ip (ip_address ip) asn country rules"

definition record_whitelist_hit :: "instant \<Rightarrow> string \<Rightarrow> nat \<Rightarrow> string \<Rightarrow> store \<Rightarrow> store \<times> event list" where
  "record_whitelist_hit now ip whitelist_id scenario db =
     (let db = db\<lparr>whitelist_hits := fst (insert_row
                 \<lparr>wh_ip = ip, wh_whitelist_id = whitelist_id, wh_scenario = scenario, wh_created_at = now\<rparr>
                 (whitelist_hits db))\<rparr>;
          n = count_rows (\<lambda>_ h. wh_ip h = ip \<and> wh_whitelist_id h = whitelist_id \<and>
                iso_after_sql (wh_created_at h) (now - HOUR)) (whitelist_hits db)
      in (db, if n \<le> 1
              then [Notify ''whitelist_hit''
                      (''Whitelist rule #'' @ py_str_nat whitelist_id @ '' matched '' @ ip @ '' (scenario: ''
                        @ str_or (Some scenario) ''n/a'' @ ''). Decision NOT pushed to bouncers.'')
                      (''Whitelist saved '' @ ip),
                    Ship ''whitelist.hit'' [(''ip'', Some ip), (''whitelist_id'', Some (py_str_nat whitelist_id)),
                      (''scenario'', Some scenario)]]
              else []))"

section \<open>Approval queue\<close>

definition approval_required :: "store \<Rightarrow> bool" where
  "approval_required db = (str_or (get_setting ''settings.approval_required'' db) ''0'' = ''1'')"

definition queue_decision :: "instant \<Rightarrow> string \<Rightarrow> string \<Rightarrow> string \<Rightarrow> string \<Rightarrow> string \<Rightarrow> int option \<Rightarrow> store \<Rightarrow> store \<times> nat" where
  "queue_decision now ip scope scenario origin origin_source decision_id db =
     (let (t, i) = insert_row \<lparr>aq_ip = ip, aq_scope = scope, aq_scenario = scenario, aq_origin = origin,
              aq_origin_source = origin_source, aq_decision_id = decision_id, aq_status = Q_pending,
              aq_decided_by = [], aq_decided_at = None, aq_created_at = now\<rparr> (approval_queue db)
      in (db\<lparr>approval_queue := t\<rparr>, i))"

definition list_queue :: "queue_status \<Rightarrow> nat \<Rightarrow> store \<Rightarrow> (nat \<times> approval_row) list" where
  "list_queue status limit db = take limit (rev (select_rows (\<lambda>_ r. aq_status r = status) (approval_queue db)))"

fun verdict_of :: "string \<Rightarrow> queue_status option" where
  "verdict_of s = (if s = ''approved'' then Some Q_approved else if s = ''rejected'' then Some Q_rejected else None)"

definition decide :: "instant \<Rightarrow> nat \<Rightarrow> string \<Rightarrow> string \<Rightarrow> store \<Rightarrow> exn + store" where
  "decide now queue_id decision decided_by db =
     (case verdict_of decision of
        None \<Rightarrow> Inl (ValueError ''decision must be approved|rejected'')
      | Some v \<Rightarrow> Inr (db\<lparr>approval_queue := update_rows (\<lambda>i _. i = queue_id)
            (\<lambda>r. r\<lparr>aq_status := v, aq_decided_by := decided_by, aq_decided_at := Some now\<rparr>) (approval_queue db)\<rparr>))"

section \<open>Custom scenarios stay in their directory\<close>

lemma path_safe_resolves:
  "path_safe resolve name \<Longrightarrow>
   \<exists>p d. resolve (CUSTOM_DIR @ [name]) = Some p \<and> resolve CUSTOM_DIR = Some d \<and> take (length d) p = d"
  by (auto simp: path_safe_def split: if_splits option.splits)

lemma path_safe_component:
  "path_safe resolve name \<Longrightarrow>
   CHR ''/'' \<notin> set name \<and> name \<noteq> ''.'' \<and> name \<noteq> ''..'' \<and> \<not> py_startswith name ''-'' \<and> py_endswith name ''.yaml''"
  by (auto simp: path_safe_def py_endswith_def split: if_splits)

text \<open>Saving a custom scenario cannot leave the scenarios directory: whatever the name, and wherever
  symbolic links lead, the only file that can change is one that resolves to a place under the resolved
  directory, reached by a name that is a single path component; and a saved file reads back as it was
  written.\<close>
theorem save_confined:
  assumes "save_custom_scenario resolve os_error name content fs = (fs', res)"
  shows "(\<forall>p. fs' p \<noteq> fs p \<longrightarrow>
        resolve (CUSTOM_DIR @ [name]) = Some p \<and> CHR ''/'' \<notin> set name \<and> name \<noteq> ''..'' \<and>
        (\<exists>d. resolve CUSTOM_DIR = Some d \<and> take (length d) p = d))
    \<and> (c_ok res \<longrightarrow> read_custom_scenario resolve fs' name = Some content)"
proof (cases "path_safe resolve name")
  case False
  with assms show ?thesis by (auto simp: save_custom_scenario_def cmd_fail_def)
next
  case True
  obtain p d where pd: "resolve (CUSTOM_DIR @ [name]) = Some p" "resolve CUSTOM_DIR = Some d" "take (length d) p = d"
    using path_safe_resolves [OF True] by blast
  with assms True path_safe_component [OF True] show ?thesis
    by (auto simp: save_custom_scenario_def read_custom_scenario_def cmd_fail_def cmd_ok_def
        split: if_splits option.splits)
qed

theorem save_confined_witness:
  "save_custom_scenario Some None ''../../passwd.yaml'' ''x'' Map.empty = (Map.empty,
      cmd_fail ''name must be a bare alphanumeric *.yaml filename'')
   \<and> read_custom_scenario Some (fst (save_custom_scenario Some None ''my-rule.yaml'' ''x'' Map.empty)) ''my-rule.yaml''
      = Some ''x''"
proof
  show "save_custom_scenario Some None ''../../passwd.yaml'' ''x'' Map.empty = (Map.empty,
      cmd_fail ''name must be a bare alphanumeric *.yaml filename'')"
  proof -
    have "\<not> path_safe Some ''../../passwd.yaml''" by code_simp
    then show ?thesis by (simp add: save_custom_scenario_def)
  qed
  have "path_safe Some ''my-rule.yaml''" by code_simp
  then have "c_ok (snd (save_custom_scenario Some None ''my-rule.yaml'' ''x'' Map.empty))"
    by (simp add: save_custom_scenario_def cmd_ok_def)
  then show "read_custom_scenario Some (fst (save_custom_scenario Some None ''my-rule.yaml'' ''x'' Map.empty)) ''my-rule.yaml''
      = Some ''x''"
    using save_confined [of Some None "''my-rule.yaml''" "''x''" Map.empty] by (metis prod.collapse)
qed

text \<open>A hub command never runs with a name that could be read as an option.\<close>
lemma hub_commands_no_flags:
  assumes "argv \<in> set (fst (hub_install run kind name)) \<union> set (fst (hub_remove run kind name))"
  shows "name \<in> set argv \<and> \<not> py_startswith name ''-'' \<and> kind \<in> HUB_KINDS"
  using assms by (auto simp: hub_install_def hub_remove_def name_safe_def Let_def split: if_splits)

section \<open>What the whitelist protects\<close>

text \<open>A rule covers a decision.\<close>
definition rule_covers :: "string \<Rightarrow> string \<Rightarrow> string \<Rightarrow> whitelist_row \<Rightarrow> bool" where
  "rule_covers ip asn country w =
     (case wl_kind w of
        WL_ip \<Rightarrow> wl_value w = ip
      | WL_cidr \<Rightarrow> (\<exists>a n. ip_address ip = Some a \<and> ip_network (wl_value w) = Some n \<and> in_network a n)
      | WL_asn \<Rightarrow> asn \<noteq> [] \<and> py_upper (wl_value w) = py_upper asn
      | WL_country \<Rightarrow> country \<noteq> [] \<and> py_upper (wl_value w) = py_upper country)"

lemma matches_find: "matches_whitelist ip asn country rules = List.find (\<lambda>(i, w). rule_covers ip asn country w) rules"
  unfolding matches_whitelist_def
proof (induction rules)
  case (Cons r rules)
  obtain i w where "r = (i, w)" by force
  with Cons show ?case
    by (cases "wl_kind w") (auto simp: rule_covers_def split: option.splits)
qed simp

text \<open>The first matching rule is returned: a decision matches the whitelist exactly when some rule of
  the list covers it, and the rule reported is the first one that does.\<close>
theorem matches_whitelist_first_cover:
  "matches_whitelist ip asn country rules =
     (case filter (\<lambda>(i, w). rule_covers ip asn country w) rules of [] \<Rightarrow> None | r # _ \<Rightarrow> Some r)"
  unfolding matches_find by (induction rules) auto

lemma wl_in_list: "wl \<in> set (list_whitelist now inc db) \<longleftrightarrow> wl \<in> set (rows (whitelist db)) \<and>
    (inc \<or> (case wl_expires_at (snd wl) of None \<Rightarrow> True | Some t \<Rightarrow> iso_after_sql t now))"
  by (cases wl) (auto simp: list_whitelist_def select_rows_def)

lemma add_whitelist_row:
  assumes "add_whitelist now kind value note expires db = (db', res)" "c_ok res"
  shows "\<exists>i k v. kind_of kind = Some k \<and> check_value k (py_strip value) = Inr v \<and>
    (i, \<lparr>wl_kind = k, wl_value = v, wl_note = note, wl_expires_at = expires, wl_created_at = now\<rparr>)
      \<in> set (rows (whitelist db'))"
proof -
  have "c_ok (snd (add_whitelist now kind value note expires db))" using assms by simp
  then obtain k v where k: "kind_of kind = Some k" and v: "check_value k (py_strip value) = Inr v"
    by (auto simp: add_whitelist_def cmd_fail_def simp del: kind_of.simps split: option.splits sum.splits)
  then show ?thesis
    using assms(1) by (auto simp: add_whitelist_def insert_row_def Let_def simp del: kind_of.simps)
qed

text \<open>An accepted rule protects what it names: after a successful addition, and as long as the rule has
  not expired, a decision on the address of an \<open>ip\<close> rule, on any address inside the network of a \<open>cidr\<close>
  rule, or with the ASN or the country of the rule, matches the whitelist.\<close>
theorem whitelist_add_protects:
  assumes "add_whitelist now kind value note expires db = (db', res)" "c_ok res"
    and "case expires of None \<Rightarrow> True | Some t \<Rightarrow> later \<le> t"
    and "kind = ''ip'' \<and> ip = py_strip value
      \<or> kind = ''cidr'' \<and> (\<exists>a n. ip_address ip = Some a \<and> ip_network (py_strip value) = Some n \<and> in_network a n)
      \<or> kind = ''asn'' \<and> asn = py_strip value
      \<or> kind = ''country'' \<and> country = py_upper (py_strip value)"
  shows "matches_whitelist ip asn country (list_whitelist later False db') \<noteq> None"
proof -
  obtain i k v where row: "kind_of kind = Some k" "check_value k (py_strip value) = Inr v"
    "(i, \<lparr>wl_kind = k, wl_value = v, wl_note = note, wl_expires_at = expires, wl_created_at = now\<rparr>)
      \<in> set (rows (whitelist db'))"
    using add_whitelist_row [OF assms(1,2)] by blast
  let ?w = "\<lparr>wl_kind = k, wl_value = v, wl_note = note, wl_expires_at = expires, wl_created_at = now\<rparr>"
  have "(i, ?w) \<in> set (list_whitelist later False db')"
    using row(3) assms(3) by (auto simp: wl_in_list iso_after_sql_of_le split: option.splits)
  moreover have "rule_covers ip asn country ?w"
    using row(1,2) assms(4)
    by (auto simp: rule_covers_def check_value_def py_upper_def split: if_splits)
  ultimately show ?thesis by (auto simp: matches_find find_None_iff)
qed

theorem whitelist_add_protects_witness:
  "matches_whitelist ''10.20.30.40'' [] [] (list_whitelist 7 False
      (fst (add_whitelist 5 ''cidr'' '' 10.0.0.0/8 '' [] (Some 9) empty_store))) \<noteq> None"
proof (rule whitelist_add_protects)
  show "add_whitelist 5 ''cidr'' '' 10.0.0.0/8 '' [] (Some 9) empty_store
      = (fst (add_whitelist 5 ''cidr'' '' 10.0.0.0/8 '' [] (Some 9) empty_store),
         snd (add_whitelist 5 ''cidr'' '' 10.0.0.0/8 '' [] (Some 9) empty_store))" by simp
  show "c_ok (snd (add_whitelist 5 ''cidr'' '' 10.0.0.0/8 '' [] (Some 9) empty_store))" by code_simp
  have "ip_address ''10.20.30.40'' = Some (V4 169090600)" by code_simp
  moreover have "ip_network (py_strip '' 10.0.0.0/8 '') = Some (Net4 167772160 8)" by code_simp
  moreover have "in_network (V4 169090600) (Net4 167772160 8)" by code_simp
  ultimately show "''cidr'' = ''ip'' \<and> ''10.20.30.40'' = py_strip '' 10.0.0.0/8 ''
      \<or> ''cidr'' = ''cidr'' \<and> (\<exists>a n. ip_address ''10.20.30.40'' = Some a \<and>
          ip_network (py_strip '' 10.0.0.0/8 '') = Some n \<and> in_network a n)
      \<or> ''cidr'' = ''asn'' \<and> [] = py_strip '' 10.0.0.0/8 ''
      \<or> ''cidr'' = ''country'' \<and> [] = py_upper (py_strip '' 10.0.0.0/8 '')" by blast
qed simp

text \<open>An expired rule keeps protecting until the end of its last day: the expiry column is an ISO text
  and the query compares it with SQLite's blank-separated text, so a rule that expired at noon still
  matches in the evening, and at midnight it stops.\<close>
theorem whitelist_expiry_rounds_up_to_the_day:
  "matches_whitelist ''192.0.2.7'' [] [] (list_whitelist (20 * HOUR) False
      (fst (add_whitelist 0 ''ip'' ''192.0.2.7'' [] (Some (12 * HOUR)) empty_store))) \<noteq> None
   \<and> matches_whitelist ''192.0.2.7'' [] [] (list_whitelist (24 * HOUR) False
      (fst (add_whitelist 0 ''ip'' ''192.0.2.7'' [] (Some (12 * HOUR)) empty_store))) = None"
  by (intro conjI) code_simp+

text \<open>A network rule does not protect against a decision on a range: the value of a range decision is
  not an address, so no \<open>cidr\<close> rule matches it, not even the rule with the very same text.\<close>
theorem cidr_rule_ignores_range_decision:
  "matches_whitelist ''10.1.0.0/16'' [] [] (list_whitelist 1 False
      (fst (add_whitelist 0 ''cidr'' ''10.1.0.0/16'' [] None empty_store))) = None
   \<and> c_ok (snd (add_whitelist 0 ''cidr'' ''10.1.0.0/16'' [] None empty_store))"
  by (intro conjI) code_simp+

end
