(* ===== verification/Iso_Time.thy ===== *)
theory Iso_Time
  imports Store "HOL-Library.Code_Target_Nat"
begin

text \<open>
  Calendar time (\<open>datetime\<close> of the standard library): the proleptic Gregorian calendar between day
  ordinals and dates, \<open>isoformat()\<close> of an aware UTC time, and \<open>fromisoformat()\<close> for the extended
  format with a time of day and an offset, which is the format the code writes; texts in other ISO
  formats are not read. An instant counts microseconds since 1970-01-01. The result the other
  theories use is that a time that was written is read back as it was, for the years 1 to 9999.
\<close>

section \<open>Dates\<close>

definition is_leap :: "nat \<Rightarrow> bool" where
  "is_leap y = (4 dvd y \<and> (\<not> 100 dvd y \<or> 400 dvd y))"

definition month_lengths :: "nat \<Rightarrow> nat list" where
  "month_lengths y = [31, if is_leap y then 29 else 28, 31, 30, 31, 30, 31, 31, 30, 31, 30, 31]"

text \<open>Days before the first of January of a year, counted from the year 1.\<close>
fun days_before_year :: "nat \<Rightarrow> nat" where
  "days_before_year y = (let p = y - 1 in p * 365 + p div 4 - p div 100 + p div 400)"

declare days_before_year.simps [simp del]

definition year_length :: "nat \<Rightarrow> nat" where
  "year_length y = (if is_leap y then 366 else 365)"

lemma sum_month_lengths: "sum_list (month_lengths y) = year_length y"
  by (simp add: month_lengths_def year_length_def)

lemma div_Suc_dvd: "0 < k \<Longrightarrow> Suc p div k = p div k + (if k dvd Suc p then 1 else 0)" for k p :: nat
  by (simp add: div_Suc dvd_eq_mod_eq_0)

lemma leap_count:
  fixes a b c p :: nat
  assumes "b \<le> a" and "d400 \<Longrightarrow> d100" and "d100 \<Longrightarrow> d4"
  shows "Suc p * 365 + (a + (if d4 then 1 else 0)) - (b + (if d100 then 1 else 0)) + (c + (if d400 then 1 else 0))
       = p * 365 + a - b + c + (if d4 \<and> (\<not> d100 \<or> d400) then 366 else 365)"
  using assms by (cases d4; cases d100; cases d400) auto

lemma days_before_year_Suc:
  assumes "1 \<le> y"
  shows "days_before_year (Suc y) = days_before_year y + year_length y"
proof -
  obtain p where p: "y = Suc p" using assms by (cases y) auto
  have le: "p div 100 \<le> p div 4" by (simp add: div_le_mono2)
  have dvd: "400 dvd Suc p \<Longrightarrow> 100 dvd Suc p" "100 dvd Suc p \<Longrightarrow> 4 dvd Suc p"
    by (rule dvd_trans [rotated], assumption, simp)+
  have div: "Suc p div 4 = p div 4 + (if 4 dvd Suc p then 1 else 0)"
    "Suc p div 100 = p div 100 + (if 100 dvd Suc p then 1 else 0)"
    "Suc p div 400 = p div 400 + (if 400 dvd Suc p then 1 else 0)"
    by (rule div_Suc_dvd, simp)+
  show ?thesis
    unfolding p days_before_year.simps year_length_def is_leap_def Let_def diff_Suc_1 div
    by (rule leap_count [OF le dvd])
qed

lemma days_before_year_le: "1 \<le> y \<Longrightarrow> days_before_year y \<le> 366 * (y - 1)"
proof (induction y rule: nat_induct_at_least)
  case base
  then show ?case by (simp add: days_before_year.simps)
next
  case (Suc y)
  then show ?case by (auto simp: days_before_year_Suc year_length_def)
qed

text \<open>The year of a day: the search starts at a year that is not too late.\<close>
function year_from :: "nat \<Rightarrow> nat \<Rightarrow> nat" where
  "year_from n y = (if 1 \<le> y \<and> days_before_year (Suc y) < n then year_from n (Suc y) else y)"
  by pat_completeness auto
termination
  by (relation "measure (\<lambda>(n, y). n - days_before_year y)")
    (auto simp: days_before_year_Suc year_length_def split: if_splits)

declare year_from.simps [simp del]

lemma year_from_bounds:
  assumes "1 \<le> y" and "days_before_year y < n"
  shows "1 \<le> year_from n y \<and> days_before_year (year_from n y) < n
       \<and> n \<le> days_before_year (year_from n y) + year_length (year_from n y)"
  using assms
proof (induction n y rule: year_from.induct)
  case (1 n y)
  show ?case
  proof (cases "days_before_year (Suc y) < n")
    case True
    then show ?thesis using 1 by (subst (1 2 3 4) year_from.simps) simp
  next
    case False
    then show ?thesis using 1 by (subst (1 2 3 4) year_from.simps) (simp add: days_before_year_Suc)
  qed
qed

definition year_of_ordinal :: "nat \<Rightarrow> nat" where
  "year_of_ordinal n = year_from n ((n - 1) div 366 + 1)"

lemma year_of_ordinal_bounds:
  assumes "1 \<le> n"
  shows "1 \<le> year_of_ordinal n \<and> days_before_year (year_of_ordinal n) < n
       \<and> n \<le> days_before_year (year_of_ordinal n) + year_length (year_of_ordinal n)"
proof -
  let ?y = "(n - 1) div 366 + 1"
  have "days_before_year ?y \<le> 366 * ((n - 1) div 366)"
    using days_before_year_le [of ?y] by simp
  also have "\<dots> \<le> n - 1" by simp
  also have "\<dots> < n" using assms by simp
  finally show ?thesis unfolding year_of_ordinal_def by (intro year_from_bounds) simp_all
qed

text \<open>Month and day of a day in the year, both from one.\<close>
fun month_day :: "nat \<Rightarrow> nat list \<Rightarrow> nat \<Rightarrow> nat \<times> nat" where
  "month_day m [] d = (m, d)"
| "month_day m (l # ls) d = (if d \<le> l then (m, d) else month_day (Suc m) ls (d - l))"

lemma month_day_bounds:
  assumes "1 \<le> d" and "d \<le> sum_list ls" and "month_day m ls d = (m', d')"
  shows "m \<le> m' \<and> m' < m + length ls \<and> 1 \<le> d' \<and> d' \<le> ls ! (m' - m) \<and> sum_list (take (m' - m) ls) + d' = d"
  using assms
proof (induction m ls d rule: month_day.induct)
  case (2 m l ls d)
  show ?case
  proof (cases "d \<le> l")
    case True
    then show ?thesis using 2 by auto
  next
    case False
    then have "Suc m \<le> m' \<and> m' < Suc m + length ls \<and> 1 \<le> d' \<and> d' \<le> ls ! (m' - Suc m)
        \<and> sum_list (take (m' - Suc m) ls) + d' = d - l"
      using 2 by auto
    moreover from this obtain k where "m' = Suc (m + k)" using less_eqE by (metis add_Suc)
    ultimately show ?thesis using False by simp linarith
  qed
qed simp

definition ymd_of_ordinal :: "nat \<Rightarrow> nat \<times> nat \<times> nat" where
  "ymd_of_ordinal n =
     (let y = year_of_ordinal n in (y, month_day 1 (month_lengths y) (n - days_before_year y)))"

definition ordinal_of_ymd :: "nat \<Rightarrow> nat \<Rightarrow> nat \<Rightarrow> nat option" where
  "ordinal_of_ymd y m d =
     (if 1 \<le> y \<and> y \<le> 9999 \<and> 1 \<le> m \<and> m \<le> 12 \<and> 1 \<le> d \<and> d \<le> month_lengths y ! (m - 1)
      then Some (days_before_year y + sum_list (take (m - 1) (month_lengths y)) + d) else None)"

text \<open>The last day of the year 9999.\<close>
definition MAX_ORDINAL :: nat where "MAX_ORDINAL = 3652059"

lemma year_bound:
  assumes "1 \<le> n" and "n \<le> days_before_year (Suc k)" and "1 \<le> k"
  shows "year_of_ordinal n \<le> k"
proof (rule ccontr)
  assume "\<not> year_of_ordinal n \<le> k"
  then have le: "Suc k \<le> year_of_ordinal n" by simp
  have "days_before_year (Suc k) \<le> days_before_year y" if "Suc k \<le> y" for y
    using that by (induction y rule: nat_induct_at_least) (auto simp: days_before_year_Suc)
  from this [OF le] year_of_ordinal_bounds [OF assms(1)] assms(2) show False by linarith
qed

lemma ordinal_ymd_roundtrip:
  assumes "1 \<le> n" and "n \<le> MAX_ORDINAL" and "ymd_of_ordinal n = (y, m, d)"
  shows "ordinal_of_ymd y m d = Some n \<and> m \<le> 12 \<and> d \<le> 31 \<and> y \<le> 9999"
proof -
  have y: "y = year_of_ordinal n" and md: "month_day 1 (month_lengths y) (n - days_before_year y) = (m, d)"
    using assms(3) by (auto simp: ymd_of_ordinal_def Let_def)
  note b = year_of_ordinal_bounds [OF assms(1), folded y]
  have 1: "1 \<le> m \<and> m < 1 + length (month_lengths y) \<and> 1 \<le> d \<and> d \<le> month_lengths y ! (m - 1)
      \<and> sum_list (take (m - 1) (month_lengths y)) + d = n - days_before_year y"
    using b by (intro month_day_bounds [OF _ _ md]) (auto simp: sum_month_lengths)
  have "days_before_year (Suc 9999) = MAX_ORDINAL"
    by (simp add: days_before_year.simps MAX_ORDINAL_def)
  then have 2: "y \<le> 9999" unfolding y using assms by (intro year_bound) auto
  have 3: "length (month_lengths y) = 12" by (simp add: month_lengths_def)
  then have "month_lengths y ! (m - 1) \<in> set (month_lengths y)" using 1 by (intro nth_mem) linarith
  then have "month_lengths y ! (m - 1) \<le> 31" by (auto simp: month_lengths_def split: if_splits)
  with 1 have "d \<le> 31" by linarith
  with 1 2 3 b show ?thesis by (simp add: ordinal_of_ymd_def) linarith
qed

section \<open>Fixed-width numbers\<close>

fun pad :: "nat \<Rightarrow> nat \<Rightarrow> string" where
  "pad 0 n = []"
| "pad (Suc k) n = pad k (n div 10) @ [digit_char (n mod 10)]"

definition digits_value :: "string \<Rightarrow> nat" where
  "digits_value ds = foldl (\<lambda>n c. 10 * n + (code_point c - 48)) 0 ds"

definition read_num :: "nat \<Rightarrow> string \<Rightarrow> (nat \<times> string) option" where
  "read_num k s =
     (if k \<le> length s \<and> list_all py_isdecimal (take k s) then Some (digits_value (take k s), drop k s) else None)"

definition read_char :: "char \<Rightarrow> string \<Rightarrow> string option" where
  "read_char c s = (case s of [] \<Rightarrow> None | x # xs \<Rightarrow> if x = c then Some xs else None)"

lemma length_pad [simp]: "length (pad k n) = k"
  by (induction k arbitrary: n) auto

lemma digit_char_code: "n < 10 \<Longrightarrow> code_point (digit_char n) = 48 + n \<and> py_isdecimal (digit_char n)"
  by (simp add: digit_char_def code_point_def py_isdecimal_def)

lemma pad_digits: "list_all py_isdecimal (pad k n)"
  by (induction k arbitrary: n) (auto simp: digit_char_code)

lemma digits_value_pad: "n < 10 ^ k \<Longrightarrow> digits_value (pad k n) = n"
proof (induction k arbitrary: n)
  case (Suc k)
  then have "n div 10 < 10 ^ k" by (simp add: less_mult_imp_div_less mult.commute)
  then have "digits_value (pad k (n div 10)) = n div 10" by (rule Suc.IH)
  then show ?case by (simp add: digits_value_def digit_char_code)
qed (simp add: digits_value_def)

lemma read_num_pad [simp]: "n < 10 ^ k \<Longrightarrow> read_num k (pad k n @ s) = Some (n, s)"
  by (simp add: read_num_def pad_digits digits_value_pad)

lemma read_char_Cons [simp]: "read_char c (c # s) = Some s"
  by (simp add: read_char_def)

section \<open>Time stamps\<close>

text \<open>The ordinal of 1970-01-01.\<close>
definition EPOCH :: int where "EPOCH = 719163"

definition isoformat :: "instant \<Rightarrow> string" where
  "isoformat t =
     (let secs = t div SECOND; us = nat (t mod SECOND); tod = nat (secs mod 86400);
          (y, m, d) = ymd_of_ordinal (nat (secs div 86400 + EPOCH))
      in pad 4 y @ ''-'' @ pad 2 m @ ''-'' @ pad 2 d @ ''T'' @ pad 2 (tod div 3600) @ '':'' @ pad 2 (tod div 60 mod 60)
         @ '':'' @ pad 2 (tod mod 60) @ (if us = 0 then [] else ''.'' @ pad 6 us) @ ''+00:00'')"

text \<open>The fraction of a second, cut to microseconds.\<close>
definition read_fraction :: "string \<Rightarrow> (nat \<times> string) option" where
  "read_fraction s =
     (case s of [] \<Rightarrow> Some (0, s)
      | c # r \<Rightarrow> if c = CHR ''.''
                then (let ds = takeWhile py_isdecimal r
                      in if ds = [] then None
                         else Some (digits_value (take 6 (ds @ ''000000'')), dropWhile py_isdecimal r))
                else Some (0, s))"

definition read_offset :: "string \<Rightarrow> int option" where
  "read_offset s =
     (case s of [] \<Rightarrow> None
      | c # r \<Rightarrow>
          Option.bind (read_num 2 r) (\<lambda>(h, r).
          Option.bind (read_char (CHR '':'') r) (\<lambda>r.
          Option.bind (read_num 2 r) (\<lambda>(m, r).
            if r \<noteq> [] \<or> h \<ge> 24 \<or> m \<ge> 60 then None
            else if c = CHR ''+'' then Some (int (h * 3600 + m * 60))
            else if c = CHR ''-'' then Some (- int (h * 3600 + m * 60)) else None))))"

definition read_date :: "string \<Rightarrow> (nat \<times> string) option" where
  "read_date s =
     Option.bind (read_num 4 s) (\<lambda>(y, s).
     Option.bind (read_char (CHR ''-'') s) (\<lambda>s.
     Option.bind (read_num 2 s) (\<lambda>(m, s).
     Option.bind (read_char (CHR ''-'') s) (\<lambda>s.
     Option.bind (read_num 2 s) (\<lambda>(d, s).
       map_option (\<lambda>n. (n, s)) (ordinal_of_ymd y m d))))))"

definition read_time :: "string \<Rightarrow> (nat \<times> nat \<times> string) option" where
  "read_time s =
     Option.bind (read_num 2 s) (\<lambda>(h, s).
     Option.bind (read_char (CHR '':'') s) (\<lambda>s.
     Option.bind (read_num 2 s) (\<lambda>(mi, s).
     Option.bind (read_char (CHR '':'') s) (\<lambda>s.
     Option.bind (read_num 2 s) (\<lambda>(sec, s).
       if h < 24 \<and> mi < 60 \<and> sec < 60
       then map_option (\<lambda>(us, s). (h * 3600 + mi * 60 + sec, us, s)) (read_fraction s) else None)))))"

text \<open>Any one character separates the date from the time.\<close>
definition fromisoformat :: "string \<Rightarrow> instant option" where
  "fromisoformat s =
     Option.bind (read_date s) (\<lambda>(n, s). case s of [] \<Rightarrow> None | _ # s \<Rightarrow>
     Option.bind (read_time s) (\<lambda>(tod, us, s).
     Option.bind (read_offset s) (\<lambda>off.
       Some (((int n - EPOCH) * 86400 + int tod - off) * SECOND + int us))))"

text \<open>\<open>datetime.fromisoformat(s.replace("Z", "+00:00"))\<close>.\<close>
definition parse_stamp :: "string \<Rightarrow> instant option" where
  "parse_stamp s = fromisoformat (concat (map (\<lambda>c. if c = CHR ''Z'' then ''+00:00'' else [c]) s))"

text \<open>The times of the years 1 to 9999.\<close>
definition datable :: "instant \<Rightarrow> bool" where
  "datable t = ((1 - EPOCH) * DAY \<le> t \<and> t < (int MAX_ORDINAL + 1 - EPOCH) * DAY)"

lemma read_date_pad:
  assumes "ordinal_of_ymd y m d = Some n" "m \<le> 12" "d \<le> 31" "y \<le> 9999"
  shows "read_date (pad 4 y @ ''-'' @ pad 2 m @ ''-'' @ pad 2 d @ s) = Some (n, s)"
  using assms by (simp add: read_date_def)

lemma read_fraction_pad:
  assumes "us < 1000000" "s = CHR ''+'' # r"
  shows "read_fraction ((if us = 0 then [] else ''.'' @ pad 6 us) @ s) = Some (us, s)"
proof -
  have "takeWhile py_isdecimal (pad 6 us @ CHR ''+'' # r) = pad 6 us"
    "dropWhile py_isdecimal (pad 6 us @ CHR ''+'' # r) = CHR ''+'' # r"
    using pad_digits [of 6 us]
    by (subst takeWhile_append2 dropWhile_append2; simp add: list_all_iff py_isdecimal_def code_point_def)+
  moreover have "pad 6 us \<noteq> []" by (metis length_pad list.size(3) zero_neq_numeral)
  ultimately show ?thesis using assms by (simp add: read_fraction_def Let_def digits_value_pad)
qed

lemma read_time_pad:
  assumes "tod < 86400" "us < 1000000" "s = CHR ''+'' # r"
  shows "read_time (pad 2 (tod div 3600) @ '':'' @ pad 2 (tod div 60 mod 60) @ '':'' @ pad 2 (tod mod 60)
           @ (if us = 0 then [] else ''.'' @ pad 6 us) @ s) = Some (tod, us, s)"
proof -
  have "tod div 3600 < 24" using assms(1) by (simp add: div_less_iff_less_mult)
  moreover have "tod div 60 mod 60 < 60" "tod mod 60 < 60" by simp_all
  moreover have "tod div 3600 * 3600 + tod div 60 mod 60 * 60 + tod mod 60 = tod"
  proof -
    have "tod div 3600 = tod div 60 div 60" by (simp add: div_mult2_eq)
    then show ?thesis using mult_div_mod_eq [of 60 tod] mult_div_mod_eq [of 60 "tod div 60"] by linarith
  qed
  ultimately show ?thesis
    using read_fraction_pad [OF assms(2,3)] by (simp add: read_time_def)
qed

lemma fromisoformat_isoformat:
  assumes "datable t"
  shows "fromisoformat (isoformat t) = Some t"
proof -
  define secs us n where "secs = t div SECOND" and "us = nat (t mod SECOND)" and "n = nat (secs div 86400 + EPOCH)"
  obtain y m d where ymd: "ymd_of_ordinal n = (y, m, d)" using prod_cases3 by blast
  have "(1 - EPOCH) * 86400 \<le> secs" "secs < (int MAX_ORDINAL + 1 - EPOCH) * 86400"
    using assms by (auto simp: datable_def secs_def DAY_def SECOND_def EPOCH_def MAX_ORDINAL_def)
  then have "1 - EPOCH \<le> secs div 86400" "secs div 86400 < int MAX_ORDINAL + 1 - EPOCH"
    by (auto simp: EPOCH_def MAX_ORDINAL_def)
  then have n: "1 \<le> n" "n \<le> MAX_ORDINAL" "int n = secs div 86400 + EPOCH" by (auto simp: n_def)
  note date = ordinal_ymd_roundtrip [OF n(1,2) ymd]
  have us: "us < 1000000" "int us = t mod SECOND" by (auto simp: us_def SECOND_def)
  have tod: "nat (secs mod 86400) < 86400" "int (nat (secs mod 86400)) = secs mod 86400" by auto
  have off: "read_offset ''+00:00'' = Some 0" by code_simp
  have "fromisoformat (isoformat t) =
      Some (((int n - EPOCH) * 86400 + int (nat (secs mod 86400)) - 0) * SECOND + int us)"
    unfolding fromisoformat_def isoformat_def Let_def secs_def [symmetric] us_def [symmetric] n_def [symmetric] ymd prod.case
    using date by (simp add: read_date_pad [simplified] read_time_pad [OF tod(1) us(1) refl, simplified] off)
  also have "\<dots> = Some t"
    using n(3) tod(2) us(2) by (simp add: secs_def mult.commute)
  finally show ?thesis .
qed

text \<open>No \<open>Z\<close> occurs in a written stamp, so the replacement of \<open>Z\<close> changes nothing.\<close>
lemma decimal_not_Z: "list_all py_isdecimal s \<Longrightarrow> CHR ''Z'' \<notin> set s"
  by (auto simp: list_all_iff py_isdecimal_def code_point_def)

lemma isoformat_no_Z: "CHR ''Z'' \<notin> set (isoformat t)"
  using decimal_not_Z [OF pad_digits] by (auto simp: isoformat_def Let_def split: prod.splits)

lemma replace_absent: "c \<notin> set s \<Longrightarrow> concat (map (\<lambda>x. if x = c then r else [x]) s) = s"
  by (induction s) auto

lemma parse_stamp_isoformat [simp]: "datable t \<Longrightarrow> parse_stamp (isoformat t) = Some t"
  by (simp add: parse_stamp_def replace_absent isoformat_no_Z fromisoformat_isoformat)

lemma isoformat_nonempty [simp]: "isoformat t \<noteq> []"
  by (auto simp: isoformat_def Let_def split: prod.splits)

section \<open>Aware and naive stamps\<close>

text \<open>\<open>fromisoformat\<close> also reads a date without a time, a time without seconds and a stamp without an offset; the last
  is naive, and comparing it with an aware time raises \<open>TypeError\<close>.\<close>
datatype stamp = Aware instant | Naive instant

definition read_clock :: "string \<Rightarrow> (nat \<times> nat \<times> string) option" where
  "read_clock s =
     Option.bind (read_num 2 s) (\<lambda>(h, s).
     Option.bind (read_char (CHR '':'') s) (\<lambda>s.
     Option.bind (read_num 2 s) (\<lambda>(mi, s).
       case read_char (CHR '':'') s of
         None \<Rightarrow> if h < 24 \<and> mi < 60 then Some (h * 3600 + mi * 60, 0, s) else None
       | Some s \<Rightarrow>
           Option.bind (read_num 2 s) (\<lambda>(sec, s).
             if h < 24 \<and> mi < 60 \<and> sec < 60
             then map_option (\<lambda>(us, s). (h * 3600 + mi * 60 + sec, us, s)) (read_fraction s) else None))))"

definition read_stamp :: "string \<Rightarrow> stamp option" where
  "read_stamp s =
     Option.bind (read_date s) (\<lambda>(n, s).
       let midnight = (int n - EPOCH) * 86400
       in case s of
            [] \<Rightarrow> Some (Naive (midnight * SECOND))
          | _ # s \<Rightarrow>
              Option.bind (read_clock s) (\<lambda>(tod, us, s).
                if s = [] then Some (Naive ((midnight + int tod) * SECOND + int us))
                else map_option (\<lambda>off. Aware ((midnight + int tod - off) * SECOND + int us)) (read_offset s)))"

text \<open>The same after \<open>.replace("Z", "+00:00")\<close>.\<close>
definition parse_any_stamp :: "string \<Rightarrow> stamp option" where
  "parse_any_stamp s = read_stamp (concat (map (\<lambda>c. if c = CHR ''Z'' then ''+00:00'' else [c]) s))"

lemma read_clock_of_time:
  assumes "read_time s = Some x"
  shows "read_clock s = Some x"
proof -
  obtain h a b mi c d sec e where
    "read_num 2 s = Some (h, a)" "read_char (CHR '':'') a = Some b" "read_num 2 b = Some (mi, c)"
    "read_char (CHR '':'') c = Some d" "read_num 2 d = Some (sec, e)"
    "(if h < 24 \<and> mi < 60 \<and> sec < 60
      then map_option (\<lambda>(us, s). (h * 3600 + mi * 60 + sec, us, s)) (read_fraction e) else None) = Some x"
    using assms unfolding read_time_def bind_eq_Some_conv split_paired_Ex prod.case by blast
  then show ?thesis by (simp only: read_clock_def bind.bind_lunit prod.case option.case)
qed

lemma read_stamp_aware: "fromisoformat s = Some t \<Longrightarrow> read_stamp s = Some (Aware t)"
proof -
  assume "fromisoformat s = Some t"
  then obtain n c u tod us v off where
    p: "read_date s = Some (n, c # u)" "read_time u = Some (tod, us, v)" "read_offset v = Some off"
      "t = ((int n - EPOCH) * 86400 + int tod - off) * SECOND + int us"
    unfolding fromisoformat_def
    by (elim bind_eq_Some_conv [THEN iffD1, elim_format] exE conjE) (auto split: prod.splits list.splits Option.bind_splits)
  moreover have "v \<noteq> []" using p(3) by (auto simp: read_offset_def)
  ultimately show ?thesis using read_clock_of_time [OF p(2)] by (simp add: read_stamp_def)
qed

lemma parse_any_isoformat [simp]: "datable t \<Longrightarrow> parse_any_stamp (isoformat t) = Some (Aware t)"
  using parse_stamp_isoformat [of t] read_stamp_aware by (simp add: parse_stamp_def parse_any_stamp_def)

end
