(* ===== verification/Reconciler.thy ===== *)
theory Reconciler
  imports Blocking Scenarios_Admin Mirror Iso_Time "HOL-Library.Product_Lexorder" "HOL-Library.Multiset"
begin

text \<open>
  The reconcile cycle (\<open>reconciler.py\<close>): what is desired according to the mirror, the whitelist and
  the approval queue; what of it a bouncer gets; one bouncer's snapshot, diff and apply; and the cycle
  over all bouncers with its record in the store. The cycle runs its bouncers in a thread pool and
  collects the results in submission order; each bouncer has its own device, and the model runs them
  in that order. Wall-clock measurements are arguments. Two engines are parameters: regular
  expressions (\<open>re_compile\<close> returns the search function of a pattern, or nothing for a bad pattern) and
  the reputation score (\<open>qualifying\<close>, nothing if it raises).
\<close>

section \<open>What a bouncer gets\<close>

definition origin_ok :: "'w bouncer \<Rightarrow> string \<Rightarrow> bool" where
  "origin_ok b o' =
     (if b_exclude_origins b \<noteq> [] \<and> list_ex (fnmatchcase o') (b_exclude_origins b) then False
      else if b_origins b \<noteq> [] \<and> \<not> list_ex (fnmatchcase o') (b_origins b) then False
      else True)"

definition allowed_sources :: "source_filter \<Rightarrow> string list" where
  "allowed_sources sf =
     (case sf of
        SF_text s \<Rightarrow> filter (\<lambda>x. x \<noteq> []) (map py_strip (py_split (CHR '','') s))
      | SF_list xs \<Rightarrow> filter (\<lambda>x. x \<noteq> []) (map py_strip xs))"

text \<open>Truth values of the configured options.\<close>
definition sf_truthy :: "source_filter option \<Rightarrow> bool" where
  "sf_truthy f = (case f of None \<Rightarrow> False | Some (SF_text s) \<Rightarrow> s \<noteq> [] | Some (SF_list xs) \<Rightarrow> xs \<noteq> [])"

definition int_truthy :: "int option \<Rightarrow> bool" where
  "int_truthy n = (case n of None \<Rightarrow> False | Some k \<Rightarrow> k \<noteq> 0)"

text \<open>\<open>xs[:n]\<close>, also for a negative bound.\<close>
definition py_take :: "int \<Rightarrow> 'a list \<Rightarrow> 'a list" where
  "py_take n xs = (if 0 \<le> n then take (nat n) xs else take (length xs - nat (- n)) xs)"

definition newest_first :: "decision list \<Rightarrow> decision list" where
  "newest_first ds = sort_key (\<lambda>d. - (case d_lapi_id d of None \<Rightarrow> 0 | Some i \<Rightarrow> i)) ds"

definition filter_desired_for_bouncer :: "(string \<Rightarrow> (string \<Rightarrow> bool) option) \<Rightarrow> (int \<Rightarrow> string set option)
    \<Rightarrow> 'w bouncer \<Rightarrow> decision list \<Rightarrow> decision list" where
  "filter_desired_for_bouncer re_compile qualifying b desired =
     (if b_origins b = [] \<and> b_exclude_origins b = [] \<and> \<not> int_truthy (b_max_entries b)
         \<and> \<not> int_truthy (b_min_reputation b) \<and> \<not> sf_truthy (b_source_filter b) \<and> \<not> str_truthy (b_scenario_filter b)
      then desired
      else
        let out = filter (\<lambda>d. origin_ok b (str_or (d_origin d) '''')) desired;
            out = (if sf_truthy (b_source_filter b)
                   then (let allowed = allowed_sources (the (b_source_filter b))
                         in if allowed \<noteq> [] then filter (\<lambda>d. str_or (d_origin_source d) '''' \<in> set allowed) out else out)
                   else out);
            out = (if str_truthy (b_scenario_filter b)
                   then (case re_compile (the (b_scenario_filter b)) of
                           Some search \<Rightarrow> filter (\<lambda>d. search (str_or (d_scenario d) '''')) out
                         | None \<Rightarrow> out)
                   else out);
            out = (if int_truthy (b_min_reputation b)
                   then (case qualifying (the (b_min_reputation b)) of
                           Some q \<Rightarrow> filter (\<lambda>d. case d_value d of None \<Rightarrow> False | Some v \<Rightarrow> v \<in> q) out
                         | None \<Rightarrow> out)
                   else out)
        in if int_truthy (b_max_entries b) \<and> int (length out) > the (b_max_entries b)
           then py_take (the (b_max_entries b)) (newest_first out)
           else out)"

section \<open>What is desired\<close>

definition confidence_threshold :: "store \<Rightarrow> int" where
  "confidence_threshold db =
     (case py_int (str_or (get_setting ''federation.confidence_threshold'' db) ''1'') of
        Some n \<Rightarrow> max 1 n | None \<Rightarrow> 1)"

text \<open>The addresses enough sources have seen in the last seven days.\<close>
definition confident_ips :: "instant \<Rightarrow> int \<Rightarrow> store \<Rightarrow> string set" where
  "confident_ips now threshold db =
     (let recent = filter (\<lambda>r. iso_after_sql (is_last_seen_at r) (now - 7 * DAY)) (ip_sources db)
      in set (filter (\<lambda>ip. threshold \<le> int (length (remdups (map is_source_name (filter (\<lambda>r. is_ip r = ip) recent)))))
           (map is_ip recent)))"

text \<open>\<open>SELECT value, scope, MIN(...) ... GROUP BY value, scope\<close>: one row per group, in key order.\<close>
definition min_str :: "string list \<Rightarrow> string" where
  "min_str xs = hd (sort xs)"

definition group_decision :: "decision_row list \<Rightarrow> string \<times> string \<Rightarrow> decision" where
  "group_decision rs k =
     (let g = filter (\<lambda>r. (dr_value r, dr_scope r) = k) rs
      in \<lparr>d_value = Some (fst k), d_scope = Some (snd k), d_scenario = Some (min_str (map dr_scenario g)),
          d_origin = Some (min_str (map dr_origin g)), d_origin_source = Some (min_str (map dr_origin_source g)),
          d_lapi_id = Some (hd (sort (map dr_lapi_id g))), d_id = None\<rparr>)"

definition group_decisions :: "decision_row list \<Rightarrow> decision list" where
  "group_decisions rs = map (group_decision rs) (sort (remdups (map (\<lambda>r. (dr_value r, dr_scope r)) rs)))"

definition candidate_rows :: "instant \<Rightarrow> store \<Rightarrow> decision_row list" where
  "candidate_rows now db =
     (let threshold = confidence_threshold db;
          live = filter (\<lambda>r. dr_deleted_at r = None) (contents (decisions db))
      in if threshold \<le> 1 then live
         else filter (\<lambda>r. dr_value r \<in> confident_ips now threshold db) live)"

text \<open>The enrichment query, run in chunks of 900 addresses.\<close>
function chunks :: "nat \<Rightarrow> 'a list \<Rightarrow> 'a list list" where
  "chunks n xs = (if xs = [] \<or> n = 0 then [] else take n xs # chunks n (drop n xs))"
  by pat_completeness auto
termination
  by (relation "measure (\<lambda>(n, xs). length xs)") auto

declare chunks.simps [simp del]

definition geo_maps :: "store \<Rightarrow> string list \<Rightarrow> (string \<rightharpoonup> string) \<times> (string \<rightharpoonup> string)" where
  "geo_maps db ips =
     fold (\<lambda>r (asn_map, country_map).
         (if gc_asn r \<noteq> [] then asn_map(gc_ip r \<mapsto> gc_asn r) else asn_map,
          if gc_country_code r \<noteq> [] then country_map(gc_ip r \<mapsto> gc_country_code r) else country_map))
       (concat (map (\<lambda>chunk. filter (\<lambda>r. gc_ip r \<in> set chunk) (geo_cache db)) (chunks 900 ips)))
       (Map.empty, Map.empty)"

fun whitelist_loop :: "instant \<Rightarrow> rule list \<Rightarrow> (string \<rightharpoonup> string) \<Rightarrow> (string \<rightharpoonup> string) \<Rightarrow> decision list \<Rightarrow> store
    \<Rightarrow> store \<times> event list \<times> decision list" where
  "whitelist_loop now rules asns countries [] db = (db, [], [])"
| "whitelist_loop now rules asns countries (d # ds) db =
     (let val = str_or (d_value d) ''''
      in case matches_whitelist val (str_or (asns val) '''') (str_or (countries val) '''') rules of
           Some (i, _) \<Rightarrow>
             let (db, es) = record_whitelist_hit now val i (str_or (d_scenario d) '''') db;
                 (db, es', out) = whitelist_loop now rules asns countries ds db
             in (db, es @ es', out)
         | None \<Rightarrow>
             let (db, es, out) = whitelist_loop now rules asns countries ds db in (db, es, d # out))"

text \<open>The latest queue status of the candidates (one row per address: the one with the highest id).\<close>
definition seen_in_queue :: "store \<Rightarrow> string list \<Rightarrow> string set" where
  "seen_in_queue db ips = {ip \<in> set ips. \<exists>p \<in> set (rows (approval_queue db)). aq_ip (snd p) = ip}"

definition approved_ips :: "store \<Rightarrow> string set" where
  "approved_ips db = set (map aq_ip (filter (\<lambda>r. aq_status r = Q_approved) (contents (approval_queue db))))"

fun queue_loop :: "instant \<Rightarrow> string set \<Rightarrow> string set \<Rightarrow> decision list \<Rightarrow> store \<Rightarrow> store" where
  "queue_loop now approved seen [] db = db"
| "queue_loop now approved seen (d # ds) db =
     (let v = str_or (d_value d) ''''
      in if v \<in> approved \<or> v \<in> seen then queue_loop now approved seen ds db
         else queue_loop now approved seen ds
                (fst (queue_decision now v (str_or (d_scope d) '''') (str_or (d_scenario d) '''') (str_or (d_origin d) '''')
                        (str_or (d_origin_source d) '''') (d_lapi_id d) db)))"

definition desired_from_db :: "instant \<Rightarrow> store \<Rightarrow> store \<times> event list \<times> decision list" where
  "desired_from_db now db =
     (let desired = group_decisions (candidate_rows now db)
      in if desired = [] then (db, [], [])
         else
           let rules = list_whitelist now False db;
               ips = filter (\<lambda>v. v \<noteq> []) (map (\<lambda>d. str_or (d_value d) '''') desired);
               (asns, countries) = geo_maps db ips;
               (db, es, out) = whitelist_loop now rules asns countries desired db
           in if approval_required db
              then let approved = approved_ips db;
                       seen = seen_in_queue db (map (\<lambda>d. str_or (d_value d) '''') out);
                       db = queue_loop now approved seen out db
                   in (db, es, filter (\<lambda>d. str_or (d_value d) '''' \<in> approved) out)
              else (db, es, out))"

section \<open>One bouncer\<close>

record bouncer_times =
  tm_snapshot :: int
  tm_diff :: int
  tm_apply :: int

record bouncer_out =
  bo_name :: string
  bo_kind :: string
  bo_snapshot_ms :: int
  bo_diff_ms :: int
  bo_apply_ms :: int
  bo_to_add_n :: nat
  bo_to_remove_n :: nat
  bo_unchanged_n :: nat
  bo_snapshot_n :: nat
  bo_snapshot_ok :: bool
  bo_errors :: nat
  bo_notes :: "string list"
  bo_push_log :: "push_entry list"
  bo_ok :: bool

definition new_out :: "'w bouncer \<Rightarrow> bouncer_out" where
  "new_out b =
     \<lparr>bo_name = b_bname b, bo_kind = b_kind b, bo_snapshot_ms = 0, bo_diff_ms = 0, bo_apply_ms = 0,
      bo_to_add_n = 0, bo_to_remove_n = 0, bo_unchanged_n = 0, bo_snapshot_n = 0, bo_snapshot_ok = False,
      bo_errors = 0, bo_notes = [], bo_push_log = [], bo_ok = True\<rparr>"

definition bouncer_is_dry :: "store \<Rightarrow> 'w bouncer \<Rightarrow> bool" where
  "bouncer_is_dry db b =
     (if b_kind b = ''mikrotik_env'' then False
      else if b_bname b = [] then False
      else case select_rows (\<lambda>_ r. bt_name r = b_bname b) (bouncer_targets db) of
             [] \<Rightarrow> False
           | (_, r) # _ \<Rightarrow> bt_dry_run r)"

text \<open>The snapshot of the device, empty if the bouncer is not configured or fails.\<close>
definition take_snapshot :: "'w bouncer \<Rightarrow> bouncer_out \<Rightarrow> 'w \<Rightarrow> 'w \<times> entry list \<times> bouncer_out" where
  "take_snapshot b out w =
     (if b_is_configured b then
        (case b_snapshot b w of
           (w, Inr current) \<Rightarrow> (w, current, out\<lparr>bo_snapshot_ok := True\<rparr>)
         | (w, Inl e) \<Rightarrow> (w, [], out\<lparr>bo_errors := bo_errors out + 1, bo_ok := False,
             bo_notes := bo_notes out @ [b_bname b @ ''_snapshot_failed: '' @ exn_str e]\<rparr>))
      else (w, [], out))"

definition count_v6 :: "entry list \<Rightarrow> nat" where
  "count_v6 es = length (filter (\<lambda>e. CHR '':'' \<in> set (str_or (e_address e) '''')) es)"

text \<open>The push of the first \<open>batch_cap\<close> additions and removals.\<close>
definition push_diff :: "bouncer_times \<Rightarrow> 'w bouncer \<Rightarrow> int \<Rightarrow> reconcile_diff \<Rightarrow> bouncer_out \<Rightarrow> 'w \<Rightarrow> 'w \<times> bouncer_out" where
  "push_diff tm b batch_cap diff out w =
     (case b_apply b (py_take batch_cap (to_add diff)) (py_take batch_cap (to_remove diff)) w of
        (w, Inr res) \<Rightarrow> (w, out\<lparr>bo_errors := bo_errors out + errors res, bo_push_log := push_log res,
            bo_apply_ms := tm_apply tm\<rparr>)
      | (w, Inl e) \<Rightarrow> (w, out\<lparr>bo_errors := bo_errors out + 1, bo_ok := False,
            bo_notes := bo_notes out @ [b_bname b @ ''_apply_failed: '' @ exn_str e], bo_apply_ms := tm_apply tm\<rparr>))"

text \<open>The bookkeeping between these steps.\<close>
definition note_snapshot :: "bouncer_times \<Rightarrow> entry list \<Rightarrow> bouncer_out \<Rightarrow> bouncer_out" where
  "note_snapshot tm current out = out\<lparr>bo_snapshot_ms := tm_snapshot tm, bo_snapshot_n := length current\<rparr>"

definition note_filtered :: "'w bouncer \<Rightarrow> decision list \<Rightarrow> decision list \<Rightarrow> bouncer_out \<Rightarrow> bouncer_out" where
  "note_filtered b desired_for_b desired out =
     (if length desired_for_b < length desired
      then out\<lparr>bo_notes := bo_notes out @
             [b_bname b @ ''_filtered: '' @ py_str_nat (length desired_for_b) @ ''/'' @ py_str_nat (length desired)]\<rparr>
      else out)"

definition note_diff :: "bouncer_times \<Rightarrow> reconcile_diff \<Rightarrow> bouncer_out \<Rightarrow> bouncer_out" where
  "note_diff tm diff out =
     out\<lparr>bo_diff_ms := tm_diff tm, bo_to_add_n := length (to_add diff),
         bo_to_remove_n := length (to_remove diff), bo_unchanged_n := unchanged diff\<rparr>"

definition note_capped :: "'w bouncer \<Rightarrow> int \<Rightarrow> reconcile_diff \<Rightarrow> bouncer_out \<Rightarrow> bouncer_out" where
  "note_capped b batch_cap diff out =
     (if int (length (to_add diff) + length (to_remove diff)) > batch_cap
      then out\<lparr>bo_notes := bo_notes out @ [b_bname b @ ''_batch_capped: '' @ py_str_int batch_cap]\<rparr>
      else out)"

definition run_one_bouncer :: "(string \<Rightarrow> (string \<Rightarrow> bool) option) \<Rightarrow> (int \<Rightarrow> string set option) \<Rightarrow> instant
    \<Rightarrow> bouncer_times \<Rightarrow> 'w bouncer \<Rightarrow> decision list \<Rightarrow> bool \<Rightarrow> int \<Rightarrow> 'w \<times> store \<times> (string \<rightharpoonup> nat)
    \<Rightarrow> ('w \<times> store \<times> (string \<rightharpoonup> nat)) \<times> bouncer_out" where
  "run_one_bouncer re_compile qualifying now tm b desired dry_run batch_cap s =
     (let (w, st) = s;
          (w, current, out) = take_snapshot b (new_out b) w;
          out = note_snapshot tm current out;
          st = (if bo_snapshot_ok out \<and> b_firewall_rules b \<noteq> None
                then note_v6_entries now (b_bname b) (count_v6 current) st else st);
          desired_for_b = filter_desired_for_bouncer re_compile qualifying b desired;
          out = note_filtered b desired_for_b desired out;
          diff = reconcile desired_for_b current;
          out = note_diff tm diff out;
          b_dry = (dry_run \<or> bouncer_is_dry (fst st) b);
          (w, out) = (if \<not> b_dry \<and> b_is_configured b \<and> changes diff > 0
                      then push_diff tm b batch_cap diff out w else (w, out))
      in ((w, st), note_capped b batch_cap diff out))"

section \<open>The cycle\<close>

definition set_last_error :: "string \<Rightarrow> (bouncer_row \<Rightarrow> bool) \<Rightarrow> string \<Rightarrow> store \<Rightarrow> store" where
  "set_last_error name p e db =
     db\<lparr>bouncer_targets := update_rows (\<lambda>_ r. bt_name r = name \<and> p r) (\<lambda>r. r\<lparr>bt_last_error := e\<rparr>) (bouncer_targets db)\<rparr>"

definition mark_bouncer_degraded :: "string \<Rightarrow> string \<Rightarrow> store \<Rightarrow> store" where
  "mark_bouncer_degraded name reason = set_last_error name (\<lambda>_. True) (''degraded: '' @ reason)"

text \<open>SQLite's \<open>LIKE\<close> ignores the case of ASCII letters.\<close>
definition clear_bouncer_degraded :: "string \<Rightarrow> store \<Rightarrow> store" where
  "clear_bouncer_degraded name =
     set_last_error name (\<lambda>r. py_startswith (py_lower (bt_last_error r)) ''degraded:'') ''''"

record cycle_totals =
  ct_snapshot_ms :: int
  ct_diff_ms :: int
  ct_apply_ms :: int
  ct_add :: nat
  ct_remove :: nat
  ct_unchanged :: nat
  ct_errors :: nat
  ct_notes :: "string list"
  ct_mt_list_count :: nat
  ct_mt_count_valid :: bool
  ct_target_state :: "(string \<times> nat \<times> instant) list"
  ct_push :: "(string \<times> push_entry list) list"

definition no_totals :: cycle_totals where
  "no_totals =
     \<lparr>ct_snapshot_ms = 0, ct_diff_ms = 0, ct_apply_ms = 0, ct_add = 0, ct_remove = 0, ct_unchanged = 0,
      ct_errors = 0, ct_notes = [], ct_mt_list_count = 0, ct_mt_count_valid = False, ct_target_state = [],
      ct_push = []\<rparr>"

text \<open>The bouncers in submission order, each with its measured times.\<close>
fun run_bouncers :: "(string \<Rightarrow> (string \<Rightarrow> bool) option) \<Rightarrow> (int \<Rightarrow> string set option) \<Rightarrow> instant
    \<Rightarrow> (string \<Rightarrow> bouncer_times) \<Rightarrow> decision list \<Rightarrow> bool \<Rightarrow> int \<Rightarrow> 'w bouncer list \<Rightarrow> 'w \<times> store \<times> (string \<rightharpoonup> nat)
    \<Rightarrow> ('w \<times> store \<times> (string \<rightharpoonup> nat)) \<times> bouncer_out list" where
  "run_bouncers rc q now tms desired dry cap [] s = (s, [])"
| "run_bouncers rc q now tms desired dry cap (b # bs) s =
     (let (s, r) = run_one_bouncer rc q now (tms (b_bname b)) b desired dry cap s;
          (s, rs) = run_bouncers rc q now tms desired dry cap bs s
      in (s, r # rs))"

definition fold_totals :: "instant \<Rightarrow> bouncer_out \<Rightarrow> cycle_totals \<Rightarrow> cycle_totals" where
  "fold_totals now r t =
     (let t = (if py_startswith (bo_kind r) ''mikrotik'' \<and> bo_snapshot_ok r
               then t\<lparr>ct_mt_list_count := ct_mt_list_count t + bo_snapshot_n r, ct_mt_count_valid := True\<rparr> else t);
          t = (if bo_snapshot_ok r
               then t\<lparr>ct_target_state := AList.update (bo_name r) (bo_snapshot_n r, now) (ct_target_state t)\<rparr> else t)
      in t\<lparr>ct_snapshot_ms := ct_snapshot_ms t + bo_snapshot_ms r, ct_diff_ms := ct_diff_ms t + bo_diff_ms r,
           ct_apply_ms := ct_apply_ms t + bo_apply_ms r, ct_add := ct_add t + bo_to_add_n r,
           ct_remove := ct_remove t + bo_to_remove_n r, ct_unchanged := ct_unchanged t + bo_unchanged_n r,
           ct_errors := ct_errors t + bo_errors r, ct_notes := ct_notes t @ bo_notes r,
           ct_push := (if bo_push_log r \<noteq> [] then ct_push t @ [(bo_name r, bo_push_log r)] else ct_push t)\<rparr>)"

definition note_degraded :: "instant \<Rightarrow> rat \<Rightarrow> bouncer_out \<Rightarrow> store \<Rightarrow> store" where
  "note_degraded now slow_s r db =
     (let b_wall_ms = bo_snapshot_ms r + bo_apply_ms r
      in if of_int b_wall_ms > slow_s * 1000
         then mark_bouncer_degraded (bo_name r)
                (''slow '' @ py_fmt0 (of_int b_wall_ms / 1000) @ ''s (snapshot+apply) @ '' @ isoformat now) db
         else if bo_ok r \<and> bo_errors r = 0 then clear_bouncer_degraded (bo_name r) db
         else db)"

record cycle_clock =
  ck_lapi_ms :: int
  ck_diff_ms :: int
  ck_duration_ms :: int
  ck_bouncer :: "string \<Rightarrow> bouncer_times"

record cycle_result =
  cr_sync_event_id :: nat
  cr_started_at :: instant
  cr_duration_ms :: int
  cr_lapi_fetch_ms :: int
  cr_snapshot_ms :: int
  cr_diff_ms :: int
  cr_apply_ms :: int
  cr_to_add :: nat
  cr_to_remove :: nat
  cr_unchanged :: nat
  cr_foreign_kept :: nat
  cr_dry_run :: bool
  cr_errors :: nat
  cr_notes :: string
  cr_bouncer_count :: nat
  cr_mt_list_count :: nat
  cr_mt_count_valid :: bool
  cr_targets :: "(string \<times> nat \<times> instant) list"

text \<open>The totals over the bouncers. Without a bouncer the diff against an empty list is counted.\<close>
definition cycle_totals_of :: "(string \<Rightarrow> (string \<Rightarrow> bool) option) \<Rightarrow> (int \<Rightarrow> string set option) \<Rightarrow> cycle_clock \<Rightarrow> instant \<Rightarrow> 'w bouncer list \<Rightarrow> decision list \<Rightarrow> bool \<Rightarrow> int \<Rightarrow> 'w \<times> store \<times> (string \<rightharpoonup> nat)
    \<Rightarrow> ('w \<times> store \<times> (string \<rightharpoonup> nat)) \<times> (exn + cycle_totals)" where
  "cycle_totals_of rc q ck now bs desired dry_run batch_cap s =
     (if bs = [] then
        (s, Inr (no_totals\<lparr>ct_notes := [''no_bouncers_configured''], ct_diff_ms := ck_diff_ms ck,
             ct_add := length (to_add (reconcile desired []))\<rparr>))
      else case py_float (str_or (get_setting ''reconcile.per_bouncer_timeout_s'' (fst (snd s))) ''60'') of
             None \<Rightarrow> (s, Inl (ValueError ''could not convert string to float''))
           | Some slow_s \<Rightarrow>
               let ((w, db, seen), rs) = run_bouncers rc q now (ck_bouncer ck) desired dry_run batch_cap bs s;
                   db = fold (note_degraded now slow_s) rs db
               in ((w, db, seen), Inr (fold (fold_totals now) rs no_totals)))"

definition record_push :: "nat \<Rightarrow> string \<Rightarrow> push_entry \<Rightarrow> store \<Rightarrow> store" where
  "record_push sync_id name p db =
     db\<lparr>mt_pushes := fst (insert_row \<lparr>mp_sync_event_id = sync_id, mp_ip = p_ip p, mp_action = p_action p,
        mp_success = p_success p, mp_error = name @ '' '' @ middot @ '' '' @ p_error p\<rparr> (mt_pushes db))\<rparr>"

definition record_dry :: "nat \<Rightarrow> 'w bouncer \<Rightarrow> store \<Rightarrow> store" where
  "record_dry sync_id b db =
     db\<lparr>mt_pushes := fst (insert_row \<lparr>mp_sync_event_id = sync_id, mp_ip = b_bname b, mp_action = ''note'',
        mp_success = True, mp_error = ''dry-run '' @ middot @ '' '' @ b_kind b\<rparr> (mt_pushes db))\<rparr>"

definition record_cycle :: "instant \<Rightarrow> cycle_clock \<Rightarrow> string \<Rightarrow> bool \<Rightarrow> 'w bouncer list \<Rightarrow> cycle_totals \<Rightarrow> store \<Rightarrow> store \<times> nat" where
  "record_cycle now ck source dry_run bs t db =
     (let (tab, sync_id) = insert_row
            \<lparr>se_started_at = now, se_duration_ms = ck_duration_ms ck, se_added = ct_add t, se_removed = ct_remove t,
             se_unchanged = ct_unchanged t, se_errors = ct_errors t, se_source = source, se_dry_run = dry_run,
             se_notes = py_join ''; '' (ct_notes t), se_lapi_fetch_ms = ck_lapi_ms ck,
             se_snapshot_ms = ct_snapshot_ms t, se_diff_ms = ct_diff_ms t, se_apply_ms = ct_apply_ms t\<rparr> (sync_events db);
          db = db\<lparr>sync_events := tab\<rparr>
      in (if dry_run then fold (record_dry sync_id) bs db
          else fold (\<lambda>(name, log). fold (record_push sync_id name) log) (ct_push t) db, sync_id))"

text \<open>The result dictionary reads \<open>target_state\<close>, which only the branch with bouncers binds.\<close>
definition run_once :: "(string \<Rightarrow> (string \<Rightarrow> bool) option) \<Rightarrow> (int \<Rightarrow> string set option)
    \<Rightarrow> (store \<Rightarrow> 'w bouncer list) \<Rightarrow> cycle_clock \<Rightarrow> instant \<Rightarrow> string \<Rightarrow> bool \<Rightarrow> int \<Rightarrow> 'w \<times> store \<times> (string \<rightharpoonup> nat)
    \<Rightarrow> ('w \<times> store \<times> (string \<rightharpoonup> nat)) \<times> event list \<times> (exn + cycle_result)" where
  "run_once rc q load ck now source dry_run batch_cap s =
     (let (w, db, seen) = s;
          (db, es, desired) = desired_from_db now db;
          all_bouncers = load db
      in case cycle_totals_of rc q ck now all_bouncers desired dry_run batch_cap (w, db, seen) of
           (s, Inl e) \<Rightarrow> (s, es, Inl e)
         | ((w, db, seen), Inr t) \<Rightarrow>
             let (db, sync_id) = record_cycle now ck source dry_run all_bouncers t db
             in ((w, db, seen), es,
                 if all_bouncers = [] then Inl (UnboundLocalError ''target_state'')
                 else Inr \<lparr>cr_sync_event_id = sync_id, cr_started_at = now, cr_duration_ms = ck_duration_ms ck,
                        cr_lapi_fetch_ms = ck_lapi_ms ck, cr_snapshot_ms = ct_snapshot_ms t, cr_diff_ms = ct_diff_ms t,
                        cr_apply_ms = ct_apply_ms t, cr_to_add = ct_add t, cr_to_remove = ct_remove t,
                        cr_unchanged = ct_unchanged t, cr_foreign_kept = 0, cr_dry_run = dry_run,
                        cr_errors = ct_errors t, cr_notes = py_join ''; '' (ct_notes t),
                        cr_bouncer_count = length all_bouncers, cr_mt_list_count = ct_mt_list_count t,
                        cr_mt_count_valid = ct_mt_count_valid t, cr_targets = ct_target_state t\<rparr>))"

section \<open>Dry runs and failed snapshots\<close>

text \<open>A bouncer whose \<open>apply\<close> is replaced: the ways the cycle can depend on it.\<close>
definition with_apply :: "('w bouncer \<Rightarrow> (string \<times> string) list \<Rightarrow> string list \<Rightarrow> 'w \<Rightarrow> 'w \<times> (exn + apply_result))
    \<Rightarrow> 'w bouncer \<Rightarrow> 'w bouncer" where
  "with_apply f b = b\<lparr>b_apply := f b\<rparr>"

lemma with_apply_simps [simp]:
  "b_bname (with_apply f b) = b_bname b" "b_kind (with_apply f b) = b_kind b"
  "b_is_configured (with_apply f b) = b_is_configured b" "b_snapshot (with_apply f b) = b_snapshot b"
  "b_firewall_rules (with_apply f b) = b_firewall_rules b" "b_apply (with_apply f b) = f b"
  "b_origins (with_apply f b) = b_origins b" "b_exclude_origins (with_apply f b) = b_exclude_origins b"
  "b_max_entries (with_apply f b) = b_max_entries b" "b_min_reputation (with_apply f b) = b_min_reputation b"
  "b_source_filter (with_apply f b) = b_source_filter b" "b_scenario_filter (with_apply f b) = b_scenario_filter b"
  by (simp_all add: with_apply_def)

lemma with_apply_defs [simp]:
  "new_out (with_apply f b) = new_out b" "take_snapshot (with_apply f b) = take_snapshot b"
  "bouncer_is_dry db (with_apply f b) = bouncer_is_dry db b"
  "filter_desired_for_bouncer rc q (with_apply f b) = filter_desired_for_bouncer rc q b"
  "note_filtered (with_apply f b) = note_filtered b" "note_capped (with_apply f b) = note_capped b"
  unfolding new_out_def take_snapshot_def bouncer_is_dry_def filter_desired_for_bouncer_def origin_ok_def
    note_filtered_def note_capped_def with_apply_simps by (rule refl)+

lemma run_one_dry:
  "run_one_bouncer rc q now tm (with_apply f b) ds True cap s = run_one_bouncer rc q now tm b ds True cap s"
  unfolding run_one_bouncer_def Let_def with_apply_simps with_apply_defs by simp

lemma run_bouncers_dry:
  "run_bouncers rc q now tms ds True cap (map (with_apply f) bs) s = run_bouncers rc q now tms ds True cap bs s"
  by (induction bs arbitrary: s) (simp_all add: run_one_dry)

lemma record_dry_with_apply [simp]: "record_dry i (with_apply f b) = record_dry i b"
  by (simp add: record_dry_def fun_eq_iff)

lemma fold_record_dry_with_apply [simp]: "fold (record_dry i) (map (with_apply f) bs) = fold (record_dry i) bs"
  by (induction bs) auto

text \<open>(C7) In dry-run mode the cycle does the same thing, down to the store, the device states and the result,
  whatever the \<open>apply\<close> methods of the bouncers would do: nothing is ever pushed.\<close>
theorem dry_run_never_applies:
  "run_once rc q (\<lambda>db. map (with_apply f) (load db)) ck now source True cap s =
   run_once rc q load ck now source True cap s"
  unfolding run_once_def cycle_totals_of_def record_cycle_def Let_def run_bouncers_dry
    fold_record_dry_with_apply map_is_Nil_conv length_map ..

text \<open>A device that could not be read yields no removals.\<close>
lemma split_owned_Nil_removes [simp]: "to_remove (reconcile ds []) = []"
  by (simp add: reconcile_def Let_def empty_diff_def diff_loops owned_entries_def removal_ids_def)

lemma note_simps:
  "bo_snapshot_ok (note_snapshot tm es out) = bo_snapshot_ok out" "bo_ok (note_snapshot tm es out) = bo_ok out"
  "bo_errors (note_snapshot tm es out) = bo_errors out" "bo_notes (note_snapshot tm es out) = bo_notes out"
  "bo_push_log (note_snapshot tm es out) = bo_push_log out"
  "bo_snapshot_ok (note_filtered b fs ds out) = bo_snapshot_ok out" "bo_ok (note_filtered b fs ds out) = bo_ok out"
  "bo_errors (note_filtered b fs ds out) = bo_errors out" "x \<in> set (bo_notes out) \<Longrightarrow> x \<in> set (bo_notes (note_filtered b fs ds out))"
  "bo_push_log (note_filtered b fs ds out) = bo_push_log out"
  "bo_snapshot_ok (note_diff tm d out) = bo_snapshot_ok out" "bo_ok (note_diff tm d out) = bo_ok out"
  "bo_errors (note_diff tm d out) = bo_errors out" "bo_notes (note_diff tm d out) = bo_notes out"
  "bo_push_log (note_diff tm d out) = bo_push_log out" "bo_to_remove_n (note_diff tm d out) = length (to_remove d)"
  "bo_snapshot_ok (note_capped b c d out) = bo_snapshot_ok out" "bo_ok (note_capped b c d out) = bo_ok out"
  "bo_errors (note_capped b c d out) = bo_errors out" "x \<in> set (bo_notes out) \<Longrightarrow> x \<in> set (bo_notes (note_capped b c d out))"
  "bo_push_log (note_capped b c d out) = bo_push_log out" "bo_to_remove_n (note_capped b c d out) = bo_to_remove_n out"
  by (simp_all add: note_snapshot_def note_filtered_def note_diff_def note_capped_def)

lemma py_take_Nil [simp]: "py_take n [] = []"
  by (simp add: py_take_def)

lemma push_diff_ignoring_removals:
  "to_remove diff = [] \<Longrightarrow>
     push_diff tm (with_apply (\<lambda>b adds _ w. b_apply b adds [] w) b) cap diff out w = push_diff tm b cap diff out w"
  unfolding push_diff_def with_apply_simps by simp

lemma push_diff_keeps:
  "bo_snapshot_ok (snd (push_diff tm b cap diff out w)) = bo_snapshot_ok out"
  "bo_to_remove_n (snd (push_diff tm b cap diff out w)) = bo_to_remove_n out"
  "bo_errors out \<le> bo_errors (snd (push_diff tm b cap diff out w))"
  "\<not> bo_ok out \<Longrightarrow> \<not> bo_ok (snd (push_diff tm b cap diff out w))"
  "set (bo_notes out) \<subseteq> set (bo_notes (snd (push_diff tm b cap diff out w)))"
  by (auto simp: push_diff_def split: prod.split sum.split)

lemma take_snapshot_failed:
  assumes "b_is_configured b" and "b_snapshot b w = (w', Inl e)"
  shows "take_snapshot b (new_out b) w = (w', [], (new_out b)\<lparr>bo_errors := 1, bo_ok := False,
           bo_notes := [b_bname b @ ''_snapshot_failed: '' @ exn_str e]\<rparr>)"
  using assms by (simp add: take_snapshot_def new_out_def)

lemma failed_snapshot_same_push:
  assumes "b_is_configured b" and "b_snapshot b w = (w', Inl e)"
  shows "run_one_bouncer rc q now tm (with_apply (\<lambda>b adds _ w. b_apply b adds [] w) b) ds dry cap (w, st) =
           run_one_bouncer rc q now tm b ds dry cap (w, st)"
  unfolding run_one_bouncer_def Let_def with_apply_simps with_apply_defs prod.case
    take_snapshot_failed [OF assms] push_diff_ignoring_removals [OF split_owned_Nil_removes] ..

lemma run_one_out:
  assumes "take_snapshot b (new_out b) w = (w', current, out)"
    and "d = reconcile (filter_desired_for_bouncer rc q b ds) current"
    and "o' = note_diff tm d (note_filtered b (filter_desired_for_bouncer rc q b ds) ds (note_snapshot tm current out))"
  shows "\<exists>o''. (o'' = o' \<or> o'' = snd (push_diff tm b cap d o' w')) \<and>
           snd (run_one_bouncer rc q now tm b ds dry cap (w, st)) = note_capped b cap d o''"
proof -
  have eq: "snd (case if C then P else (w', o') of (x, y) \<Rightarrow> ((x, S), note_capped b cap d y)) =
      note_capped b cap d (if C then snd P else o')" for C P S
    by (simp add: case_prod_beta)
  show ?thesis
    unfolding run_one_bouncer_def Let_def prod.case assms(1) assms(2) [symmetric] assms(3) [symmetric] eq
    by (rule exI, rule conjI [rotated], rule refl, simp)
qed


text \<open>A device that answers no snapshot and counts the removals it is asked for.\<close>
definition mute_bouncer :: "nat bouncer" where
  "mute_bouncer = plain_bouncer ''edge'' ''pfsense'' True (\<lambda>w. (w, Inl (RequestException ''timeout'')))
     (\<lambda>adds ids w. (w + length ids, Inr no_result))"


section \<open>A cycle without bouncers\<close>

text \<open>On an installation without any target, a cycle writes its row into \<open>sync_events\<close>, with the number of
  additions it would make and the note \<open>no_bouncers_configured\<close>, and then raises \<open>UnboundLocalError\<close>: the result
  dictionary reads a variable that only the other branch binds.\<close>
theorem run_once_without_bouncers_raises:
  assumes "\<forall>db. load db = []"
  shows "\<exists>w' db' seen' es desired row.
           run_once rc q load ck now source dry cap (w, db, seen) =
             ((w', db', seen'), es, Inl (UnboundLocalError ''target_state''))
         \<and> desired = snd (snd (desired_from_db now db))
         \<and> contents (sync_events db') = contents (sync_events (fst (desired_from_db now db))) @ [row]
         \<and> se_added row = length (to_add (reconcile desired [])) \<and> se_notes row = ''no_bouncers_configured''"
  using assms
  by (auto simp: run_once_def cycle_totals_of_def record_cycle_def insert_row_def contents_def no_totals_def Let_def
      split: prod.splits)

theorem run_once_without_bouncers_raises_witness:
  "snd (snd (run_once (\<lambda>_. None) (\<lambda>_. None) (\<lambda>_. [])
       \<lparr>ck_lapi_ms = 1, ck_diff_ms = 1, ck_duration_ms = 2, ck_bouncer = (\<lambda>_. \<lparr>tm_snapshot = 0, tm_diff = 0, tm_apply = 0\<rparr>)\<rparr>
       0 ''auto'' True 200 ((), empty_store, Map.empty))) = Inl (UnboundLocalError ''target_state'')"
  using run_once_without_bouncers_raises [of "\<lambda>_. []" "\<lambda>_. None" "\<lambda>_. None"
      "\<lparr>ck_lapi_ms = 1, ck_diff_ms = 1, ck_duration_ms = 2, ck_bouncer = (\<lambda>_. \<lparr>tm_snapshot = 0, tm_diff = 0, tm_apply = 0\<rparr>)\<rparr>"
      0 "''auto''" True 200 "()" empty_store Map.empty]
  by auto

section \<open>What a bouncer gets: the contract\<close>

text \<open>The conditions a bouncer's options put on one decision.\<close>
definition admitted :: "(string \<Rightarrow> (string \<Rightarrow> bool) option) \<Rightarrow> (int \<Rightarrow> string set option) \<Rightarrow> 'w bouncer \<Rightarrow> decision \<Rightarrow> bool" where
  "admitted rc q b d =
     (let origin = str_or (d_origin d) ''''
      in (b_origins b \<noteq> [] \<longrightarrow> (\<exists>p \<in> set (b_origins b). fnmatchcase origin p))
         \<and> (\<forall>p \<in> set (b_exclude_origins b). \<not> fnmatchcase origin p)
         \<and> (case b_source_filter b of None \<Rightarrow> True
            | Some sf \<Rightarrow> allowed_sources sf = [] \<or> str_or (d_origin_source d) '''' \<in> set (allowed_sources sf))
         \<and> (str_truthy (b_scenario_filter b) \<longrightarrow>
              (case rc (the (b_scenario_filter b)) of None \<Rightarrow> True | Some search \<Rightarrow> search (str_or (d_scenario d) '''')))
         \<and> (int_truthy (b_min_reputation b) \<longrightarrow>
              (case q (the (b_min_reputation b)) of None \<Rightarrow> True
               | Some ips \<Rightarrow> (case d_value d of None \<Rightarrow> False | Some v \<Rightarrow> v \<in> ips))))"

lemma origin_ok_iff:
  "origin_ok b o' = ((b_origins b \<noteq> [] \<longrightarrow> (\<exists>p \<in> set (b_origins b). fnmatchcase o' p))
     \<and> (\<forall>p \<in> set (b_exclude_origins b). \<not> fnmatchcase o' p))"
  by (auto simp: origin_ok_def list_ex_iff)

lemma allowed_sources_falsy: "\<not> sf_truthy (Some sf) \<Longrightarrow> allowed_sources sf = []"
  by (auto simp: sf_truthy_def allowed_sources_def py_split_def py_strip_def py_lstrip_def py_rstrip_def
      split: source_filter.splits)

definition cap_bites :: "'w bouncer \<Rightarrow> decision list \<Rightarrow> bool" where
  "cap_bites b ds = (int_truthy (b_max_entries b) \<and> int (length ds) > the (b_max_entries b))"

lemma if_filter: "(if c then filter P xs else xs) = filter (\<lambda>x. c \<longrightarrow> P x) xs"
  by simp

lemma case_filter:
  "(case m of None \<Rightarrow> xs | Some f \<Rightarrow> filter (P f) xs) = filter (\<lambda>x. case m of None \<Rightarrow> True | Some f \<Rightarrow> P f x) xs"
  by (cases m) simp_all

lemma admitted_all:
  assumes "b_origins b = []" "b_exclude_origins b = []" "\<not> int_truthy (b_min_reputation b)"
    "\<not> sf_truthy (b_source_filter b)" "\<not> str_truthy (b_scenario_filter b)"
  shows "admitted rc q b d"
  using assms allowed_sources_falsy by (auto simp: admitted_def Let_def split: option.splits)

lemma admitted_iff:
  "admitted rc q b d \<longleftrightarrow>
     (((origin_ok b (str_or (d_origin d) '''')
     \<and> (sf_truthy (b_source_filter b) \<longrightarrow> allowed_sources (the (b_source_filter b)) \<noteq> [] \<longrightarrow>
          str_or (d_origin_source d) '''' \<in> set (allowed_sources (the (b_source_filter b)))))
     \<and> (str_truthy (b_scenario_filter b) \<longrightarrow>
          (case rc (the (b_scenario_filter b)) of None \<Rightarrow> True | Some search \<Rightarrow> search (str_or (d_scenario d) ''''))))
     \<and> (int_truthy (b_min_reputation b) \<longrightarrow>
          (case q (the (b_min_reputation b)) of None \<Rightarrow> True
           | Some ips \<Rightarrow> (case d_value d of None \<Rightarrow> False | Some v \<Rightarrow> v \<in> ips))))"
proof -
  have "(case b_source_filter b of None \<Rightarrow> True
            | Some sf \<Rightarrow> allowed_sources sf = [] \<or> str_or (d_origin_source d) '''' \<in> set (allowed_sources sf))
      \<longleftrightarrow> (sf_truthy (b_source_filter b) \<longrightarrow> allowed_sources (the (b_source_filter b)) \<noteq> [] \<longrightarrow>
          str_or (d_origin_source d) '''' \<in> set (allowed_sources (the (b_source_filter b))))"
    using allowed_sources_falsy by (cases "b_source_filter b") (auto simp: sf_truthy_def)
  then show ?thesis unfolding admitted_def Let_def origin_ok_iff by blast
qed

lemma filter_desired_eq:
  "filter_desired_for_bouncer rc q b ds =
     (let out = filter (admitted rc q b) ds
      in if cap_bites b out then py_take (the (b_max_entries b)) (newest_first out) else out)"
proof (cases "b_origins b = [] \<and> b_exclude_origins b = [] \<and> \<not> int_truthy (b_max_entries b)
         \<and> \<not> int_truthy (b_min_reputation b) \<and> \<not> sf_truthy (b_source_filter b) \<and> \<not> str_truthy (b_scenario_filter b)")
  case True
  then have "filter (admitted rc q b) ds = ds" by (simp add: admitted_all)
  with True show ?thesis by (simp add: filter_desired_for_bouncer_def cap_bites_def)
next
  case False
  have "admitted rc q b = (\<lambda>d. (((origin_ok b (str_or (d_origin d) '''')
     \<and> (sf_truthy (b_source_filter b) \<longrightarrow> allowed_sources (the (b_source_filter b)) \<noteq> [] \<longrightarrow>
          str_or (d_origin_source d) '''' \<in> set (allowed_sources (the (b_source_filter b)))))
     \<and> (str_truthy (b_scenario_filter b) \<longrightarrow>
          (case rc (the (b_scenario_filter b)) of None \<Rightarrow> True | Some search \<Rightarrow> search (str_or (d_scenario d) ''''))))
     \<and> (int_truthy (b_min_reputation b) \<longrightarrow>
          (case q (the (b_min_reputation b)) of None \<Rightarrow> True
           | Some ips \<Rightarrow> (case d_value d of None \<Rightarrow> False | Some v \<Rightarrow> v \<in> ips)))))"
    by (rule ext) (rule admitted_iff)
  then show ?thesis
    unfolding filter_desired_for_bouncer_def if_not_P [OF False] Let_def if_filter case_filter filter_filter
      cap_bites_def [symmetric] by simp
qed

lemma newest_first_perm [simp]: "set (newest_first ds) = set ds" "length (newest_first ds) = length ds"
  by (simp_all add: newest_first_def)

text \<open>\<open>int(d.get("lapi_id") or 0)\<close>, the age order of the cap.\<close>
definition lapi_order :: "decision \<Rightarrow> int" where
  "lapi_order d = (case d_lapi_id d of None \<Rightarrow> 0 | Some i \<Rightarrow> i)"

lemma newest_first_take:
  assumes "d \<in> set (take n (newest_first ds))" and "d' \<in> set (drop n (newest_first ds))"
  shows "lapi_order d' \<le> lapi_order d"
proof -
  have "sorted (map (\<lambda>d. - lapi_order d) (newest_first ds))"
    unfolding newest_first_def lapi_order_def by (rule sorted_sort_key)
  then have "sorted (map (\<lambda>d. - lapi_order d) (take n (newest_first ds)) @ map (\<lambda>d. - lapi_order d) (drop n (newest_first ds)))"
    by (simp flip: map_append)
  then show ?thesis using assms by (auto simp: sorted_append)
qed

text \<open>(C9) What a bouncer gets is a part of what is desired: every decision in it meets the origin globs, the source
  filter, the scenario expression and the reputation bound; without a cap that bites it is all of these, in order; with
  one it is exactly the first \<open>max_entries\<close> of them by LAPI id, so that nothing dropped is newer than anything kept.\<close>
theorem filter_keeps_newest_admitted:
  assumes "case b_max_entries b of None \<Rightarrow> True | Some m \<Rightarrow> 0 \<le> m"
    and "F = filter (admitted rc q b) ds"
    and "out = filter_desired_for_bouncer rc q b ds"
  shows "set out \<subseteq> set F
       \<and> (\<not> cap_bites b F \<longrightarrow> out = F)
       \<and> (cap_bites b F \<longrightarrow> int (length out) = the (b_max_entries b)
            \<and> (\<exists>dropped. mset F = mset out + mset dropped
                 \<and> (\<forall>d \<in> set out. \<forall>d' \<in> set dropped. lapi_order d' \<le> lapi_order d)))"
proof (cases "cap_bites b F")
  case False
  then show ?thesis using assms by (simp add: filter_desired_eq Let_def)
next
  case True
  define m where "m = the (b_max_entries b)"
  have m: "0 \<le> m" "m < int (length F)"
    using True assms(1) by (auto simp: cap_bites_def m_def int_truthy_def split: option.splits)
  have out: "out = take (nat m) (newest_first F)"
    using True m assms by (simp add: filter_desired_eq Let_def py_take_def m_def)
  have "mset F = mset (newest_first F)" by (simp add: newest_first_def)
  also have "\<dots> = mset out + mset (drop (nat m) (newest_first F))"
    unfolding out by (simp flip: mset_append)
  finally have parts: "mset F = mset out + mset (drop (nat m) (newest_first F))" .
  have "int (length out) = m" using m by (simp add: out)
  moreover have "set out \<subseteq> set F" using parts by (metis mset_subset_eq_add_left set_mset_mono set_mset_mset)
  ultimately show ?thesis
    using True parts newest_first_take [of _ "nat m" F] unfolding m_def out by blast
qed

text \<open>Three decisions for a bouncer that takes no blocklists and at most one entry.\<close>
definition capped_bouncer :: "unit bouncer" where
  "capped_bouncer = (plain_bouncer ''office'' ''mikrotik'' True (\<lambda>w. (w, Inr [])) (\<lambda>_ _ w. (w, Inr no_result)))
     \<lparr>b_exclude_origins := [''lists:*''], b_max_entries := Some 1\<rparr>"

definition sample_decision :: "string \<Rightarrow> string \<Rightarrow> int \<Rightarrow> decision" where
  "sample_decision v orig i = \<lparr>d_value = Some v, d_scope = Some ''Ip'', d_scenario = Some ''ssh-bf'', d_origin = Some orig,
     d_origin_source = Some ''local'', d_lapi_id = Some i, d_id = None\<rparr>"

theorem filter_keeps_newest_admitted_witness:
  "filter_desired_for_bouncer (\<lambda>_. None) (\<lambda>_. None) capped_bouncer
      [sample_decision ''1.1.1.1'' ''crowdsec'' 1, sample_decision ''2.2.2.2'' ''lists:firehol'' 9, sample_decision ''3.3.3.3'' ''cscli'' 5]
     = [sample_decision ''3.3.3.3'' ''cscli'' 5]
   \<and> set (filter_desired_for_bouncer (\<lambda>_. None) (\<lambda>_. None) capped_bouncer
      [sample_decision ''1.1.1.1'' ''crowdsec'' 1, sample_decision ''2.2.2.2'' ''lists:firehol'' 9, sample_decision ''3.3.3.3'' ''cscli'' 5])
     \<subseteq> set (filter (admitted (\<lambda>_. None) (\<lambda>_. None) capped_bouncer)
      [sample_decision ''1.1.1.1'' ''crowdsec'' 1, sample_decision ''2.2.2.2'' ''lists:firehol'' 9, sample_decision ''3.3.3.3'' ''cscli'' 5])"
proof
  show "filter_desired_for_bouncer (\<lambda>_. None) (\<lambda>_. None) capped_bouncer
      [sample_decision ''1.1.1.1'' ''crowdsec'' 1, sample_decision ''2.2.2.2'' ''lists:firehol'' 9, sample_decision ''3.3.3.3'' ''cscli'' 5]
     = [sample_decision ''3.3.3.3'' ''cscli'' 5]"
    by code_simp
  have "case b_max_entries capped_bouncer of None \<Rightarrow> True | Some m \<Rightarrow> 0 \<le> m"
    by (simp add: capped_bouncer_def)
  from filter_keeps_newest_admitted [OF this refl refl]
  show "set (filter_desired_for_bouncer (\<lambda>_. None) (\<lambda>_. None) capped_bouncer
      [sample_decision ''1.1.1.1'' ''crowdsec'' 1, sample_decision ''2.2.2.2'' ''lists:firehol'' 9, sample_decision ''3.3.3.3'' ''cscli'' 5])
     \<subseteq> set (filter (admitted (\<lambda>_. None) (\<lambda>_. None) capped_bouncer)
      [sample_decision ''1.1.1.1'' ''crowdsec'' 1, sample_decision ''2.2.2.2'' ''lists:firehol'' 9, sample_decision ''3.3.3.3'' ''cscli'' 5])"
    by blast
qed

section \<open>What is desired: the contract\<close>

text \<open>The ASN and the country the cache holds for an address.\<close>
definition geo_field :: "(geo_row \<Rightarrow> string) \<Rightarrow> store \<Rightarrow> string \<Rightarrow> string" where
  "geo_field f db v =
     (if v = [] then '''' else case find_row gc_ip v (geo_cache db) of None \<Rightarrow> '''' | Some r \<Rightarrow> f r)"

text \<open>A whitelist rule in force covers the address.\<close>
definition protected :: "instant \<Rightarrow> store \<Rightarrow> string \<Rightarrow> bool" where
  "protected now db v =
     (matches_whitelist v (geo_field gc_asn db v) (geo_field gc_country_code db v) (list_whitelist now False db) \<noteq> None)"

lemma concat_chunks: "0 < n \<Longrightarrow> concat (chunks n xs) = xs"
  by (induction n xs rule: chunks.induct) (subst chunks.simps, auto)

lemma geo_chunks_set:
  "set (concat (map (\<lambda>chunk. filter (\<lambda>r. gc_ip r \<in> set chunk) t) (chunks 900 ips))) = {r \<in> set t. gc_ip r \<in> set ips}"
proof -
  have "set ips = (\<Union>c \<in> set (chunks 900 ips). set c)"
    using concat_chunks [of 900 ips] by (metis set_concat zero_less_numeral)
  then show ?thesis by auto
qed

lemma fold_map_update:
  assumes "\<forall>r \<in> set rs. k r = v \<longrightarrow> f r = x"
  shows "fold (\<lambda>r m. if f r \<noteq> [] then m(k r \<mapsto> f r) else m) rs m v =
           (if v \<in> k ` set rs \<and> x \<noteq> [] then Some x else m v)"
  using assms by (induction rs arbitrary: m) auto

lemma fold_map_untouched:
  assumes "v \<notin> k ` set rs"
  shows "fold (\<lambda>r m. if f r \<noteq> [] then m(k r \<mapsto> f r) else m) rs m v = m v"
  using assms by (induction rs arbitrary: m) auto

lemma geo_maps_components:
  "fst (geo_maps db ips) = fold (\<lambda>r m. if gc_asn r \<noteq> [] then m(gc_ip r \<mapsto> gc_asn r) else m)
       (concat (map (\<lambda>chunk. filter (\<lambda>r. gc_ip r \<in> set chunk) (geo_cache db)) (chunks 900 ips))) Map.empty"
  "snd (geo_maps db ips) = fold (\<lambda>r m. if gc_country_code r \<noteq> [] then m(gc_ip r \<mapsto> gc_country_code r) else m)
       (concat (map (\<lambda>chunk. filter (\<lambda>r. gc_ip r \<in> set chunk) (geo_cache db)) (chunks 900 ips))) Map.empty"
proof -
  have eq: "fold (\<lambda>r (a, c). (if gc_asn r \<noteq> [] then a(gc_ip r \<mapsto> gc_asn r) else a,
          if gc_country_code r \<noteq> [] then c(gc_ip r \<mapsto> gc_country_code r) else c)) rs (a, c) =
      (fold (\<lambda>r m. if gc_asn r \<noteq> [] then m(gc_ip r \<mapsto> gc_asn r) else m) rs a,
       fold (\<lambda>r m. if gc_country_code r \<noteq> [] then m(gc_ip r \<mapsto> gc_country_code r) else m) rs c)" for rs a c
    by (induction rs arbitrary: a c) simp_all
  show "fst (geo_maps db ips) = fold (\<lambda>r m. if gc_asn r \<noteq> [] then m(gc_ip r \<mapsto> gc_asn r) else m)
       (concat (map (\<lambda>chunk. filter (\<lambda>r. gc_ip r \<in> set chunk) (geo_cache db)) (chunks 900 ips))) Map.empty"
    "snd (geo_maps db ips) = fold (\<lambda>r m. if gc_country_code r \<noteq> [] then m(gc_ip r \<mapsto> gc_country_code r) else m)
       (concat (map (\<lambda>chunk. filter (\<lambda>r. gc_ip r \<in> set chunk) (geo_cache db)) (chunks 900 ips))) Map.empty"
    unfolding geo_maps_def eq by simp_all
qed

lemma geo_fold_lookup:
  assumes "keys_unique gc_ip t" and "v \<in> set ips"
  shows "str_or (fold (\<lambda>r m. if f r \<noteq> [] then m(gc_ip r \<mapsto> f r) else m)
       (concat (map (\<lambda>chunk. filter (\<lambda>r. gc_ip r \<in> set chunk) t) (chunks 900 ips))) Map.empty v) '''' =
     (case find_row gc_ip v t of None \<Rightarrow> '''' | Some r \<Rightarrow> f r)"
proof (cases "find_row gc_ip v t")
  case None
  then have "v \<notin> gc_ip ` {r \<in> set t. gc_ip r \<in> set ips}" by (auto simp: find_row_None)
  with None show ?thesis
    by (subst fold_map_untouched) (simp_all only: geo_chunks_set, simp_all add: str_or_def)
next
  case (Some r)
  then have r: "r \<in> set t" "gc_ip r = v" using find_row_Some by metis+
  have "f r' = f r" if "r' \<in> set t" "gc_ip r' = v" for r'
    using r that assms(1) by (metis (no_types) keys_unique_def distinct_map inj_onD)
  then have "fold (\<lambda>r m. if f r \<noteq> [] then m(gc_ip r \<mapsto> f r) else m)
       (concat (map (\<lambda>chunk. filter (\<lambda>r. gc_ip r \<in> set chunk) t) (chunks 900 ips))) Map.empty v =
       (if v \<in> gc_ip ` {r \<in> set t. gc_ip r \<in> set ips} \<and> f r \<noteq> [] then Some (f r) else None)"
    using fold_map_update [of "concat (map (\<lambda>chunk. filter (\<lambda>r. gc_ip r \<in> set chunk) t) (chunks 900 ips))" gc_ip v f "f r" Map.empty]
    unfolding geo_chunks_set by auto
  with r assms(2) Some show ?thesis by (auto simp: str_or_def)
qed

lemma geo_maps_lookup:
  assumes "keys_unique gc_ip (geo_cache db)" and "v = [] \<or> v \<in> set ips" and "[] \<notin> set ips"
  shows "str_or (fst (geo_maps db ips) v) '''' = geo_field gc_asn db v"
    and "str_or (snd (geo_maps db ips) v) '''' = geo_field gc_country_code db v"
proof -
  have empty: "fold (\<lambda>r m. if f r \<noteq> [] then m(gc_ip r \<mapsto> f r) else m)
       (concat (map (\<lambda>chunk. filter (\<lambda>r. gc_ip r \<in> set chunk) (geo_cache db)) (chunks 900 ips))) Map.empty [] = None"
    for f :: "geo_row \<Rightarrow> string"
    using assms(3) by (subst fold_map_untouched) (auto simp only: geo_chunks_set)
  show "str_or (fst (geo_maps db ips) v) '''' = geo_field gc_asn db v"
    using assms(2) geo_fold_lookup [OF assms(1), of v ips gc_asn]
    by (cases "v = []") (simp_all only: geo_maps_components geo_field_def empty, simp_all add: str_or_def)
  show "str_or (snd (geo_maps db ips) v) '''' = geo_field gc_country_code db v"
    using assms(2) geo_fold_lookup [OF assms(1), of v ips gc_country_code]
    by (cases "v = []") (simp_all only: geo_maps_components geo_field_def empty, simp_all add: str_or_def)
qed

abbreviation dec_value :: "decision \<Rightarrow> string" where
  "dec_value d \<equiv> str_or (d_value d) ''''"

text \<open>The whitelist pass keeps the decisions no rule matches, and touches only the table of hits.\<close>
lemma whitelist_loop_result:
  "snd (snd (whitelist_loop now rules asns countries ds db)) =
     filter (\<lambda>d. matches_whitelist (dec_value d) (str_or (asns (dec_value d)) '''') (str_or (countries (dec_value d)) '''') rules = None) ds"
  by (induction ds arbitrary: db) (simp_all add: Let_def case_prod_beta split: option.splits)

lemma record_whitelist_hit_store:
  "\<exists>t. fst (record_whitelist_hit now ip i sc db) = db\<lparr>whitelist_hits := t\<rparr>"
  by (auto simp: record_whitelist_hit_def Let_def)

lemma whitelist_loop_store:
  "\<exists>t. fst (whitelist_loop now rules asns countries ds db) = db\<lparr>whitelist_hits := t\<rparr>"
proof (induction ds arbitrary: db)
  case Nil
  then show ?case by (auto intro: exI [of _ "whitelist_hits db"])
next
  case (Cons d ds)
  show ?case
  proof (cases "matches_whitelist (dec_value d) (str_or (asns (dec_value d)) '''') (str_or (countries (dec_value d)) '''') rules")
    case None
    with Cons show ?thesis by (simp add: Let_def case_prod_beta)
  next
    case (Some p)
    obtain t where "fst (record_whitelist_hit now (dec_value d) (fst p) (str_or (d_scenario d) '''') db) = db\<lparr>whitelist_hits := t\<rparr>"
      using record_whitelist_hit_store by blast
    moreover obtain t' where "fst (whitelist_loop now rules asns countries ds (db\<lparr>whitelist_hits := t\<rparr>)) =
        (db\<lparr>whitelist_hits := t\<rparr>)\<lparr>whitelist_hits := t'\<rparr>"
      using Cons.IH by blast
    ultimately show ?thesis using Some by (auto simp: Let_def case_prod_beta)
  qed
qed

lemma whitelist_hits_irrelevant [simp]:
  "approval_required (db\<lparr>whitelist_hits := t\<rparr>) = approval_required db"
  "approved_ips (db\<lparr>whitelist_hits := t\<rparr>) = approved_ips db"
  by (simp_all add: approval_required_def approved_ips_def get_setting_def)

lemma whitelist_pass:
  assumes "keys_unique gc_ip (geo_cache db)" and "ips = filter (\<lambda>v. v \<noteq> []) (map dec_value ds)"
  shows "snd (snd (whitelist_loop now (list_whitelist now False db) (fst (geo_maps db ips)) (snd (geo_maps db ips)) ds db')) =
     filter (\<lambda>d. \<not> protected now db (dec_value d)) ds"
proof -
  have "str_or (fst (geo_maps db ips) (dec_value d)) '''' = geo_field gc_asn db (dec_value d)"
    "str_or (snd (geo_maps db ips) (dec_value d)) '''' = geo_field gc_country_code db (dec_value d)" if "d \<in> set ds" for d
    using geo_maps_lookup [OF assms(1), of "dec_value d" ips] that by (auto simp: assms(2))
  then show ?thesis
    unfolding whitelist_loop_result by (intro filter_cong) (simp_all only: protected_def not_not)
qed

lemma desired_from_db_eq:
  assumes "keys_unique gc_ip (geo_cache db)"
  shows "snd (snd (desired_from_db now db)) =
           filter (\<lambda>d. \<not> protected now db (dec_value d) \<and> (approval_required db \<longrightarrow> dec_value d \<in> approved_ips db))
             (group_decisions (candidate_rows now db))"
proof (cases "group_decisions (candidate_rows now db) = []")
  case True
  then show ?thesis by (simp add: desired_from_db_def)
next
  case False
  let ?ds = "group_decisions (candidate_rows now db)"
  let ?ips = "filter (\<lambda>v. v \<noteq> []) (map dec_value ?ds)"
  let ?rules = "list_whitelist now False db"
  let ?geo = "geo_maps db ?ips"
  let ?loop = "whitelist_loop now ?rules (fst ?geo) (snd ?geo) ?ds db"
  obtain t where st: "fst ?loop = db\<lparr>whitelist_hits := t\<rparr>" using whitelist_loop_store by blast
  have out: "snd (snd ?loop) = filter (\<lambda>d. \<not> protected now db (dec_value d)) ?ds"
    by (rule whitelist_pass [OF assms refl])
  show ?thesis
    using False out st by (simp add: desired_from_db_def Let_def case_prod_beta conj_commute)
qed


definition sample_row :: "string \<Rightarrow> int \<Rightarrow> decision_row" where
  "sample_row v i = \<lparr>dr_origin_source = ''local'', dr_lapi_id = i, dr_value = v, dr_scope = ''Ip'', dr_type = ''ban'',
     dr_scenario = ''ssh-bf'', dr_origin = ''crowdsec'', dr_duration = ''4h'', dr_until = None, dr_first_seen_at = 0,
     dr_last_seen_at = 0, dr_deleted_at = None\<rparr>"

text \<open>Two banned addresses, the second one whitelisted.\<close>
definition sample_db :: store where
  "sample_db = fst (add_whitelist 0 ''cidr'' ''10.0.0.0/8'' '''' None
     (empty_store\<lparr>decisions := fst (insert_row (sample_row ''10.1.2.3'' 2) (fst (insert_row (sample_row ''9.9.9.9'' 1) empty_table)))\<rparr>))"


section \<open>Approval mode\<close>

lemma queue_loop_rows:
  "\<exists>new. rows (approval_queue (queue_loop now ok seen ds db)) = rows (approval_queue db) @ new
     \<and> (\<forall>p \<in> set new. aq_status (snd p) = Q_pending)
     \<and> {dec_value d |d. d \<in> set ds \<and> dec_value d \<notin> ok \<and> dec_value d \<notin> seen} = (aq_ip \<circ> snd) ` set new"
proof (induction ds arbitrary: db)
  case Nil
  then show ?case by simp
next
  case (Cons d ds)
  show ?case
  proof (cases "dec_value d \<in> ok \<or> dec_value d \<in> seen")
    case True
    then have "{dec_value d' |d'. d' \<in> set (d # ds) \<and> dec_value d' \<notin> ok \<and> dec_value d' \<notin> seen} =
        {dec_value d' |d'. d' \<in> set ds \<and> dec_value d' \<notin> ok \<and> dec_value d' \<notin> seen}" by auto
    then show ?thesis using True Cons [of db] by (simp only: queue_loop.simps Let_def if_True)
  next
    case False
    let ?db = "fst (queue_decision now (dec_value d) (str_or (d_scope d) '''') (str_or (d_scenario d) '''')
        (str_or (d_origin d) '''') (str_or (d_origin_source d) '''') (d_lapi_id d) db)"
    obtain p where p: "rows (approval_queue ?db) = rows (approval_queue db) @ [p]" "aq_status (snd p) = Q_pending"
      "aq_ip (snd p) = dec_value d"
      by (auto simp: queue_decision_def insert_row_def Let_def)
    obtain new where new: "rows (approval_queue (queue_loop now ok seen ds ?db)) = rows (approval_queue ?db) @ new"
      "\<forall>p \<in> set new. aq_status (snd p) = Q_pending"
      "{dec_value d |d. d \<in> set ds \<and> dec_value d \<notin> ok \<and> dec_value d \<notin> seen} = (aq_ip \<circ> snd) ` set new"
      using Cons [of ?db] by blast
    have "{dec_value d' |d'. d' \<in> set (d # ds) \<and> dec_value d' \<notin> ok \<and> dec_value d' \<notin> seen} =
        insert (dec_value d) {dec_value d' |d'. d' \<in> set ds \<and> dec_value d' \<notin> ok \<and> dec_value d' \<notin> seen}"
      using False by auto
    then show ?thesis using False p new
      by (intro exI [of _ "p # new"]) (simp add: Let_def)
  qed
qed

lemma queued_ips:
  "approved_ips db \<subseteq> (aq_ip \<circ> snd) ` set (rows (approval_queue db))"
  "seen_in_queue db ips \<subseteq> (aq_ip \<circ> snd) ` set (rows (approval_queue db))"
  by (auto simp: approved_ips_def seen_in_queue_def contents_def)

text \<open>(C10) In approval mode no decision gets lost: the queue keeps its rows and gains only pending ones, and afterwards
  every candidate the whitelist does not protect has a row in the queue.\<close>
theorem approval_queues_every_candidate:
  assumes "keys_unique gc_ip (geo_cache db)" and "approval_required db"
    and "d \<in> set (group_decisions (candidate_rows now db))" and "\<not> protected now db (dec_value d)"
  shows "\<exists>new. rows (approval_queue (fst (desired_from_db now db))) = rows (approval_queue db) @ new
           \<and> (\<forall>p \<in> set new. aq_status (snd p) = Q_pending)
           \<and> dec_value d \<in> (aq_ip \<circ> snd) ` set (rows (approval_queue db) @ new)"
proof -
  let ?ds = "group_decisions (candidate_rows now db)"
  let ?ips = "filter (\<lambda>v. v \<noteq> []) (map dec_value ?ds)"
  let ?geo = "geo_maps db ?ips"
  let ?loop = "whitelist_loop now (list_whitelist now False db) (fst ?geo) (snd ?geo) ?ds db"
  let ?out = "snd (snd ?loop)"
  obtain t where st: "fst ?loop = db\<lparr>whitelist_hits := t\<rparr>" using whitelist_loop_store by blast
  have "?ds \<noteq> []" using assms(3) by auto
  have d: "d \<in> set ?out"
    using assms(3,4) unfolding whitelist_pass [OF assms(1) refl] by simp
  let ?db = "db\<lparr>whitelist_hits := t\<rparr>"
  let ?seen = "seen_in_queue ?db (map dec_value ?out)"
  have res: "fst (desired_from_db now db) = queue_loop now (approved_ips db) ?seen ?out ?db"
    unfolding desired_from_db_def Let_def if_not_P [OF \<open>?ds \<noteq> []\<close>] case_prod_beta st whitelist_hits_irrelevant
      if_P [OF assms(2)] fst_conv ..
  obtain new where new: "rows (approval_queue (queue_loop now (approved_ips db) ?seen ?out ?db)) = rows (approval_queue ?db) @ new"
    "\<forall>p \<in> set new. aq_status (snd p) = Q_pending"
    "{dec_value d |d. d \<in> set ?out \<and> dec_value d \<notin> approved_ips db \<and> dec_value d \<notin> ?seen} = (aq_ip \<circ> snd) ` set new"
    using queue_loop_rows [of now "approved_ips db" ?seen ?out ?db] by (elim exE conjE)
  have "dec_value d \<in> (aq_ip \<circ> snd) ` (set (rows (approval_queue db)) \<union> set new)"
  proof (cases "dec_value d \<in> approved_ips db \<or> dec_value d \<in> ?seen")
    case True
    then show ?thesis
      using subsetD [OF queued_ips(1) [of db]] subsetD [OF queued_ips(2) [of ?db "map dec_value ?out"]]
      unfolding image_Un by (elim disjE) (intro UnI1, simp)+
  next
    case False
    with d have "dec_value d \<in> {dec_value d |d. d \<in> set ?out \<and> dec_value d \<notin> approved_ips db \<and> dec_value d \<notin> ?seen}"
      by blast
    then show ?thesis unfolding new(3) image_Un by (rule UnI2)
  qed
  moreover have "rows (approval_queue ?db) = rows (approval_queue db)" by simp
  ultimately show ?thesis using new(1,2) unfolding res by (intro exI [of _ new]) (simp only: set_append)
qed

theorem approval_queues_every_candidate_witness:
  "\<exists>new. rows (approval_queue (fst (desired_from_db 0 (set_setting 0 ''settings.approval_required'' ''1'' sample_db))))
       = rows (approval_queue sample_db) @ new
     \<and> ''9.9.9.9'' \<in> (aq_ip \<circ> snd) ` set (rows (approval_queue sample_db) @ new)"
proof -
  let ?db = "set_setting 0 ''settings.approval_required'' ''1'' sample_db"
  let ?d = "group_decision (candidate_rows 0 ?db) (''9.9.9.9'', ''Ip'')"
  have "keys_unique gc_ip (geo_cache ?db)" by code_simp
  moreover have "approval_required ?db" by code_simp
  moreover have "?d \<in> set (group_decisions (candidate_rows 0 ?db))" by code_simp
  moreover have v: "dec_value ?d = ''9.9.9.9''" by code_simp
  moreover have "\<not> protected 0 ?db ''9.9.9.9''" by code_simp
  moreover have "approval_queue ?db = approval_queue sample_db" by simp
  ultimately show ?thesis using approval_queues_every_candidate [of ?db ?d 0] by (metis (no_types, lifting))
qed

end
