(* ===== verification/Poller.thy ===== *)
theory Poller
  imports Source_Pull Reconciler
begin

text \<open>
  One cycle of the poller (\<open>poller.py\<close>, \<open>Poller\<close>): the maintenance that runs first, off its own
  counter; the settings read on every cycle; the pulls of the active sources; the reconcile run with
  its bookkeeping and notifications; the stamps; and the jobs scheduled by the cycle counter.

  Every call that leaves the poller may raise, so the cycle is written as a sequence of statements
  on a machine: a statement gives the new machine and the exception it raised, if any; a sequence
  stops at the first exception, and \<open>try_stmt\<close> is \<open>try: ... except Exception: pass\<close>. What the calls do to
  the world outside the poller object is a record of functions, \<open>poller_env\<close>; nothing is assumed about
  them. The trace lists the calls in the order they are made. The pulls of one cycle run in threads in
  the code and one after the other here.
\<close>

section \<open>Statements\<close>

type_synonym 's stmt = "'s \<Rightarrow> 's \<times> exn option"

fun run_stmts :: "'s stmt list \<Rightarrow> 's stmt" where
  "run_stmts [] s = (s, None)"
| "run_stmts (x # xs) s = (case x s of (s', None) \<Rightarrow> run_stmts xs s' | (s', Some e) \<Rightarrow> (s', Some e))"

definition try_stmt :: "'s stmt \<Rightarrow> 's stmt" where
  "try_stmt x s = (fst (x s), None)"

definition when_stmt :: "bool \<Rightarrow> 's stmt \<Rightarrow> 's stmt" where
  "when_stmt b x s = (if b then x s else (s, None))"

lemma run_stmts_Cons:
  "run_stmts (x # xs) s = (if snd (x s) = None then run_stmts xs (fst (x s)) else x s)"
  by (auto split: prod.split option.split)

section \<open>The poller and what it calls\<close>

datatype job =
    Wal_guard | Disk_check | Retention_prune | Hygiene_check | Connection_sync | Blocking_refresh
  | Alerting_tick | Mirror_alerts | Daily_digest | Asn_evaluate | Bulk_intel | Honeypot_refresh | Backup_scheduler
  | Synthetic_scheduler | Peers_scheduler | Dr_reminder | Slo_alerts | Wal_checkpoint | Journal_scan
  | Destination_probe | Auto_rebaseline

datatype poller_call =
    Job job
  | Connection_changed
  | Pull string
  | Reconcile bool int
  | Write string string
  | Emit event

text \<open>The attributes of the \<open>Poller\<close> object.\<close>
record poller =
  po_interval :: int
  po_dry_run :: bool
  po_batch_cap :: int
  po_pull :: pull_state
  po_prev_active :: nat
  po_last_cycle_at :: "instant option"
  po_last_cycle_ok :: bool
  po_last_error :: string
  po_last_active_count :: nat
  po_cycles :: nat
  po_maint_ticks :: nat
  po_force_blocking :: bool
  po_machine_client :: "machine_client option"

definition new_poller :: "int \<Rightarrow> bool \<Rightarrow> int \<Rightarrow> poller" where
  "new_poller interval_sec dry_run batch_cap =
     \<lparr>po_interval = max 2 interval_sec, po_dry_run = dry_run, po_batch_cap = max 1 batch_cap, po_pull = fresh_pull_state,
      po_prev_active = 0, po_last_cycle_at = None, po_last_cycle_ok = False, po_last_error = [], po_last_active_count = 0,
      po_cycles = 0, po_maint_ticks = 0, po_force_blocking = False, po_machine_client = None\<rparr>"

type_synonym targets = "(string \<times> nat \<times> instant) list"

text \<open>The functions the poller calls, on the world \<open>'w\<close> outside the poller object.\<close>
record 'w poller_env =
  en_environ :: environment
  en_now :: "'w \<Rightarrow> instant"
  en_read :: "string \<Rightarrow> 'w \<Rightarrow> exn + string option"
  en_write :: "string \<Rightarrow> string \<Rightarrow> 'w \<Rightarrow> 'w \<times> exn option"
  en_emit :: "event \<Rightarrow> 'w \<Rightarrow> 'w \<times> exn option"
  en_sync_connection :: "'w \<Rightarrow> 'w \<times> (exn + bool)"
  en_list_sources :: "'w \<Rightarrow> exn + source list"
  en_pull_source :: "source \<Rightarrow> pull_state \<times> 'w \<Rightarrow> (pull_state \<times> 'w) \<times> (exn + pull_result)"
  en_count_active :: "'w \<Rightarrow> exn + nat"
  en_reconcile_once :: "bool \<Rightarrow> int \<Rightarrow> 'w \<Rightarrow> 'w \<times> (exn + cycle_result)"
  en_loads :: "string \<Rightarrow> targets option"
  en_dumps :: "targets \<Rightarrow> string"
  en_get_threshold :: "'w \<Rightarrow> exn + int"
  en_mt_health :: "'w \<Rightarrow> 'w \<times> (exn + mt_health option)"
  en_alerts :: "machine_client \<Rightarrow> 'w \<Rightarrow> 'w \<times> machine_client \<times> (exn + lapi_alert list)"
  en_upsert_alert :: "int \<Rightarrow> lapi_alert \<Rightarrow> 'w \<Rightarrow> 'w \<times> exn option"
  en_last_drill :: "'w \<Rightarrow> exn + instant option"
  en_job :: "job \<Rightarrow> 'w \<Rightarrow> 'w \<times> exn option"

record 'w machine =
  m_poller :: poller
  m_world :: 'w
  m_trace :: "poller_call list"

type_synonym 'w pstmt = "'w machine stmt"

text \<open>Assignments to attributes, and the calls.\<close>
definition assign :: "(poller \<Rightarrow> poller) \<Rightarrow> 'w pstmt" where
  "assign f m = (m\<lparr>m_poller := f (m_poller m)\<rparr>, None)"

definition note_call :: "poller_call \<Rightarrow> 'w pstmt" where
  "note_call c m = (m\<lparr>m_trace := m_trace m @ [c]\<rparr>, None)"

definition effect :: "poller_call \<Rightarrow> ('w \<Rightarrow> 'w \<times> exn option) \<Rightarrow> 'w pstmt" where
  "effect c f m = (case f (m_world m) of (w, e) \<Rightarrow> (m\<lparr>m_world := w, m_trace := m_trace m @ [c]\<rparr>, e))"

definition call_job :: "'w poller_env \<Rightarrow> job \<Rightarrow> 'w pstmt" where
  "call_job env j = effect (Job j) (en_job env j)"

definition write_setting :: "'w poller_env \<Rightarrow> string \<Rightarrow> string \<Rightarrow> 'w pstmt" where
  "write_setting env k v = effect (Write k v) (en_write env k v)"

definition emit :: "'w poller_env \<Rightarrow> event \<Rightarrow> 'w pstmt" where
  "emit env ev = effect (Emit ev) (en_emit env ev)"

text \<open>A read of a setting, a query, and a read of the poller itself, with the rest of the block as continuation.\<close>
definition asking :: "('w \<Rightarrow> exn + 'a) \<Rightarrow> ('a \<Rightarrow> 'w pstmt) \<Rightarrow> 'w pstmt" where
  "asking f k m = (case f (m_world m) of Inl e \<Rightarrow> (m, Some e) | Inr x \<Rightarrow> k x m)"

definition reading :: "'w poller_env \<Rightarrow> string \<Rightarrow> (string option \<Rightarrow> 'w pstmt) \<Rightarrow> 'w pstmt" where
  "reading env key = asking (en_read env key)"

definition at_now :: "'w poller_env \<Rightarrow> (instant \<Rightarrow> 'w pstmt) \<Rightarrow> 'w pstmt" where
  "at_now env k m = k (en_now env (m_world m)) m"

definition with_self :: "(poller \<Rightarrow> 'w pstmt) \<Rightarrow> 'w pstmt" where
  "with_self k m = k (m_poller m) m"

section \<open>Maintenance\<close>

text \<open>\<open>int(_gs(key) or dflt)\<close> with the fallback on a malformed number.\<close>
definition cadence :: "nat \<Rightarrow> string option \<Rightarrow> int" where
  "cadence dflt v = (case py_int (str_or v (py_str_nat dflt)) of Some n \<Rightarrow> n | None \<Rightarrow> int dflt)"

definition check_disk :: "'w poller_env \<Rightarrow> nat \<Rightarrow> 'w pstmt" where
  "check_disk env tick_no = run_stmts
     [try_stmt (call_job env Wal_guard),
      reading env ''disk.check_every_cycles'' (\<lambda>v.
        let disk_every = cadence 6 v
        in when_stmt (\<not> (disk_every < 1 \<or> int tick_no mod disk_every \<noteq> 0)) (try_stmt (call_job env Disk_check)))]"

definition run_retention :: "'w poller_env \<Rightarrow> nat \<Rightarrow> 'w pstmt" where
  "run_retention env tick_no = when_stmt (tick_no mod 360 = 0)
     (run_stmts [try_stmt (call_job env Retention_prune), try_stmt (call_job env Hygiene_check)])"

text \<open>A changed connection starts the local LAPI over.\<close>
definition forget_local :: "pull_state \<Rightarrow> pull_state" where
  "forget_local st = st\<lparr>ps_bootstrap_done := (ps_bootstrap_done st)(''local'' := None),
     ps_fail_streak := (ps_fail_streak st)(''local'' := None), ps_prev_lapi_ok := (ps_prev_lapi_ok st)(''local'' := None)\<rparr>"

definition sync_connection :: "'w poller_env \<Rightarrow> 'w pstmt" where
  "sync_connection env m =
     (case en_sync_connection env (m_world m) of (w, r) \<Rightarrow>
        let m' = m\<lparr>m_world := w, m_trace := m_trace m @ [Job Connection_sync]\<rparr>
        in case r of
             Inr True \<Rightarrow> run_stmts
               [assign (\<lambda>p. p\<lparr>po_pull := forget_local (po_pull p), po_machine_client := None, po_force_blocking := True\<rparr>),
                note_call Connection_changed] m'
           | _ \<Rightarrow> (m', None))"

definition check_blocking :: "'w poller_env \<Rightarrow> nat \<Rightarrow> 'w pstmt" where
  "check_blocking env tick_no = with_self (\<lambda>p. when_stmt (\<not> (tick_no mod 6 \<noteq> 0 \<and> \<not> po_force_blocking p))
     (run_stmts [assign (\<lambda>p. p\<lparr>po_force_blocking := False\<rparr>), try_stmt (call_job env Blocking_refresh)]))"

definition maintenance :: "'w poller_env \<Rightarrow> 'w pstmt" where
  "maintenance env = with_self (\<lambda>p. let tick_no = po_maint_ticks p in run_stmts
     [assign (\<lambda>p. p\<lparr>po_maint_ticks := po_maint_ticks p + 1\<rparr>),
      check_disk env tick_no, run_retention env tick_no, sync_connection env, check_blocking env tick_no])"

section \<open>The knobs\<close>

definition read_knobs :: "'w poller_env \<Rightarrow> 'w pstmt" where
  "read_knobs env = run_stmts
     [reading env ''settings.dry_run'' (\<lambda>v.
        when_stmt (v \<in> {Some ''0'', Some ''1''}) (assign (\<lambda>p. p\<lparr>po_dry_run := (v = Some ''1'')\<rparr>))),
      reading env ''settings.sync_interval_sec'' (\<lambda>v. case py_int (str_or v ''0'') of None \<Rightarrow> (\<lambda>m. (m, None))
        | Some iv \<Rightarrow> when_stmt (iv \<ge> 2) (assign (\<lambda>p. p\<lparr>po_interval := iv\<rparr>))),
      reading env ''settings.batch_cap'' (\<lambda>v. case py_int (str_or v ''0'') of None \<Rightarrow> (\<lambda>m. (m, None))
        | Some bc \<Rightarrow> when_stmt (bc \<ge> 1) (assign (\<lambda>p. p\<lparr>po_batch_cap := bc\<rparr>)))]"


section \<open>The pulls\<close>

text \<open>\<open>list(ex.map(self._pull_source, active))\<close>: every pull runs; the first exception is raised afterwards.\<close>
fun pull_all :: "'w poller_env \<Rightarrow> source list \<Rightarrow> 'w machine \<Rightarrow> 'w machine \<times> (exn + pull_result list)" where
  "pull_all env [] m = (m, Inr [])"
| "pull_all env (s # ss) m =
     (case en_pull_source env s (po_pull (m_poller m), m_world m) of ((st, w), r) \<Rightarrow>
        case pull_all env ss (m\<lparr>m_poller := (m_poller m)\<lparr>po_pull := st\<rparr>, m_world := w, m_trace := m_trace m @ [Pull (s_name s)]\<rparr>) of
          (m', rs) \<Rightarrow> (m', case r of Inl e \<Rightarrow> Inl e | Inr x \<Rightarrow> (case rs of Inl e \<Rightarrow> Inl e | Inr xs \<Rightarrow> Inr (x # xs))))"

definition pulling :: "'w poller_env \<Rightarrow> source list \<Rightarrow> (pull_result list \<Rightarrow> 'w pstmt) \<Rightarrow> 'w pstmt" where
  "pulling env ss k m = (case pull_all env ss m of (m', Inl e) \<Rightarrow> (m', Some e) | (m', Inr rs) \<Rightarrow> k rs m')"

definition active_sources :: "instant \<Rightarrow> source list \<Rightarrow> source list" where
  "active_sources now ss = filter (\<lambda>s. \<not> s_paused s \<and> \<not> in_backoff now s) ss"

section \<open>The reconcile step\<close>

definition kept_targets :: "instant \<Rightarrow> targets \<Rightarrow> targets \<Rightarrow> targets" where
  "kept_targets now fresh state = filter (\<lambda>(k, _, synced_at). now - 7 * DAY \<le> synced_at)
     (fold (\<lambda>(k, v). AList.update k v) fresh state)"

definition record_target_state :: "'w poller_env \<Rightarrow> targets \<Rightarrow> 'w pstmt" where
  "record_target_state env fresh = reading env ''targets.last_sync'' (\<lambda>v. at_now env (\<lambda>now.
     let state = (case en_loads env (str_or v ''{}'') of Some t \<Rightarrow> t | None \<Rightarrow> [])
     in try_stmt (write_setting env ''targets.last_sync'' (en_dumps env (kept_targets now fresh state)))))"

definition sync_notifications :: "'w poller_env \<Rightarrow> cycle_result \<Rightarrow> 'w pstmt" where
  "sync_notifications env r = asking (en_get_threshold env) (\<lambda>threshold. run_stmts
     [when_stmt (int (cr_to_add r) \<ge> threshold) (emit env (Notify ''sync_threshold''
        (''Reconcile cycle proposed '' @ py_str_nat (cr_to_add r) @ '' adds / '' @ py_str_nat (cr_to_remove r)
         @ '' removes (threshold '' @ py_str_int threshold @ ''). Mode: '' @ (if cr_dry_run r then ''DRY-RUN'' else ''LIVE'') @ ''.'')
        ''Sync threshold exceeded'')),
      when_stmt (cr_errors r > 0) (run_stmts
        [emit env (Notify ''sync_error'' (''Reconcile cycle reported '' @ py_str_nat (cr_errors r) @ '' errors. Notes: '' @ cr_notes r)
           ''Sync errors''),
         emit env (Ship ''sync.error'' [(''errors'', Some (py_str_nat (cr_errors r))), (''to_add'', Some (py_str_nat (cr_to_add r))),
           (''to_remove'', Some (py_str_nat (cr_to_remove r))), (''notes'', Some (cr_notes r)),
           (''duration_ms'', Some (py_str_int (cr_duration_ms r)))])]),
      with_self (\<lambda>p. let delta = int (po_last_active_count p) - int (po_prev_active p)
        in when_stmt (delta > 0 \<and> po_prev_active p > 0) (emit env (Notify ''new_ban''
             (py_str_int delta @ '' new decision(s) landed. Total active: '' @ py_str_nat (po_last_active_count p) @ ''.'')
             ''New ban(s)''))),
      assign (\<lambda>p. p\<lparr>po_prev_active := po_last_active_count p\<rparr>)])"

definition record_result :: "'w poller_env \<Rightarrow> cycle_result \<Rightarrow> 'w pstmt" where
  "record_result env r = run_stmts
     [write_setting env ''reconcile.last_at'' (isoformat (cr_started_at r)),
      write_setting env ''reconcile.last_duration_ms'' (py_str_int (cr_duration_ms r)),
      write_setting env ''reconcile.last_to_add'' (py_str_nat (cr_to_add r)),
      write_setting env ''reconcile.last_to_remove'' (py_str_nat (cr_to_remove r)),
      write_setting env ''reconcile.last_unchanged'' (py_str_nat (cr_unchanged r)),
      write_setting env ''reconcile.last_errors'' (py_str_nat (cr_errors r)),
      write_setting env ''reconcile.last_dry_run'' (if cr_dry_run r then ''1'' else ''0''),
      write_setting env ''reconcile.last_notes'' (cr_notes r),
      when_stmt (cr_mt_count_valid r) (run_stmts
        [write_setting env ''mt.last_list_count'' (py_str_nat (cr_mt_list_count r)),
         at_now env (\<lambda>now. write_setting env ''mt.last_list_count_at'' (isoformat now))]),
      when_stmt (cr_targets r \<noteq> []) (record_target_state env (cr_targets r)),
      try_stmt (sync_notifications env r)]"

definition reconcile_step :: "'w poller_env \<Rightarrow> 'w pstmt" where
  "reconcile_step env m =
     (let p = m_poller m
      in case en_reconcile_once env (po_dry_run p) (po_batch_cap p) (m_world m) of (w, r) \<Rightarrow>
           let m' = m\<lparr>m_world := w, m_trace := m_trace m @ [Reconcile (po_dry_run p) (po_batch_cap p)]\<rparr>
           in case r of Inl e \<Rightarrow> (m', Some e) | Inr result \<Rightarrow> record_result env result m')"

section \<open>Stamps and the router's health\<close>

definition stamp_cycle :: "'w poller_env \<Rightarrow> nat \<Rightarrow> 'w pstmt" where
  "stamp_cycle env source_count = run_stmts
     [at_now env (\<lambda>now. run_stmts [assign (\<lambda>p. p\<lparr>po_last_cycle_at := Some now\<rparr>), write_setting env ''poller.last_at'' (isoformat now)]),
      with_self (\<lambda>p. run_stmts
        [write_setting env ''poller.last_ok'' (if po_last_cycle_ok p then ''1'' else ''0''),
         write_setting env ''poller.last_error'' (po_last_error p),
         write_setting env ''poller.cycles'' (py_str_nat (po_cycles p)),
         write_setting env ''poller.active_total'' (py_str_nat (po_last_active_count p)),
         write_setting env ''poller.interval'' (py_str_int (po_interval p)),
         write_setting env ''poller.source_count'' (py_str_nat source_count)])]"

text \<open>The health of an unconfigured router is \<open>None\<close>.\<close>
definition mt_health_block :: "'w poller_env \<Rightarrow> 'w pstmt" where
  "mt_health_block env m =
     (case en_mt_health env (m_world m) of (w, r) \<Rightarrow>
        (case r of
           Inl e \<Rightarrow> (m\<lparr>m_world := w\<rparr>, Some e)
         | Inr None \<Rightarrow> write_setting env ''mt.last_status'' ''off'' (m\<lparr>m_world := w\<rparr>)
         | Inr (Some h) \<Rightarrow> run_stmts
             [write_setting env ''mt.last_status'' (if mh_ok h then ''up'' else ''down''),
              at_now env (\<lambda>now. write_setting env ''mt.last_check_at'' (isoformat now)),
              write_setting env ''mt.last_error'' (if mh_ok h then [] else take 300 (mh_error h))] (m\<lparr>m_world := w\<rparr>)))"

definition mt_snapshot :: "'w poller_env \<Rightarrow> 'w pstmt" where
  "mt_snapshot env m =
     (case mt_health_block env m of
        (m', None) \<Rightarrow> (m', None)
      | (m', Some e) \<Rightarrow> write_setting env ''mt.last_status'' ''unknown'' m')"

section \<open>The alerts mirror and the drill reminder\<close>

text \<open>One row of the alerts mirror; a known alert keeps its machine, its time and its raw text.\<close>
definition alert_key :: "alert_row \<Rightarrow> string \<times> int" where
  "alert_key r = (al_origin_source r, al_lapi_id r)"

definition new_alert_row :: "int \<Rightarrow> lapi_alert \<Rightarrow> alert_row" where
  "new_alert_row lapi_id a =
     \<lparr>al_origin_source = ''local'', al_lapi_id = lapi_id, al_machine_id = str_or (la_machine_id a) [], al_scenario = str_or (la_scenario a) [],
      al_source_ip = str_or (la_ip a) (str_or (la_value a) []), al_source_asn = str_or (la_as_number a) (str_or (la_asn a) []),
      al_source_country = str_or (la_cn a) (str_or (la_country a) []), al_events_count = (case la_events_count a of Some n \<Rightarrow> n | None \<Rightarrow> 0),
      al_created_at = str_or (la_created_at a) [], al_raw_json = take 8000 (la_dump a)\<rparr>"

definition upsert_alert :: "int \<Rightarrow> lapi_alert \<Rightarrow> store \<Rightarrow> store" where
  "upsert_alert lapi_id a db =
     (let new = new_alert_row lapi_id a
      in db\<lparr>alerts := upsert_row alert_key new
           (\<lambda>r. r\<lparr>al_scenario := al_scenario new, al_source_ip := al_source_ip new, al_source_asn := al_source_asn new,
                  al_source_country := al_source_country new, al_events_count := al_events_count new\<rparr>) (alerts db)\<rparr>)"

lemma upsert_alert_unique: "keys_unique alert_key (contents (alerts db)) \<Longrightarrow> keys_unique alert_key (contents (alerts (upsert_alert i a db)))"
  by (simp add: upsert_alert_def Let_def tables keys_unique_upsert alert_key_def)

text \<open>The loop over the alerts; an alert without an id is skipped.\<close>
fun upsert_alerts :: "'w poller_env \<Rightarrow> lapi_alert list \<Rightarrow> 'w pstmt" where
  "upsert_alerts env [] m = (m, None)"
| "upsert_alerts env (a # as) m =
     (case la_id a of
        None \<Rightarrow> upsert_alerts env as m
      | Some lapi_id \<Rightarrow>
          (case en_upsert_alert env lapi_id a (m_world m) of
             (w, Some e) \<Rightarrow> (m\<lparr>m_world := w\<rparr>, Some e)
           | (w, None) \<Rightarrow> upsert_alerts env as (m\<lparr>m_world := w\<rparr>)))"

definition mirror_with :: "'w poller_env \<Rightarrow> machine_client \<Rightarrow> 'w pstmt" where
  "mirror_with env client m =
     (case en_alerts env client (m_world m) of (w, c, r) \<Rightarrow>
        let m' = m\<lparr>m_poller := (m_poller m)\<lparr>po_machine_client := Some c\<rparr>, m_world := w\<rparr>
        in (case r of
              Inl (LAPIError e) \<Rightarrow> assign (\<lambda>p. p\<lparr>po_machine_client := None\<rparr>) m'
            | Inl e \<Rightarrow> (m', Some e)
            | Inr as \<Rightarrow> upsert_alerts env as m'))"

definition mirror_alerts :: "'w poller_env \<Rightarrow> 'w pstmt" where
  "mirror_alerts env = with_self (\<lambda>p.
     let login = envstr (en_environ env) ''CROWDSEC_MACHINE_LOGIN'' [];
         password = envstr (en_environ env) ''CROWDSEC_MACHINE_PASSWORD'' [];
         url = envstr (en_environ env) ''CROWDSEC_LAPI_URL'' [];
         client = (case po_machine_client p of
             Some c \<Rightarrow> c
           | None \<Rightarrow> new_machine_client (if url = [] then ''http://127.0.0.1:8080'' else url) login password)
     in when_stmt (login \<noteq> [] \<and> password \<noteq> []) (mirror_with env client))"

definition dr_reminder :: "'w poller_env \<Rightarrow> 'w pstmt" where
  "dr_reminder env = reading env ''dr_drill.reminder_enabled'' (\<lambda>v.
     when_stmt (str_or v ''0'' = ''1'') (asking (en_last_drill env) (\<lambda>last. at_now env (\<lambda>now.
       let days_since = (case last of Some t \<Rightarrow> (now - t) div DAY | None \<Rightarrow> 999);
           last_iso = (case last of Some t \<Rightarrow> isoformat t | None \<Rightarrow> [])
       in reading env ''dr_drill.last_reminder_at'' (\<lambda>seen.
            when_stmt (days_since \<ge> 90 \<and> str_or seen [] \<noteq> last_iso) (run_stmts
              [try_stmt (emit env (Notify ''sync_error''
                 (''DR drill overdue - '' @ py_str_int days_since @ '' days since last successful drill. Run via /admin/dr-drill.'')
                 ''[Protek] DR drill overdue'')),
               write_setting env ''dr_drill.last_reminder_at'' (if last_iso = [] then ''fired'' else last_iso)]))))))"

section \<open>The scheduled jobs\<close>

text \<open>The mirror and the reminder are blocks of the poller itself; the other jobs are calls.\<close>
definition run_job :: "'w poller_env \<Rightarrow> job \<Rightarrow> 'w pstmt" where
  "run_job env j = (case j of
       Mirror_alerts \<Rightarrow> run_stmts [note_call (Job Mirror_alerts), mirror_alerts env]
     | Dr_reminder \<Rightarrow> run_stmts [note_call (Job Dr_reminder), dr_reminder env]
     | _ \<Rightarrow> call_job env j)"

text \<open>The jobs in the order of \<open>tick\<close>, each with its cadence in cycles.\<close>
definition SCHEDULE :: "(nat \<times> job) list" where
  "SCHEDULE = [(1, Alerting_tick), (6, Mirror_alerts), (1, Daily_digest), (6, Asn_evaluate), (1, Bulk_intel), (12, Honeypot_refresh),
     (360, Backup_scheduler), (2160, Synthetic_scheduler), (6, Peers_scheduler), (360, Dr_reminder), (12, Slo_alerts),
     (6, Wal_checkpoint), (30, Journal_scan)]"

definition every :: "'w poller_env \<Rightarrow> nat \<Rightarrow> job \<Rightarrow> 'w pstmt" where
  "every env n j = with_self (\<lambda>p. when_stmt (po_cycles p mod n = 0) (try_stmt (run_job env j)))"

definition probe :: "'w poller_env \<Rightarrow> 'w pstmt" where
  "probe env = reading env ''litestream.probe_every_cycles'' (\<lambda>v. with_self (\<lambda>p.
     let probe_every = cadence 30 v
     in when_stmt (probe_every \<ge> 1 \<and> int (po_cycles p) mod probe_every = 0) (try_stmt (call_job env Destination_probe))))"

definition scheduled :: "'w poller_env \<Rightarrow> 'w pstmt" where
  "scheduled env = run_stmts (map (\<lambda>(n, j). every env n j) SCHEDULE @ [probe env, every env 360 Auto_rebaseline])"

section \<open>The cycle\<close>

definition pull_and_count :: "'w poller_env \<Rightarrow> source list \<Rightarrow> 'w pstmt" where
  "pull_and_count env ss = at_now env (\<lambda>now. pulling env (active_sources now ss) (\<lambda>results. asking (en_count_active env) (\<lambda>n.
     let any_ok = (\<exists>r \<in> set results. pl_ok r);
         any_active_source = (\<exists>s \<in> set ss. \<not> s_paused s)
     in assign (\<lambda>p. p\<lparr>po_last_active_count := n, po_last_cycle_ok := any_ok \<or> \<not> any_active_source,
          po_last_error := (if any_ok then [] else if results \<noteq> [] then pl_error (last results) else ''no sources active''),
          po_cycles := po_cycles p + 1\<rparr>))))"

definition cycle :: "'w poller_env \<Rightarrow> instant \<Rightarrow> 'w pstmt" where
  "cycle env started = asking (en_list_sources env) (\<lambda>ss.
     if ss = []
     then assign (\<lambda>p. p\<lparr>po_last_cycle_ok := False, po_last_error := ''no sources configured'', po_last_cycle_at := Some started\<rparr>)
     else run_stmts [pull_and_count env ss, try_stmt (reconcile_step env), stamp_cycle env (length ss), mt_snapshot env, scheduled env])"

definition poller_tick :: "'w poller_env \<Rightarrow> 'w pstmt" where
  "poller_tick env = at_now env (\<lambda>started. run_stmts [maintenance env, read_knobs env, cycle env started])"

text \<open>One round of \<open>_loop\<close>.\<close>
definition loop_step :: "'w poller_env \<Rightarrow> 'w machine \<Rightarrow> 'w machine" where
  "loop_step env m =
     (case poller_tick env m of
        (m', None) \<Rightarrow> m'
      | (m', Some e) \<Rightarrow> fst (assign (\<lambda>p. p\<lparr>po_last_cycle_ok := False, po_last_error := exn_str e\<rparr>) m'))"

section \<open>What a statement leaves alone\<close>

fun jobs_of :: "poller_call list \<Rightarrow> job list" where
  "jobs_of [] = []"
| "jobs_of (Job j # cs) = j # jobs_of cs"
| "jobs_of (_ # cs) = jobs_of cs"

lemma jobs_of_append [simp]: "jobs_of (xs @ ys) = jobs_of xs @ jobs_of ys"
  by (induction xs rule: jobs_of.induct) simp_all

lemma set_jobs_of: "j \<in> set (jobs_of t) \<longleftrightarrow> Job j \<in> set t"
  by (induction t rule: jobs_of.induct) auto

text \<open>The frame of a statement, raising or not: the calls it may make, and a view of the poller it keeps. The bookkeeping of the cycle
  is within any frame that allows its writes, messages, pulls and the reconcile run.\<close>
locale call_frame =
  fixes allowed :: "poller_call \<Rightarrow> bool" and view :: "poller \<Rightarrow> 'v"
  assumes allowed_bookkeeping: "allowed (Write k v)" "allowed (Emit ev)" "allowed (Pull s)" "allowed (Reconcile dry cap)"
    and view_knobs: "view (p\<lparr>po_dry_run := d\<rparr>) = view p" "view (p\<lparr>po_interval := i\<rparr>) = view p" "view (p\<lparr>po_batch_cap := i\<rparr>) = view p"
    and view_pull: "view (p\<lparr>po_pull := st\<rparr>) = view p" "view (p\<lparr>po_machine_client := c\<rparr>) = view p" "view (p\<lparr>po_prev_active := n\<rparr>) = view p"
    and view_last: "view (p\<lparr>po_last_cycle_at := t\<rparr>) = view p" "view (p\<lparr>po_last_cycle_ok := d\<rparr>) = view p"
      "view (p\<lparr>po_last_error := e\<rparr>) = view p" "view (p\<lparr>po_last_active_count := n\<rparr>) = view p"
begin

lemmas view_simps = view_knobs view_pull view_last

definition frame :: "'w machine \<Rightarrow> 'w machine \<Rightarrow> bool" where
  "frame m m' = ((\<exists>t. m_trace m' = m_trace m @ t \<and> list_all allowed t) \<and> view (m_poller m') = view (m_poller m))"

lemma frame_refl [simp]: "frame m m"
  by (simp add: frame_def)

lemma frame_trans: "frame m m' \<Longrightarrow> frame m' m'' \<Longrightarrow> frame m m''"
  by (auto simp: frame_def)

lemma frame_call:
  "allowed c \<Longrightarrow> view p = view (m_poller m) \<Longrightarrow> frame m (m\<lparr>m_poller := p, m_world := w, m_trace := m_trace m @ [c]\<rparr>)"
  "allowed c \<Longrightarrow> frame m (m\<lparr>m_world := w, m_trace := m_trace m @ [c]\<rparr>)"
  "frame m (m\<lparr>m_world := w\<rparr>)"
  "view p = view (m_poller m) \<Longrightarrow> frame m (m\<lparr>m_poller := p, m_world := w\<rparr>)"
  by (simp_all add: frame_def)

definition inside :: "'w pstmt \<Rightarrow> bool" where
  "inside x = (\<forall>m. frame m (fst (x m)))"

lemma inside_skip: "inside (\<lambda>m. (m, None))"
  by (simp add: inside_def)

lemma inside_seq:
  "inside (run_stmts [])"
  "inside x \<Longrightarrow> inside (run_stmts xs) \<Longrightarrow> inside (run_stmts (x # xs))"
proof -
  assume x: "inside x" and xs: "inside (run_stmts xs)"
  show "inside (run_stmts (x # xs))"
    unfolding inside_def run_stmts_Cons
  proof
    fix m
    have "frame m (fst (x m))" "frame (fst (x m)) (fst (run_stmts xs (fst (x m))))" using x xs inside_def by blast+
    then show "frame m (fst (if snd (x m) = None then run_stmts xs (fst (x m)) else x m))"
      using frame_trans [of m "fst (x m)"] by auto
  qed
qed (simp add: inside_def)

lemma inside_run_stmts: "(\<forall>x \<in> set xs. inside x) \<Longrightarrow> inside (run_stmts xs)"
  by (induction xs) (simp_all add: inside_seq)

lemma inside_cases:
  "inside x \<Longrightarrow> (\<And>a. inside (f a)) \<Longrightarrow> inside (case v of None \<Rightarrow> x | Some a \<Rightarrow> f a)"
  "inside x \<Longrightarrow> inside y \<Longrightarrow> inside (if b then x else y)"
  by (simp_all split: option.split)

lemma inside_basic:
  "inside x \<Longrightarrow> inside (try_stmt x)"
  "inside x \<Longrightarrow> inside (when_stmt b x)"
  "(\<And>p. view (f p) = view p) \<Longrightarrow> inside (assign f)"
  "allowed c \<Longrightarrow> inside (note_call c)"
  "allowed c \<Longrightarrow> inside (effect c g)"
  "(\<And>a. inside (k a)) \<Longrightarrow> inside (asking h k)"
  "(\<And>t. inside (l t)) \<Longrightarrow> inside (at_now env l)"
  "(\<And>p. inside (s p)) \<Longrightarrow> inside (with_self s)"
  by (auto simp: inside_def try_stmt_def when_stmt_def assign_def note_call_def effect_def asking_def at_now_def with_self_def
      frame_def split: prod.splits sum.splits)

lemma inside_calls:
  "allowed (Job j) \<Longrightarrow> inside (call_job env j)"
  "inside (write_setting env k v)"
  "inside (emit env ev)"
  "(\<And>a. inside (f a)) \<Longrightarrow> inside (reading env key f)"
  unfolding call_job_def write_setting_def emit_def reading_def by (intro inside_basic; simp add: allowed_bookkeeping)+

lemma frame_pull_all: "frame m (fst (pull_all env ss m))"
proof (induction ss arbitrary: m)
  case (Cons s ss)
  obtain st w r where r: "en_pull_source env s (po_pull (m_poller m), m_world m) = ((st, w), r)" by (metis surj_pair)
  let ?m = "m\<lparr>m_poller := (m_poller m)\<lparr>po_pull := st\<rparr>, m_world := w, m_trace := m_trace m @ [Pull (s_name s)]\<rparr>"
  have "frame m ?m" by (rule frame_call) (simp_all add: allowed_bookkeeping view_simps)
  then have "frame m (fst (pull_all env ss ?m))" using Cons frame_trans by blast
  then show ?case by (simp add: r case_prod_beta)
qed simp

lemma inside_pulling: "(\<And>rs. inside (k rs)) \<Longrightarrow> inside (pulling env ss k)"
  using frame_pull_all frame_trans unfolding inside_def pulling_def
  by (fastforce simp: case_prod_beta split: sum.split)

lemmas inside_rules = inside_skip inside_seq inside_cases inside_basic inside_calls inside_pulling

lemma inside_after: "frame m m' \<Longrightarrow> inside x \<Longrightarrow> frame m (fst (x m'))"
  using frame_trans inside_def by blast

lemma inside_read_knobs: "inside (read_knobs env)"
  unfolding read_knobs_def by (intro inside_rules; simp add: view_simps)

lemma inside_record_result: "inside (record_result env r)"
  unfolding record_result_def record_target_state_def sync_notifications_def Let_def by (intro inside_rules; simp add: view_simps)

lemma inside_reconcile_step: "inside (reconcile_step (env :: 'w poller_env))"
  unfolding inside_def
proof
  fix m :: "'w machine"
  let ?p = "m_poller m"
  obtain w r where r: "en_reconcile_once env (po_dry_run ?p) (po_batch_cap ?p) (m_world m) = (w, r)" by force
  have f: "frame m (m\<lparr>m_world := w, m_trace := m_trace m @ [Reconcile (po_dry_run ?p) (po_batch_cap ?p)]\<rparr>)"
    by (rule frame_call) (rule allowed_bookkeeping)
  show "frame m (fst (reconcile_step env m))"
    using f inside_after [OF f inside_record_result] by (simp add: reconcile_step_def Let_def r split: sum.split)
qed

lemma inside_stamp_cycle: "inside (stamp_cycle env n)"
  unfolding stamp_cycle_def by (intro inside_rules; simp add: view_simps)

lemma inside_mt_snapshot: "inside (mt_snapshot (env :: 'w poller_env))"
proof -
  have "inside (mt_health_block env)"
    unfolding inside_def
  proof
    fix m :: "'w machine"
    obtain w r where r: "en_mt_health env (m_world m) = (w, r)" by force
    have q: "inside (write_setting env k v)" "inside (run_stmts [write_setting env k v, at_now env (\<lambda>now. write_setting env l (isoformat now)), write_setting env j u])"
      for k v l j u
      by (intro inside_rules)+
    show "frame m (fst (mt_health_block env m))"
      using inside_after [OF frame_call(3) q(1)] inside_after [OF frame_call(3) q(2)]
      by (simp add: mt_health_block_def r frame_call split: sum.split option.split)
  qed
  moreover have "inside (write_setting env k v)" for k v by (intro inside_rules)
  ultimately show ?thesis
    unfolding inside_def mt_snapshot_def by (auto simp: case_prod_beta split: option.split intro: frame_trans)
qed

lemma frame_upsert_alerts: "frame m (fst (upsert_alerts env as m))"
proof (induction as arbitrary: m)
  case (Cons a as)
  have "frame m (fst (upsert_alerts env as (m\<lparr>m_world := w\<rparr>)))" for w using frame_trans [OF frame_call(3) Cons] .
  then show ?case using Cons by (simp add: frame_call(3) split: option.split prod.split)
qed simp

lemma inside_mirror_alerts: "inside (mirror_alerts (env :: 'w poller_env))"
proof -
  have "inside (mirror_with env client)" for client
    unfolding inside_def
  proof
    fix m :: "'w machine"
    obtain w c r where r: "en_alerts env client (m_world m) = (w, c, r)" by (metis surj_pair)
    let ?m = "m\<lparr>m_poller := (m_poller m)\<lparr>po_machine_client := Some c\<rparr>, m_world := w\<rparr>"
    have m: "frame m ?m" by (rule frame_call) (simp add: view_simps)
    have a: "inside (assign (\<lambda>p. p\<lparr>po_machine_client := None\<rparr>))" by (intro inside_rules) (simp add: view_simps)
    show "frame m (fst (mirror_with env client m))"
      using m frame_trans [OF m frame_upsert_alerts] inside_after [OF m a]
      by (simp add: mirror_with_def r Let_def split: sum.split exn.split)
  qed
  then show ?thesis unfolding mirror_alerts_def Let_def by (intro inside_rules)
qed

lemma inside_dr_reminder: "inside (dr_reminder env)"
  unfolding dr_reminder_def Let_def by (intro inside_rules)

lemma inside_failed: "inside (assign (\<lambda>p. p\<lparr>po_last_cycle_ok := False, po_last_error := s\<rparr>))"
  by (intro inside_rules) (simp add: view_simps)

end

text \<open>The first frame: everything but the maintenance block, with its counter and flag.\<close>
fun is_maintenance :: "job \<Rightarrow> bool" where
  "is_maintenance j = (j \<in> {Wal_guard, Disk_check, Retention_prune, Hygiene_check, Connection_sync, Blocking_refresh})"

fun outside_maintenance :: "poller_call \<Rightarrow> bool" where
  "outside_maintenance (Job j) = (\<not> is_maintenance j)"
| "outside_maintenance Connection_changed = False"
| "outside_maintenance _ = True"

interpretation upkeep: call_frame outside_maintenance "\<lambda>p. (po_maint_ticks p, po_force_blocking p)"
  by unfold_locales simp_all

lemma outside_maintenance_jobs:
  assumes "list_all outside_maintenance t"
  shows "filter is_maintenance (jobs_of t) = []" and "Connection_changed \<notin> set t"
  using assms by (induction t rule: jobs_of.induct) auto

lemma upkeep_every: "\<not> is_maintenance j \<Longrightarrow> upkeep.inside (every env n j)"
proof -
  assume "\<not> is_maintenance j"
  then have "upkeep.inside (run_job env j)"
    by (cases j) (simp_all add: run_job_def upkeep.inside_rules upkeep.inside_mirror_alerts upkeep.inside_dr_reminder)
  then show ?thesis unfolding every_def by (intro upkeep.inside_rules)
qed

lemma upkeep_scheduled: "upkeep.inside (scheduled env)"
proof -
  have "upkeep.inside (probe env)" unfolding probe_def Let_def by (intro upkeep.inside_rules; simp)
  then show ?thesis unfolding scheduled_def by (intro upkeep.inside_run_stmts) (auto simp: SCHEDULE_def upkeep_every)
qed

lemma upkeep_cycle: "upkeep.inside (cycle env started)"
proof -
  have "upkeep.inside (pull_and_count env ss)" for ss
    unfolding pull_and_count_def Let_def by (intro upkeep.inside_rules; simp)
  then have "upkeep.inside (run_stmts [pull_and_count env ss, try_stmt (reconcile_step env), stamp_cycle env (length ss), mt_snapshot env, scheduled env])"
    for ss
    by (intro upkeep.inside_rules upkeep.inside_reconcile_step upkeep.inside_stamp_cycle upkeep.inside_mt_snapshot upkeep_scheduled)
  moreover have "upkeep.inside (assign (\<lambda>p. p\<lparr>po_last_cycle_ok := False, po_last_error := ''no sources configured'', po_last_cycle_at := Some started\<rparr>))"
    by (intro upkeep.inside_rules) simp
  ultimately show ?thesis unfolding cycle_def by (intro upkeep.inside_basic(6) upkeep.inside_cases)
qed

section \<open>The maintenance of a tick\<close>

text \<open>What the maintenance block appends to the trace, given the cadence of the disk check.\<close>
definition maintenance_due :: "string option \<Rightarrow> nat \<Rightarrow> bool \<Rightarrow> job list" where
  "maintenance_due v n changed =
     Wal_guard # (if 1 \<le> cadence 6 v \<and> int n mod cadence 6 v = 0 then [Disk_check] else [])
     @ (if n mod 360 = 0 then [Retention_prune, Hygiene_check] else [])
     @ Connection_sync # (if n mod 6 = 0 \<or> changed then [Blocking_refresh] else [])"

lemma filter_maintenance_due [simp]: "filter is_maintenance (maintenance_due v n changed) = maintenance_due v n changed"
  by (simp add: maintenance_due_def)

lemma try_job [simp]:
  "try_stmt (call_job env j) m = (m\<lparr>m_world := fst (en_job env j (m_world m)), m_trace := m_trace m @ [Job j]\<rparr>, None)"
  by (simp add: try_stmt_def call_job_def effect_def split: prod.split)

lemma check_disk_trace:
  assumes "en_read env ''disk.check_every_cycles'' (fst (en_job env Wal_guard (m_world m))) = Inr v"
  obtains w where "check_disk env n m = (m\<lparr>m_world := w, m_trace := m_trace m @ Job Wal_guard #
    (if 1 \<le> cadence 6 v \<and> int n mod cadence 6 v = 0 then [Job Disk_check] else [])\<rparr>, None)"
proof -
  define due where "due \<longleftrightarrow> 1 \<le> cadence 6 v \<and> int n mod cadence 6 v = 0"
  have "(\<not> (cadence 6 v < 1 \<or> int n mod cadence 6 v \<noteq> 0)) = due" by (auto simp: due_def)
  then have "check_disk env n m = (m\<lparr>m_world := (let w = fst (en_job env Wal_guard (m_world m)) in if due then fst (en_job env Disk_check w) else w),
      m_trace := m_trace m @ Job Wal_guard # (if due then [Job Disk_check] else [])\<rparr>, None)"
    by (simp only: check_disk_def reading_def asking_def Let_def)
      (simp add: asking_def assms when_stmt_def)
  then show thesis using that by (simp only: due_def)
qed

lemma run_retention_trace:
  obtains w where "run_retention env n m = (m\<lparr>m_world := w, m_trace := m_trace m @
    (if n mod 360 = 0 then [Job Retention_prune, Job Hygiene_check] else [])\<rparr>, None)"
proof (cases "n mod 360 = 0")
  case False
  then have "run_retention env n m = (m\<lparr>m_world := m_world m, m_trace := m_trace m @
    (if n mod 360 = 0 then [Job Retention_prune, Job Hygiene_check] else [])\<rparr>, None)"
    by (simp add: run_retention_def when_stmt_def)
  then show thesis by (rule that)
qed (use that in \<open>auto simp: run_retention_def when_stmt_def\<close>)

lemma sync_connection_trace:
  obtains w p changed where "sync_connection env m = (m\<lparr>m_poller := p, m_world := w, m_trace := m_trace m @ Job Connection_sync #
      (if changed then [Connection_changed] else [])\<rparr>, None)"
    "po_maint_ticks p = po_maint_ticks (m_poller m)" "po_force_blocking p = (changed \<or> po_force_blocking (m_poller m))"
    "po_cycles p = po_cycles (m_poller m)"
proof -
  obtain w r where r: "en_sync_connection env (m_world m) = (w, r)" by force
  show thesis
  proof (cases "r = Inr True")
    case True
    then show thesis
      using that [where p = "(m_poller m)\<lparr>po_pull := forget_local (po_pull (m_poller m)), po_machine_client := None, po_force_blocking := True\<rparr>" and w = w and changed = True]
      by (simp add: sync_connection_def r assign_def note_call_def)
  next
    case False
    then have "sync_connection env m = (m\<lparr>m_poller := m_poller m, m_world := w, m_trace := m_trace m @ Job Connection_sync # []\<rparr>, None)"
      by (cases r) (simp_all add: sync_connection_def r split: bool.split)
    then show thesis using that [where p = "m_poller m" and w = w and changed = False] by simp
  qed
qed

lemma check_blocking_trace:
  obtains w p where "check_blocking env n m = (m\<lparr>m_poller := p, m_world := w, m_trace := m_trace m @
      (if n mod 6 = 0 \<or> po_force_blocking (m_poller m) then [Job Blocking_refresh] else [])\<rparr>, None)"
    "po_maint_ticks p = po_maint_ticks (m_poller m)" "\<not> po_force_blocking p" "po_cycles p = po_cycles (m_poller m)"
proof (cases "n mod 6 = 0 \<or> po_force_blocking (m_poller m)")
  case True
  then show thesis
    using that [where p = "(m_poller m)\<lparr>po_force_blocking := False\<rparr>" and w = "fst (en_job env Blocking_refresh (m_world m))"]
    by (auto simp: check_blocking_def with_self_def when_stmt_def assign_def)
next
  case False
  then have "check_blocking env n m = (m\<lparr>m_poller := m_poller m, m_world := m_world m, m_trace := m_trace m @ []\<rparr>, None)"
    by (simp add: check_blocking_def with_self_def when_stmt_def)
  with False show thesis using that [where p = "m_poller m" and w = "m_world m"] by simp
qed

lemma maintenance_trace:
  assumes "en_read env ''disk.check_every_cycles'' (fst (en_job env Wal_guard (m_world m))) = Inr v"
    and "\<not> po_force_blocking (m_poller m)" and "n = po_maint_ticks (m_poller m)"
  obtains m' t where "maintenance env m = (m', None)" "m_trace m' = m_trace m @ t"
    "jobs_of t = maintenance_due v n (Connection_changed \<in> set t)"
    "po_maint_ticks (m_poller m') = n + 1" "\<not> po_force_blocking (m_poller m')" "po_cycles (m_poller m') = po_cycles (m_poller m)"
proof -
  let ?m0 = "m\<lparr>m_poller := (m_poller m)\<lparr>po_maint_ticks := n + 1\<rparr>\<rparr>"
  have read: "en_read env ''disk.check_every_cycles'' (fst (en_job env Wal_guard (m_world ?m0))) = Inr v" using assms(1) by simp
  obtain w1 where 1: "check_disk env n ?m0 = (?m0\<lparr>m_world := w1, m_trace := m_trace ?m0 @ Job Wal_guard #
      (if 1 \<le> cadence 6 v \<and> int n mod cadence 6 v = 0 then [Job Disk_check] else [])\<rparr>, None)" (is "_ = (?m1, None)")
    by (rule check_disk_trace [OF read])
  obtain w2 where 2: "run_retention env n ?m1 = (?m1\<lparr>m_world := w2, m_trace := m_trace ?m1 @
      (if n mod 360 = 0 then [Job Retention_prune, Job Hygiene_check] else [])\<rparr>, None)" (is "_ = (?m2, None)")
    by (rule run_retention_trace)
  obtain w3 p3 changed where 3: "sync_connection env ?m2 = (?m2\<lparr>m_poller := p3, m_world := w3, m_trace := m_trace ?m2 @ Job Connection_sync #
      (if changed then [Connection_changed] else [])\<rparr>, None)" (is "_ = (?m3, None)")
    and p3: "po_maint_ticks p3 = po_maint_ticks (m_poller ?m2)" "po_force_blocking p3 = (changed \<or> po_force_blocking (m_poller ?m2))"
      "po_cycles p3 = po_cycles (m_poller ?m2)"
    by (rule sync_connection_trace)
  obtain w4 p4 where 4: "check_blocking env n ?m3 = (?m3\<lparr>m_poller := p4, m_world := w4, m_trace := m_trace ?m3 @
      (if n mod 6 = 0 \<or> po_force_blocking (m_poller ?m3) then [Job Blocking_refresh] else [])\<rparr>, None)" (is "_ = (?m4, None)")
    and p4: "po_maint_ticks p4 = po_maint_ticks (m_poller ?m3)" "\<not> po_force_blocking p4" "po_cycles p4 = po_cycles (m_poller ?m3)"
    by (rule check_blocking_trace)
  show thesis
  proof (rule that [of ?m4 "(Job Wal_guard # (if 1 \<le> cadence 6 v \<and> int n mod cadence 6 v = 0 then [Job Disk_check] else []))
        @ (if n mod 360 = 0 then [Job Retention_prune, Job Hygiene_check] else [])
        @ (Job Connection_sync # (if changed then [Connection_changed] else []))
        @ (if n mod 6 = 0 \<or> changed then [Job Blocking_refresh] else [])"])
    show "maintenance env m = (?m4, None)"
      using 1 2 3 4 assms(3) by (simp add: maintenance_def with_self_def Let_def assign_def)
  qed (use p3 p4 assms(2) in \<open>simp_all add: maintenance_due_def\<close>)
qed

text \<open>A settings table that cannot be read ends the tick after the WAL guard.\<close>
lemma maintenance_unreadable:
  assumes "en_read env ''disk.check_every_cycles'' (fst (en_job env Wal_guard (m_world m))) = Inl e"
  shows "maintenance env m = (m\<lparr>m_poller := (m_poller m)\<lparr>po_maint_ticks := po_maint_ticks (m_poller m) + 1\<rparr>,
    m_world := fst (en_job env Wal_guard (m_world m)), m_trace := m_trace m @ [Job Wal_guard]\<rparr>, Some e)"
  by (simp add: maintenance_def with_self_def assign_def check_disk_def reading_def asking_def assms Let_def)

lemma upkeep_rest: "upkeep.inside (run_stmts [read_knobs env, cycle env started])"
  by (intro upkeep.inside_rules upkeep.inside_read_knobs upkeep_cycle)

lemma loop_step_frame:
  assumes "maintenance env m = (m', e)"
  shows "upkeep.frame m' (loop_step env m)"
proof -
  let ?started = "en_now env (m_world m)"
  have tick: "poller_tick env m = (if e = None then run_stmts [read_knobs env, cycle env ?started] m' else (m', e))"
    using assms by (simp add: poller_tick_def at_now_def split: option.split)
  have "upkeep.frame m' (fst (run_stmts [read_knobs env, cycle env ?started] m'))"
    using upkeep_rest upkeep.inside_def by blast
  then have "upkeep.frame m' (fst (poller_tick env m))" by (simp add: tick del: run_stmts.simps)
  moreover have "upkeep.frame m1 (fst (assign (\<lambda>p. p\<lparr>po_last_cycle_ok := False, po_last_error := s\<rparr>) m1))" for m1 :: "'a machine" and s
    using upkeep.inside_failed upkeep.inside_def by blast
  ultimately show ?thesis
    unfolding loop_step_def by (cases "poller_tick env m") (auto split: option.split intro: upkeep.frame_trans)
qed

lemma loop_step_counter:
  assumes "\<not> po_force_blocking (m_poller m)"
  shows "po_maint_ticks (m_poller (loop_step env m)) = po_maint_ticks (m_poller m) + 1"
    "\<not> po_force_blocking (m_poller (loop_step env m))"
proof -
  have *: "po_maint_ticks (m_poller (fst (maintenance env m))) = po_maint_ticks (m_poller m) + 1
      \<and> \<not> po_force_blocking (m_poller (fst (maintenance env m)))"
  proof (cases "en_read env ''disk.check_every_cycles'' (fst (en_job env Wal_guard (m_world m)))")
    case (Inl e)
    then show ?thesis using assms by (simp add: maintenance_unreadable)
  next
    case (Inr v)
    then show ?thesis by (rule maintenance_trace [OF _ assms refl]) simp
  qed
  obtain m' e where "maintenance env m = (m', e)" by force
  with * loop_step_frame [OF this] show "po_maint_ticks (m_poller (loop_step env m)) = po_maint_ticks (m_poller m) + 1"
    "\<not> po_force_blocking (m_poller (loop_step env m))"
    by (auto simp: upkeep.frame_def)
qed

definition started :: "poller \<Rightarrow> 'w \<Rightarrow> 'w machine" where
  "started p w = \<lparr>m_poller = p, m_world = w, m_trace = []\<rparr>"

lemma loop_counters:
  "po_maint_ticks (m_poller ((loop_step env ^^ n) (started (new_poller i d b) w))) = n
    \<and> \<not> po_force_blocking (m_poller ((loop_step env ^^ n) (started (new_poller i d b) w)))"
  by (induction n) (simp_all add: started_def new_poller_def loop_step_counter)

text \<open>(C18) Maintenance is not starved: in round \<open>n\<close> of the poller's loop, counted from its start and whatever raised in this
  round or before, the WAL guard runs; the disk check runs exactly when \<open>n\<close> is a multiple of its cadence, which is 6
  unless the setting says otherwise; the retention sweep and the hygiene check every 360 rounds; the connection is synchronised; and the
  blocking check runs every 6 rounds and in every round that found the connection changed. The jobs run in this order, each once, provided
  the setting that holds the cadence can be read.\<close>
theorem maintenance_never_starved:
  assumes "m = (loop_step env ^^ n) (started (new_poller i d b) w)"
    and "en_read env ''disk.check_every_cycles'' (fst (en_job env Wal_guard (m_world m))) = Inr v"
  shows "\<exists>t. m_trace (loop_step env m) = m_trace m @ t
    \<and> filter is_maintenance (jobs_of t) =
        Wal_guard # (if 1 \<le> cadence 6 v \<and> int n mod cadence 6 v = 0 then [Disk_check] else [])
        @ (if n mod 360 = 0 then [Retention_prune, Hygiene_check] else [])
        @ Connection_sync # (if n mod 6 = 0 \<or> Connection_changed \<in> set t then [Blocking_refresh] else [])"
proof -
  have "\<not> po_force_blocking (m_poller m)" "n = po_maint_ticks (m_poller m)"
    using loop_counters [of n env i d b w] assms(1) by simp_all
  then obtain m' t where m': "maintenance env m = (m', None)" "m_trace m' = m_trace m @ t"
      "jobs_of t = maintenance_due v n (Connection_changed \<in> set t)"
    using maintenance_trace [OF assms(2)] by metis
  obtain u where u: "m_trace (loop_step env m) = m_trace m' @ u" "list_all outside_maintenance u"
    using loop_step_frame [OF m'(1)] unfolding upkeep.frame_def by blast
  then have "m_trace (loop_step env m) = m_trace m @ (t @ u)" "filter is_maintenance (jobs_of (t @ u)) = maintenance_due v n (Connection_changed \<in> set (t @ u))"
    using m' outside_maintenance_jobs [OF u(2)] by simp_all
  then show ?thesis unfolding maintenance_due_def by blast
qed

section \<open>The scheduled jobs of a cycle\<close>

text \<open>The second frame: statements that start no job and keep the cycle counter.\<close>
fun no_job :: "poller_call \<Rightarrow> bool" where
  "no_job (Job j) = False"
| "no_job Connection_changed = False"
| "no_job _ = True"

interpretation idle: call_frame no_job po_cycles
  by unfold_locales simp_all

lemma no_job_jobs: "list_all no_job t \<Longrightarrow> jobs_of t = []"
  by (induction t rule: jobs_of.induct) auto

lemma idle_jobs: "idle.inside x \<Longrightarrow> jobs_of (m_trace (fst (x m))) = jobs_of (m_trace m) \<and> po_cycles (m_poller (fst (x m))) = po_cycles (m_poller m)"
  unfolding idle.inside_def idle.frame_def using no_job_jobs by (metis append_Nil2 jobs_of_append)

text \<open>What does not raise: the calls outside a \<open>try\<close>.\<close>
definition reads_succeed :: "'w poller_env \<Rightarrow> bool" where
  "reads_succeed env = ((\<forall>k w. \<exists>v. en_read env k w = Inr v) \<and> (\<forall>w. \<exists>n. en_count_active env w = Inr n))"

definition writes_succeed :: "'w poller_env \<Rightarrow> bool" where
  "writes_succeed env = ((\<forall>k v w. snd (en_write env k v w) = None) \<and> (\<forall>s st w. \<exists>r. snd (en_pull_source env s (st, w)) = Inr r))"

text \<open>A statement that returns, and the jobs it starts in cycle \<open>c\<close>, the destination probe with its own cadence aside.\<close>
definition performs :: "'w pstmt \<Rightarrow> (nat \<Rightarrow> job list) \<Rightarrow> bool" where
  "performs x js = (\<forall>m. snd (x m) = None \<and> po_cycles (m_poller (fst (x m))) = po_cycles (m_poller m)
     \<and> filter (\<lambda>j. j \<noteq> Destination_probe) (jobs_of (m_trace (fst (x m))))
        = filter (\<lambda>j. j \<noteq> Destination_probe) (jobs_of (m_trace m)) @ js (po_cycles (m_poller m)))"

lemma performs_seq:
  "performs (run_stmts []) (\<lambda>_. [])"
  "performs x js \<Longrightarrow> performs (run_stmts xs) ks \<Longrightarrow> performs (run_stmts (x # xs)) (\<lambda>c. js c @ ks c)"
  unfolding performs_def run_stmts_Cons by simp_all

lemma performs_idle: "idle.inside x \<Longrightarrow> (\<And>m. snd (x m) = None) \<Longrightarrow> performs x (\<lambda>_. [])"
  using idle_jobs [of x] by (simp add: performs_def)

lemma performs_run_job: "j \<noteq> Destination_probe \<Longrightarrow> performs (try_stmt (run_job env j)) (\<lambda>_. [j])"
proof -
  assume j: "j \<noteq> Destination_probe"
  have block: "performs (try_stmt (run_stmts [note_call (Job j), x])) (\<lambda>_. [j])" if "idle.inside x" for x :: "'a pstmt"
    unfolding performs_def try_stmt_def run_stmts_Cons using idle_jobs [OF that] j by (simp add: note_call_def)
  have "performs (try_stmt (call_job env j)) (\<lambda>_. [j])" using j by (simp add: performs_def)
  then show ?thesis
    using block [OF idle.inside_mirror_alerts] block [OF idle.inside_dr_reminder]
    by (cases j) (simp_all add: run_job_def)
qed

lemma performs_every: "j \<noteq> Destination_probe \<Longrightarrow> performs (every env n j) (\<lambda>c. if c mod n = 0 then [j] else [])"
  using performs_run_job [of j env] by (simp add: performs_def every_def with_self_def when_stmt_def)

lemma performs_schedule:
  assumes "Destination_probe \<notin> snd ` set xs" and "performs (run_stmts ys) ks"
  shows "performs (run_stmts (map (\<lambda>(n, j). every env n j) xs @ ys)) (\<lambda>c. map snd (filter (\<lambda>(n, j). c mod n = 0) xs) @ ks c)"
  using assms
proof (induction xs)
  case (Cons p xs)
  obtain n j where p: "p = (n, j)" by force
  have "performs (run_stmts (every env n j # map (\<lambda>(n, j). every env n j) xs @ ys))
      (\<lambda>c. (if c mod n = 0 then [j] else []) @ (map snd (filter (\<lambda>(n, j). c mod n = 0) xs) @ ks c))"
    using Cons p by (intro performs_seq performs_every) auto
  moreover have "(\<lambda>c. (if c mod n = 0 then [j] else []) @ (map snd (filter (\<lambda>(n, j). c mod n = 0) xs) @ ks c)) =
      (\<lambda>c. map snd (filter (\<lambda>(n, j). c mod n = 0) (p # xs)) @ ks c)"
    by (auto simp: p)
  ultimately show ?case by (simp only: p list.map append_Cons prod.case)
qed simp

lemma performs_scheduled:
  assumes "reads_succeed env"
  shows "performs (scheduled env) (\<lambda>c. map snd (filter (\<lambda>(n, j). c mod n = 0) (SCHEDULE @ [(360, Auto_rebaseline)])))"
proof -
  have "performs (probe env) (\<lambda>_. [])"
    unfolding performs_def
  proof
    fix m :: "'a machine"
    obtain v where "en_read env ''litestream.probe_every_cycles'' (m_world m) = Inr v" using assms reads_succeed_def by metis
    then show "snd (probe env m) = None \<and> po_cycles (m_poller (fst (probe env m))) = po_cycles (m_poller m)
        \<and> filter (\<lambda>j. j \<noteq> Destination_probe) (jobs_of (m_trace (fst (probe env m))))
          = filter (\<lambda>j. j \<noteq> Destination_probe) (jobs_of (m_trace m)) @ []"
      by (simp add: probe_def reading_def asking_def with_self_def Let_def when_stmt_def)
  qed
  then have "performs (run_stmts [probe env, every env 360 Auto_rebaseline]) (\<lambda>c. [] @ (if c mod 360 = 0 then [Auto_rebaseline] else []) @ [])"
    by (intro performs_seq performs_every) simp_all
  then have "performs (scheduled env) (\<lambda>c. map snd (filter (\<lambda>(n, j). c mod n = 0) SCHEDULE) @ [] @ (if c mod 360 = 0 then [Auto_rebaseline] else []) @ [])"
    unfolding scheduled_def by (intro performs_schedule) (auto simp: SCHEDULE_def)
  moreover have "(\<lambda>c. map snd (filter (\<lambda>(n, j). c mod n = 0) SCHEDULE) @ [] @ (if c mod 360 = 0 then [Auto_rebaseline] else []) @ []) =
      (\<lambda>c. map snd (filter (\<lambda>(n, j). c mod n = 0) (SCHEDULE @ [(360, Auto_rebaseline)])))"
    by auto
  ultimately show ?thesis by simp
qed

text \<open>Statements that return when the calls outside a \<open>try\<close> do.\<close>
definition returns :: "'w pstmt \<Rightarrow> bool" where
  "returns x = (\<forall>m. snd (x m) = None)"

lemma returns_rules:
  "returns (\<lambda>m. (m, None))"
  "returns (run_stmts [])"
  "returns x \<Longrightarrow> returns (run_stmts xs) \<Longrightarrow> returns (run_stmts (x # xs))"
  "returns (try_stmt y)"
  "returns x \<Longrightarrow> returns (when_stmt b x)"
  "returns (assign f)"
  "(\<And>t. returns (l t)) \<Longrightarrow> returns (at_now env l)"
  "(\<And>p. returns (s p)) \<Longrightarrow> returns (with_self s)"
  "returns x \<Longrightarrow> (\<And>a. returns (g a)) \<Longrightarrow> returns (case v of None \<Rightarrow> x | Some a \<Rightarrow> g a)"
  unfolding returns_def run_stmts_Cons
  by (simp_all add: try_stmt_def when_stmt_def assign_def at_now_def with_self_def split: option.split)

lemma returns_reading: "reads_succeed env \<Longrightarrow> (\<And>v. returns (f v)) \<Longrightarrow> returns (reading env key f)"
  unfolding returns_def reading_def asking_def reads_succeed_def by (metis sum.simps(6))

lemma returns_write: "writes_succeed env \<Longrightarrow> returns (write_setting env k v)"
  by (simp add: returns_def writes_succeed_def write_setting_def effect_def case_prod_beta)

lemma returns_read_knobs: "reads_succeed env \<Longrightarrow> returns (read_knobs env)"
  unfolding read_knobs_def by (intro returns_rules returns_reading)

lemma returns_stamp_cycle: "writes_succeed env \<Longrightarrow> returns (stamp_cycle env n)"
  unfolding stamp_cycle_def by (intro returns_rules returns_write)

lemma returns_mt_snapshot: "writes_succeed env \<Longrightarrow> returns (mt_snapshot env)"
  using returns_write [of env "''mt.last_status''" "''unknown''"]
  by (simp add: returns_def mt_snapshot_def case_prod_beta split: option.split)

lemma pull_all_results:
  assumes "writes_succeed env"
  shows "\<exists>m' rs. pull_all env ss m = (m', Inr rs) \<and> po_cycles (m_poller m') = po_cycles (m_poller m) \<and> jobs_of (m_trace m') = jobs_of (m_trace m)"
proof -
  have "\<exists>rs. snd (pull_all env ss m) = Inr rs"
  proof (induction ss arbitrary: m)
    case (Cons s ss)
    obtain st w r where r: "en_pull_source env s (po_pull (m_poller m), m_world m) = ((st, w), r)" by (metis surj_pair)
    then have "\<exists>x. r = Inr x" using assms writes_succeed_def by (metis snd_conv)
    then show ?case
      using Cons [of "m\<lparr>m_poller := (m_poller m)\<lparr>po_pull := st\<rparr>, m_world := w, m_trace := m_trace m @ [Pull (s_name s)]\<rparr>"]
      by (auto simp: r case_prod_beta)
  qed simp
  moreover have "idle.frame m (fst (pull_all env ss m))" by (rule idle.frame_pull_all)
  ultimately show ?thesis
    unfolding idle.frame_def by (metis append_Nil2 jobs_of_append no_job_jobs prod.collapse)
qed

lemma performs_cycle:
  assumes "reads_succeed env" "writes_succeed env" "en_list_sources env (m_world m) = Inr ss" "ss \<noteq> []"
  shows "snd (cycle env st m) = None \<and> po_cycles (m_poller (fst (cycle env st m))) = po_cycles (m_poller m) + 1
    \<and> filter (\<lambda>j. j \<noteq> Destination_probe) (jobs_of (m_trace (fst (cycle env st m)))) = filter (\<lambda>j. j \<noteq> Destination_probe) (jobs_of (m_trace m))
        @ map snd (filter (\<lambda>(n, j). (po_cycles (m_poller m) + 1) mod n = 0) (SCHEDULE @ [(360, Auto_rebaseline)]))"
proof -
  obtain m1 rs where p: "pull_all env (active_sources (en_now env (m_world m)) ss) m = (m1, Inr rs)"
      "po_cycles (m_poller m1) = po_cycles (m_poller m)" "jobs_of (m_trace m1) = jobs_of (m_trace m)"
    using pull_all_results [OF assms(2)] by blast
  obtain n where n: "en_count_active env (m_world m1) = Inr n" using assms(1) reads_succeed_def by metis
  have 1: "snd (pull_and_count env ss m) = None" "po_cycles (m_poller (fst (pull_and_count env ss m))) = po_cycles (m_poller m) + 1"
      "jobs_of (m_trace (fst (pull_and_count env ss m))) = jobs_of (m_trace m)"
    using p by (simp_all add: pull_and_count_def at_now_def pulling_def asking_def n assign_def Let_def)
  have "idle.inside (try_stmt (reconcile_step env))" "idle.inside (stamp_cycle env (length ss))" "idle.inside (mt_snapshot env)"
    by (intro idle.inside_rules idle.inside_reconcile_step idle.inside_stamp_cycle idle.inside_mt_snapshot)+
  then have "performs (run_stmts [try_stmt (reconcile_step env), stamp_cycle env (length ss), mt_snapshot env, scheduled env])
      (\<lambda>c. [] @ [] @ [] @ map snd (filter (\<lambda>(n, j). c mod n = 0) (SCHEDULE @ [(360, Auto_rebaseline)])) @ [])"
    using returns_stamp_cycle [OF assms(2)] returns_mt_snapshot [OF assms(2)]
    by (intro performs_seq performs_idle performs_scheduled [OF assms(1)]) (auto simp: returns_def try_stmt_def)
  then have "performs (run_stmts [try_stmt (reconcile_step env), stamp_cycle env (length ss), mt_snapshot env, scheduled env])
      (\<lambda>c. map snd (filter (\<lambda>(n, j). c mod n = 0) (SCHEDULE @ [(360, Auto_rebaseline)])))" by simp
  moreover have "cycle env st m = run_stmts [try_stmt (reconcile_step env), stamp_cycle env (length ss), mt_snapshot env, scheduled env]
      (fst (pull_and_count env ss m))"
    unfolding cycle_def asking_def assms(3) using 1(1) assms(4) by (simp add: run_stmts_Cons del: run_stmts.simps)
  ultimately show ?thesis using 1 unfolding performs_def by simp
qed

lemma loop_step_returns:
  assumes env: "reads_succeed env" "writes_succeed env" "\<forall>w. \<exists>ss. ss \<noteq> [] \<and> en_list_sources env w = Inr ss"
    and m: "\<not> po_force_blocking (m_poller m)"
  obtains t where "poller_tick env m = (loop_step env m, None)" "po_cycles (m_poller (loop_step env m)) = po_cycles (m_poller m) + 1"
    "m_trace (loop_step env m) = m_trace m @ t"
    "filter (\<lambda>j. \<not> is_maintenance j \<and> j \<noteq> Destination_probe) (jobs_of t)
      = map snd (filter (\<lambda>(k, j). (po_cycles (m_poller m) + 1) mod k = 0) (SCHEDULE @ [(360, Auto_rebaseline)]))"
proof -
  let ?st = "en_now env (m_world m)"
  let ?keep = "\<lambda>js. filter (\<lambda>j. \<not> is_maintenance j \<and> j \<noteq> Destination_probe) js"
  obtain v where v: "en_read env ''disk.check_every_cycles'' (fst (en_job env Wal_guard (m_world m))) = Inr v"
    using env(1) reads_succeed_def by metis
  obtain m1 t1 where m1: "maintenance env m = (m1, None)" "m_trace m1 = m_trace m @ t1"
      "jobs_of t1 = maintenance_due v (po_maint_ticks (m_poller m)) (Connection_changed \<in> set t1)" "po_cycles (m_poller m1) = po_cycles (m_poller m)"
    using maintenance_trace [OF v m refl] by metis
  let ?m2 = "fst (read_knobs env m1)"
  have m2: "snd (read_knobs env m1) = None" "jobs_of (m_trace ?m2) = jobs_of (m_trace m1)" "po_cycles (m_poller ?m2) = po_cycles (m_poller m1)"
    using returns_read_knobs [OF env(1)] idle_jobs [OF idle.inside_read_knobs, of env m1] by (auto simp: returns_def)
  obtain ss where ss: "ss \<noteq> []" "en_list_sources env (m_world ?m2) = Inr ss" using env(3) by blast
  note c = performs_cycle [OF env(1,2) ss(2,1), of ?st]
  have tick: "poller_tick env m = cycle env ?st ?m2"
    using m1(1) m2(1) c
    unfolding poller_tick_def at_now_def run_stmts_Cons by (auto simp: prod_eq_iff)
  then have step: "loop_step env m = fst (cycle env ?st ?m2)" "poller_tick env m = (loop_step env m, None)"
    using c by (auto simp: loop_step_def prod_eq_iff split: prod.split option.split)
  obtain t where t: "m_trace (loop_step env m) = m_trace m @ t"
    using loop_step_frame [OF m1(1)] m1(2) unfolding upkeep.frame_def by auto
  have "?keep (jobs_of (m_trace (loop_step env m)))
      = filter (\<lambda>j. \<not> is_maintenance j) (filter (\<lambda>j. j \<noteq> Destination_probe) (jobs_of (m_trace (loop_step env m))))"
    by (simp add: conj_commute)
  also have "\<dots> = ?keep (jobs_of (m_trace m)) @ map snd (filter (\<lambda>(k, j). (po_cycles (m_poller m) + 1) mod k = 0) (SCHEDULE @ [(360, Auto_rebaseline)]))"
  proof -
    have "filter (\<lambda>j. \<not> is_maintenance j) (map snd (filter Q (SCHEDULE @ [(360, Auto_rebaseline)]))) = map snd (filter Q (SCHEDULE @ [(360, Auto_rebaseline)]))" for Q
      by (auto simp: filter_id_conv SCHEDULE_def)
    then show ?thesis
      using c m1 m2 by (simp add: step(1) conj_commute maintenance_due_def)
  qed
  finally show thesis using that t step c m1 m2 by simp
qed

lemma loop_cycles:
  assumes env: "reads_succeed env" "writes_succeed env" "\<forall>w. \<exists>ss. ss \<noteq> [] \<and> en_list_sources env w = Inr ss"
  shows "po_cycles (m_poller ((loop_step env ^^ n) (started (new_poller i d b) w))) = n"
proof (induction n)
  case (Suc n)
  have "\<not> po_force_blocking (m_poller ((loop_step env ^^ n) (started (new_poller i d b) w)))" by (simp add: loop_counters)
  then show ?case using Suc loop_step_returns [OF env] by (metis Suc_eq_plus1 comp_apply funpow.simps(2))
qed (simp add: started_def new_poller_def)


text \<open>The reminder is never sent on an installation that has not completed a drill yet: the empty stamp of no drill equals the empty
  setting of no reminder.\<close>
lemma never_drilled_never_reminded:
  assumes "en_last_drill env (m_world m) = Inr None" "en_read env ''dr_drill.last_reminder_at'' (m_world m) = Inr None"
    and "en_read env ''dr_drill.reminder_enabled'' (m_world m) = Inr v"
  shows "dr_reminder env m = (m, None)"
  using assms by (simp add: dr_reminder_def reading_def asking_def at_now_def when_stmt_def Let_def)

section \<open>Examples\<close>

text \<open>A world in which every job and message raises; with \<open>full\<close>, also every write, pull and query.\<close>
definition failing_env :: "bool \<Rightarrow> unit poller_env" where
  "failing_env full =
     (let err = RuntimeErr ''database or disk is full''
      in \<lparr>en_environ = Map.empty, en_now = \<lambda>_. 0, en_read = \<lambda>_ _. Inr None,
          en_write = \<lambda>_ _ w. (w, if full then Some err else None), en_emit = \<lambda>_ w. (w, Some err),
          en_sync_connection = \<lambda>w. (w, Inl err),
          en_list_sources = \<lambda>_. if full then Inl err else Inr [remote],
          en_pull_source = \<lambda>s w. (w, if full then Inl err else Inr \<lparr>pl_name = s_name s, pl_ok = False, pl_error = ''down'', pl_count = 0, pl_duration_ms = 1\<rparr>),
          en_count_active = \<lambda>_. if full then Inl err else Inr 0,
          en_reconcile_once = \<lambda>_ _ w. (w, Inl err), en_loads = \<lambda>_. None, en_dumps = \<lambda>_. [], en_get_threshold = \<lambda>_. Inl err,
          en_mt_health = \<lambda>w. (w, Inl err), en_alerts = \<lambda>c w. (w, c, Inl err), en_upsert_alert = \<lambda>_ _ w. (w, Some err),
          en_last_drill = \<lambda>_. Inl err, en_job = \<lambda>_ w. (w, Some err)\<rparr>)"

theorem maintenance_never_starved_witness:
  "\<exists>t. m_trace (loop_step (failing_env True) ((loop_step (failing_env True) ^^ 6) (started (new_poller 10 True 200) ())))
      = m_trace ((loop_step (failing_env True) ^^ 6) (started (new_poller 10 True 200) ())) @ t
    \<and> filter is_maintenance (jobs_of t) = [Wal_guard, Disk_check, Connection_sync, Blocking_refresh]"
proof -
  have "cadence 6 None = 6" by code_simp
  moreover have "en_read (failing_env True) ''disk.check_every_cycles'' x = Inr None" for x by (simp add: failing_env_def Let_def)
  ultimately show ?thesis
    using maintenance_never_starved [OF refl, where env = "failing_env True" and n = 6 and v = None and i = 10 and d = True and b = 200 and w = "()"]
    by simp
qed


end
