(* ===== verification/Audit_Log.thy ===== *)
theory Audit_Log
  imports Store
begin

text \<open>
  The operator-action trail (\<open>audit.py\<close>). \<open>record\<close> is best effort: the argument \<open>db_ok\<close> tells whether the insert
  went through, \<open>siem_ok\<close> whether the mirrored event could be shipped; neither failure reaches the caller.
  The cut of the JSON columns at 4000 characters is not modelled, since the columns are kept as data.
\<close>

record audit_entry =
  en_action :: string
  en_actor :: string
  en_ip :: string
  en_target :: string
  en_before :: "(string \<times> string option) list"
  en_after :: "(string \<times> string option) list"
  en_note :: string

definition audit_record :: "bool \<Rightarrow> bool \<Rightarrow> instant \<Rightarrow> audit_entry \<Rightarrow> audit_row auto_table \<Rightarrow> audit_row auto_table \<times> event list \<times> nat option" where
  "audit_record db_ok siem_ok now e t =
     (if \<not> db_ok then (t, [], None)
      else case insert_row \<lparr>au_created_at = now, au_actor = en_actor e, au_ip = en_ip e, au_action = en_action e, au_target = en_target e,
                             au_before = en_before e, au_after = en_after e, au_note = en_note e\<rparr> t of
             (t1, i) \<Rightarrow>
               (t1,
                if siem_ok then [Ship ''settings.changed'' [(''action'', Some (en_action e)), (''actor'', Some (en_actor e)), (''ip'', Some (en_ip e)),
                                   (''target'', Some (en_target e)), (''note'', Some (en_note e))]] else [],
                Some i))"

text \<open>SQLite's \<open>LIKE\<close>: \<open>%\<close> matches any text, \<open>_\<close> any character, and letters match in either case.\<close>
fun sql_like :: "string \<Rightarrow> string \<Rightarrow> bool" where
  "sql_like [] s = (s = [])"
| "sql_like (p # ps) s =
     (if p = CHR ''%'' then list_ex (sql_like ps) (suffixes s)
      else case s of [] \<Rightarrow> False | c # cs \<Rightarrow> (p = CHR ''_'' \<or> py_lower_char p = py_lower_char c) \<and> sql_like ps cs)"

text \<open>\<open>recent\<close>: the newest rows, those whose action contains the filter.\<close>
definition audit_recent :: "nat \<Rightarrow> string \<Rightarrow> audit_row auto_table \<Rightarrow> (nat \<times> audit_row) list" where
  "audit_recent limit action_filter t =
     take limit (rev (select_rows (\<lambda>_ r. action_filter = [] \<or> sql_like (''%'' @ action_filter @ ''%'') (au_action r)) t))"

section \<open>The trail only grows\<close>

lemma audit_record_appends:
  "audit_record db_ok siem_ok now e t = (t', es, i) \<Longrightarrow>
     rows t' = rows t @ (case i of None \<Rightarrow> [] | Some k \<Rightarrow> [(k, \<lparr>au_created_at = now, au_actor = en_actor e, au_ip = en_ip e, au_action = en_action e,
       au_target = en_target e, au_before = en_before e, au_after = en_after e, au_note = en_note e\<rparr>)])
     \<and> (i = None \<longleftrightarrow> \<not> db_ok)"
  by (auto simp: audit_record_def insert_row_def Let_def split: if_splits)

lemma sql_like_any: "sql_like ''%'' s"
proof -
  have "[] \<in> set (suffixes s)" by simp
  then show ?thesis unfolding sql_like.simps list_ex_iff by simp
qed

text \<open>A filter without wildcards selects the actions that contain it in any case.\<close>
lemma sql_like_plain:
  assumes "CHR ''%'' \<notin> set f" "CHR ''_'' \<notin> set f"
  shows "sql_like (f @ ''%'') s \<longleftrightarrow> prefix (py_lower f) (py_lower s)"
  using assms
proof (induction f arbitrary: s)
  case (Cons p f)
  show ?case
  proof (cases s)
    case Nil
    then show ?thesis using Cons.prems by (auto simp: py_lower_def)
  next
    case (Cons c cs)
    then show ?thesis using Cons.IH [of cs] Cons.prems by (auto simp: py_lower_def)
  qed
qed (simp only: append_Nil sql_like_any, simp add: py_lower_def)

lemma sql_like_contains:
  assumes "CHR ''%'' \<notin> set f" "CHR ''_'' \<notin> set f"
  shows "sql_like (''%'' @ f @ ''%'') s \<longleftrightarrow> sublist (py_lower f) (py_lower s)"
proof -
  have "sql_like (''%'' @ f @ ''%'') s \<longleftrightarrow> (\<exists>t \<in> set (suffixes s). prefix (py_lower f) (py_lower t))"
    by (simp add: list_ex_iff sql_like_plain [OF assms])
  also have "\<dots> \<longleftrightarrow> sublist (py_lower f) (py_lower s)"
  proof
    assume "\<exists>t \<in> set (suffixes s). prefix (py_lower f) (py_lower t)"
    then obtain t u where "s = u @ t" "prefix (py_lower f) (py_lower t)" by (auto simp: suffix_def)
    then have "py_lower s = py_lower u @ py_lower t" "sublist (py_lower f) (py_lower t)" by (auto simp: py_lower_def)
    then show "sublist (py_lower f) (py_lower s)" by (simp add: sublist_append)
  next
    assume "sublist (py_lower f) (py_lower s)"
    then obtain u v where "map py_lower_char s = u @ (py_lower f @ v)" unfolding py_lower_def sublist_def by auto
    from iffD1 [OF map_eq_append_conv this] obtain a b where "s = a @ b" "map py_lower_char b = py_lower f @ v" by auto
    then have "b \<in> set (suffixes s)" "py_lower b = py_lower f @ v" by (simp_all add: py_lower_def suffix_def)
    then show "\<exists>t \<in> set (suffixes s). prefix (py_lower f) (py_lower t)" by (intro bexI [of _ b]) simp_all
  qed
  finally show ?thesis .
qed

end
