(* ===== verification/Asn_Detector.thy ===== *)
theory Asn_Detector
  imports Reconciler Audit_Log
begin

text \<open>
  The detector of autonomous systems with many banned addresses (\<open>asn_detector.py\<close>): the suggestions
  it queues for the operator and the operator's decision. A decision is recorded in the audit trail, which is best effort:
  \<open>db_ok\<close> and \<open>siem_ok\<close> tell whether that write and the event with it succeeded. The columns \<open>asn\<close> and \<open>as_org\<close> of the
  decisions table, which the enrichment fills, are a function of the row id. Groups with the same number of
  addresses, and the samples within a group, come in an order that SQLite leaves open; here they come by name and by row.
\<close>

section \<open>Operations\<close>

datatype escalation_status = E_pending | E_approved | E_rejected

record escalation =
  es_asn :: string
  es_as_org :: string
  es_ip_count :: nat
  es_window_hours :: int
  es_sample_ips :: "string list"
  es_first_seen_at :: instant
  es_last_seen_at :: instant
  es_status :: escalation_status
  es_decided_by :: string
  es_decided_at :: "instant option"
  es_note :: string

record asn_db =
  ad_store :: store
  ad_asn :: "nat \<Rightarrow> string \<times> string"
  ad_escalations :: "escalation auto_table"
  ad_audit :: "audit_row auto_table"

definition asn_setting_int :: "store \<Rightarrow> string \<Rightarrow> int \<Rightarrow> int" where
  "asn_setting_int db key dflt =
     (case get_setting key db of
        None \<Rightarrow> dflt
      | Some v \<Rightarrow> if v = [] then dflt else case py_int v of Some n \<Rightarrow> n | None \<Rightarrow> dflt)"

text \<open>The live rows of the window that name an autonomous system, as pairs of that name and the row id.\<close>
definition window_ids :: "instant \<Rightarrow> asn_db \<Rightarrow> (string \<times> nat \<times> decision_row) list" where
  "window_ids since d =
     filter (\<lambda>(a, i, r). a \<noteq> [])
       (map (\<lambda>(i, r). (fst (ad_asn d i), i, r))
         (select_rows (\<lambda>_ r. dr_deleted_at r = None \<and> since \<le> dr_first_seen_at r) (decisions (ad_store d))))"

definition asn_values :: "instant \<Rightarrow> asn_db \<Rightarrow> string \<Rightarrow> string list" where
  "asn_values since d a = remdups (map (\<lambda>(_, _, r). dr_value r) (filter (\<lambda>(b, _). b = a) (window_ids since d)))"

definition asn_org :: "instant \<Rightarrow> asn_db \<Rightarrow> string \<Rightarrow> string" where
  "asn_org since d a = last (sort (map (\<lambda>(_, i, _). snd (ad_asn d i)) (filter (\<lambda>(b, _). b = a) (window_ids since d))))"

text \<open>The grouped query: the systems with enough distinct addresses, the largest first.\<close>
definition crowded_asns :: "instant \<Rightarrow> int \<Rightarrow> asn_db \<Rightarrow> string list" where
  "crowded_asns since min_ips d =
     sort_key (\<lambda>a. - int (length (asn_values since d a)))
       (filter (\<lambda>a. min_ips \<le> int (length (asn_values since d a))) (sort (remdups (map fst (window_ids since d)))))"

definition suppressed :: "instant \<Rightarrow> string \<Rightarrow> escalation auto_table \<Rightarrow> bool" where
  "suppressed cutoff a t =
     (select_rows (\<lambda>_ r. es_asn r = a \<and> (es_status r = E_pending \<or> (case es_decided_at r of Some u \<Rightarrow> cutoff \<le> u | None \<Rightarrow> False))) t \<noteq> [])"

definition new_escalation :: "instant \<Rightarrow> instant \<Rightarrow> int \<Rightarrow> asn_db \<Rightarrow> string \<Rightarrow> escalation" where
  "new_escalation now since window_h d a =
     \<lparr>es_asn = a, es_as_org = asn_org since d a, es_ip_count = length (asn_values since d a), es_window_hours = window_h,
      es_sample_ips = take 10 (asn_values since d a), es_first_seen_at = now, es_last_seen_at = now, es_status = E_pending,
      es_decided_by = [], es_decided_at = None, es_note = []\<rparr>"

fun suggest_loop :: "instant \<Rightarrow> (string \<Rightarrow> escalation) \<Rightarrow> string list \<Rightarrow> escalation auto_table \<Rightarrow> escalation auto_table \<times> (nat \<times> escalation) list" where
  "suggest_loop cutoff mk [] t = (t, [])"
| "suggest_loop cutoff mk (a # as) t =
     (if suppressed cutoff a t then suggest_loop cutoff mk as t
      else case insert_row (mk a) t of (t1, i) \<Rightarrow>
             (case suggest_loop cutoff mk as t1 of (t2, new) \<Rightarrow> (t2, (i, mk a) # new)))"

definition suggestion_event :: "nat \<times> escalation \<Rightarrow> event" where
  "suggestion_event p = (case p of (i, s) \<Rightarrow> Ship ''asn.escalation''
     [(''id'', Some (py_str_nat i)), (''asn'', Some (es_asn s)), (''as_org'', Some (es_as_org s)), (''ip_count'', Some (py_str_nat (es_ip_count s))),
      (''window_hours'', Some (py_str_int (es_window_hours s))), (''sample_ips'', Some (py_join '','' (es_sample_ips s)))])"

definition asn_evaluate :: "instant \<Rightarrow> asn_db \<Rightarrow> asn_db \<times> event list \<times> (nat \<times> escalation) list" where
  "asn_evaluate now d =
     (let min_ips = asn_setting_int (ad_store d) ''asn_detector.min_ips'' 10;
          window_h = asn_setting_int (ad_store d) ''asn_detector.window_hours'' 24;
          cooldown_h = asn_setting_int (ad_store d) ''asn_detector.cooldown_hours'' 48;
          since = now - window_h * HOUR;
          (t, new) = suggest_loop (now - cooldown_h * HOUR) (new_escalation now since window_h d) (crowded_asns since min_ips d) (ad_escalations d)
      in (d\<lparr>ad_escalations := t\<rparr>, map suggestion_event new, new))"

definition list_escalations :: "escalation_status option \<Rightarrow> nat \<Rightarrow> asn_db \<Rightarrow> (nat \<times> escalation) list" where
  "list_escalations status limit d =
     take limit (rev (select_rows (\<lambda>_ r. case status of Some s \<Rightarrow> es_status r = s | None \<Rightarrow> True) (ad_escalations d)))"

text \<open>The decision row an approval writes.\<close>
definition asn_ban :: "instant \<Rightarrow> int \<Rightarrow> string \<Rightarrow> decision_row" where
  "asn_ban now synth_id a =
     \<lparr>dr_origin_source = ''asn_detector'', dr_lapi_id = synth_id, dr_value = a, dr_scope = ''AS'', dr_type = ''ban'',
      dr_scenario = ''asn_detector/escalation'', dr_origin = ''asn_detector'', dr_duration = ''720h'',
      dr_until = Some (isoformat (now + 30 * DAY)), dr_first_seen_at = now, dr_last_seen_at = now, dr_deleted_at = None\<rparr>"

definition approve_asn :: "instant \<Rightarrow> int \<Rightarrow> string \<Rightarrow> store \<Rightarrow> store" where
  "approve_asn now synth_id a db =
     (let new = asn_ban now synth_id a
      in db\<lparr>decisions := upsert_row row_key new
           (\<lambda>r. r\<lparr>dr_lapi_id := dr_lapi_id new, dr_until := dr_until new, dr_last_seen_at := now, dr_deleted_at := None\<rparr>) (decisions db)\<rparr>)"

fun escalation_status_of :: "string \<Rightarrow> escalation_status option" where
  "escalation_status_of s = (if s = ''approved'' then Some E_approved else if s = ''rejected'' then Some E_rejected else None)"

text \<open>\<open>decide\<close>; the synthetic id is the clock in milliseconds.\<close>
definition decide_escalation :: "bool \<Rightarrow> bool \<Rightarrow> instant \<Rightarrow> nat \<Rightarrow> string \<Rightarrow> string \<Rightarrow> string \<Rightarrow> asn_db \<Rightarrow> asn_db \<times> event list \<times> (exn + string)" where
  "decide_escalation db_ok siem_ok now escalation_id decision decided_by note d =
     (case escalation_status_of decision of
        None \<Rightarrow> (d, [], Inl (ValueError ''decision must be approved or rejected''))
      | Some st \<Rightarrow>
          (case select_rows (\<lambda>i _. i = escalation_id) (ad_escalations d) of
             [] \<Rightarrow> (d, [], Inl (ValueError ''escalation not found''))
           | (_, row) # _ \<Rightarrow>
               (case audit_record db_ok siem_ok now
                       \<lparr>en_action = ''asn.escalation.'' @ decision, en_actor = decided_by, en_ip = [], en_target = es_asn row, en_before = [],
                        en_after = [(''ip_count'', Some (py_str_nat (es_ip_count row))), (''as_org'', Some (es_as_org row))], en_note = note\<rparr>
                       (ad_audit d) of
                  (audit, es, _) \<Rightarrow>
                    (d\<lparr>ad_escalations := update_rows (\<lambda>i _. i = escalation_id)
                          (\<lambda>r. r\<lparr>es_status := st, es_decided_by := decided_by, es_decided_at := Some now, es_note := note\<rparr>) (ad_escalations d),
                       ad_store := (if st = E_approved then approve_asn now (now div 1000) (es_asn row) (ad_store d) else ad_store d),
                       ad_audit := audit\<rparr>,
                     es, Inr (es_asn row)))))"

section \<open>Suggestions\<close>

lemma suppressed_insert:
  "suppressed cutoff a (fst (insert_row r t)) \<longleftrightarrow> suppressed cutoff a t \<or> (es_asn r = a \<and> (es_status r = E_pending \<or> (case es_decided_at r of Some u \<Rightarrow> cutoff \<le> u | None \<Rightarrow> False)))"
  by (auto simp: suppressed_def select_rows_def insert_row_def Let_def)

text \<open>The loop inserts a row for each system that no row suppresses, in order.\<close>
lemma suggest_loop_rows:
  assumes "distinct as" "\<And>a. es_asn (mk a) = a"
  shows "rows (fst (suggest_loop cutoff mk as t)) = rows t @ snd (suggest_loop cutoff mk as t)
    \<and> map snd (snd (suggest_loop cutoff mk as t)) = map mk (filter (\<lambda>a. \<not> suppressed cutoff a t) as)"
  using assms(1)
proof (induction as arbitrary: t)
  case (Cons a as)
  show ?case
  proof (cases "suppressed cutoff a t")
    case True
    then show ?thesis using Cons by simp
  next
    case False
    obtain t1 i where ins: "insert_row (mk a) t = (t1, i)" by force
    have t1: "rows t1 = rows t @ [(i, mk a)]" using ins by (auto simp: insert_row_def Let_def)
    have "suppressed cutoff b t1 = suppressed cutoff b t" if "b \<in> set as" for b
      using suppressed_insert [of cutoff b "mk a" t] ins assms(2) Cons.prems that by auto
    then have "filter (\<lambda>b. \<not> suppressed cutoff b t1) as = filter (\<lambda>b. \<not> suppressed cutoff b t) as" by (intro filter_cong) auto
    then show ?thesis using Cons.IH [of t1] Cons.prems False t1 by (simp add: ins case_prod_beta)
  qed
qed simp

lemma distinct_crowded: "distinct (crowded_asns since n d)"
  by (simp add: crowded_asns_def)

lemma set_crowded:
  "set (crowded_asns since n d) = {a. a \<in> fst ` set (window_ids since d) \<and> n \<le> int (length (asn_values since d a))}"
  by (auto simp: crowded_asns_def)

text \<open>The distinct addresses banned in the window that belong to a system.\<close>
definition banned_from :: "instant \<Rightarrow> asn_db \<Rightarrow> string \<Rightarrow> string set" where
  "banned_from since d a = {dr_value r | i r. (i, r) \<in> set (rows (decisions (ad_store d))) \<and> fst (ad_asn d i) = a
     \<and> dr_deleted_at r = None \<and> since \<le> dr_first_seen_at r}"

lemma in_window_ids:
  "(a, i, r) \<in> set (window_ids since d) \<longleftrightarrow> a \<noteq> [] \<and> fst (ad_asn d i) = a \<and> (i, r) \<in> set (rows (decisions (ad_store d)))
     \<and> dr_deleted_at r = None \<and> since \<le> dr_first_seen_at r"
  by (auto simp: window_ids_def select_rows_def)

lemma set_asn_values: "v \<in> set (asn_values since d a) \<longleftrightarrow> (\<exists>i r. (a, i, r) \<in> set (window_ids since d) \<and> v = dr_value r)"
  unfolding asn_values_def set_remdups set_map set_filter by force

lemma length_asn_values: "a \<noteq> [] \<Longrightarrow> length (asn_values since d a) = card (banned_from since d a)"
proof -
  assume "a \<noteq> []"
  then have "set (asn_values since d a) = banned_from since d a"
    unfolding set_eq_iff set_asn_values in_window_ids banned_from_def by blast
  then show ?thesis by (metis asn_values_def distinct_card distinct_remdups)
qed

lemma window_asns: "a \<in> fst ` set (window_ids since d) \<longleftrightarrow> a \<noteq> [] \<and> banned_from since d a \<noteq> {}"
proof -
  have "a \<in> fst ` set (window_ids since d) \<longleftrightarrow> (\<exists>i r. (a, i, r) \<in> set (window_ids since d))" by force
  then show ?thesis unfolding in_window_ids banned_from_def by blast
qed

lemma not_suppressed_iff:
  "\<not> suppressed cutoff a t \<longleftrightarrow> (\<forall>r \<in> set (contents t). es_asn r = a \<longrightarrow> es_status r \<noteq> E_pending \<and> (\<forall>u. es_decided_at r = Some u \<longrightarrow> u < cutoff))"
proof -
  have "(case es_decided_at r of Some u \<Rightarrow> cutoff \<le> u | None \<Rightarrow> False) \<longleftrightarrow> \<not> (\<forall>u. es_decided_at r = Some u \<longrightarrow> u < cutoff)" for r :: escalation
    by (cases "es_decided_at r") auto
  then show ?thesis by (auto simp: suppressed_def select_rows_def filter_empty_conv contents_def)
qed


definition crowd_store :: store where
  "crowd_store = set_setting 0 ''asn_detector.min_ips'' ''2''
     (empty_store\<lparr>decisions := fst (insert_row (sample_row ''9.9.9.8'' 2) (fst (insert_row (sample_row ''9.9.9.9'' 1) empty_table)))\<rparr>)"

definition crowd :: asn_db where
  "crowd = \<lparr>ad_store = crowd_store, ad_asn = (\<lambda>_. (''AS64500'', ''Example'')), ad_escalations = empty_table, ad_audit = empty_table\<rparr>"


section \<open>One open question per system\<close>

text \<open>The operations on the escalations table, and anything else that happens to the store and to the enrichment.\<close>
datatype asn_op =
    Evaluate_op instant
  | Decide_op bool bool instant nat string string string
  | Elsewhere store "nat \<Rightarrow> string \<times> string"

fun run_asn_op :: "asn_op \<Rightarrow> asn_db \<Rightarrow> asn_db" where
  "run_asn_op (Evaluate_op now) d = fst (asn_evaluate now d)"
| "run_asn_op (Decide_op db_ok siem_ok now i decision who note) d = fst (decide_escalation db_ok siem_ok now i decision who note d)"
| "run_asn_op (Elsewhere db f) d = d\<lparr>ad_store := db, ad_asn := f\<rparr>"

definition pending_asns :: "asn_db \<Rightarrow> string list" where
  "pending_asns d = map es_asn (filter (\<lambda>r. es_status r = E_pending) (contents (ad_escalations d)))"

lemma pending_evaluate: "distinct (pending_asns d) \<Longrightarrow> distinct (pending_asns (fst (asn_evaluate now d)))"
proof -
  assume dist: "distinct (pending_asns d)"
  let ?w = "asn_setting_int (ad_store d) ''asn_detector.window_hours'' 24"
  let ?cutoff = "now - asn_setting_int (ad_store d) ''asn_detector.cooldown_hours'' 48 * HOUR"
  let ?mk = "new_escalation now (now - ?w * HOUR) ?w d"
  let ?as = "crowded_asns (now - ?w * HOUR) (asn_setting_int (ad_store d) ''asn_detector.min_ips'' 10) d"
  have mk: "\<And>a. es_asn (?mk a) = a" "\<And>a. es_status (?mk a) = E_pending" by (simp_all add: new_escalation_def)
  let ?new = "snd (suggest_loop ?cutoff ?mk ?as (ad_escalations d))"
  have loop: "rows (fst (suggest_loop ?cutoff ?mk ?as (ad_escalations d))) = rows (ad_escalations d) @ ?new"
      "map snd ?new = map ?mk (filter (\<lambda>a. \<not> suppressed ?cutoff a (ad_escalations d)) ?as)"
    using suggest_loop_rows [OF distinct_crowded mk(1)] by blast+
  have d': "fst (asn_evaluate now d) = d\<lparr>ad_escalations := fst (suggest_loop ?cutoff ?mk ?as (ad_escalations d))\<rparr>"
    by (simp add: asn_evaluate_def Let_def case_prod_beta)
  have all: "contents (ad_escalations (fst (asn_evaluate now d))) = contents (ad_escalations d) @ map ?mk (filter (\<lambda>a. \<not> suppressed ?cutoff a (ad_escalations d)) ?as)"
    using loop by (simp add: d' contents_def)
  have "pending_asns (fst (asn_evaluate now d)) = pending_asns d @ filter (\<lambda>a. \<not> suppressed ?cutoff a (ad_escalations d)) ?as"
    unfolding pending_asns_def all by (simp add: filter_map mk comp_def)
  moreover have "a \<notin> set (pending_asns d)" if "\<not> suppressed ?cutoff a (ad_escalations d)" for a
    using that unfolding not_suppressed_iff pending_asns_def by auto
  ultimately show ?thesis using dist distinct_crowded by auto
qed

lemma pending_update:
  fixes f :: "escalation \<Rightarrow> escalation"
  assumes "\<And>r. es_asn (f r) = es_asn r" "\<And>r. es_status (f r) \<noteq> E_pending"
  shows "distinct (map es_asn (filter (\<lambda>r. es_status r = E_pending) (contents t)))
    \<Longrightarrow> distinct (map es_asn (filter (\<lambda>r. es_status r = E_pending) (contents (update_rows P f t))))"
proof -
  have up: "map es_asn (filter (\<lambda>r. es_status r = E_pending) (map snd (map (\<lambda>(i, r). (i, if P i r then f r else r)) rs)))
      = map (es_asn \<circ> snd) (filter (\<lambda>p. \<not> P (fst p) (snd p)) (filter (\<lambda>p. es_status (snd p) = E_pending) rs))" for rs
  proof (induction rs)
    case (Cons p rs)
    then show ?case using assms by (cases "P (fst p) (snd p)") (auto simp: case_prod_beta)
  qed simp
  have old: "map es_asn (filter (\<lambda>r. es_status r = E_pending) (map snd rs)) = map (es_asn \<circ> snd) (filter (\<lambda>p. es_status (snd p) = E_pending) rs)"
    for rs :: "(nat \<times> escalation) list"
    by (induction rs) auto
  assume "distinct (map es_asn (filter (\<lambda>r. es_status r = E_pending) (contents t)))"
  then have "distinct (map (es_asn \<circ> snd) (filter (\<lambda>p. es_status (snd p) = E_pending) (rows t)))" by (simp only: contents_def old)
  moreover have "contents (update_rows P f t) = map snd (map (\<lambda>(i, r). (i, if P i r then f r else r)) (rows t))"
    by (simp add: contents_def update_rows_def)
  ultimately show "distinct (map es_asn (filter (\<lambda>r. es_status r = E_pending) (contents (update_rows P f t))))"
    by (simp only: up distinct_map_filter)
qed

lemma pending_decide: "distinct (pending_asns d) \<Longrightarrow> distinct (pending_asns (fst (decide_escalation db_ok siem_ok now i decision who remark d)))"
proof (cases "escalation_status_of decision")
  case (Some st)
  then have st: "st \<noteq> E_pending" by (auto split: if_splits)
  assume "distinct (pending_asns d)"
  then show ?thesis
    using st Some by (cases "select_rows (\<lambda>j _. j = i) (ad_escalations d)")
      (auto simp: decide_escalation_def pending_asns_def simp del: escalation_status_of.simps split: prod.splits intro!: pending_update)
qed (simp add: decide_escalation_def)

text \<open>The operator is asked once: whatever runs of the detector, decisions and other changes of the tables happen in whatever order, there is
  never more than one pending suggestion for an autonomous system.\<close>
theorem one_pending_escalation_per_asn:
  assumes "distinct (pending_asns d)"
  shows "distinct (pending_asns (fold run_asn_op ops d))"
  using assms
proof (induction ops arbitrary: d)
  case (Cons op ops)
  have "distinct (pending_asns (run_asn_op op d))"
  proof (cases op)
    case (Evaluate_op now)
    then show ?thesis using pending_evaluate Cons.prems by simp
  next
    case (Decide_op db_ok siem_ok now i decision who remark)
    then show ?thesis using pending_decide Cons.prems by simp
  qed (use Cons.prems in \<open>simp add: pending_asns_def\<close>)
  then show ?case using Cons.IH by simp
qed simp

theorem one_pending_escalation_per_asn_witness:
  "distinct (pending_asns (fold run_asn_op [Evaluate_op 5, Evaluate_op 6, Decide_op True True 7 1 ''rejected'' ''op'' [], Evaluate_op 8] crowd))"
proof -
  have "distinct (pending_asns crowd)" by code_simp
  then show ?thesis by (rule one_pending_escalation_per_asn)
qed

section \<open>What an approval leads to\<close>

text \<open>An approved system is wanted on the devices under its name, as if it were an address, and still is after its thirty days: the
  cycle looks neither at the scope nor at the end of a decision.\<close>
lemma approved_asn_pushed_as_address:
  "map dec_value (snd (snd (desired_from_db (60 * DAY) (ad_store (fst (decide_escalation True True 7 1 ''approved'' ''op'' [] (fst (asn_evaluate 5 crowd)))))))) =
    [''9.9.9.8'', ''9.9.9.9'', ''AS64500'']"
proof -
  let ?db = "ad_store (fst (decide_escalation True True 7 1 ''approved'' ''op'' [] (fst (asn_evaluate 5 crowd))))"
  have "keys_unique gc_ip (geo_cache ?db)" by code_simp
  note exact = desired_from_db_eq [OF this]
  show ?thesis unfolding exact by code_simp
qed

end
