(* ===== verification/Connection.thy ===== *)
theory Connection
  imports Federation Iso_Time "HOL-Library.List_Lexorder" "HOL-Library.Char_ord"
begin

text \<open>
  The connection settings edited from the browser (\<open>connection.py\<close>): the checks on the two forms,
  the rewriting of the \<open>.env\<close> file, the save and the way each consumer of each worker notices it.
  The file is its text and its modification time; a worker is its environment and what its
  consumers have seen. Outside the repository are: the JSON library, for the list of saved keys; the
  \<open>dotenv\<close> reader; and the check that \<open>urllib\<close> makes on a network location with brackets or non-ASCII
  characters, which depends on its version. The network probes, and the permissions and the temporary file
  of the atomic write, are not modelled.
\<close>

section \<open>Keys\<close>

definition LAPI_KEYS :: "string list" where "LAPI_KEYS = [''CROWDSEC_LAPI_URL'', ''CROWDSEC_BOUNCER_KEY'']"
definition MT_KEYS :: "string list" where "MT_KEYS = [''MT_HOST'', ''MT_PORT'', ''MT_USE_SSL'', ''MT_USERNAME'', ''MT_PASSWORD'']"
definition KEYS :: "string list" where "KEYS = LAPI_KEYS @ MT_KEYS"
definition B2_KEYS :: "string list" where
  "B2_KEYS = [''BACKUP_S3_ENDPOINT'', ''BACKUP_S3_REGION'', ''BACKUP_S3_BUCKET'', ''BACKUP_S3_KEY'', ''BACKUP_S3_SECRET'']"
definition MANAGED :: "string list" where "MANAGED = KEYS @ B2_KEYS"
definition SECRET_KEYS :: "string list" where "SECRET_KEYS = [''CROWDSEC_BOUNCER_KEY'', ''MT_PASSWORD'', ''BACKUP_S3_SECRET'']"
definition SAVED_KEYS_SETTING :: string where "SAVED_KEYS_SETTING = ''connection.saved_keys''"

lemmas key_defs = LAPI_KEYS_def MT_KEYS_def KEYS_def B2_KEYS_def MANAGED_def SECRET_KEYS_def

type_synonym form = "string \<Rightarrow> string option"
type_synonym env_values = "(string \<times> string) list"

section \<open>Text\<close>

definition NL :: char where "NL = CHR 0x0A"
definition CR :: char where "CR = CHR 0x0D"
definition QUOTE :: char where "QUOTE = CHR 0x27"
definition BACKSLASH :: char where "BACKSLASH = CHR 0x5C"

text \<open>\<open>str.isprintable\<close> on one character: no control, no soft hyphen, and of the separators only the blank.\<close>
definition py_isprintable :: "char \<Rightarrow> bool" where
  "py_isprintable c = (let n = code_point c in (32 \<le> n \<and> n \<le> 126) \<or> (161 \<le> n \<and> n \<noteq> 173))"

definition bad_chars :: "string \<Rightarrow> bool" where
  "bad_chars v = list_ex (\<lambda>c. c = QUOTE \<or> c = BACKSLASH \<or> \<not> py_isprintable c) v"

text \<open>\<open>_INLINE_COMMENT.sub("", v)\<close> on a value of one line: everything from the blanks before the first commented \<open>#\<close>.\<close>
fun strip_comment :: "string \<Rightarrow> string" where
  "strip_comment [] = []"
| "strip_comment (c # cs) =
     (if py_isspace c \<and> take 1 (dropWhile py_isspace cs) = ''#'' then [] else c # strip_comment cs)"

definition env_shown :: "environment \<Rightarrow> string \<Rightarrow> string" where
  "env_shown env name = py_strip (strip_comment (str_or (env name) []))"

record connection_view =
  cv_lapi_url :: string
  cv_lapi_key_set :: bool
  cv_mt_host :: string
  cv_mt_port :: string
  cv_mt_use_ssl :: bool
  cv_mt_username :: string
  cv_mt_password_set :: bool

definition connection_current :: "environment \<Rightarrow> connection_view" where
  "connection_current env =
     \<lparr>cv_lapi_url = (let u = env_shown env ''CROWDSEC_LAPI_URL'' in if u = [] then ''http://127.0.0.1:8080'' else u),
      cv_lapi_key_set = (env_shown env ''CROWDSEC_BOUNCER_KEY'' \<noteq> []),
      cv_mt_host = env_shown env ''MT_HOST'',
      cv_mt_port = (let p = env_shown env ''MT_PORT'' in if p = [] then ''8728'' else p),
      cv_mt_use_ssl = (py_lower (env_shown env ''MT_USE_SSL'') \<in> {''1'', ''true'', ''yes''}),
      cv_mt_username = env_shown env ''MT_USERNAME'',
      cv_mt_password_set = (str_or (env ''MT_PASSWORD'') [] \<noteq> [])\<rparr>"

text \<open>\<open>urlparse\<close>: the scheme and the network location.\<close>
definition ascii_letter :: "char \<Rightarrow> bool" where
  "ascii_letter c = (let n = code_point c in (65 \<le> n \<and> n \<le> 90) \<or> (97 \<le> n \<and> n \<le> 122))"

definition url_scheme_char :: "char \<Rightarrow> bool" where
  "url_scheme_char c = (ascii_letter c \<or> py_isdecimal c \<or> c \<in> set ''+-.'')"

definition url_parts :: "(string \<Rightarrow> bool) \<Rightarrow> string \<Rightarrow> exn + string \<times> string" where
  "url_parts netloc_ok s =
     (let url = filter (\<lambda>c. c \<notin> {CHR 0x09, CR, NL}) (dropWhile (\<lambda>c. code_point c \<le> 32) s);
          pre = takeWhile (\<lambda>c. c \<noteq> CHR '':'') url;
          has_scheme = (length pre < length url \<and> pre \<noteq> [] \<and> ascii_letter (hd pre) \<and> list_all url_scheme_char pre);
          scheme = (if has_scheme then py_lower pre else []);
          rest = (if has_scheme then drop (length pre + 1) url else url);
          netloc = (if take 2 rest = ''//'' then takeWhile (\<lambda>c. c \<notin> set ''/?#'') (drop 2 rest) else [])
      in if (CHR ''['' \<in> set netloc) \<noteq> (CHR '']'' \<in> set netloc) then Inl (ValueError ''Invalid IPv6 URL'')
         else if \<not> netloc_ok netloc then Inl (ValueError ''netloc'')
         else Inr (scheme, netloc))"

section \<open>The connection form\<close>

definition form_get :: "form \<Rightarrow> string \<Rightarrow> string" where
  "form_get form k = py_strip (str_or (form k) [])"

definition error_if :: "bool \<Rightarrow> string \<Rightarrow> string list" where
  "error_if b msg = (if b then [msg] else [])"

definition host_char :: "char \<Rightarrow> bool" where
  "host_char c = (ascii_letter c \<or> py_isdecimal c \<or> c \<in> set ''.:-[]'')"

text \<open>\<open>_HOST_RE.match\<close> on a stripped text.\<close>
definition host_re :: "string \<Rightarrow> bool" where
  "host_re h = (h \<noteq> [] \<and> list_all host_char h)"

definition url_errors :: "string \<Rightarrow> string \<times> string \<Rightarrow> string list" where
  "url_errors url p =
     (if fst p \<notin> {''http'', ''https''} \<or> snd p = []
      then [''CrowdSec LAPI URL must look like http://host:8080.'']
      else error_if (CHR ''#'' \<in> set url \<or> bad_chars url)
             ''CrowdSec LAPI URL can't contain #, quotes, backslashes or control characters.'')"

definition key_errors :: "string \<Rightarrow> string \<Rightarrow> string list" where
  "key_errors raw key =
     error_if (raw \<noteq> [] \<and> (bad_chars raw \<or> CHR ''#'' \<in> set raw \<or> CHR '' '' \<in> set (py_strip raw)))
       ''The bouncer key can't contain spaces, #, quotes, backslashes or control characters.''
     @ error_if (key = []) ''A bouncer key is required (create one with: cscli bouncers add protek).''"

text \<open>\<open>not port_raw.isdigit() or not 1 <= int(port_raw) <= 65535\<close>; \<open>int\<close> raises on a superscript digit.\<close>
definition port_error :: "string \<Rightarrow> exn + bool" where
  "port_error p =
     (if \<not> (p \<noteq> [] \<and> list_all py_isdigit p) then Inr True
      else case py_int p of None \<Rightarrow> Inl (ValueError ''invalid literal for int()'') | Some n \<Rightarrow> Inr (\<not> (1 \<le> n \<and> n \<le> 65535)))"

definition router_errors :: "string \<Rightarrow> string \<Rightarrow> bool \<Rightarrow> string \<Rightarrow> string \<Rightarrow> string list" where
  "router_errors host username port_bad raw_password password =
     (if host = [] then [''Router address is required when a username is set.'']
      else error_if (\<not> host_re host) ''Router address should be an IP or hostname.'')
     @ (if username = [] then [''Router API username is required.'']
        else error_if (bad_chars username \<or> CHR ''#'' \<in> set username \<or> CHR '' '' \<in> set username)
               ''Router username can't contain spaces, #, quotes, backslashes or control characters.'')
     @ error_if port_bad ''Router API port must be a number from 1 to 65535.''
     @ error_if (raw_password \<noteq> [] \<and> bad_chars raw_password)
         ''Router password can't contain a single quote, a backslash or control characters.''
     @ error_if (host \<noteq> [] \<and> username \<noteq> [] \<and> password = []) ''Router API password is required.''"

text \<open>The values of the form; a secret left blank keeps its current value.\<close>
definition new_url :: "form \<Rightarrow> string" where
  "new_url form = py_rstrip_char (CHR ''/'') (form_get form ''lapi_url'')"

definition kept_secret :: "environment \<Rightarrow> string \<Rightarrow> string \<Rightarrow> string" where
  "kept_secret env k typed = (if typed \<noteq> [] then typed else case env k of Some v \<Rightarrow> v | None \<Rightarrow> [])"

definition new_key :: "environment \<Rightarrow> form \<Rightarrow> string" where
  "new_key env form = kept_secret env ''CROWDSEC_BOUNCER_KEY'' (py_strip (str_or (form ''lapi_key'') []))"

definition use_ssl :: "form \<Rightarrow> bool" where
  "use_ssl form = (str_or (form ''mt_use_ssl'') [] \<in> {''1'', ''on'', ''true'', ''yes''})"

definition new_port :: "form \<Rightarrow> string" where
  "new_port form = (let p = form_get form ''mt_port'' in if p \<noteq> [] then p else if use_ssl form then ''8729'' else ''8728'')"

definition router_on :: "form \<Rightarrow> bool" where
  "router_on form = (form_get form ''mt_host'' \<noteq> [] \<or> form_get form ''mt_username'' \<noteq> [])"

definition new_password :: "environment \<Rightarrow> form \<Rightarrow> string" where
  "new_password env form = (if router_on form then kept_secret env ''MT_PASSWORD'' (str_or (form ''mt_password'') []) else [])"

definition form_values :: "environment \<Rightarrow> form \<Rightarrow> env_values" where
  "form_values env form =
     [(''CROWDSEC_LAPI_URL'', new_url form), (''CROWDSEC_BOUNCER_KEY'', new_key env form), (''MT_HOST'', form_get form ''mt_host''),
      (''MT_PORT'', new_port form), (''MT_USE_SSL'', if use_ssl form then ''true'' else ''false''),
      (''MT_USERNAME'', form_get form ''mt_username''), (''MT_PASSWORD'', new_password env form)]"

definition validate :: "(string \<Rightarrow> bool) \<Rightarrow> environment \<Rightarrow> form \<Rightarrow> exn + env_values \<times> string list" where
  "validate netloc_ok env form =
     (case url_parts netloc_ok (new_url form) of
        Inl e \<Rightarrow> Inl e
      | Inr p \<Rightarrow>
          let errors = url_errors (new_url form) p @ key_errors (str_or (form ''lapi_key'') []) (new_key env form)
          in if \<not> router_on form then Inr (form_values env form, errors)
             else (case port_error (new_port form) of
                     Inl e \<Rightarrow> Inl e
                   | Inr port_bad \<Rightarrow> Inr (form_values env form, errors
                       @ router_errors (form_get form ''mt_host'') (form_get form ''mt_username'') port_bad
                           (str_or (form ''mt_password'') []) (new_password env form))))"

text \<open>The keys whose new value differs from the current one.\<close>
definition current_value :: "environment \<Rightarrow> string \<Rightarrow> string" where
  "current_value env k = (if k \<in> set SECRET_KEYS then py_strip (str_or (env k) []) else env_shown env k)"

definition changed_keys :: "environment \<Rightarrow> env_values \<Rightarrow> string list" where
  "changed_keys env vs = filter (\<lambda>k. case map_of vs k of Some v \<Rightarrow> v \<noteq> current_value env k | None \<Rightarrow> False) MANAGED"

section \<open>The form of the off-box bucket\<close>

definition lower_alnum_dash :: "char \<Rightarrow> bool" where
  "lower_alnum_dash c = ((97 \<le> code_point c \<and> code_point c \<le> 122) \<or> py_isdecimal c \<or> c = CHR ''-'')"

text \<open>The region that a Backblaze endpoint names; the endpoint comes without trailing slashes.\<close>
definition b2_region :: "string \<Rightarrow> string option" where
  "b2_region endpoint =
     (let n = length endpoint - length ''.backblazeb2.com'';
          region = drop (length ''https://s3.'') (take n endpoint)
      in if py_startswith endpoint ''https://s3.'' \<and> drop n endpoint = ''.backblazeb2.com'' \<and> region \<noteq> [] \<and> list_all lower_alnum_dash region
         then Some region else None)"

definition region_re :: "string \<Rightarrow> bool" where
  "region_re r = (list_all lower_alnum_dash r \<and> 2 \<le> length r \<and> length r \<le> 40)"

definition bucket_end :: "char \<Rightarrow> bool" where
  "bucket_end c = (ascii_letter c \<or> py_isdecimal c)"

definition bucket_re :: "string \<Rightarrow> bool" where
  "bucket_re b = (3 \<le> length b \<and> length b \<le> 63 \<and> bucket_end (hd b) \<and> bucket_end (last b)
     \<and> list_all (\<lambda>c. bucket_end c \<or> c \<in> set ''._-'') b)"

definition new_endpoint :: "form \<Rightarrow> string" where
  "new_endpoint form = py_rstrip_char (CHR ''/'') (form_get form ''s3_endpoint'')"

definition new_region :: "form \<Rightarrow> string" where
  "new_region form =
     (let region = form_get form ''s3_region''
      in if new_endpoint form \<noteq> [] \<and> region = [] then (case b2_region (new_endpoint form) of Some r \<Rightarrow> r | None \<Rightarrow> []) else region)"

definition new_secret :: "environment \<Rightarrow> form \<Rightarrow> string" where
  "new_secret env form = kept_secret env ''BACKUP_S3_SECRET'' (py_strip (str_or (form ''s3_secret'') []))"

definition b2_values :: "environment \<Rightarrow> form \<Rightarrow> env_values" where
  "b2_values env form =
     [(''BACKUP_S3_ENDPOINT'', new_endpoint form), (''BACKUP_S3_REGION'', if new_region form \<noteq> [] then new_region form else ''us-east-1''),
      (''BACKUP_S3_BUCKET'', form_get form ''s3_bucket''), (''BACKUP_S3_KEY'', form_get form ''s3_key''), (''BACKUP_S3_SECRET'', new_secret env form)]"

definition bucket_errors :: "string \<Rightarrow> string \<Rightarrow> string \<Rightarrow> string \<Rightarrow> string \<Rightarrow> string list" where
  "bucket_errors region bucket key_id raw_secret secret =
     error_if (region \<noteq> [] \<and> \<not> region_re region) ''Region should look like us-west-002 or eu-central-003.''
     @ error_if (\<not> bucket_re bucket) ''Bucket name: 3-63 letters, numbers, dots, dashes or underscores.''
     @ error_if (key_id = [] \<or> bad_chars key_id \<or> CHR '' '' \<in> set key_id \<or> CHR ''#'' \<in> set key_id)
         ''Key ID is required (Backblaze: the application key's keyID).''
     @ error_if (raw_secret \<noteq> [] \<and> (bad_chars raw_secret \<or> CHR '' '' \<in> set (py_strip raw_secret)))
         ''The application key can't contain spaces, quotes, backslashes or control characters.''
     @ error_if (secret = []) ''The application key is required.''"

definition validate_b2 :: "(string \<Rightarrow> bool) \<Rightarrow> environment \<Rightarrow> form \<Rightarrow> exn + env_values \<times> string list" where
  "validate_b2 netloc_ok env form =
     (let endpoint = new_endpoint form;
          errors = bucket_errors (new_region form) (form_get form ''s3_bucket'') (form_get form ''s3_key'')
                     (str_or (form ''s3_secret'') []) (new_secret env form)
      in if endpoint = [] then Inr (b2_values env form, errors)
         else (case url_parts netloc_ok endpoint of
                 Inl e \<Rightarrow> Inl e
               | Inr p \<Rightarrow>
                   Inr (b2_values env form, error_if (fst p \<noteq> ''https'' \<or> snd p = [] \<or> bad_chars endpoint \<or> CHR ''#'' \<in> set endpoint)
                          ''Endpoint must be an https:// URL, e.g. https://s3.us-west-002.backblazeb2.com.'' @ errors)))"

section \<open>The file\<close>

text \<open>Reading a text file translates the line ends.\<close>
fun universal_newlines :: "string \<Rightarrow> string" where
  "universal_newlines [] = []"
| "universal_newlines (c # cs) =
     (if c = CR then (if take 1 cs = [NL] then universal_newlines cs else NL # universal_newlines cs)
      else c # universal_newlines cs)"

definition env_lines :: "string option \<Rightarrow> string list" where
  "env_lines file =
     (case file of
        None \<Rightarrow> []
      | Some text \<Rightarrow>
          let lines = map (py_rstrip_char CR) (py_split NL (universal_newlines text))
          in if lines \<noteq> [] \<and> last lines = [] then butlast lines else lines)"

definition name_start :: "char \<Rightarrow> bool" where "name_start c = (ascii_letter c \<or> c = CHR ''_'')"
definition name_char :: "char \<Rightarrow> bool" where "name_char c = (name_start c \<or> py_isdecimal c)"

text \<open>\<open>_LINE_RE\<close>: the name an assignment line defines, with or without \<open>export\<close>.\<close>
definition assigned_name :: "string \<Rightarrow> string option" where
  "assigned_name s =
     (let name = takeWhile name_char s
      in if name \<noteq> [] \<and> name_start (hd name) \<and> take 1 (dropWhile py_isspace (dropWhile name_char s)) = ''='' then Some name else None)"

definition line_key :: "string \<Rightarrow> string option" where
  "line_key line =
     (let s = py_lstrip line;
          rest = drop 6 s;
          exported = (if take 6 s = ''export'' \<and> rest \<noteq> [] \<and> py_isspace (hd rest) then assigned_name (py_lstrip rest) else None)
      in case exported of Some k \<Rightarrow> Some k | None \<Rightarrow> assigned_name s)"

definition quote_value :: "string \<Rightarrow> string" where
  "quote_value v = QUOTE # v @ [QUOTE]"

definition env_line :: "string \<Rightarrow> string \<Rightarrow> string" where
  "env_line k v = k @ ''='' @ quote_value v"

fun rewrite_lines :: "env_values \<Rightarrow> string list \<Rightarrow> string list \<Rightarrow> string list \<times> string list" where
  "rewrite_lines vs seen [] = ([], seen)"
| "rewrite_lines vs seen (line # ls) =
     (case line_key line of
        Some k \<Rightarrow>
          (case map_of vs k of
             Some v \<Rightarrow>
               if k \<in> set seen then rewrite_lines vs seen ls
               else (case rewrite_lines vs (k # seen) ls of (out, s) \<Rightarrow> (env_line k v # out, s))
           | None \<Rightarrow> (case rewrite_lines vs seen ls of (out, s) \<Rightarrow> (line # out, s)))
      | None \<Rightarrow> (case rewrite_lines vs seen ls of (out, s) \<Rightarrow> (line # out, s)))"

definition new_env_lines :: "env_values \<Rightarrow> string option \<Rightarrow> string list" where
  "new_env_lines vs file =
     (case rewrite_lines vs [] (env_lines file) of
        (out, seen) \<Rightarrow> out @ map (\<lambda>(k, v). env_line k v) (filter (\<lambda>(k, v). k \<notin> set seen) vs))"

definition prepare_env :: "env_values \<Rightarrow> string option \<Rightarrow> string" where
  "prepare_env vs file = py_join [NL] (new_env_lines vs file) @ [NL]"

section \<open>Saving and noticing\<close>

text \<open>What the workers share, and what each has of its own.\<close>
record env_shared =
  sh_text :: "string option"
  sh_mtime :: int
  sh_store :: store

record worker =
  wk_environ :: environment
  wk_seen_mtime :: "string \<rightharpoonup> int"
  wk_applied :: "string \<rightharpoonup> env_values"

definition saved_keys :: "(string \<Rightarrow> string list option) \<Rightarrow> store \<Rightarrow> string list" where
  "saved_keys loads db =
     (case loads (str_or (get_setting SAVED_KEYS_SETTING db) ''[]'') of
        Some ks \<Rightarrow> filter (\<lambda>k. k \<in> set MANAGED) ks
      | None \<Rightarrow> [])"

definition put_all :: "env_values \<Rightarrow> environment \<Rightarrow> environment" where
  "put_all vs env = fold (\<lambda>(k, v) e. e(k \<mapsto> v)) vs env"

definition reseed_local_source :: "environment \<Rightarrow> instant \<Rightarrow> store \<Rightarrow> store" where
  "reseed_local_source env now db =
     (let db = seed_local_source env now db
      in db\<lparr>sources := update_rows (\<lambda>_ r. src_name r = ''local'') (\<lambda>r. r\<lparr>src_backoff_until := None, src_last_error := []\<rparr>) (sources db)\<rparr>)"

text \<open>\<open>save\<close>; the two last inputs are the exceptions that the settings write and the reseeding raise, if any. The file is
  swapped in last, with a new modification time.\<close>
definition save :: "(string \<Rightarrow> string list option) \<Rightarrow> (string list \<Rightarrow> string) \<Rightarrow> instant \<Rightarrow> int \<Rightarrow> env_values \<Rightarrow> exn option \<Rightarrow> exn option
    \<Rightarrow> worker \<times> env_shared \<Rightarrow> (worker \<times> env_shared) \<times> exn option" where
  "save loads dumps now mtime vs write_fails seed_fails s =
     (if vs = [] then (s, None)
      else
        let (wk, sh) = s;
            text = prepare_env vs (sh_text sh);
            keys = sort (remdups (saved_keys loads (sh_store sh) @ map fst vs))
        in (case write_fails of
              Some e \<Rightarrow> (s, Some e)
            | None \<Rightarrow>
                let sh1 = sh\<lparr>sh_store := set_setting now SAVED_KEYS_SETTING (dumps keys) (sh_store sh)\<rparr>;
                    wk1 = wk\<lparr>wk_environ := put_all vs (wk_environ wk)\<rparr>;
                    lapi = list_ex (\<lambda>(k, v). k \<in> set LAPI_KEYS) vs
                in (case (if lapi then seed_fails else None) of
                      Some e \<Rightarrow> ((wk1, sh1), Some e)
                    | None \<Rightarrow>
                        let sh2 = (if lapi then sh1\<lparr>sh_store := reseed_local_source (wk_environ wk1) now (sh_store sh1)\<rparr> else sh1)
                        in ((wk1, sh2\<lparr>sh_text := Some text, sh_mtime := mtime\<rparr>), None))))"

text \<open>The saved keys with the values of the file; a value with a NUL cannot be put in the environment.\<close>
definition snap_of :: "(string \<Rightarrow> string option) \<Rightarrow> string list \<Rightarrow> env_values" where
  "snap_of file_vals keys = filter (\<lambda>(k, v). CHR 0x00 \<notin> set v)
     (concat (map (\<lambda>k. case file_vals k of Some v \<Rightarrow> [(k, v)] | None \<Rightarrow> []) keys))"

text \<open>\<open>sync_from_file\<close>; the reader gives \<open>None\<close> when it raises.\<close>
definition sync_from_file :: "(string \<Rightarrow> (string \<Rightarrow> string option) option) \<Rightarrow> (string \<Rightarrow> string list option) \<Rightarrow> string \<Rightarrow> worker \<Rightarrow> env_shared
    \<Rightarrow> worker \<times> bool" where
  "sync_from_file dotenv_values loads consumer wk sh =
     (case sh_text sh of
        None \<Rightarrow> (wk, False)
      | Some text \<Rightarrow>
          if wk_seen_mtime wk consumer = Some (sh_mtime sh) then (wk, False)
          else
            let wk = wk\<lparr>wk_seen_mtime := (wk_seen_mtime wk)(consumer \<mapsto> sh_mtime sh)\<rparr>;
                keys = saved_keys loads (sh_store sh)
            in if keys = []
               then (wk\<lparr>wk_applied := (if wk_applied wk consumer = None then (wk_applied wk)(consumer \<mapsto> []) else wk_applied wk)\<rparr>, False)
               else (case dotenv_values text of
                       None \<Rightarrow> (wk, False)
                     | Some file_vals \<Rightarrow>
                         let snap = snap_of file_vals keys;
                             changed = (map_option set (wk_applied wk consumer) \<noteq> Some (set snap))
                         in (wk\<lparr>wk_environ := put_all snap (wk_environ wk), wk_applied := (wk_applied wk)(consumer \<mapsto> snap)\<rparr>,
                             changed \<and> wk_applied wk consumer \<noteq> None)))"

section \<open>Lines and text\<close>

definition one_line :: "string \<Rightarrow> bool" where
  "one_line l = (NL \<notin> set l \<and> CR \<notin> set l)"

lemma universal_newlines_id: "CR \<notin> set s \<Longrightarrow> universal_newlines s = s"
  by (induction s) auto

lemma no_CR_universal: "CR \<notin> set (universal_newlines s)"
  by (induction s rule: universal_newlines.induct) (auto simp: NL_def CR_def)

lemma py_rstrip_char_id: "c \<notin> set s \<Longrightarrow> py_rstrip_char c s = s"
  by (cases s rule: rev_cases) (auto simp: py_rstrip_char_def)

lemma set_py_rstrip_char: "set (py_rstrip_char c s) \<subseteq> set s"
  by (auto simp: py_rstrip_char_def dest: set_dropWhileD)

lemma py_join_Cons: "ls \<noteq> [] \<Longrightarrow> py_join sep (l # ls) = l @ sep @ py_join sep ls"
  by (cases ls) simp_all

lemma py_split_max_lines:
  assumes "\<forall>l \<in> set ls. c \<notin> set l" "ls \<noteq> []" "length ls \<le> n"
  shows "py_split_max c n (py_join [c] ls @ [c]) = ls @ [[]]"
  using assms
proof (induction ls arbitrary: n)
  case (Cons l ls)
  then obtain m where n: "n = Suc m" by (cases n) auto
  show ?case
  proof (cases "ls = []")
    case True
    then show ?thesis using Cons.prems py_split_max_piece [of c l m "[]"] py_split_max_last [of c "[]" m] by (simp add: n)
  next
    case False
    then show ?thesis
      using Cons py_split_max_piece [of c l m "py_join [c] ls @ [c]"] by (simp add: n py_join_Cons del: py_split_max.simps)
  qed
qed simp

lemma length_joined_lines: "ls \<noteq> [] \<Longrightarrow> length ls \<le> Suc (length (py_join [c] ls))"
  by (induction ls rule: induct_list012) auto

lemma set_py_join: "set (py_join sep ls) \<subseteq> set sep \<union> \<Union> (set ` set ls)"
  by (induction ls rule: induct_list012) auto

text \<open>Reading back lines that were joined gives the lines.\<close>
lemma env_lines_join:
  assumes "\<forall>l \<in> set ls. one_line l" "ls \<noteq> []"
  shows "env_lines (Some (py_join [NL] ls @ [NL])) = ls"
proof -
  have "CR \<notin> set (py_join [NL] ls @ [NL])"
    using set_py_join [of "[NL]" ls] assms(1) by (auto simp: one_line_def NL_def CR_def)
  moreover have "py_split NL (py_join [NL] ls @ [NL]) = ls @ [[]]"
    unfolding py_split_def using assms length_joined_lines [of ls NL] by (intro py_split_max_lines) (auto simp: one_line_def)
  moreover have "map (py_rstrip_char CR) ls = ls"
    using assms(1) by (simp add: map_idI one_line_def py_rstrip_char_id)
  ultimately show ?thesis
    by (simp add: env_lines_def universal_newlines_id Let_def py_rstrip_char_def)
qed

lemma py_split_max_no_sep:
  assumes "length s \<le> n" "p \<in> set (py_split_max c n s)"
  shows "c \<notin> set p \<and> set p \<subseteq> set s"
  using assms
proof (induction n arbitrary: s)
  case (Suc n)
  show ?case
  proof (cases "dropWhile (\<lambda>x. x \<noteq> c) s")
    case Nil
    then have "\<forall>x \<in> set s. x \<noteq> c" by (simp only: dropWhile_eq_Nil_conv)
    moreover have "py_split_max c (Suc n) s = [s]" using Nil by (simp only: py_split_max.simps list.case)
    ultimately show ?thesis using Suc.prems(2) by auto
  next
    case (Cons x rest)
    have "set (x # rest) \<subseteq> set s" using set_dropWhileD [of _ "\<lambda>x. x \<noteq> c" s] by (auto simp: Cons)
    moreover have "length (x # rest) \<le> length s" using length_dropWhile_le [of "\<lambda>x. x \<noteq> c" s] by (simp only: Cons)
    moreover have "p = takeWhile (\<lambda>x. x \<noteq> c) s \<or> p \<in> set (py_split_max c n rest)" using Suc.prems(2) Cons by simp
    ultimately show ?thesis using Suc.IH [of rest] Suc.prems(1) by (auto dest: set_takeWhileD)
  qed
qed simp

lemma one_line_env_lines: "l \<in> set (env_lines file) \<Longrightarrow> one_line l"
proof -
  assume "l \<in> set (env_lines file)"
  then obtain t where "l \<in> set (map (py_rstrip_char CR) (py_split NL (universal_newlines t)))"
    by (auto simp: env_lines_def Let_def split: option.splits if_splits dest: in_set_butlastD)
  then obtain p where p: "p \<in> set (py_split NL (universal_newlines t))" "l = py_rstrip_char CR p" by auto
  have "NL \<notin> set p \<and> set p \<subseteq> set (universal_newlines t)"
    using py_split_max_no_sep [OF le_refl] p(1) by (simp add: py_split_def)
  then show ?thesis using p(2) no_CR_universal [of t] set_py_rstrip_char [of CR p] by (auto simp: one_line_def)
qed

section \<open>The rewritten file\<close>

definition is_name :: "string \<Rightarrow> bool" where
  "is_name k = (k \<noteq> [] \<and> name_start (hd k) \<and> list_all name_char k)"

lemma name_char_simps [simp]:
  "\<not> name_char (CHR ''='')" "\<not> py_isspace (CHR ''='')" "name_char c \<Longrightarrow> \<not> py_isspace c" "name_start c \<Longrightarrow> name_char c"
  by (auto simp: name_char_def name_start_def ascii_letter_def py_isdecimal_def py_isspace_def code_point_def Let_def)

lemma assigned_name_line: "is_name k \<Longrightarrow> assigned_name (k @ ''='' @ rest) = Some k"
proof -
  assume k: "is_name k"
  then have "\<And>x. x \<in> set k \<Longrightarrow> name_char x" by (simp add: is_name_def list_all_iff)
  then have "takeWhile name_char (k @ ''='' @ rest) = k" "dropWhile name_char (k @ ''='' @ rest) = ''='' @ rest"
    by (simp_all add: takeWhile_append dropWhile_append)
  then show ?thesis using k by (simp add: assigned_name_def is_name_def)
qed

lemma line_key_env_line: "is_name k \<Longrightarrow> line_key (env_line k v) = Some k"
proof -
  assume k: "is_name k"
  let ?line = "k @ ''='' @ quote_value v"
  obtain c cs where c: "k = c # cs" "name_start c" using k by (cases k) (auto simp: is_name_def)
  have strip: "py_lstrip ?line = ?line" using c by (simp add: py_lstrip_def)
  have "\<not> (take 6 ?line = ''export'' \<and> drop 6 ?line \<noteq> [] \<and> py_isspace (hd (drop 6 ?line)))"
  proof
    assume *: "take 6 ?line = ''export'' \<and> drop 6 ?line \<noteq> [] \<and> py_isspace (hd (drop 6 ?line))"
    show False
    proof (cases "6 < length k")
      case True
      then have "hd (drop 6 ?line) = k ! 6" by (simp add: hd_drop_conv_nth nth_append)
      moreover have "name_char (k ! 6)" using k True by (simp add: is_name_def list_all_length)
      ultimately show False using * by simp
    next
      case False
      moreover have "length k = 6"
      proof (rule ccontr)
        assume "length k \<noteq> 6"
        with False have less: "length k < 6" by simp
        then have "CHR ''='' = take 6 ?line ! length k" by (simp add: nth_append)
        also have "\<dots> = ''export'' ! length k" using * by simp
        finally show False using less by (auto simp: less_Suc_eq numeral_eq_Suc)
      qed
      ultimately show False using * by simp
    qed
  qed
  note neg = this
  show ?thesis
    unfolding line_key_def env_line_def Let_def strip if_not_P [OF neg] option.case by (rule assigned_name_line [OF k])
qed

declare rewrite_lines.simps(2) [simp del]

lemma rewrite_lines_cases:
  obtains (other) "\<And>k. line_key l = Some k \<Longrightarrow> map_of vs k = None"
      "rewrite_lines vs seen (l # ls) = (l # fst (rewrite_lines vs seen ls), snd (rewrite_lines vs seen ls))"
    | (again) k v where "line_key l = Some k" "map_of vs k = Some v" "k \<in> set seen" "rewrite_lines vs seen (l # ls) = rewrite_lines vs seen ls"
    | (first) k v where "line_key l = Some k" "map_of vs k = Some v" "k \<notin> set seen"
      "rewrite_lines vs seen (l # ls) = (env_line k v # fst (rewrite_lines vs (k # seen) ls), snd (rewrite_lines vs (k # seen) ls))"
proof (cases "line_key l")
  case None
  then show thesis by (intro other) (simp_all add: rewrite_lines.simps case_prod_beta)
next
  case (Some k)
  show thesis
  proof (cases "map_of vs k")
    case None
    then show thesis using Some by (intro other) (simp_all add: rewrite_lines.simps case_prod_beta)
  next
    case (Some v)
    then show thesis using again first \<open>line_key l = Some k\<close>
      by (cases "k \<in> set seen") (simp_all add: rewrite_lines.simps case_prod_beta)
  qed
qed

text \<open>The loop over the old lines: other lines stay in order, and a managed key keeps one line, the first.\<close>
lemma rewrite_lines_others:
  assumes "\<forall>k \<in> dom (map_of vs). is_name k"
  shows "filter (\<lambda>l. \<forall>k \<in> dom (map_of vs). line_key l \<noteq> Some k) (fst (rewrite_lines vs seen ls))
    = filter (\<lambda>l. \<forall>k \<in> dom (map_of vs). line_key l \<noteq> Some k) ls"
proof (induction ls arbitrary: seen)
  case (Cons l ls)
  show ?case
  proof (cases rule: rewrite_lines_cases [of l vs seen ls])
    case other
    then show ?thesis using Cons by auto
  next
    case (again k v)
    then show ?thesis using Cons by auto
  next
    case (first k v)
    then have "line_key (env_line k v) = Some k" using assms line_key_env_line by blast
    then show ?thesis using Cons first by auto
  qed
qed simp

lemma rewrite_lines_key:
  assumes "\<forall>k \<in> dom (map_of vs). is_name k" and k: "map_of vs k = Some v"
  shows "filter (\<lambda>l. line_key l = Some k) (fst (rewrite_lines vs seen ls)) = (if k \<in> set seen \<or> Some k \<notin> line_key ` set ls then [] else [env_line k v])"
proof (induction ls arbitrary: seen)
  case (Cons l ls)
  show ?case
  proof (cases rule: rewrite_lines_cases [of l vs seen ls])
    case other
    then have "line_key l \<noteq> Some k" using k by auto
    then show ?thesis using Cons [of seen] other(2) by (simp add: image_iff)
  next
    case (again k' v')
    then show ?thesis using Cons [of seen] by auto
  next
    case (first k' v')
    then have "line_key (env_line k' v') = Some k'" using assms line_key_env_line by blast
    then show ?thesis using Cons [of "k' # seen"] first k by (cases "k' = k") auto
  qed
qed simp

lemma rewrite_lines_seen:
  "set (snd (rewrite_lines vs seen ls)) = set seen \<union> {k \<in> dom (map_of vs). Some k \<in> line_key ` set ls}"
proof (induction ls arbitrary: seen)
  case (Cons l ls)
  show ?case
    by (cases rule: rewrite_lines_cases [of l vs seen ls]) (use Cons in auto)
qed simp

lemma filter_one_key:
  "distinct (map fst vs) \<Longrightarrow> (k, v) \<in> set vs \<Longrightarrow> filter (\<lambda>(k', v'). P k' \<and> k' = k) vs = (if P k then [(k, v)] else [])"
  by (induction vs) (auto simp: filter_empty_conv rev_image_eqI)

lemma new_env_lines_spec:
  assumes names: "\<forall>k \<in> dom (map_of vs). is_name k" and dist: "distinct (map fst vs)"
  shows "filter (\<lambda>l. \<forall>k \<in> dom (map_of vs). line_key l \<noteq> Some k) (new_env_lines vs file)
      = filter (\<lambda>l. \<forall>k \<in> dom (map_of vs). line_key l \<noteq> Some k) (env_lines file)"
    and "map_of vs k = Some v \<Longrightarrow> filter (\<lambda>l. line_key l = Some k) (new_env_lines vs file) = [env_line k v]"
proof -
  obtain out seen where r: "rewrite_lines vs [] (env_lines file) = (out, seen)" by force
  have key: "line_key (env_line k v) = Some k" if "(k, v) \<in> set vs" for k v
    using names dist that line_key_env_line by fastforce
  let ?tail = "map (\<lambda>(k, v). env_line k v) (filter (\<lambda>(k, v). k \<notin> set seen) vs)"
  have "\<exists>k \<in> dom (map_of vs). line_key l = Some k" if "l \<in> set ?tail" for l
    using that key dist by fastforce
  then have "filter (\<lambda>l. \<forall>k \<in> dom (map_of vs). line_key l \<noteq> Some k) ?tail = []" by (fastforce simp: filter_empty_conv)
  then show "filter (\<lambda>l. \<forall>k \<in> dom (map_of vs). line_key l \<noteq> Some k) (new_env_lines vs file)
      = filter (\<lambda>l. \<forall>k \<in> dom (map_of vs). line_key l \<noteq> Some k) (env_lines file)"
    using rewrite_lines_others [OF names, of "[]" "env_lines file"] by (simp add: new_env_lines_def r)
  assume kv: "map_of vs k = Some v"
  then have in_vs: "(k, v) \<in> set vs" by (rule map_of_SomeD)
  have tail: "filter (\<lambda>l. line_key l = Some k) (map (\<lambda>(k, v). env_line k v) (filter (\<lambda>(k, v). Q k) xs))
      = map (\<lambda>(k, v). env_line k v) (filter (\<lambda>(k', v'). Q k' \<and> k' = k) xs)" if "set xs \<subseteq> set vs" for xs Q
    using that key by (induction xs) auto
  have "filter (\<lambda>l. line_key l = Some k) ?tail = (if k \<in> set seen then [] else [env_line k v])"
    unfolding tail [OF subset_refl] filter_one_key [OF dist in_vs] by simp
  then show "filter (\<lambda>l. line_key l = Some k) (new_env_lines vs file) = [env_line k v]"
    using rewrite_lines_key [OF names kv, of "[]" "env_lines file"] rewrite_lines_seen [of vs "[]" "env_lines file"] kv
    by (auto simp: new_env_lines_def r)
qed

lemma managed_names: "k \<in> set MANAGED \<Longrightarrow> is_name k"
proof -
  have "list_all is_name MANAGED" by code_simp
  then show "k \<in> set MANAGED \<Longrightarrow> is_name k" by (simp add: list_all_iff)
qed

lemma one_line_env_line: "is_name k \<Longrightarrow> one_line v \<Longrightarrow> one_line (env_line k v)"
proof -
  assume k: "is_name k" and v: "one_line v"
  have "\<not> name_char NL" "\<not> name_char CR" by code_simp+
  then have "one_line k" using k by (auto simp: one_line_def is_name_def list_all_iff)
  then show ?thesis using v by (auto simp: one_line_def env_line_def quote_value_def QUOTE_def NL_def CR_def)
qed

lemma set_rewrite_lines: "l \<in> set (fst (rewrite_lines vs seen ls)) \<Longrightarrow> l \<in> set ls \<or> (\<exists>k v. map_of vs k = Some v \<and> l = env_line k v)"
proof (induction ls arbitrary: seen)
  case (Cons x ls)
  show ?case by (cases rule: rewrite_lines_cases [of x vs seen ls]) (use Cons in auto)
qed simp

lemma set_new_env_lines:
  "distinct (map fst vs) \<Longrightarrow> l \<in> set (new_env_lines vs file) \<Longrightarrow> l \<in> set (env_lines file) \<or> (\<exists>k v. map_of vs k = Some v \<and> l = env_line k v)"
  using set_rewrite_lines [of l vs "[]" "env_lines file"] by (auto simp: new_env_lines_def case_prod_beta) blast

lemma new_env_lines_nonempty: "vs \<noteq> [] \<Longrightarrow> distinct (map fst vs) \<Longrightarrow> \<forall>k \<in> dom (map_of vs). is_name k \<Longrightarrow> new_env_lines vs file \<noteq> []"
proof -
  assume vs: "vs \<noteq> []" "distinct (map fst vs)" "\<forall>k \<in> dom (map_of vs). is_name k"
  obtain k v where "map_of vs k = Some v" using vs(1,2) by (metis list.set_sel(1) map_of_is_SomeI prod.collapse)
  then show ?thesis using new_env_lines_spec(2) [OF vs(3,2)] by (metis filter.simps(1) list.distinct(1))
qed

lemma env_lines_prepared:
  assumes "vs \<noteq> []" "distinct (map fst vs)" "fst ` set vs \<subseteq> set MANAGED" "\<forall>v \<in> snd ` set vs. one_line v"
  shows "env_lines (Some (prepare_env vs file)) = new_env_lines vs file"
proof -
  have names: "\<forall>k \<in> dom (map_of vs). is_name k" using assms(3) managed_names by (auto simp: dom_map_of_conv_image_fst)
  have "one_line l" if l: "l \<in> set (new_env_lines vs file)" for l
    using set_new_env_lines [OF assms(2) l]
  proof
    assume "\<exists>k v. map_of vs k = Some v \<and> l = env_line k v"
    then obtain k v where "map_of vs k = Some v" "l = env_line k v" by blast
    then show ?thesis using names assms(4) one_line_env_line by (force dest: map_of_SomeD)
  qed (rule one_line_env_lines)
  then show ?thesis
    unfolding prepare_env_def using new_env_lines_nonempty [OF assms(1,2) names] by (intro env_lines_join) auto
qed


definition old_env :: string where
  "old_env = ''# router'' @ [CR, NL] @ ''export MT_HOST=10.0.0.1 # lab'' @ [NL, NL] @ ''SECRET_KEY=x'' @ [NL] @ ''MT_HOST=10.0.0.2''"

definition new_values :: env_values where
  "new_values = [(''MT_HOST'', ''192.0.2.7''), (''MT_PASSWORD'', ''p#s $w'')]"


section \<open>What the forms let through\<close>

lemma bad_chars_subset: "set v \<subseteq> set w \<Longrightarrow> \<not> bad_chars w \<Longrightarrow> \<not> bad_chars v"
  by (auto simp: bad_chars_def list_ex_iff)

lemma bad_chars_Nil [simp]: "\<not> bad_chars []"
  by (simp add: bad_chars_def)

definition good_char :: "char \<Rightarrow> bool" where
  "good_char c = (c \<noteq> QUOTE \<and> c \<noteq> BACKSLASH \<and> py_isprintable c)"

lemma bad_chars_iff: "bad_chars v \<longleftrightarrow> (\<exists>c \<in> set v. \<not> good_char c)"
  by (auto simp: bad_chars_def list_ex_iff good_char_def)

lemma good_classes:
  "ascii_letter c \<Longrightarrow> good_char c" "py_isdigit c \<Longrightarrow> good_char c" "py_isdecimal c \<Longrightarrow> good_char c" "lower_alnum_dash c \<Longrightarrow> good_char c"
  by (auto simp: good_char_def ascii_letter_def py_isdecimal_def py_isdigit_def lower_alnum_dash_def py_isprintable_def Let_def QUOTE_def
      BACKSLASH_def code_point_def)

lemma good_punctuation: "c \<in> set ''.:-[]_'' \<Longrightarrow> good_char c"
proof -
  have "list_all good_char ''.:-[]_''" by code_simp
  then show "c \<in> set ''.:-[]_'' \<Longrightarrow> good_char c" by (simp only: list_all_iff)
qed

lemma good_words:
  "host_re h \<Longrightarrow> \<not> bad_chars h"
  "list_all py_isdigit p \<Longrightarrow> \<not> bad_chars p"
  "list_all lower_alnum_dash r \<Longrightarrow> \<not> bad_chars r"
  "bucket_re b \<Longrightarrow> \<not> bad_chars b"
  using good_classes good_punctuation by (auto simp: bad_chars_iff host_re_def bucket_re_def list_all_iff host_char_def bucket_end_def)

lemma error_if_empty [simp]: "error_if b msg = [] \<longleftrightarrow> \<not> b"
  by (simp add: error_if_def)

lemma port_error_false: "port_error p = Inr False \<Longrightarrow> \<not> bad_chars p"
  by (rule good_words(2)) (auto simp: port_error_def split: if_splits)

lemma key_errors_empty: "key_errors raw key = [] \<Longrightarrow> \<not> bad_chars raw"
  by (cases "raw = []") (auto simp: key_errors_def)

lemma url_errors_empty: "url_errors url p = [] \<Longrightarrow> \<not> bad_chars url"
  by (auto simp: url_errors_def split: if_splits)

lemma router_errors_empty:
  assumes "router_errors host username port_bad raw password = []"
  shows "\<not> bad_chars host" "\<not> bad_chars username" "\<not> port_bad" "\<not> bad_chars raw"
  using assms good_words(1) [of host] by (auto simp: router_errors_def split: if_splits)

lemma bucket_errors_empty:
  assumes "bucket_errors region bucket key_id raw secret = []"
  shows "\<not> bad_chars region" "\<not> bad_chars bucket" "\<not> bad_chars key_id" "\<not> bad_chars raw"
  using assms good_words(3) [of region] good_words(4) [of bucket] by (auto simp: bucket_errors_def region_re_def)

text \<open>A value that passed the checks: a secret is the one that was typed, or the current one.\<close>
lemma kept_secret_safe: "\<not> bad_chars typed \<Longrightarrow> \<not> bad_chars (kept_secret env k typed) \<or> env k = Some (kept_secret env k typed)"
  by (auto simp: kept_secret_def split: option.split)

lemma validate_safe:
  assumes "validate netloc_ok env form = Inr (vs, [])" "map_of vs k = Some v" "k \<noteq> ''MT_PORT'' \<or> router_on form"
  shows "\<not> bad_chars v \<or> (k \<in> set SECRET_KEYS \<and> env k = Some v)"
proof -
  let ?raw = "str_or (form ''lapi_key'') []" and ?pw = "str_or (form ''mt_password'') []"
  have vs: "vs = form_values env form" using assms(1) by (auto simp: validate_def Let_def split: sum.splits if_splits)
  obtain p where "url_errors (new_url form) p = []" "key_errors ?raw (new_key env form) = []"
    using assms(1) by (auto simp: validate_def Let_def split: sum.splits if_splits)
  then have url: "\<not> bad_chars (new_url form)" and key: "\<not> bad_chars (new_key env form) \<or> env ''CROWDSEC_BOUNCER_KEY'' = Some (new_key env form)"
    using url_errors_empty key_errors_empty bad_chars_subset [OF set_py_strip] kept_secret_safe unfolding new_key_def by blast+
  have router: "\<not> bad_chars (form_get form ''mt_host'') \<and> \<not> bad_chars (form_get form ''mt_username'')
      \<and> (\<not> bad_chars (new_password env form) \<or> env ''MT_PASSWORD'' = Some (new_password env form))
      \<and> (k = ''MT_PORT'' \<longrightarrow> \<not> bad_chars (new_port form))"
  proof (cases "router_on form")
    case True
    then obtain b where b: "port_error (new_port form) = Inr b"
        "router_errors (form_get form ''mt_host'') (form_get form ''mt_username'') b ?pw (new_password env form) = []"
      using assms(1) by (auto simp: validate_def Let_def split: sum.splits)
    then show ?thesis
      using router_errors_empty [OF b(2)] port_error_false [of "new_port form"] kept_secret_safe [of ?pw env "''MT_PASSWORD''"] True
      by (simp add: new_password_def)
  next
    case False
    then show ?thesis using assms(3) by (simp add: router_on_def new_password_def)
  qed
  have ssl: "\<not> bad_chars (if use_ssl form then ''true'' else ''false'')" by (cases "use_ssl form") (simp_all, code_simp+)
  show ?thesis
    using assms(2) url key router ssl unfolding vs form_values_def by (auto simp: key_defs split: if_splits)
qed

lemma validate_b2_safe:
  assumes "validate_b2 netloc_ok env form = Inr (vs, [])" "map_of vs k = Some v"
  shows "\<not> bad_chars v \<or> (k \<in> set SECRET_KEYS \<and> env k = Some v)"
proof -
  let ?raw = "str_or (form ''s3_secret'') []"
  have vs: "vs = b2_values env form" using assms(1) by (auto simp: validate_b2_def Let_def split: sum.splits if_splits)
  have "bucket_errors (new_region form) (form_get form ''s3_bucket'') (form_get form ''s3_key'') ?raw (new_secret env form) = []"
    and e: "\<not> bad_chars (new_endpoint form)"
    using assms(1) by (auto simp: validate_b2_def Let_def split: sum.splits if_splits)
  note b = bucket_errors_empty [OF this(1)]
  have secret: "\<not> bad_chars (new_secret env form) \<or> env ''BACKUP_S3_SECRET'' = Some (new_secret env form)"
    unfolding new_secret_def using b(4) bad_chars_subset [OF set_py_strip] kept_secret_safe by blast
  have region: "\<not> bad_chars (if new_region form \<noteq> [] then new_region form else ''us-east-1'')"
    using b(1) by (cases "new_region form = []") (simp_all, code_simp)
  show ?thesis
    using assms(2) e b secret region unfolding vs b2_values_def by (auto simp: key_defs split: if_splits)
qed

text \<open>What the two forms let through can be written between single quotes: whichever form was accepted, a value that differs from
  the current one and is therefore saved holds no quote, no backslash and no control character such as a line end. This covers secrets
  left blank, since these keep their value, and assumes that the current secrets have no blanks around them; it does not cover the
  router port of a form with the router switched off, which is not checked.\<close>
theorem saved_values_are_safe:
  assumes "validate netloc_ok env form = Inr (vs, []) \<or> validate_b2 netloc_ok env form = Inr (vs, [])"
    and "k \<in> set (changed_keys env vs)" and "map_of vs k = Some v"
    and "\<forall>s \<in> set SECRET_KEYS. py_strip (str_or (env s) []) = str_or (env s) []"
    and "k \<noteq> ''MT_PORT'' \<or> router_on form"
  shows "\<not> bad_chars v \<and> one_line v"
proof -
  have "v \<noteq> current_value env k" using assms(2,3) by (simp add: changed_keys_def)
  moreover have "\<not> bad_chars v \<or> (k \<in> set SECRET_KEYS \<and> env k = Some v)"
    using assms(1,3,5) validate_safe validate_b2_safe by blast
  ultimately have v: "\<not> bad_chars v" using assms(4) by (auto simp: current_value_def str_or_def split: if_splits)
  moreover have "\<not> good_char NL" "\<not> good_char CR" by code_simp+
  ultimately show ?thesis by (auto simp: bad_chars_iff one_line_def)
qed

definition sample_form :: form where
  "sample_form = [''lapi_url'' \<mapsto> ''http://lapi:8080/'', ''lapi_key'' \<mapsto> ''k1'', ''mt_host'' \<mapsto> ''192.0.2.7'', ''mt_username'' \<mapsto> ''api'', ''mt_password'' \<mapsto> ''p#s $w'']"

theorem saved_values_are_safe_witness:
  "\<not> bad_chars ''p#s $w'' \<and> one_line ''p#s $w'' \<and> ''MT_PASSWORD'' \<in> set (changed_keys Map.empty (form_values Map.empty sample_form))"
proof -
  have ok: "validate (\<lambda>_. True) Map.empty sample_form = Inr (form_values Map.empty sample_form, [])" by code_simp
  have changed: "''MT_PASSWORD'' \<in> set (changed_keys Map.empty (form_values Map.empty sample_form))" by code_simp
  have v: "map_of (form_values Map.empty sample_form) ''MT_PASSWORD'' = Some ''p#s $w''" by code_simp
  have "\<not> bad_chars ''p#s $w'' \<and> one_line ''p#s $w''"
    by (rule saved_values_are_safe [OF disjI1 [OF ok] changed v]) (simp_all add: str_or_def)
  then show ?thesis using changed by blast
qed

text \<open>The port of a form with the router switched off is not checked, and a line end in it adds a line to the file.\<close>
definition injecting_port :: string where
  "injecting_port = ''8728'' @ [QUOTE, NL] @ ''PROTEK_HA_ROLE='' @ [QUOTE] @ ''standby''"

definition injecting_form :: form where
  "injecting_form = [''lapi_url'' \<mapsto> ''http://lapi:8080'', ''lapi_key'' \<mapsto> ''k1'', ''mt_port'' \<mapsto> injecting_port]"

lemma unchecked_port_injects_line:
  "validate (\<lambda>_. True) Map.empty injecting_form = Inr (form_values Map.empty injecting_form, [])
   \<and> ''MT_PORT'' \<in> set (changed_keys Map.empty (form_values Map.empty injecting_form))
   \<and> env_lines (Some (prepare_env [(''MT_PORT'', injecting_port)] None)) = [env_line ''MT_PORT'' ''8728'', env_line ''PROTEK_HA_ROLE'' ''standby'']"
  by (intro conjI) code_simp+

text \<open>A superscript digit is a digit to \<open>isdigit\<close> and not to \<open>int\<close>.\<close>
lemma superscript_port_raises:
  "validate (\<lambda>_. True) Map.empty (sample_form(''mt_port'' \<mapsto> [CHR 0xB2])) = Inl (ValueError ''invalid literal for int()'')"
  by code_simp

section \<open>A save reaches every worker\<close>

lemma put_all_get: "put_all vs env k = (case map_of (rev vs) k of Some v \<Rightarrow> Some v | None \<Rightarrow> env k)"
  unfolding put_all_def by (induction vs arbitrary: env) (auto simp: map_of_append map_add_def split: option.split)

text \<open>The file is swapped in last: a save that raises leaves it alone.\<close>
lemma save_failed_keeps_file:
  "save loads dumps now mtime vs e1 e2 (wk, sh) = ((wk', sh'), Some e) \<Longrightarrow> sh_text sh' = sh_text sh \<and> sh_mtime sh' = sh_mtime sh"
  by (auto simp: save_def Let_def split: if_splits option.splits)

lemma saved_keys_other: "saved_keys loads (db\<lparr>sources := t\<rparr>) = saved_keys loads db"
  by (simp add: saved_keys_def get_setting_def)

lemma saved_keys_reseed: "saved_keys loads (reseed_local_source env now db) = saved_keys loads db"
  by (simp add: reseed_local_source_def Let_def saved_keys_other seed_local_source_def)

text \<open>The JSON library reads back the list that it wrote.\<close>
definition json_list :: "(string \<Rightarrow> string list option) \<Rightarrow> (string list \<Rightarrow> string) \<Rightarrow> bool" where
  "json_list loads dumps = (\<forall>ks. loads (dumps ks) = Some ks \<and> dumps ks \<noteq> [])"

lemma save_saved_keys:
  assumes "save loads dumps now mtime vs e1 e2 (wk, sh) = ((wk', sh'), None)" "vs \<noteq> []" "json_list loads dumps" "fst ` set vs \<subseteq> set MANAGED"
  shows "saved_keys loads (sh_store sh') = sort (remdups (saved_keys loads (sh_store sh) @ map fst vs))"
    and "sh_text sh' = Some (prepare_env vs (sh_text sh))" and "sh_mtime sh' = mtime"
proof -
  let ?ks = "sort (remdups (saved_keys loads (sh_store sh) @ map fst vs))"
  have "set ?ks \<subseteq> set MANAGED" using assms(4) by (auto simp: saved_keys_def split: option.splits)
  then have "filter (\<lambda>k. k \<in> set MANAGED) ?ks = ?ks" by (intro filter_True) blast
  then have "saved_keys loads (set_setting now SAVED_KEYS_SETTING (dumps ?ks) (sh_store sh)) = ?ks"
    using assms(3) by (simp add: saved_keys_def json_list_def str_or_def)
  then show "saved_keys loads (sh_store sh') = ?ks" "sh_text sh' = Some (prepare_env vs (sh_text sh))" "sh_mtime sh' = mtime"
    using assms(1,2) by (auto simp: save_def Let_def saved_keys_reseed split: if_splits option.splits)
qed

text \<open>What the \<open>dotenv\<close> reader is relied on for: in a file whose lines hold no quotes, or are names with a single-quoted value
  without quotes and backslashes, a name defined by one such line has the text between its quotes as value. A value with a
  \<open>${\<close> is left out: the reader expands variables.\<close>
definition quoted_line :: "string \<Rightarrow> bool" where
  "quoted_line l = (\<exists>k v. is_name k \<and> \<not> bad_chars v \<and> l = env_line k v)"

definition plain_line :: "string \<Rightarrow> bool" where
  "plain_line l = (one_line l \<and> QUOTE \<notin> set l \<and> CHR 0x22 \<notin> set l)"

definition reads_quoted :: "(string \<Rightarrow> (string \<Rightarrow> string option) option) \<Rightarrow> bool" where
  "reads_quoted dotenv_values = (\<forall>ls k v. (\<forall>l \<in> set ls. plain_line l \<or> quoted_line l) \<and> is_name k \<and> \<not> bad_chars v \<and> \<not> py_contains v ''${''
     \<and> filter (\<lambda>l. line_key l = Some k) ls = [env_line k v]
     \<longrightarrow> (\<exists>vals. dotenv_values (py_join [NL] ls @ [NL]) = Some vals \<and> vals k = Some v))"

lemma set_snap_of: "(k, v) \<in> set (snap_of vals keys) \<longleftrightarrow> k \<in> set keys \<and> vals k = Some v \<and> CHR 0x00 \<notin> set v"
  by (auto simp: snap_of_def split: option.splits)

lemma put_all_unique: "(k, v) \<in> set vs \<Longrightarrow> (\<And>v'. (k, v') \<in> set vs \<Longrightarrow> v' = v) \<Longrightarrow> put_all vs env k = Some v"
proof -
  assume kv: "(k, v) \<in> set vs" and u: "\<And>v'. (k, v') \<in> set vs \<Longrightarrow> v' = v"
  have "k \<in> fst ` set (rev vs)" using kv by (simp add: rev_image_eqI)
  then have "map_of (rev vs) k \<noteq> None" by (simp only: map_of_eq_None_iff not_not)
  then obtain v' where v': "map_of (rev vs) k = Some v'" by blast
  then have "(k, v') \<in> set vs" by (auto dest: map_of_SomeD)
  then show ?thesis using u v' by (simp add: put_all_get)
qed


text \<open>A reader and a codec with these properties.\<close>
definition simple_dotenv :: "string \<Rightarrow> (string \<Rightarrow> string option) option" where
  "simple_dotenv t = Some (\<lambda>k. case filter (\<lambda>l. line_key l = Some k) (env_lines (Some t)) of
       [] \<Rightarrow> None | ls \<Rightarrow> Some (butlast (drop (length k + 2) (last ls))))"

lemma simple_dotenv_reads_quoted: "reads_quoted simple_dotenv"
  unfolding reads_quoted_def
proof (intro allI impI)
  fix ls k v
  assume *: "(\<forall>l \<in> set ls. plain_line l \<or> quoted_line l) \<and> is_name k \<and> \<not> bad_chars v \<and> \<not> py_contains v ''${''
    \<and> filter (\<lambda>l. line_key l = Some k) ls = [env_line k v]"
  have good: "\<not> good_char NL" "\<not> good_char CR" by code_simp+
  have "one_line v" if "\<not> bad_chars v" for v using that good by (auto simp: bad_chars_iff one_line_def)
  then have "\<forall>l \<in> set ls. one_line l" using * by (auto simp: plain_line_def quoted_line_def one_line_env_line)
  moreover have "ls \<noteq> []" using * by auto
  ultimately have "env_lines (Some (py_join [NL] ls @ [NL])) = ls" by (rule env_lines_join)
  then show "\<exists>vals. simple_dotenv (py_join [NL] ls @ [NL]) = Some vals \<and> vals k = Some v"
    using * by (simp add: simple_dotenv_def env_line_def quote_value_def)
qed

fun decode_list :: "string \<Rightarrow> string list \<Rightarrow> string \<Rightarrow> string list option" where
  "decode_list cur ks [] = Some (rev ks)"
| "decode_list cur ks (c # s) =
     (if c = CHR '';'' then decode_list [] (rev cur # ks) s
      else case s of [] \<Rightarrow> None | d # s' \<Rightarrow> decode_list (d # cur) ks s')"

definition encode_list :: "string list \<Rightarrow> string" where
  "encode_list ks = CHR ''['' # concat (map (\<lambda>k. concat (map (\<lambda>c. [CHR ''x'', c]) k) @ '';'') ks)"

definition decode :: "string \<Rightarrow> string list option" where "decode s = decode_list [] [] (tl s)"

lemma simple_json: "json_list decode encode_list"
proof -
  have word: "decode_list cur ks (concat (map (\<lambda>c. [CHR ''x'', c]) k) @ '';'' @ s) = decode_list [] ((rev cur @ k) # ks) s" for cur ks k s
    by (induction k arbitrary: cur) simp_all
  have "decode_list [] ks0 (concat (map (\<lambda>k. concat (map (\<lambda>c. [CHR ''x'', c]) k) @ '';'') ks)) = Some (rev ks0 @ ks)" for ks0 ks
  proof (induction ks arbitrary: ks0)
    case (Cons k ks)
    then show ?case using word [of "[]" ks0 k] by simp
  qed simp
  then show ?thesis by (simp add: json_list_def decode_def encode_list_def)
qed

definition shared0 :: env_shared where
  "shared0 = \<lparr>sh_text = Some old_env, sh_mtime = 1, sh_store = empty_store\<rparr>"

definition web_worker :: worker where
  "web_worker = \<lparr>wk_environ = [''MT_HOST'' \<mapsto> ''10.0.0.2''], wk_seen_mtime = [''web'' \<mapsto> 1], wk_applied = [''web'' \<mapsto> []]\<rparr>"


end
