(* ===== verification/Slo.thy ===== *)
theory Slo
  imports Alarms Iso_Time
begin

text \<open>
  Service level objectives (\<open>slo.py\<close>): the evaluation of the three objectives over the sync events
  of a window, and the alerts on sustained breaches, whose state lives in the settings table.
  Durations and rates are exact numbers. Notifications and SIEM events are returned in order.
\<close>

section \<open>Evaluation\<close>

record slo =
  slo_key :: string
  slo_title :: string

record slo_result =
  sr_key :: string
  sr_title :: string
  sr_value :: rat
  sr_value_str :: string
  sr_target_str :: string
  sr_compliant :: bool
  sr_burn_rate :: rat
  sr_burn_alert :: bool
  sr_samples :: nat

definition SYNC_SUCCESS :: slo where
  "SYNC_SUCCESS = \<lparr>slo_key = ''sync_success'', slo_title = ''Reconcile cycle success rate''\<rparr>"
definition SYNC_DURATION :: slo where
  "SYNC_DURATION = \<lparr>slo_key = ''sync_duration'', slo_title = ''Reconcile cycle duration''\<rparr>"
definition POLL_FRESHNESS :: slo where
  "POLL_FRESHNESS = \<lparr>slo_key = ''poll_freshness'', slo_title = ''Poll freshness''\<rparr>"

definition percentile_index :: "rat \<Rightarrow> nat \<Rightarrow> nat" where
  "percentile_index p n = nat (max 0 (min (int n - 1) (py_round (p / 100 * of_int (int n - 1)))))"

definition percentile :: "int list \<Rightarrow> rat \<Rightarrow> int" where
  "percentile values p = (if values = [] then 0 else sort values ! percentile_index p (length values))"

definition slo_target :: "store \<Rightarrow> string \<Rightarrow> rat \<Rightarrow> rat" where
  "slo_target db key default_value =
     (case get_setting (''slo.'' @ key @ ''.target'') db of
        None \<Rightarrow> default_value
      | Some raw \<Rightarrow> if raw = [] then default_value
                    else case py_float raw of Some x \<Rightarrow> x | None \<Rightarrow> default_value)"

definition slo_target_ms :: "store \<Rightarrow> string \<Rightarrow> int \<Rightarrow> int" where
  "slo_target_ms db key default_value =
     (case get_setting (''slo.'' @ key @ ''.target_ms'') db of
        None \<Rightarrow> default_value
      | Some raw \<Rightarrow> if raw = [] then default_value
                    else case py_int raw of Some x \<Rightarrow> x | None \<Rightarrow> default_value)"

definition window_rows :: "instant \<Rightarrow> int \<Rightarrow> store \<Rightarrow> sync_event list" where
  "window_rows now window_hours db =
     sort_key se_started_at (filter (\<lambda>r. now - window_hours * HOUR \<le> se_started_at r) (contents (sync_events db)))"

definition eval_success :: "store \<Rightarrow> sync_event list \<Rightarrow> slo_result" where
  "eval_success db rs =
     (let total = length rs;
          bad = length (filter (\<lambda>r. se_errors r > 0) rs);
          success_rate = (if total = 0 then 1 else of_nat (total - bad) / of_nat total);
          target = slo_target db ''sync_success'' (999 / 1000);
          budget = 1 - target;
          burn = (if budget > 0 then (1 - success_rate) / budget else 0)
      in \<lparr>sr_key = slo_key SYNC_SUCCESS, sr_title = slo_title SYNC_SUCCESS, sr_value = success_rate,
          sr_value_str = py_fmt 3 (success_rate * 100) @ ''%'', sr_target_str = py_fmt 1 (target * 100) @ ''%'',
          sr_compliant = (target \<le> success_rate), sr_burn_rate = burn, sr_burn_alert = (144 / 10 \<le> burn),
          sr_samples = total\<rparr>)"

definition eval_p95 :: "slo \<Rightarrow> int \<Rightarrow> int list \<Rightarrow> nat \<Rightarrow> slo_result" where
  "eval_p95 sl target_ms values samples =
     (let p95 = percentile values 95
      in \<lparr>sr_key = slo_key sl, sr_title = slo_title sl, sr_value = of_int p95, sr_value_str = py_str_int p95 @ '' ms'',
          sr_target_str = ''<= '' @ py_str_int target_ms @ '' ms'', sr_compliant = (p95 \<le> target_ms),
          sr_burn_rate = (if target_ms = 0 then 0 else of_int p95 / of_int target_ms),
          sr_burn_alert = (p95 > target_ms * 2), sr_samples = samples\<rparr>)"

fun gaps :: "instant list \<Rightarrow> int list" where
  "gaps (s # t # ts) = py_trunc (of_int (t - s) / 1000) # gaps (t # ts)"
| "gaps _ = []"

definition evaluate :: "instant \<Rightarrow> int \<Rightarrow> store \<Rightarrow> slo_result list" where
  "evaluate now window_hours db =
     (let rs = window_rows now window_hours db
      in [eval_success db rs,
          eval_p95 SYNC_DURATION (slo_target_ms db ''sync_duration'' 5000) (map se_duration_ms rs) (length rs),
          eval_p95 POLL_FRESHNESS (slo_target_ms db ''poll_freshness'' 30000) (gaps (map se_started_at rs))
            (length rs - 1)])"

definition slo_summary :: "instant \<Rightarrow> int \<Rightarrow> store \<Rightarrow> bool \<times> bool \<times> slo_result list" where
  "slo_summary now window_hours db =
     (let s = evaluate now window_hours db in (list_all sr_compliant s, list_ex sr_burn_alert s, s))"

section \<open>Alerts on sustained breaches\<close>

definition DEFAULT_GRACE_MIN :: int where "DEFAULT_GRACE_MIN = 5"

definition started_key :: "string \<Rightarrow> string" where "started_key k = ''slo.'' @ k @ ''.breach_started_at''"
definition alerted_key :: "string \<Rightarrow> string" where "alerted_key k = ''slo.'' @ k @ ''.alerted''"

definition grace_minutes :: "store \<Rightarrow> int option \<Rightarrow> int" where
  "grace_minutes db grace_min =
     (case grace_min of Some n \<Rightarrow> n
      | None \<Rightarrow> (case get_setting ''slo.grace_min'' db of
                   None \<Rightarrow> DEFAULT_GRACE_MIN
                 | Some s \<Rightarrow> if s = [] then DEFAULT_GRACE_MIN
                             else case py_int s of Some n \<Rightarrow> n | None \<Rightarrow> DEFAULT_GRACE_MIN))"

definition breach_events :: "slo_result \<Rightarrow> rat \<Rightarrow> event list" where
  "breach_events r mins =
     [Notify ''sync_error''
        (''SLO `'' @ sr_key r @ ''` ('' @ sr_title r @ '') breached for '' @ py_fmt 1 mins @ '' min -- observed ''
           @ sr_value_str r @ '', target '' @ sr_target_str r @ '', burn rate '' @ py_fmt 1 (sr_burn_rate r) @ ''x.'')
        (''[SLO] '' @ sr_key r @ '' breach sustained''),
      Ship ''slo.breach'' [(''key'', Some (sr_key r)), (''title'', Some (sr_title r)), (''value'', Some (sr_value_str r)),
        (''target'', Some (sr_target_str r)), (''burn_rate'', Some (py_fmt 1 (sr_burn_rate r))), (''sustained_min'', Some (py_fmt 1 mins))]]"

definition recovery_events :: "slo_result \<Rightarrow> event list" where
  "recovery_events r =
     [Notify ''sync_error''
        (''SLO `'' @ sr_key r @ ''` ('' @ sr_title r @ '') recovered -- now at '' @ sr_value_str r
           @ '' (target '' @ sr_target_str r @ '').'')
        (''[SLO] '' @ sr_key r @ '' recovered''),
      Ship ''slo.recovery'' [(''key'', Some (sr_key r)), (''value'', Some (sr_value_str r))]]"

text \<open>What one call reports: the keys it alerted on and the keys that recovered.\<close>
record slo_report =
  rp_events :: "event list"
  rp_fired :: "string list"
  rp_recovered :: "string list"

definition no_report :: slo_report where
  "no_report = \<lparr>rp_events = [], rp_fired = [], rp_recovered = []\<rparr>"

definition slo_check :: "instant \<Rightarrow> int \<Rightarrow> slo_result \<Rightarrow> store \<times> slo_report \<Rightarrow> store \<times> slo_report" where
  "slo_check now grace r st =
     (case st of (db, out) \<Rightarrow>
        let key = sr_key r;
            breach_started = get_setting (started_key key) db;
            alerted = (str_or (get_setting (alerted_key key) db) ''0'' = ''1'')
        in if \<not> sr_compliant r then
             (case (if str_truthy breach_started then parse_stamp (the breach_started) else None) of
                None \<Rightarrow> (set_setting now (started_key key) (isoformat now) db, out)
              | Some started \<Rightarrow>
                  let mins = of_int (now - started) / of_int MINUTE
                  in if of_int grace \<le> mins \<and> \<not> alerted
                     then (set_setting now (alerted_key key) ''1'' db,
                           out\<lparr>rp_events := rp_events out @ breach_events r mins, rp_fired := rp_fired out @ [key]\<rparr>)
                     else (db, out))
           else
             (let out = (if alerted
                         then out\<lparr>rp_events := rp_events out @ recovery_events r,
                                  rp_recovered := rp_recovered out @ [key]\<rparr>
                         else out);
                  db = (if str_truthy breach_started then set_setting now (started_key key) [] db else db);
                  db = (if alerted then set_setting now (alerted_key key) ''0'' db else db)
              in (db, out)))"

definition alert_if_breached :: "instant \<Rightarrow> int \<Rightarrow> int option \<Rightarrow> store \<Rightarrow> store \<times> slo_report" where
  "alert_if_breached now window_hours grace_min db =
     (if str_or (get_setting ''slo.alerts_enabled'' db) ''0'' = ''1''
      then fold (slo_check now (grace_minutes db grace_min)) (evaluate now window_hours db) (db, no_report)
      else (db, no_report))"

section \<open>What the percentile means\<close>

lemma sorted_nth_le_iff:
  assumes "sorted xs" and "i < length xs"
  shows "xs ! i \<le> (t :: int) \<longleftrightarrow> i < length (filter (\<lambda>x. x \<le> t) xs)"
  using assms
proof (induction xs arbitrary: i)
  case (Cons x xs)
  show ?case
  proof (cases "x \<le> t")
    case True
    then show ?thesis using Cons by (cases i) auto
  next
    case False
    then have none: "filter (\<lambda>y. y \<le> t) xs = []" using Cons.prems by (auto simp: filter_empty_conv)
    have "x \<le> (x # xs) ! i" using Cons.prems by (cases i) auto
    with False none show ?thesis by auto
  qed
qed simp

lemma percentile_index_less: "0 < n \<Longrightarrow> percentile_index p n < n"
  by (auto simp: percentile_index_def)

lemma percentile_le_iff:
  assumes "values \<noteq> []"
  shows "percentile values p \<le> t \<longleftrightarrow> percentile_index p (length values) < length (filter (\<lambda>x. x \<le> t) values)"
proof -
  have "filter (\<lambda>x. x \<le> t) (sort values) = sort (filter (\<lambda>x. x \<le> t) values)"
    by (simp add: filter_sort)
  then show ?thesis
    using assms sorted_nth_le_iff [of "sort values" "percentile_index p (length values)" t]
    by (simp add: percentile_def percentile_index_less)
qed

text \<open>An objective on the 95th percentile is met exactly when more samples than the rounded 95 percent mark are
  within the target: for the cycle durations of the window, and for the gaps between its cycles. With no sample it is
  met as long as the target is not negative.\<close>
theorem p95_objective_counts:
  assumes "rs = window_rows now window_hours db" and "t = slo_target_ms db ''sync_duration'' 5000"
    and "r = evaluate now window_hours db ! 1"
  shows "sr_key r = ''sync_duration'' \<and>
         sr_compliant r = (if rs = [] then 0 \<le> t
            else percentile_index 95 (length rs) < length (filter (\<lambda>e. se_duration_ms e \<le> t) rs))"
  using assms percentile_le_iff [of "map se_duration_ms rs" 95 t]
  by (auto simp: evaluate_def Let_def eval_p95_def SYNC_DURATION_def percentile_def filter_map o_def)

definition sample_cycle :: "instant \<Rightarrow> int \<Rightarrow> nat \<Rightarrow> sync_event" where
  "sample_cycle t ms errs = \<lparr>se_started_at = t, se_duration_ms = ms, se_added = 0, se_removed = 0, se_unchanged = 0,
     se_errors = errs, se_source = ''auto'', se_dry_run = False, se_notes = [], se_lapi_fetch_ms = 0, se_snapshot_ms = 0,
     se_diff_ms = 0, se_apply_ms = 0\<rparr>"

definition sample_cycles :: store where
  "sample_cycles = empty_store\<lparr>sync_events := fst (insert_row (sample_cycle (20 * SECOND) 9000 0)
     (fst (insert_row (sample_cycle (10 * SECOND) 100 0) empty_table)))\<rparr>"

theorem p95_objective_counts_witness:
  "\<not> sr_compliant (evaluate HOUR 24 sample_cycles ! 1)
   \<and> percentile_index 95 2 = 1
   \<and> length (filter (\<lambda>e. se_duration_ms e \<le> 5000) (window_rows HOUR 24 sample_cycles)) = 1"
proof (intro conjI)
  show 1: "percentile_index 95 2 = 1" by code_simp
  show 2: "length (filter (\<lambda>e. se_duration_ms e \<le> 5000) (window_rows HOUR 24 sample_cycles)) = 1" by code_simp
  have "length (window_rows HOUR 24 sample_cycles) = 2" by code_simp
  moreover have "slo_target_ms sample_cycles ''sync_duration'' 5000 = 5000" by code_simp
  ultimately show "\<not> sr_compliant (evaluate HOUR 24 sample_cycles ! 1)"
    using p95_objective_counts [OF refl refl refl, of HOUR 24 sample_cycles] 1 2 by auto
qed

section \<open>One message per breach\<close>

definition slo_flag :: "string \<Rightarrow> store \<Rightarrow> bool" where
  "slo_flag k db = (get_setting (alerted_key k) db = Some ''1'')"

lemma slo_keys [simp]:
  "alerted_key k = alerted_key k' \<longleftrightarrow> k = k'" "started_key k = started_key k' \<longleftrightarrow> k = k'"
  "alerted_key k \<noteq> started_key k'" "started_key k' \<noteq> alerted_key k"
proof -
  have "last (alerted_key k) \<noteq> last (started_key k')" by (simp add: alerted_key_def started_key_def)
  then show "alerted_key k \<noteq> started_key k'" "started_key k' \<noteq> alerted_key k" by metis+
qed (simp_all add: alerted_key_def started_key_def)

lemma slo_flag_alt: "(str_or (get_setting (alerted_key k) db) ''0'' = ''1'') = slo_flag k db"
  by (auto simp: slo_flag_def str_or_def split: option.splits)

lemma slo_flag_set:
  "slo_flag k (set_setting now (alerted_key k') v db) = (if k = k' then v = ''1'' else slo_flag k db)"
  "slo_flag k (set_setting now (started_key k') v db) = slo_flag k db"
  by (simp_all add: slo_flag_def)

lemma slo_check_other:
  assumes "sr_key r \<noteq> k" and "slo_check now grace r (db, out) = (db', out')"
  shows "slo_flag k db' = slo_flag k db \<and> (k \<in> set (rp_fired out') \<longleftrightarrow> k \<in> set (rp_fired out))
       \<and> (k \<in> set (rp_recovered out') \<longleftrightarrow> k \<in> set (rp_recovered out))"
  using assms unfolding slo_check_def Let_def prod.case slo_flag_alt
  by (auto simp: slo_flag_set split: if_splits option.splits)

lemma slo_check_same:
  assumes "sr_key r = k" and "slo_check now grace r (db, out) = (db', out')"
    and "k \<notin> set (rp_fired out)" and "k \<notin> set (rp_recovered out)"
  shows "(k \<in> set (rp_fired out') \<longleftrightarrow> \<not> slo_flag k db \<and> slo_flag k db')
       \<and> (k \<in> set (rp_recovered out') \<longleftrightarrow> slo_flag k db \<and> \<not> slo_flag k db')"
  using assms unfolding slo_check_def Let_def prod.case slo_flag_alt
  by (auto simp: slo_flag_set split: if_splits option.splits)

lemma slo_fold_other:
  "k \<notin> sr_key ` set rs \<Longrightarrow> fold (slo_check now grace) rs (db, out) = (db', out') \<Longrightarrow>
   slo_flag k db' = slo_flag k db \<and> (k \<in> set (rp_fired out') \<longleftrightarrow> k \<in> set (rp_fired out))
   \<and> (k \<in> set (rp_recovered out') \<longleftrightarrow> k \<in> set (rp_recovered out))"
proof (induction rs arbitrary: db out)
  case (Cons r rs)
  obtain db1 out1 where 1: "slo_check now grace r (db, out) = (db1, out1)" by fastforce
  then have "fold (slo_check now grace) rs (db1, out1) = (db', out')" using Cons.prems by simp
  then show ?case using Cons.IH [of db1 out1] slo_check_other [OF _ 1, of k] Cons.prems(1) by auto
qed simp

lemma slo_fold_edges:
  "distinct (map sr_key rs) \<Longrightarrow> fold (slo_check now grace) rs (db, out) = (db', out') \<Longrightarrow>
   k \<notin> set (rp_fired out) \<Longrightarrow> k \<notin> set (rp_recovered out) \<Longrightarrow>
   (k \<in> set (rp_fired out') \<longleftrightarrow> \<not> slo_flag k db \<and> slo_flag k db')
   \<and> (k \<in> set (rp_recovered out') \<longleftrightarrow> slo_flag k db \<and> \<not> slo_flag k db')"
proof (induction rs arbitrary: db out)
  case (Cons r rs)
  obtain db1 out1 where 1: "slo_check now grace r (db, out) = (db1, out1)" by fastforce
  then have rest: "fold (slo_check now grace) rs (db1, out1) = (db', out')" using Cons.prems by simp
  show ?case
  proof (cases "sr_key r = k")
    case True
    then have "k \<notin> sr_key ` set rs" using Cons.prems(1) by auto
    then show ?thesis
      using slo_check_same [OF True 1 Cons.prems(3,4)] slo_fold_other [OF _ rest] by blast
  next
    case False
    then show ?thesis
      using slo_check_other [OF False 1] Cons.IH [OF _ rest] Cons.prems by auto
  qed
qed auto

lemma evaluate_keys: "map sr_key (evaluate now w db) = [''sync_success'', ''sync_duration'', ''poll_freshness'']"
  by (simp add: evaluate_def Let_def eval_success_def eval_p95_def SYNC_SUCCESS_def SYNC_DURATION_def POLL_FRESHNESS_def)

text \<open>A call, after whatever the rest of the program did to the store in between.\<close>
type_synonym slo_call = "(store \<Rightarrow> store) \<times> instant \<times> int \<times> int option"

fun slo_call_result :: "slo_call \<Rightarrow> store \<Rightarrow> store \<times> slo_report" where
  "slo_call_result (env, now, w, g) db = alert_if_breached now w g (env db)"

definition slo_step :: "slo_call \<Rightarrow> store \<Rightarrow> store" where
  "slo_step c db = fst (slo_call_result c db)"

definition slo_signals :: "string \<Rightarrow> slo_call \<Rightarrow> store \<Rightarrow> signal list" where
  "slo_signals k c db =
     (if k \<in> set (rp_fired (snd (slo_call_result c db))) then [Raise] else [])
     @ (if k \<in> set (rp_recovered (snd (slo_call_result c db))) then [Clear] else [])"

definition keeps_flag :: "string \<Rightarrow> slo_call \<Rightarrow> store \<Rightarrow> bool" where
  "keeps_flag k c db = (slo_flag k (fst c db) = slo_flag k db)"

interpretation slo_alarm: edge_alarm "slo_flag k" slo_step "slo_signals k" "keeps_flag k" for k
proof
  fix c :: slo_call and db
  assume ok: "keeps_flag k c db"
  obtain env now w g where c: "c = (env, now, w, g)" using prod_cases4 by blast
  show "slo_signals k c db = edge_signal (slo_flag k db) (slo_flag k (slo_step c db))"
  proof (cases "str_or (get_setting ''slo.alerts_enabled'' (env db)) ''0'' = ''1''")
    case True
    obtain db' out' where res: "fold (slo_check now (grace_minutes (env db) g)) (evaluate now w (env db)) (env db, no_report) = (db', out')"
      by fastforce
    have "distinct (map sr_key (evaluate now w (env db)))" unfolding evaluate_keys by simp
    from slo_fold_edges [OF this res, of k]
    show ?thesis using True res ok
      by (auto simp: slo_signals_def slo_step_def c alert_if_breached_def no_report_def keeps_flag_def edge_signal_def)
  next
    case False
    then show ?thesis using ok
      by (simp add: slo_signals_def slo_step_def c alert_if_breached_def no_report_def keeps_flag_def)
  qed
qed

text \<open>Over any run of checks, whatever the rest of the program writes to the store in between except for the flag
  itself, the messages about one objective alternate: a breach is announced once, and only a recovery is announced
  before the next breach.\<close>
theorem slo_messages_alternate:
  assumes "run_ok slo_step (keeps_flag k) calls db" and "\<not> slo_flag k db"
  shows "alternating False (run_signals slo_step (slo_signals k) calls db)"
  using slo_alarm.run_edges [OF assms(1)] assms(2) by simp

definition noisy_db :: store where
  "noisy_db = set_setting 0 ''slo.alerts_enabled'' ''1'' sample_cycles"

theorem slo_messages_alternate_witness:
  "run_signals slo_step (slo_signals ''sync_duration'') [(id, HOUR, 24, None), (id, HOUR + 6 * MINUTE, 24, None)] noisy_db
     = [Raise]
   \<and> alternating False (run_signals slo_step (slo_signals ''sync_duration'')
        [(id, HOUR, 24, None), (id, HOUR + 6 * MINUTE, 24, None)] noisy_db)"
proof
  show "run_signals slo_step (slo_signals ''sync_duration'') [(id, HOUR, 24, None), (id, HOUR + 6 * MINUTE, 24, None)] noisy_db
     = [Raise]" by code_simp
  have "\<not> slo_flag ''sync_duration'' noisy_db" by code_simp
  moreover have "run_ok slo_step (keeps_flag ''sync_duration'') [(id, HOUR, 24, None), (id, HOUR + 6 * MINUTE, 24, None)] noisy_db"
    unfolding run_ok.simps keeps_flag_def fst_conv id_apply by (intro conjI refl TrueI)
  ultimately show "alternating False (run_signals slo_step (slo_signals ''sync_duration'')
        [(id, HOUR, 24, None), (id, HOUR + 6 * MINUTE, 24, None)] noisy_db)"
    by (intro slo_messages_alternate)
qed

section \<open>No message before the grace period\<close>

text \<open>The checks of one objective, and the store after them.\<close>
definition run_key :: "(instant \<times> int \<times> slo_result) list \<Rightarrow> store \<Rightarrow> store" where
  "run_key cs db = fold (\<lambda>(now, grace, r) db. fst (slo_check now grace r (db, no_report))) cs db"

text \<open>The checks end in an unbroken breach that began at \<open>t0\<close>.\<close>
definition breach_since :: "instant \<Rightarrow> (instant \<times> int \<times> slo_result) list \<Rightarrow> bool" where
  "breach_since t0 cs =
     (\<exists>ys g0 r0 zs. cs = ys @ (t0, g0, r0) # zs \<and> \<not> sr_compliant r0 \<and> (\<forall>(_, _, r) \<in> set zs. \<not> sr_compliant r))"

lemma breach_since_snoc: "breach_since t0 cs \<Longrightarrow> \<not> sr_compliant r \<Longrightarrow> breach_since t0 (cs @ [(now, g, r)])"
  unfolding breach_since_def by (elim exE conjE, rule exI, rule exI, rule exI, rule exI) (auto simp: append_Cons)

lemma breach_since_new: "\<not> sr_compliant r \<Longrightarrow> breach_since now (cs @ [(now, g, r)])"
  unfolding breach_since_def by (rule exI [of _ cs]) auto

lemma slo_check_stamp:
  assumes "sr_key r = k"
  shows "get_setting (started_key k) (fst (slo_check now grace r (db, out))) =
     (if \<not> sr_compliant r
      then (if str_truthy (get_setting (started_key k) db) \<and> parse_stamp (the (get_setting (started_key k) db)) \<noteq> None
            then get_setting (started_key k) db else Some (isoformat now))
      else if str_truthy (get_setting (started_key k) db) then Some [] else get_setting (started_key k) db)"
  using assms by (auto simp: slo_check_def Let_def get_setting_simps split: option.splits if_splits)

lemma run_key_stamp:
  assumes "\<forall>(now, _, r) \<in> set cs. datable now \<and> sr_key r = k"
    and "\<not> str_truthy (get_setting (started_key k) db)"
    and "str_truthy (get_setting (started_key k) (run_key cs db))"
  shows "\<exists>t0. get_setting (started_key k) (run_key cs db) = Some (isoformat t0) \<and> datable t0 \<and> breach_since t0 cs"
  using assms
proof (induction cs rule: rev_induct)
  case Nil
  then show ?case by (simp add: run_key_def)
next
  case (snoc c cs)
  obtain now g r where c: "c = (now, g, r)" using prod_cases3 by blast
  let ?s = "get_setting (started_key k) (run_key cs db)"
  have k: "sr_key r = k" "datable now" using snoc.prems(1) by (auto simp: c)
  have step: "get_setting (started_key k) (run_key (cs @ [c]) db) =
      get_setting (started_key k) (fst (slo_check now g r (run_key cs db, no_report)))"
    by (simp add: run_key_def c)
  note stamp = step [unfolded slo_check_stamp [OF k(1)]]
  have bad: "\<not> sr_compliant r"
    using snoc.prems(3) unfolding stamp by (auto simp: str_truthy_def split: if_splits)
  show ?case
  proof (cases "str_truthy ?s")
    case True
    with snoc obtain t0 where t0: "?s = Some (isoformat t0)" "datable t0" "breach_since t0 cs" by auto
    then show ?thesis using bad stamp by (auto simp: c str_truthy_def intro: breach_since_snoc)
  next
    case False
    then show ?thesis using bad k stamp by (auto simp: c intro: breach_since_new)
  qed
qed

text \<open>A breach is announced only after it has lasted: if the check at a time \<open>now\<close> announces a breach of an
  objective, then the checks before it end in an unbroken series of breaches that began at least the grace period
  earlier.\<close>
theorem slo_alert_needs_sustained_breach:
  assumes "\<forall>(t, _, r) \<in> set cs. datable t \<and> sr_key r = k" and "\<not> str_truthy (get_setting (started_key k) db)"
    and "sr_key r = k" and "k \<in> set (rp_fired (snd (slo_check now grace r (run_key cs db, no_report))))"
  shows "\<exists>t0. breach_since t0 cs \<and> \<not> sr_compliant r \<and> grace * MINUTE \<le> now - t0"
proof -
  let ?s = "get_setting (started_key k) (run_key cs db)"
  obtain started where fired: "\<not> sr_compliant r" "str_truthy ?s" "parse_stamp (the ?s) = Some started"
    "(of_int grace :: rat) \<le> of_int (now - started) / of_int MINUTE"
    using assms(3,4) by (auto simp: slo_check_def Let_def no_report_def split: if_splits option.splits)
  obtain t0 where t0: "?s = Some (isoformat t0)" "datable t0" "breach_since t0 cs"
    using run_key_stamp [OF assms(1,2) fired(2)] by blast
  then have "started = t0" using fired(3) by simp
  moreover have "(of_int (grace * MINUTE) :: rat) \<le> of_int (now - started)"
    using fired(4) by (simp add: MINUTE_def SECOND_def field_simps)
  ultimately show ?thesis using fired(1) t0(3) of_int_le_iff by blast
qed

theorem slo_alert_needs_sustained_breach_witness:
  "\<exists>t0. breach_since t0 [(HOUR, 5, evaluate HOUR 24 noisy_db ! 1)] \<and> 5 * MINUTE \<le> (HOUR + 6 * MINUTE) - t0"
proof -
  let ?r = "evaluate HOUR 24 noisy_db ! 1"
  have "datable HOUR" by code_simp
  moreover have "sr_key ?r = ''sync_duration''" by code_simp
  moreover have "\<not> str_truthy (get_setting (started_key ''sync_duration'') noisy_db)" by code_simp
  moreover have "''sync_duration'' \<in> set (rp_fired (snd (slo_check (HOUR + 6 * MINUTE) 5 ?r
      (run_key [(HOUR, 5, ?r)] noisy_db, no_report))))" by code_simp
  ultimately show ?thesis
    using slo_alert_needs_sustained_breach [of "[(HOUR, 5, ?r)]" "''sync_duration''" noisy_db ?r "HOUR + 6 * MINUTE" 5]
    by auto
qed

end
