(* ===== verification/Disk_Watchdog.thy ===== *)
theory Disk_Watchdog
  imports Alarms Iso_Time
begin

text \<open>
  The disk watchdog (\<open>disk_watchdog.py\<close>): the capacity reading, the sample table, the warn and
  critical alarms with their recovery margin, the guard of the write-ahead log and the optional
  rebaselining. The probe of the file system, the size of the log and the directory sizes are
  arguments, and so is \<open>writable\<close>: on a full disk every statement that writes raises, and reading
  still works. Numeric fields of a SIEM payload are written with one decimal. What the commands do
  is outside; the commands run are returned.
\<close>

section \<open>State\<close>

record disk_usage =
  du_total :: int
  du_used :: int
  du_free :: int

record disk_sample =
  ds_ts :: instant
  ds_used_pct :: rat
  ds_free_bytes :: int
  ds_total_bytes :: int

record disk_db =
  d_settings :: store
  d_samples :: "disk_sample auto_table"
  d_audit :: "audit_row auto_table"

definition HYSTERESIS_PCT :: rat where "HYSTERESIS_PCT = 5"
definition SAMPLES_CAP :: nat where "SAMPLES_CAP = 1440"
definition DEFAULT_WARN_PCT :: rat where "DEFAULT_WARN_PCT = 70"
definition DEFAULT_CRITICAL_PCT :: rat where "DEFAULT_CRITICAL_PCT = 90"

definition setting_float :: "store \<Rightarrow> string \<Rightarrow> rat \<Rightarrow> rat" where
  "setting_float db key default_value =
     (case get_setting key db of
        None \<Rightarrow> default_value
      | Some raw \<Rightarrow> if raw = [] then default_value
                    else case py_float raw of Some x \<Rightarrow> x | None \<Rightarrow> default_value)"

definition flag_on :: "string \<Rightarrow> store \<Rightarrow> bool" where
  "flag_on key db = (str_or (get_setting key db) ''0'' = ''1'')"

section \<open>Readings\<close>

text \<open>\<open>usage()\<close>: no database, never raises; \<open>None\<close> is a failing probe.\<close>
definition usage :: "disk_usage option \<Rightarrow> rat \<times> int \<times> int \<times> bool" where
  "usage probe =
     (case probe of
        None \<Rightarrow> (0, 0, 0, True)
      | Some du \<Rightarrow>
          let denom = du_used du + du_free du
          in (if denom \<noteq> 0 then of_int (du_used du) / of_int denom * 100 else 0, du_free du, du_total du, False))"

definition used_pct :: "disk_usage option \<Rightarrow> rat" where
  "used_pct probe = fst (usage probe)"

text \<open>\<open>DELETE ... WHERE id NOT IN (SELECT id ... ORDER BY id DESC LIMIT n)\<close>: the newest rows stay.\<close>
definition keep_newest :: "nat \<Rightarrow> 'r auto_table \<Rightarrow> 'r auto_table" where
  "keep_newest n t = (let ids = take n (rev (sort (map fst (rows t)))) in delete_rows (\<lambda>i _. i \<notin> set ids) t)"

definition sample :: "instant \<Rightarrow> disk_usage option \<Rightarrow> bool \<Rightarrow> disk_db \<Rightarrow> disk_db \<times> exn option" where
  "sample now probe writable d =
     (case probe of
        None \<Rightarrow> (d, Some (RuntimeErr ''disk usage probe failed''))
      | Some du \<Rightarrow>
          if \<not> writable then (d, Some (RuntimeErr ''database or disk is full''))
          else (d\<lparr>d_samples := keep_newest SAMPLES_CAP (fst (insert_row
                   \<lparr>ds_ts = now, ds_used_pct = used_pct probe, ds_free_bytes = du_free du, ds_total_bytes = du_total du\<rparr>
                   (d_samples d)))\<rparr>, None))"

record disk_view =
  dv_used_pct :: rat
  dv_free_bytes :: int
  dv_total_bytes :: int
  dv_max_pct_24h :: rat
  dv_warn_pct :: rat
  dv_critical_pct :: rat

definition warn_pct :: "store \<Rightarrow> rat" where "warn_pct db = setting_float db ''disk.warn_pct'' DEFAULT_WARN_PCT"
definition critical_pct :: "store \<Rightarrow> rat" where
  "critical_pct db = setting_float db ''disk.critical_pct'' DEFAULT_CRITICAL_PCT"

text \<open>\<open>current()\<close>: the latest sample; without one a live reading, which divides by the total.\<close>
definition current :: "instant \<Rightarrow> disk_usage option \<Rightarrow> disk_db \<Rightarrow> exn + disk_view" where
  "current now probe d =
     (let db = d_settings d
      in case rev (rows (d_samples d)) of
           (_, r) # _ \<Rightarrow>
             let recent = map ds_used_pct (filter (\<lambda>r. iso_after_sql (ds_ts r) (now - DAY)) (contents (d_samples d)));
                 m = (if recent = [] then 0 else Max (set recent))
             in Inr \<lparr>dv_used_pct = ds_used_pct r, dv_free_bytes = ds_free_bytes r, dv_total_bytes = ds_total_bytes r,
                     dv_max_pct_24h = (if m = 0 then ds_used_pct r else m), dv_warn_pct = warn_pct db,
                     dv_critical_pct = critical_pct db\<rparr>
         | [] \<Rightarrow>
             (case probe of
                None \<Rightarrow> Inl (RuntimeErr ''disk usage probe failed'')
              | Some du \<Rightarrow>
                  let u = (if du_total du \<noteq> 0 then of_int (du_used du) / of_int (du_total du) * 100 else 0)
                  in Inr \<lparr>dv_used_pct = u, dv_free_bytes = du_free du, dv_total_bytes = du_total du, dv_max_pct_24h = u,
                          dv_warn_pct = warn_pct db, dv_critical_pct = critical_pct db\<rparr>))"

definition is_critical :: "rat \<Rightarrow> store \<Rightarrow> bool" where
  "is_critical used db = (critical_pct db \<le> used)"

section \<open>The two alarms\<close>

definition gb :: "int \<Rightarrow> string" where "gb n = py_fmt 1 (of_int n / 1073741824)"

definition disk_message :: "disk_usage option \<Rightarrow> store \<Rightarrow> string \<Rightarrow> string" where
  "disk_message probe db verb =
     (case usage probe of (u, free, tot, _) \<Rightarrow>
        ''Disk usage '' @ py_fmt 1 u @ ''% on the protek.db filesystem ('' @ gb free @ '' GB free / '' @ gb tot
        @ '' GB total). Threshold: '' @ py_fmt0 (warn_pct db) @ ''% warn / '' @ py_fmt0 (critical_pct db)
        @ ''% critical. Category: '' @ verb @ ''.'')"

definition disk_payload :: "disk_usage option \<Rightarrow> store \<Rightarrow> bool \<Rightarrow> (string \<times> string option) list" where
  "disk_payload probe db recovery =
     (case usage probe of (u, free, tot, _) \<Rightarrow>
        [(''used_pct'', Some (py_fmt 1 u)), (''free_bytes'', Some (py_str_int free)), (''total_bytes'', Some (py_str_int tot)),
         (''warn_pct'', Some (py_fmt 1 (warn_pct db))), (''critical_pct'', Some (py_fmt 1 (critical_pct db))),
         (''recovery'', Some (if recovery then ''true'' else ''false''))])"

text \<open>\<open>_audit\<close>: raises on a full disk, which every caller swallows.\<close>
definition disk_audit :: "instant \<Rightarrow> bool \<Rightarrow> string \<Rightarrow> (string \<times> string option) list \<Rightarrow> disk_db \<Rightarrow> disk_db" where
  "disk_audit now writable action payload d =
     (if writable
      then d\<lparr>d_audit := fst (insert_row \<lparr>au_created_at = now, au_actor = ''system'', au_ip = [], au_action = action,
               au_target = [], au_before = [], au_after = payload, au_note = []\<rparr>
               (d_audit d))\<rparr>
      else d)"

text \<open>\<open>_remember\<close>: never raises.\<close>
definition remember :: "instant \<Rightarrow> bool \<Rightarrow> string \<Rightarrow> string \<Rightarrow> disk_db \<Rightarrow> disk_db" where
  "remember now writable key v d =
     (if writable then d\<lparr>d_settings := set_setting now key v (d_settings d)\<rparr> else d)"

record disk_report =
  dr_events :: "event list"
  dr_fired :: "string list"

definition fire :: "instant \<Rightarrow> disk_usage option \<Rightarrow> bool \<Rightarrow> string \<Rightarrow> string \<Rightarrow> bool \<Rightarrow> disk_db \<times> disk_report \<Rightarrow> disk_db \<times> disk_report" where
  "fire now probe writable category level recovery st =
     (let verb = (if recovery then ''recovered'' else level);
          db = d_settings (fst st); out = snd st
      in (disk_audit now writable (''disk.'' @ category)
            [(''used_pct'', Some (py_fmt 1 (used_pct probe))), (''free_bytes'', Some (py_str_int (fst (snd (usage probe))))),
             (''recovery'', Some (if recovery then ''true'' else ''false''))] (fst st),
          out\<lparr>dr_events := dr_events out @
                [Notify ''sync_error'' (disk_message probe db verb) (''[Protek] disk '' @ verb),
                 Ship (''disk.'' @ category) (disk_payload probe db recovery)],
              dr_fired := dr_fired out @ [category @ (if recovery then ''_recovery'' else [])]\<rparr>))"

text \<open>One of the two alarms: flag key, category and threshold.\<close>
definition disk_alarm :: "instant \<Rightarrow> disk_usage option \<Rightarrow> bool \<Rightarrow> string \<Rightarrow> string \<Rightarrow> rat \<Rightarrow> bool \<Rightarrow> disk_db \<times> disk_report \<Rightarrow> disk_db \<times> disk_report" where
  "disk_alarm now probe writable key category pct alerted st =
     (if pct \<le> used_pct probe then
        (if alerted then st
         else let st = fire now probe writable category category False st
              in (remember now writable key ''1'' (fst st), snd st))
      else if used_pct probe < pct - HYSTERESIS_PCT \<and> alerted then
        (let st = fire now probe writable category category True st
         in (remember now writable key ''0'' (fst st), snd st))
      else st)"

definition check_and_alert :: "instant \<Rightarrow> disk_usage option \<Rightarrow> bool \<Rightarrow> disk_db \<Rightarrow> disk_db \<times> disk_report" where
  "check_and_alert now probe writable d =
     (let db = d_settings d;
          warn_alerted = flag_on ''disk.warn_alerted'' db;
          crit_alerted = flag_on ''disk.critical_alerted'' db;
          st = disk_alarm now probe writable ''disk.critical_alerted'' ''critical'' (critical_pct db) crit_alerted
                 (d, \<lparr>dr_events = [], dr_fired = []\<rparr>);
          st = disk_alarm now probe writable ''disk.warn_alerted'' ''warn'' (warn_pct db) warn_alerted st
      in (fst (sample now probe writable (fst st)), snd st))"

section \<open>The write-ahead log\<close>

record wal_report =
  wr_checkpointed :: bool
  wr_events :: "event list"
  wr_fired :: "string list"
  wr_commands :: "string list list"

definition MB :: rat where "MB = 1048576"

text \<open>\<open>ckpt_ok\<close>: whether the passive checkpoint ran; \<open>popen_ok\<close>: whether the stop command could be started.\<close>
definition check_wal_guard :: "instant \<Rightarrow> int \<Rightarrow> bool \<Rightarrow> bool \<Rightarrow> bool \<Rightarrow> disk_db \<Rightarrow> disk_db \<times> wal_report" where
  "check_wal_guard now wb ckpt_ok popen_ok writable d =
     (let db = d_settings d;
          soft = setting_float db ''disk.wal_soft_mb'' 256 * MB;
          hard = setting_float db ''disk.wal_hard_mb'' 2048 * MB;
          out = \<lparr>wr_checkpointed = False, wr_events = [], wr_fired = [], wr_commands = []\<rparr>
      in if of_int wb < soft then
           (if flag_on ''disk.wal_alerted'' db then remember now writable ''disk.wal_alerted'' ''0'' d else d, out)
         else
           let out = out\<lparr>wr_checkpointed := ckpt_ok\<rparr>
           in if of_int wb < hard then (d, out)
              else
                let (d, out) =
                      (if \<not> flag_on ''disk.wal_alerted'' db
                       then (remember now writable ''disk.wal_alerted'' ''1''
                               (disk_audit now writable ''disk.wal_critical''
                                  [(''wal_bytes'', Some (py_str_int wb)), (''hard_bytes'', Some (py_fmt 1 hard))] d),
                             out\<lparr>wr_events := [Notify ''sync_error''
                                   (''protek.db-wal is '' @ py_fmt 2 (of_int wb / 1073741824) @ '' GB (hard cap ''
                                      @ py_fmt 1 (hard / 1073741824) @ '' GB) -- a read is holding a WAL checkpoint back.''
                                      @ '' This is how the 2026-10-15 disk-full incident started.'')
                                   ''[Protek] WAL runaway -- critical''],
                                 wr_fired := [''wal_critical'']\<rparr>)
                       else (d, out));
                    auto_stop = (str_or (get_setting ''disk.wal_auto_stop'' (d_settings d)) ''1'' = ''1'')
                in if auto_stop \<and> popen_ok
                   then (d, out\<lparr>wr_fired := wr_fired out @ [''auto_stop''],
                                wr_commands := [[''systemctl'', ''stop'', ''protek'']]\<rparr>)
                   else (d, out))"

section \<open>Rebaselining\<close>

datatype disk_command = Systemctl string | Remove_stage

record rebaseline_report =
  rb_fired :: bool
  rb_reason :: string
  rb_events :: "event list"
  rb_commands :: "disk_command list"

definition no_rebaseline :: "string \<Rightarrow> rebaseline_report" where
  "no_rebaseline why = \<lparr>rb_fired = False, rb_reason = why, rb_events = [], rb_commands = []\<rparr>"

text \<open>\<open>stage\<close>: nothing if the stage directory is missing, else the error of the size scan or the sizes of the stage
  and of the whole directory; \<open>stop_err\<close> and \<open>start_err\<close>: the error of the two service commands, if any.\<close>
definition maybe_auto_rebaseline :: "instant \<Rightarrow> disk_usage option \<Rightarrow> bool \<Rightarrow> (string + int \<times> int) option \<Rightarrow> string option \<Rightarrow> string option \<Rightarrow> disk_db
    \<Rightarrow> disk_db \<times> (exn + rebaseline_report)" where
  "maybe_auto_rebaseline now probe writable stage stop_err start_err d =
     (if \<not> flag_on ''disk.allow_auto_rebaseline'' (d_settings d) then
        (case sample now probe writable d of
           (d, Some e) \<Rightarrow> (d, Inl e)
         | (d, None) \<Rightarrow> (d, Inr (no_rebaseline ''disk.allow_auto_rebaseline=0'')))
      else case current now probe d of
        Inl e \<Rightarrow> (d, Inl e)
      | Inr v \<Rightarrow>
          if dv_used_pct v < critical_pct (d_settings d) then (d, Inr (no_rebaseline ''below critical''))
          else (case stage of
                  None \<Rightarrow> (d, Inr (no_rebaseline ''litestream stage dir not present''))
                | Some (Inl e) \<Rightarrow> (d, Inr (no_rebaseline (''dir-size scan failed: '' @ e)))
                | Some (Inr (stage_bytes, protek_bytes)) \<Rightarrow>
                    let share = (if protek_bytes \<noteq> 0 then of_int stage_bytes / of_int protek_bytes else 0 :: rat)
                    in if share \<le> 1 / 2 then (d, Inr (no_rebaseline (''stage is only '' @ py_fmt 1 (share * 100)
                              @ ''% of /var/www/Protek -- another path is the culprit, not auto-rebaselining'')))
                       else
                         let note = Notify ''sync_error''
                               (''Auto-rebaselining Litestream: used_pct='' @ py_fmt 1 (dv_used_pct v) @ '', stage=''
                                  @ gb stage_bytes @ '' GB ('' @ py_fmt0 (share * 100)
                                  @ ''% of /var/www/Protek). Replication paused briefly.'')
                               ''[Protek] auto-rebaselining Litestream''
                         in case (stop_err, start_err) of
                              (Some e, _) \<Rightarrow> (d, Inr \<lparr>rb_fired = False, rb_reason = ''rebaseline failed: '' @ e, rb_events = [note],
                                  rb_commands = [Systemctl ''stop litestream'']\<rparr>)
                            | (None, Some e) \<Rightarrow> (d, Inr \<lparr>rb_fired = False, rb_reason = ''rebaseline failed: '' @ e, rb_events = [note],
                                  rb_commands = [Systemctl ''stop litestream'', Remove_stage, Systemctl ''start litestream'']\<rparr>)
                            | (None, None) \<Rightarrow>
                                (disk_audit now writable ''disk.auto_rebaseline''
                                   [(''used_pct'', Some (py_fmt 1 (dv_used_pct v))), (''stage_bytes'', Some (py_str_int stage_bytes)),
                                    (''protek_bytes'', Some (py_str_int protek_bytes)), (''share'', Some (py_fmt 3 share))] d,
                                 Inr \<lparr>rb_fired = writable,
                                   rb_reason = (if writable then ''rebaselined'' else ''rebaseline failed: database or disk is full''),
                                   rb_events = [note],
                                   rb_commands = [Systemctl ''stop litestream'', Remove_stage, Systemctl ''start litestream'']\<rparr>)))"

section \<open>The sample table\<close>

lemma keep_newest_ids: "fst ` set (rows (keep_newest n t)) \<subseteq> set (take n (rev (sort (map fst (rows t)))))"
  by (auto simp: keep_newest_def Let_def delete_rows_def)

lemma keep_newest_bound:
  assumes "auto_ok t"
  shows "length (rows (keep_newest n t)) \<le> n"
proof -
  have ok: "auto_ok (keep_newest n t)" using assms by (simp add: keep_newest_def Let_def auto_ok_delete)
  then have "length (rows (keep_newest n t)) = card (fst ` set (rows (keep_newest n t)))"
    by (metis auto_ok_def distinct_card length_map set_map)
  also have "\<dots> \<le> card (set (take n (rev (sort (map fst (rows t))))))"
    using keep_newest_ids by (intro card_mono) auto
  also have "\<dots> \<le> length (take n (rev (sort (map fst (rows t)))))" by (rule card_length)
  also have "\<dots> \<le> n" by simp
  finally show ?thesis .
qed

text \<open>What goes has a smaller id than everything that stays.\<close>
lemma keep_newest_oldest_go:
  assumes "(i, r) \<in> set (rows t)" and "(i, r) \<notin> set (rows (keep_newest n t))" and "(j, s) \<in> set (rows (keep_newest n t))"
  shows "i < j"
proof -
  define xs where "xs = rev (sort (map fst (rows t)))"
  have out: "i \<notin> set (take n xs)" and i: "i \<in> set xs" and j: "j \<in> set (take n xs)"
    using assms by (auto simp: keep_newest_def Let_def delete_rows_def xs_def image_iff) force
  from i out have "i \<in> set (drop n xs)" by (metis UnE append_take_drop_id set_append)
  moreover have "sorted_wrt (\<ge>) (take n xs @ drop n xs)" by (simp add: xs_def sorted_wrt_rev)
  ultimately have "i \<le> j" using j unfolding sorted_wrt_append by blast
  then show ?thesis using out j by (metis le_neq_implies_less)
qed

lemma sample_keeps_settings: "d_settings (fst (sample now probe writable d)) = d_settings d"
  by (simp add: sample_def split: option.splits)

text \<open>The sample table never holds more than its cap: a sample that is written appends its reading with a fresh
  id and then drops rows from the old end only.\<close>
theorem sample_table_bounded:
  assumes "auto_ok (d_samples d)" and "sample now probe writable d = (d', err)"
  shows "auto_ok (d_samples d')
    \<and> (err = None \<longrightarrow> length (rows (d_samples d')) \<le> SAMPLES_CAP)
    \<and> (err \<noteq> None \<longrightarrow> d' = d)
    \<and> (\<forall>(i, r) \<in> set (rows (d_samples d)). (i, r) \<notin> set (rows (d_samples d')) \<longrightarrow>
         (\<forall>(j, s) \<in> set (rows (d_samples d')). i < j))"
proof (cases "probe = None \<or> \<not> writable")
  case True
  then show ?thesis using assms by (auto simp: sample_def split: option.splits)
next
  case False
  then obtain du where du: "probe = Some du" "writable" by auto
  define t where "t = fst (insert_row \<lparr>ds_ts = now, ds_used_pct = used_pct probe, ds_free_bytes = du_free du,
      ds_total_bytes = du_total du\<rparr> (d_samples d))"
  have d': "d_samples d' = keep_newest SAMPLES_CAP t" "err = None"
    using assms(2) by (auto simp: sample_def du t_def)
  have t: "auto_ok t" using assms(1) by (simp add: t_def auto_ok_insert)
  have sub: "set (rows (d_samples d)) \<subseteq> set (rows t)" by (auto simp: t_def insert_row_def Let_def)
  then have old: "(i, r) \<in> set (rows (d_samples d)) \<Longrightarrow> (i, r) \<notin> set (rows (d_samples d')) \<Longrightarrow>
      (j, s) \<in> set (rows (d_samples d')) \<Longrightarrow> i < j" for i r j s
    unfolding d' using keep_newest_oldest_go [of i r t SAMPLES_CAP j s] by blast
  have "auto_ok (d_samples d')" using t unfolding d' by (simp add: keep_newest_def Let_def auto_ok_delete)
  then show ?thesis using old keep_newest_bound [OF t, of SAMPLES_CAP] d' by auto
qed

section \<open>What the alarms do\<close>

lemma fire_simps [simp]:
  "d_settings (fst (fire now probe writable c l r st)) = d_settings (fst st)"
  "d_samples (fst (fire now probe writable c l r st)) = d_samples (fst st)"
  "dr_fired (snd (fire now probe writable c l r st)) = dr_fired (snd st) @ [c @ (if r then ''_recovery'' else [])]"
  by (simp_all add: fire_def Let_def disk_audit_def)

text \<open>The verdict of one alarm on a reading.\<close>
definition disk_edge :: "rat \<Rightarrow> rat \<Rightarrow> bool \<Rightarrow> bool" where
  "disk_edge pct used alerted = (if pct \<le> used then True else if used < pct - HYSTERESIS_PCT then False else alerted)"

definition category_signal :: "string \<Rightarrow> signal \<Rightarrow> string" where
  "category_signal c s = (case s of Raise \<Rightarrow> c | Clear \<Rightarrow> c @ ''_recovery'')"

lemma disk_alarm_fired:
  "dr_fired (snd (disk_alarm now probe writable key c pct alerted st)) =
   dr_fired (snd st) @ map (category_signal c) (edge_signal alerted (disk_edge pct (used_pct probe) alerted))"
  by (auto simp: disk_alarm_def Let_def disk_edge_def category_signal_def edge_signal_def HYSTERESIS_PCT_def)

lemma disk_alarm_settings:
  "get_setting k (d_settings (fst (disk_alarm now probe writable key c pct alerted st))) =
   (if k = key \<and> writable \<and> disk_edge pct (used_pct probe) alerted \<noteq> alerted
    then Some (if alerted then ''0'' else ''1'') else get_setting k (d_settings (fst st)))"
  by (auto simp: disk_alarm_def Let_def disk_edge_def remember_def HYSTERESIS_PCT_def)

lemma flag_on_get: "get_setting k a = get_setting k b \<Longrightarrow> flag_on k a = flag_on k b"
  by (simp add: flag_on_def)

text \<open>The flag of an alarm and the threshold it is compared with.\<close>
definition disk_flag :: "bool \<Rightarrow> disk_db \<Rightarrow> bool" where
  "disk_flag crit d = flag_on (if crit then ''disk.critical_alerted'' else ''disk.warn_alerted'') (d_settings d)"

definition disk_pct :: "bool \<Rightarrow> disk_db \<Rightarrow> rat" where
  "disk_pct crit d = (if crit then critical_pct else warn_pct) (d_settings d)"

lemma check_and_alert_fired:
  "dr_fired (snd (check_and_alert now probe writable d)) =
     map (category_signal ''critical'') (edge_signal (disk_flag True d) (disk_edge (disk_pct True d) (used_pct probe) (disk_flag True d)))
     @ map (category_signal ''warn'') (edge_signal (disk_flag False d) (disk_edge (disk_pct False d) (used_pct probe) (disk_flag False d)))"
  by (simp add: check_and_alert_def Let_def disk_alarm_fired disk_flag_def disk_pct_def)

lemma str_or_flag [simp]: "str_or (Some ''1'') ''0'' = ''1''" "str_or (Some ''0'') ''0'' = ''0''"
  by (simp_all add: str_or_def)

lemma check_and_alert_flag:
  "disk_flag crit (fst (check_and_alert now probe True d)) = disk_edge (disk_pct crit d) (used_pct probe) (disk_flag crit d)"
  by (auto simp: check_and_alert_def Let_def disk_flag_def disk_pct_def sample_keeps_settings flag_on_def disk_alarm_settings)

lemma check_and_alert_pct: "disk_pct crit (fst (check_and_alert now probe writable d)) = disk_pct crit d"
  by (simp add: check_and_alert_def Let_def disk_pct_def sample_keeps_settings critical_pct_def warn_pct_def
      setting_float_def disk_alarm_settings)

section \<open>The watchdog on a full disk\<close>

lemma disk_alarm_full:
  "snd (disk_alarm now probe False key c pct alerted (d, out)) =
   snd (disk_alarm now probe w key c pct alerted (d', out))"
  if "warn_pct (d_settings d) = warn_pct (d_settings d')" "critical_pct (d_settings d) = critical_pct (d_settings d')"
  using that by (simp add: disk_alarm_def fire_def Let_def disk_message_def disk_payload_def)

lemma disk_alarm_full_state: "fst (disk_alarm now probe False key c pct alerted st) = fst st"
  by (simp add: disk_alarm_def fire_def Let_def disk_audit_def remember_def)

lemma disk_alarm_pcts:
  assumes "key \<in> {''disk.critical_alerted'', ''disk.warn_alerted''}"
  shows "warn_pct (d_settings (fst (disk_alarm now probe w key c pct alerted st))) = warn_pct (d_settings (fst st))"
    and "critical_pct (d_settings (fst (disk_alarm now probe w key c pct alerted st))) = critical_pct (d_settings (fst st))"
  using assms by (auto simp: warn_pct_def critical_pct_def setting_float_def disk_alarm_settings)

text \<open>(C39) The watchdog does not depend on the disk it watches: on a full disk, where every write to the database fails, a
  check sends exactly the messages and events it would send otherwise, and leaves the stored state as it was.\<close>
theorem disk_alerts_on_full_disk:
  "snd (check_and_alert now probe False d) = snd (check_and_alert now probe True d)
   \<and> fst (check_and_alert now probe False d) = d"
proof
  define cr where "cr w = disk_alarm now probe w ''disk.critical_alerted'' ''critical'' (critical_pct (d_settings d))
      (flag_on ''disk.critical_alerted'' (d_settings d)) (d, \<lparr>dr_events = [], dr_fired = []\<rparr>)" for w
  have out: "snd (cr False) = snd (cr True)" unfolding cr_def by (rule disk_alarm_full) simp_all
  have "warn_pct (d_settings (fst (cr False))) = warn_pct (d_settings (fst (cr True)))"
    "critical_pct (d_settings (fst (cr False))) = critical_pct (d_settings (fst (cr True)))"
    unfolding cr_def by (simp_all add: disk_alarm_pcts)
  then have "snd (disk_alarm now probe False k c p a (fst (cr False), snd (cr True)))
      = snd (disk_alarm now probe True k c p a (fst (cr True), snd (cr True)))" for k c p a
    by (rule disk_alarm_full)
  then show "snd (check_and_alert now probe False d) = snd (check_and_alert now probe True d)"
    unfolding check_and_alert_def Let_def snd_conv cr_def [symmetric] using out by (metis prod.collapse)
  show "fst (check_and_alert now probe False d) = d"
    by (simp add: check_and_alert_def Let_def disk_alarm_full_state sample_def split: option.splits)
qed

section \<open>The alarms as edge-triggered alarms\<close>

text \<open>A check on a writable disk, after whatever else was written to the database since the last one.\<close>
type_synonym disk_call = "(disk_db \<Rightarrow> disk_db) \<times> instant \<times> disk_usage option"

fun disk_call_result :: "disk_call \<Rightarrow> disk_db \<Rightarrow> disk_db \<times> disk_report" where
  "disk_call_result (env, now, probe) d = check_and_alert now probe True (env d)"

definition disk_step :: "disk_call \<Rightarrow> disk_db \<Rightarrow> disk_db" where
  "disk_step c d = fst (disk_call_result c d)"

definition disk_category :: "bool \<Rightarrow> string" where
  "disk_category crit = (if crit then ''critical'' else ''warn'')"

definition disk_signals :: "bool \<Rightarrow> disk_call \<Rightarrow> disk_db \<Rightarrow> signal list" where
  "disk_signals crit c d =
     (let fired = dr_fired (snd (disk_call_result c d))
      in (if disk_category crit \<in> set fired then [Raise] else [])
         @ (if disk_category crit @ ''_recovery'' \<in> set fired then [Clear] else []))"

definition keeps_disk_flag :: "bool \<Rightarrow> disk_call \<Rightarrow> disk_db \<Rightarrow> bool" where
  "keeps_disk_flag crit c d = (disk_flag crit (fst c d) = disk_flag crit d)"

interpretation disk_threshold: threshold_alarm "disk_flag crit" disk_step "disk_signals crit" "keeps_disk_flag crit"
  "\<lambda>c d. used_pct (snd (snd c))" "\<lambda>c d. disk_pct crit (fst c d)" "\<lambda>c d. disk_pct crit (fst c d) - HYSTERESIS_PCT" for crit
proof
  fix c :: disk_call and d
  assume ok: "keeps_disk_flag crit c d"
  obtain env now probe where c: "c = (env, now, probe)" using prod_cases3 by blast
  show flag: "disk_flag crit (disk_step c d) =
      (if disk_pct crit (fst c d) \<le> used_pct (snd (snd c)) then True
       else if used_pct (snd (snd c)) < disk_pct crit (fst c d) - HYSTERESIS_PCT then False else disk_flag crit d)"
    using ok by (simp add: disk_step_def c check_and_alert_flag disk_edge_def keeps_disk_flag_def)
  have "disk_step c d = fst (check_and_alert now probe True (env d))" by (simp add: disk_step_def c)
  then have after: "disk_flag crit (disk_step c d) = disk_edge (disk_pct crit (env d)) (used_pct probe) (disk_flag crit d)"
    using ok by (simp add: check_and_alert_flag keeps_disk_flag_def c)
  show "disk_signals crit c d = edge_signal (disk_flag crit d) (disk_flag crit (disk_step c d))"
    using ok unfolding after
    by (cases crit) (auto simp: disk_signals_def Let_def c check_and_alert_fired keeps_disk_flag_def edge_signal_def
        category_signal_def disk_category_def)
qed

text \<open>Over any run of checks on a writable disk, whatever the rest of the program writes in between except for the
  alarm's own flag, the messages of the warning and of the critical alarm alternate between breach and recovery, each
  alarm on its own.\<close>
theorem disk_messages_alternate:
  assumes "run_ok disk_step (keeps_disk_flag crit) calls d" and "\<not> disk_flag crit d"
  shows "alternating False (run_signals disk_step (disk_signals crit) calls d)
    \<and> up_after False (run_signals disk_step (disk_signals crit) calls d) = disk_flag crit (run_checks disk_step calls d)"
  using disk_threshold.run_edges [OF assms(1)] assms(2) by simp

text \<open>A breach message needs a reading at the threshold, a recovery one below the margin.\<close>
lemma disk_message_levels:
  assumes "keeps_disk_flag crit (env, now, probe) d"
  shows "Raise \<in> set (disk_signals crit (env, now, probe) d) \<Longrightarrow> disk_pct crit (env d) \<le> used_pct probe"
    and "Clear \<in> set (disk_signals crit (env, now, probe) d) \<Longrightarrow> used_pct probe < disk_pct crit (env d) - HYSTERESIS_PCT"
  using disk_threshold.raised_above [OF assms] disk_threshold.cleared_below [OF assms] by simp_all

section \<open>Destructive commands\<close>

text \<open>The local stage of the replicator is deleted only if the operator allowed it, the reported usage is at or above
  the critical threshold, and the stage takes more than half of the program's directory; and the replicator is always
  stopped before and started after the deletion.\<close>
theorem rebaseline_guarded:
  assumes "maybe_auto_rebaseline now probe writable stage stop_err start_err d = (d', Inr rep)"
    and "Remove_stage \<in> set (rb_commands rep)"
  shows "get_setting ''disk.allow_auto_rebaseline'' (d_settings d) = Some ''1''
    \<and> (\<exists>v. current now probe d = Inr v \<and> is_critical (dv_used_pct v) (d_settings d))
    \<and> (\<exists>st tot. stage = Some (Inr (st, tot)) \<and> (tot \<noteq> 0 \<and> (1 / 2 :: rat) < of_int st / of_int tot))
    \<and> rb_commands rep = [Systemctl ''stop litestream'', Remove_stage, Systemctl ''start litestream'']"
proof -
  have on: "flag_on ''disk.allow_auto_rebaseline'' (d_settings d)"
  proof (rule ccontr)
    assume "\<not> flag_on ''disk.allow_auto_rebaseline'' (d_settings d)"
    then show False
      using assms by (simp add: maybe_auto_rebaseline_def split: option.splits prod.splits) (auto simp: no_rebaseline_def)
  qed
  then obtain v where v: "current now probe d = Inr v"
    using assms(1) by (auto simp: maybe_auto_rebaseline_def split: sum.splits)
  have crit: "\<not> dv_used_pct v < critical_pct (d_settings d)"
    using assms on v by (auto simp: maybe_auto_rebaseline_def no_rebaseline_def)
  obtain st tot where s: "stage = Some (Inr (st, tot))"
    using assms on v crit by (auto simp: maybe_auto_rebaseline_def no_rebaseline_def split: option.splits sum.splits)
  define share where "share = (if tot \<noteq> 0 then of_int st / of_int tot else 0 :: rat)"
  have share: "\<not> share \<le> 1 / 2"
  proof
    assume "share \<le> 1 / 2"
    then have "rb_commands rep = []"
      using assms(1) on v crit s by (simp add: maybe_auto_rebaseline_def share_def [symmetric] no_rebaseline_def) auto
    then show False using assms(2) by simp
  qed
  then have "tot \<noteq> 0" by (auto simp: share_def)
  moreover have "rb_commands rep = [Systemctl ''stop litestream'', Remove_stage, Systemctl ''start litestream'']"
    using assms on v crit s share
    by (auto simp: maybe_auto_rebaseline_def share_def [symmetric] Let_def split: option.splits)
  moreover have "get_setting ''disk.allow_auto_rebaseline'' (d_settings d) = Some ''1''"
    using on by (auto simp: flag_on_def str_or_def split: option.splits if_splits)
  ultimately show ?thesis using v crit s share by (auto simp: is_critical_def share_def)
qed

text \<open>The service is stopped only when the log is at its hard cap and the operator did not forbid it.\<close>
lemma wal_stop_guarded:
  assumes "check_wal_guard now wb ckpt_ok popen_ok writable d = (d', rep)" and "wr_commands rep \<noteq> []"
  shows "setting_float (d_settings d) ''disk.wal_hard_mb'' 2048 * MB \<le> of_int wb
    \<and> get_setting ''disk.wal_auto_stop'' (d_settings d) \<in> {None, Some [], Some ''1''}"
  using assms by (auto simp: check_wal_guard_def Let_def str_or_def disk_audit_def remember_def
      split: if_splits option.splits)

section \<open>Examples\<close>

definition full_probe :: disk_usage where "full_probe = \<lparr>du_total = 100, du_used = 93, du_free = 2\<rparr>"
definition calm_probe :: disk_usage where "calm_probe = \<lparr>du_total = 100, du_used = 40, du_free = 55\<rparr>"

definition fresh_disk :: disk_db where
  "fresh_disk = \<lparr>d_settings = set_setting 0 ''disk.allow_auto_rebaseline'' ''1'' empty_store, d_samples = empty_table,
     d_audit = empty_table\<rparr>"

definition disk_calls :: "disk_call list" where
  "disk_calls = [(id, 0, Some full_probe), (id, MINUTE, Some full_probe), (id, 2 * MINUTE, Some calm_probe)]"

lemma probe_readings: "used_pct (Some full_probe) = 9300 / 95" "used_pct (Some calm_probe) = 4000 / 95" "used_pct None = 0"
  by (simp_all add: used_pct_def usage_def full_probe_def calm_probe_def)

lemma fresh_disk_reads [simp]: "disk_flag crit fresh_disk = False" "disk_pct crit fresh_disk = (if crit then 90 else 70)"
  by (simp_all add: disk_flag_def disk_pct_def fresh_disk_def flag_on_def warn_pct_def critical_pct_def setting_float_def
      str_or_def get_setting_def empty_store_def find_row_def set_setting_def upsert_def DEFAULT_WARN_PCT_def
      DEFAULT_CRITICAL_PCT_def)

lemmas disk_example = probe_readings disk_step_def check_and_alert_fired check_and_alert_flag check_and_alert_pct
  disk_edge_def edge_signal_def category_signal_def HYSTERESIS_PCT_def

text \<open>A failing probe reads as an empty disk: an alarm that is up is reported as recovered.\<close>
lemma failed_probe_reports_recovery:
  "dr_fired (snd (check_and_alert MINUTE None True (disk_step (id, 0, Some full_probe) fresh_disk)))
     = [''critical_recovery'', ''warn_recovery'']"
  by (simp add: disk_example)

theorem sample_table_bounded_witness:
  "auto_ok (d_samples (fst (sample 0 (Some full_probe) True fresh_disk)))
   \<and> length (rows (d_samples (fst (sample 0 (Some full_probe) True fresh_disk)))) = 1 \<and> 1 \<le> SAMPLES_CAP"
proof -
  let ?r = "sample 0 (Some full_probe) True fresh_disk"
  have "snd ?r = None" by (simp add: sample_def)
  then have r: "?r = (fst ?r, None)" by (simp add: prod_eq_iff)
  have "auto_ok (d_samples fresh_disk)" by (simp add: fresh_disk_def)
  from sample_table_bounded [OF this r] show ?thesis
    by (simp add: sample_def keep_newest_def Let_def delete_rows_def insert_row_def fresh_disk_def empty_table_def SAMPLES_CAP_def)
qed

theorem disk_messages_alternate_witness:
  "run_signals disk_step (disk_signals True) disk_calls fresh_disk = [Raise, Clear]
   \<and> alternating False (run_signals disk_step (disk_signals True) disk_calls fresh_disk)"
proof
  show "run_signals disk_step (disk_signals True) disk_calls fresh_disk = [Raise, Clear]"
    by (simp add: disk_calls_def disk_example disk_signals_def disk_category_def Let_def)
  have "run_ok disk_step (keeps_disk_flag True) disk_calls fresh_disk"
    unfolding disk_calls_def run_ok.simps keeps_disk_flag_def fst_conv id_apply by (intro conjI refl TrueI)
  moreover have "\<not> disk_flag True fresh_disk" by simp
  ultimately show "alternating False (run_signals disk_step (disk_signals True) disk_calls fresh_disk)"
    using disk_messages_alternate by blast
qed

theorem rebaseline_guarded_witness:
  "maybe_auto_rebaseline 0 (Some full_probe) True (Some (Inr (60, 100))) None None fresh_disk
     = (fst (maybe_auto_rebaseline 0 (Some full_probe) True (Some (Inr (60, 100))) None None fresh_disk),
        Inr (projr (snd (maybe_auto_rebaseline 0 (Some full_probe) True (Some (Inr (60, 100))) None None fresh_disk))))
   \<and> get_setting ''disk.allow_auto_rebaseline'' (d_settings fresh_disk) = Some ''1''"
proof -
  let ?r = "maybe_auto_rebaseline 0 (Some full_probe) True (Some (Inr (60, 100))) None None fresh_disk"
  have "isl (snd ?r) = False" by code_simp
  then have r: "?r = (fst ?r, Inr (projr (snd ?r)))" by (simp add: prod_eq_iff)
  have c: "Remove_stage \<in> set (rb_commands (projr (snd ?r)))" by code_simp
  show ?thesis by (rule conjI [OF r rebaseline_guarded [OF r c, THEN conjunct1]])
qed

end
