(* ===== verification/Alerting.thy ===== *)
theory Alerting
  imports Alarms Iso_Time "HOL-Library.List_Lexorder" "HOL-Library.Char_ord"
begin

text \<open>
  Composite alert rules (\<open>alerting.py\<close>): the snapshot the rules look at, the five rules with their
  debounce counts, the persisted state of each rule, silences, routing of messages and the tick
  that runs once per cycle. The rule states and the silences are tables of their own beside the
  store. One clock reading stands for the several a tick takes.
\<close>

section \<open>State\<close>

record alert_state =
  as_rule_key :: string
  as_firing :: bool
  as_level :: int
  as_firing_since :: "string option"
  as_last_check :: string
  as_last_message :: string
  as_last_notified :: "string option"
  as_consecutive :: nat

record silence_row =
  si_pattern :: string
  si_until_at :: string
  si_reason :: string
  si_created_at :: string
  si_created_by :: string

record alert_db =
  a_store :: store
  a_states :: "alert_state list"
  a_silences :: "silence_row auto_table"

definition LVL_CRIT :: int where "LVL_CRIT = 2"
definition LVL_WARN :: int where "LVL_WARN = 4"
definition LVL_INFO :: int where "LVL_INFO = 6"

section \<open>The snapshot and the rules\<close>

record alert_snapshot =
  sn_now :: instant
  sn_poll_lag_sec :: rat
  sn_poller_last_ok :: bool
  sn_poller_last_error :: string
  sn_recent_errs :: "nat list"
  sn_reconcile_errors :: int
  sn_approval_pending :: nat
  sn_mt_last_ok_at :: "string option"
  sn_mt_status :: string

text \<open>\<open>int(...)\<close> of a malformed counter raises; an unreadable stamp counts as never.\<close>
definition state_snapshot :: "instant \<Rightarrow> store \<Rightarrow> exn + alert_snapshot" where
  "state_snapshot now db =
     (let last_at = (case get_setting ''poller.last_at'' db of
                       None \<Rightarrow> None | Some s \<Rightarrow> if s = [] then None else parse_stamp s);
          raw = str_or (get_setting ''reconcile.last_errors'' db) ''0''
      in case py_int raw of
           None \<Rightarrow> Inl (ValueError (''invalid literal for int(): '' @ raw))
         | Some n \<Rightarrow> Inr \<lparr>sn_now = now,
             sn_poll_lag_sec = (case last_at of None \<Rightarrow> 1000000000 | Some t \<Rightarrow> of_int (now - t) / of_int SECOND),
             sn_poller_last_ok = (get_setting ''poller.last_ok'' db = Some ''1''),
             sn_poller_last_error = str_or (get_setting ''poller.last_error'' db) [],
             sn_recent_errs = map se_errors (take 5 (rev (contents (sync_events db)))),
             sn_reconcile_errors = n,
             sn_approval_pending = count_rows (\<lambda>_ r. aq_status r = Q_pending) (approval_queue db),
             sn_mt_last_ok_at = get_setting ''mt.last_ok_at'' db,
             sn_mt_status = str_or (get_setting ''mt.last_status'' db) []\<rparr>)"

definition rule_lapi_down :: "alert_snapshot \<Rightarrow> bool \<times> string" where
  "rule_lapi_down s = (\<not> sn_poller_last_ok s, ''poller last error: '' @ sn_poller_last_error s)"

definition rule_sync_stale :: "alert_snapshot \<Rightarrow> bool \<times> string" where
  "rule_sync_stale s = (300 < sn_poll_lag_sec s, ''last poll '' @ py_fmt0 (sn_poll_lag_sec s) @ ''s ago'')"

definition rule_mt_unreachable :: "alert_snapshot \<Rightarrow> bool \<times> string" where
  "rule_mt_unreachable s = (sn_mt_status s = ''down'', ''mt status = '' @ sn_mt_status s)"

definition rule_sync_errors_burst :: "alert_snapshot \<Rightarrow> bool \<times> string" where
  "rule_sync_errors_burst s =
     (length (sn_recent_errs s) = 5 \<and> list_all (\<lambda>e. 0 < e) (sn_recent_errs s),
      ''5/5 recent cycles errored (['' @ py_join '', '' (map py_str_nat (sn_recent_errs s)) @ ''])'')"

definition rule_approval_backlog :: "alert_snapshot \<Rightarrow> bool \<times> string" where
  "rule_approval_backlog s =
     (50 < sn_approval_pending s, py_str_nat (sn_approval_pending s) @ '' decisions awaiting approval'')"

record alert_rule =
  ru_key :: string
  ru_title :: string
  ru_level :: int
  ru_predicate :: "alert_snapshot \<Rightarrow> bool \<times> string"
  ru_debounce :: nat

definition RULES :: "alert_rule list" where
  "RULES =
     [\<lparr>ru_key = ''lapi_down_5m'', ru_title = ''LAPI down >= 5 min'', ru_level = LVL_CRIT,
       ru_predicate = rule_lapi_down, ru_debounce = 30\<rparr>,
      \<lparr>ru_key = ''sync_stale_5m'', ru_title = ''Reconcile cycle stale >= 5 min'', ru_level = LVL_CRIT,
       ru_predicate = rule_sync_stale, ru_debounce = 1\<rparr>,
      \<lparr>ru_key = ''mt_unreachable_2m'', ru_title = ''MikroTik unreachable >= 2 min'', ru_level = LVL_CRIT,
       ru_predicate = rule_mt_unreachable, ru_debounce = 12\<rparr>,
      \<lparr>ru_key = ''sync_errors_burst'', ru_title = ''Sync errors on 5 consecutive cycles'', ru_level = LVL_WARN,
       ru_predicate = rule_sync_errors_burst, ru_debounce = 1\<rparr>,
      \<lparr>ru_key = ''approval_backlog'', ru_title = ''Approval queue > 50'', ru_level = LVL_INFO,
       ru_predicate = rule_approval_backlog, ru_debounce = 6\<rparr>]"

section \<open>Persistence of rule states\<close>

definition load_state :: "string \<Rightarrow> alert_db \<Rightarrow> alert_state" where
  "load_state key d =
     (case find_row as_rule_key key (a_states d) of
        Some r \<Rightarrow> r
      | None \<Rightarrow> \<lparr>as_rule_key = key, as_firing = False, as_level = LVL_INFO, as_firing_since = None, as_last_check = [],
                 as_last_message = [], as_last_notified = None, as_consecutive = 0\<rparr>)"

definition save_state :: "instant \<Rightarrow> string \<Rightarrow> bool \<Rightarrow> int \<Rightarrow> string option \<Rightarrow> string \<Rightarrow> nat \<Rightarrow> bool \<Rightarrow> alert_db \<Rightarrow> alert_db" where
  "save_state now key firing level firing_since message consecutive notified d =
     d\<lparr>a_states := upsert as_rule_key
         \<lparr>as_rule_key = key, as_firing = firing, as_level = level, as_firing_since = firing_since,
          as_last_check = isoformat now, as_last_message = take 300 message,
          as_last_notified = (if notified then Some (isoformat now) else None), as_consecutive = consecutive\<rparr>
         (\<lambda>r. r\<lparr>as_firing := firing, as_level := level, as_firing_since := firing_since, as_last_check := isoformat now,
                as_last_message := take 300 message, as_consecutive := consecutive,
                as_last_notified := (if notified then Some (isoformat now) else as_last_notified r)\<rparr>)
         (a_states d)\<rparr>"

section \<open>Silences\<close>

text \<open>The end of a silence is compared as text.\<close>
definition is_silenced :: "instant \<Rightarrow> string \<Rightarrow> alert_db \<Rightarrow> (nat \<times> silence_row) option" where
  "is_silenced now rule_key d =
     List.find (\<lambda>(_, r). fnmatchcase rule_key (si_pattern r))
       (select_rows (\<lambda>_ r. isoformat now < si_until_at r) (a_silences d))"

definition add_silence :: "instant \<Rightarrow> string \<Rightarrow> string \<Rightarrow> string \<Rightarrow> string \<Rightarrow> alert_db \<Rightarrow> alert_db \<times> nat" where
  "add_silence now pattern until_at reason actor d =
     (let (t, i) = insert_row \<lparr>si_pattern = pattern, si_until_at = until_at, si_reason = reason,
                     si_created_at = isoformat now, si_created_by = actor\<rparr> (a_silences d)
      in (d\<lparr>a_silences := t\<rparr>, i))"

definition remove_silence :: "nat \<Rightarrow> alert_db \<Rightarrow> alert_db" where
  "remove_silence silence_id d = d\<lparr>a_silences := delete_rows (\<lambda>i _. i = silence_id) (a_silences d)\<rparr>"

definition list_silences :: "instant \<Rightarrow> bool \<Rightarrow> alert_db \<Rightarrow> (nat \<times> silence_row) list" where
  "list_silences now include_expired d =
     rev (if include_expired then rows (a_silences d)
          else select_rows (\<lambda>_ r. isoformat now < si_until_at r) (a_silences d))"

section \<open>Messages\<close>

definition route_for :: "int \<Rightarrow> string list" where
  "route_for level = (if level \<le> LVL_CRIT then [''discord'', ''telegram'', ''email''] else [''discord''])"

definition alert_channels :: "string \<Rightarrow> int \<Rightarrow> store \<Rightarrow> string list" where
  "alert_channels rule_key level db =
     (let override = str_or (get_setting (''alerting.rule.'' @ rule_key @ ''.channels'') db) []
      in if override \<noteq> [] then filter (\<lambda>c. c \<noteq> []) (map py_strip (py_split (CHR '','') override))
         else route_for level)"

text \<open>The list of channels in the SIEM payload is written with commas.\<close>
definition alert_notify :: "string \<Rightarrow> string \<Rightarrow> int \<Rightarrow> string \<Rightarrow> bool \<Rightarrow> store \<Rightarrow> event list" where
  "alert_notify rule_key title level message resolved db =
     (let channels = alert_channels rule_key level db;
          kind = (if resolved then ''alert.resolved'' else ''alert.firing'')
      in [Notify_on channels kind (if resolved then ''RESOLVED -- '' @ message else message)
            (''['' @ (if resolved then ''RESOLVED'' else ''FIRING'') @ ''] '' @ title),
          Ship kind [(''rule'', Some rule_key), (''title'', Some title), (''level'', Some (py_str_int level)),
            (''message'', Some message), (''channels'', Some (py_join '','' channels))]])"

section \<open>The tick\<close>

record tick_row =
  tk_rule_key :: string
  tk_firing :: bool
  tk_message :: string
  tk_firing_since :: "string option"
  tk_silence :: "(nat \<times> silence_row) option"
  tk_consecutive :: nat
  tk_sent :: "signal list"

record tick_out =
  to_events :: "event list"
  to_rows :: "tick_row list"

text \<open>One rule of a tick; \<open>tk_sent\<close> names the message sent and is not part of the code's result.\<close>
definition eval_rule :: "alert_snapshot \<Rightarrow> alert_rule \<Rightarrow> alert_db \<times> tick_out \<Rightarrow> alert_db \<times> tick_out" where
  "eval_rule s r st =
     (let d = fst st; out = snd st; key = ru_key r;
          firing_now = fst (ru_predicate r s); msg = snd (ru_predicate r s);
          prev = load_state key d;
          was_firing = as_firing prev;
          consecutive = (if firing_now then as_consecutive prev + 1 else 0);
          active = (ru_debounce r \<le> consecutive);
          silence = is_silenced (sn_now s) key d;
          suppressed = (silence \<noteq> None);
          raised = (active \<and> \<not> was_firing \<and> \<not> suppressed);
          resolved = (\<not> raised \<and> was_firing \<and> \<not> firing_now \<and> \<not> suppressed);
          firing_since = (if raised then Some (isoformat (sn_now s)) else if resolved then None else as_firing_since prev);
          events = (if raised then alert_notify key (ru_title r) (ru_level r) msg False (a_store d)
                    else if resolved
                    then alert_notify key (ru_title r) (ru_level r) (if msg = [] then ''condition cleared'' else msg) True (a_store d)
                    else []);
          store_firing = (active \<and> \<not> suppressed)
      in (save_state (sn_now s) key store_firing (ru_level r) firing_since msg consecutive (raised \<or> resolved) d,
          out\<lparr>to_events := to_events out @ events,
              to_rows := to_rows out @ [\<lparr>tk_rule_key = key, tk_firing = store_firing, tk_message = msg,
                tk_firing_since = firing_since, tk_silence = silence, tk_consecutive = consecutive,
                tk_sent = (if raised then [Raise] else if resolved then [Clear] else [])\<rparr>]\<rparr>))"

definition tick :: "instant \<Rightarrow> alert_db \<Rightarrow> exn + alert_db \<times> tick_out" where
  "tick now d =
     (case state_snapshot now (a_store d) of
        Inl e \<Rightarrow> Inl e
      | Inr s \<Rightarrow> Inr (fold (eval_rule s) RULES (d, \<lparr>to_events = [], to_rows = []\<rparr>)))"

section \<open>One rule of a tick\<close>

text \<open>What the next tick of a rule looks at.\<close>
definition rule_view :: "alert_rule \<Rightarrow> alert_db \<Rightarrow> bool \<times> nat" where
  "rule_view r d = (as_firing (load_state (ru_key r) d), as_consecutive (load_state (ru_key r) d))"

definition next_view :: "nat \<Rightarrow> bool \<Rightarrow> bool \<Rightarrow> bool \<times> nat \<Rightarrow> bool \<times> nat" where
  "next_view debounce holds suppressed v =
     (let c = (if holds then snd v + 1 else 0) in (debounce \<le> c \<and> \<not> suppressed, c))"

definition next_sent :: "nat \<Rightarrow> bool \<Rightarrow> bool \<Rightarrow> bool \<times> nat \<Rightarrow> signal list" where
  "next_sent debounce holds suppressed v =
     (if suppressed then []
      else if debounce \<le> snd (next_view debounce holds suppressed v) \<and> \<not> fst v then [Raise]
      else if fst v \<and> \<not> holds then [Clear] else [])"

definition sent_for :: "string \<Rightarrow> tick_out \<Rightarrow> signal list" where
  "sent_for key out = concat (map tk_sent (filter (\<lambda>t. tk_rule_key t = key) (to_rows out)))"

lemma load_state_save:
  "load_state k (save_state now key f l fs m c n d) =
     (if k = key then (load_state key d)\<lparr>as_rule_key := key, as_firing := f, as_level := l, as_firing_since := fs,
        as_last_check := isoformat now, as_last_message := take 300 m, as_consecutive := c,
        as_last_notified := (if n then Some (isoformat now) else as_last_notified (load_state key d))\<rparr>
      else load_state k d)"
proof (cases "k = key")
  case True
  define new where "new = \<lparr>as_rule_key = key, as_firing = f, as_level = l, as_firing_since = fs,
      as_last_check = isoformat now, as_last_message = take 300 m,
      as_last_notified = (if n then Some (isoformat now) else None), as_consecutive = c\<rparr>"
  define g where "g = (\<lambda>r :: alert_state. r\<lparr>as_firing := f, as_level := l, as_firing_since := fs, as_last_check := isoformat now,
      as_last_message := take 300 m, as_consecutive := c,
      as_last_notified := (if n then Some (isoformat now) else as_last_notified r)\<rparr>)"
  have "find_row as_rule_key (as_rule_key new) (upsert as_rule_key new g (a_states d)) =
      Some (case find_row as_rule_key (as_rule_key new) (a_states d) of None \<Rightarrow> new | Some r \<Rightarrow> g r)"
    by (rule find_row_upsert_same) (simp add: g_def)
  then have "find_row as_rule_key key (a_states (save_state now key f l fs m c n d)) =
      Some (case find_row as_rule_key key (a_states d) of None \<Rightarrow> new | Some r \<Rightarrow> g r)"
    by (simp add: save_state_def new_def g_def)
  then show ?thesis using True
    by (auto simp: load_state_def new_def g_def dest: find_row_Some split: option.splits)
next
  case False
  then show ?thesis
    by (simp add: load_state_def save_state_def find_row_upsert_other)
qed

lemma save_state_tables [simp]:
  "a_store (save_state now key f l fs m c n d) = a_store d" "a_silences (save_state now key f l fs m c n d) = a_silences d"
  by (simp_all add: save_state_def)

lemma eval_rule_tables [simp]:
  "a_store (fst (eval_rule s r st)) = a_store (fst st)" "a_silences (fst (eval_rule s r st)) = a_silences (fst st)"
  by (simp_all add: eval_rule_def Let_def)

lemma is_silenced_cong: "a_silences d = a_silences d' \<Longrightarrow> is_silenced now k d = is_silenced now k d'"
  by (simp add: is_silenced_def)

lemma sent_for_snoc: "sent_for k (out\<lparr>to_events := es, to_rows := rs @ [t]\<rparr>) =
    concat (map tk_sent (filter (\<lambda>t. tk_rule_key t = k) rs)) @ (if tk_rule_key t = k then tk_sent t else [])"
  by (simp add: sent_for_def)

lemma eval_rule_own:
  "rule_view r (fst (eval_rule s r st)) =
     next_view (ru_debounce r) (fst (ru_predicate r s)) (is_silenced (sn_now s) (ru_key r) (fst st) \<noteq> None) (rule_view r (fst st))"
  "sent_for (ru_key r) (snd (eval_rule s r st)) = sent_for (ru_key r) (snd st) @
     next_sent (ru_debounce r) (fst (ru_predicate r s)) (is_silenced (sn_now s) (ru_key r) (fst st) \<noteq> None) (rule_view r (fst st))"
proof -
  show "rule_view r (fst (eval_rule s r st)) =
     next_view (ru_debounce r) (fst (ru_predicate r s)) (is_silenced (sn_now s) (ru_key r) (fst st) \<noteq> None) (rule_view r (fst st))"
    unfolding eval_rule_def Let_def fst_conv rule_view_def load_state_save next_view_def by simp
  show "sent_for (ru_key r) (snd (eval_rule s r st)) = sent_for (ru_key r) (snd st) @
     next_sent (ru_debounce r) (fst (ru_predicate r s)) (is_silenced (sn_now s) (ru_key r) (fst st) \<noteq> None) (rule_view r (fst st))"
    unfolding eval_rule_def Let_def snd_conv sent_for_snoc tick_row.simps
    unfolding rule_view_def next_sent_def next_view_def Let_def snd_conv fst_conv sent_for_def
    by (cases "is_silenced (sn_now s) (ru_key r) (fst st)"; cases "as_firing (load_state (ru_key r) (fst st))";
        cases "fst (ru_predicate r s)"; simp)
qed

lemma eval_rule_other:
  assumes "ru_key r \<noteq> ru_key r'"
  shows "rule_view r (fst (eval_rule s r' st)) = rule_view r (fst st)"
    and "sent_for (ru_key r) (snd (eval_rule s r' st)) = sent_for (ru_key r) (snd st)"
proof -
  show "rule_view r (fst (eval_rule s r' st)) = rule_view r (fst st)"
    unfolding eval_rule_def Let_def fst_conv rule_view_def load_state_save using assms by simp
  show "sent_for (ru_key r) (snd (eval_rule s r' st)) = sent_for (ru_key r) (snd st)"
    unfolding eval_rule_def Let_def snd_conv sent_for_snoc tick_row.simps using assms by (simp add: sent_for_def)
qed

lemma fold_eval_other:
  assumes "ru_key r \<notin> ru_key ` set rs"
  shows "rule_view r (fst (fold (eval_rule s) rs st)) = rule_view r (fst st)
    \<and> sent_for (ru_key r) (snd (fold (eval_rule s) rs st)) = sent_for (ru_key r) (snd st)"
  using assms by (induction rs arbitrary: st) (auto simp: eval_rule_other)

lemma fold_eval_tables:
  "a_store (fst (fold (eval_rule s) rs st)) = a_store (fst st) \<and> a_silences (fst (fold (eval_rule s) rs st)) = a_silences (fst st)"
  by (induction rs arbitrary: st) simp_all

text \<open>A tick treats each rule on its own.\<close>
lemma fold_eval_own:
  assumes "distinct (map ru_key rs)" and "r \<in> set rs"
  shows "rule_view r (fst (fold (eval_rule s) rs st)) =
      next_view (ru_debounce r) (fst (ru_predicate r s)) (is_silenced (sn_now s) (ru_key r) (fst st) \<noteq> None) (rule_view r (fst st))
    \<and> sent_for (ru_key r) (snd (fold (eval_rule s) rs st)) = sent_for (ru_key r) (snd st) @
      next_sent (ru_debounce r) (fst (ru_predicate r s)) (is_silenced (sn_now s) (ru_key r) (fst st) \<noteq> None) (rule_view r (fst st))"
  using assms
proof (induction rs arbitrary: st)
  case (Cons r' rs)
  show ?case
  proof (cases "r = r'")
    case True
    with Cons.prems have "ru_key r \<notin> ru_key ` set rs" by simp
    from fold_eval_other [OF this] show ?thesis by (simp add: True eval_rule_own)
  next
    case False
    then have "r \<in> set rs" using Cons.prems by simp
    then have "r \<in> set rs" "ru_key r \<noteq> ru_key r'" using Cons.prems(1) by (auto simp: image_iff)
    moreover have "is_silenced (sn_now s) (ru_key r) (fst (eval_rule s r' st)) = is_silenced (sn_now s) (ru_key r) (fst st)"
      by (rule is_silenced_cong) simp
    ultimately show ?thesis using Cons by (simp add: eval_rule_other)
  qed
qed simp

lemma RULES_ok: "distinct (map ru_key RULES)" "r \<in> set RULES \<Longrightarrow> 0 < ru_debounce r"
  by (auto simp: RULES_def)

section \<open>Runs of ticks\<close>

text \<open>A tick, after whatever the rest of the program did since the last one.\<close>
type_synonym tick_call = "(alert_db \<Rightarrow> alert_db) \<times> instant"

fun tick_result :: "tick_call \<Rightarrow> alert_db \<Rightarrow> alert_db \<times> tick_out" where
  "tick_result (env, now) d =
     (case tick now (env d) of Inl _ \<Rightarrow> (env d, \<lparr>to_events = [], to_rows = []\<rparr>) | Inr res \<Rightarrow> res)"

definition tick_step :: "tick_call \<Rightarrow> alert_db \<Rightarrow> alert_db" where
  "tick_step c d = fst (tick_result c d)"

definition tick_signals :: "alert_rule \<Rightarrow> tick_call \<Rightarrow> alert_db \<Rightarrow> signal list" where
  "tick_signals r c d = sent_for (ru_key r) (snd (tick_result c d))"

definition rule_firing :: "alert_rule \<Rightarrow> alert_db \<Rightarrow> bool" where
  "rule_firing r d = fst (rule_view r d)"

text \<open>The rest of the program leaves the rule's state alone, and no silence covers the rule.\<close>
definition unsilenced :: "alert_rule \<Rightarrow> tick_call \<Rightarrow> alert_db \<Rightarrow> bool" where
  "unsilenced r c d = (rule_view r (fst c d) = rule_view r d \<and> is_silenced (snd c) (ru_key r) (fst c d) = None)"

text \<open>A rule that fires has matched often enough.\<close>
definition debounced :: "alert_rule \<Rightarrow> alert_db \<Rightarrow> bool" where
  "debounced r d = (rule_firing r d \<longrightarrow> ru_debounce r \<le> snd (rule_view r d))"

lemma snapshot_now: "state_snapshot now db = Inr s \<Longrightarrow> sn_now s = now"
  by (auto simp: state_snapshot_def Let_def split: option.splits)

lemma tick_step_rule:
  assumes "r \<in> set RULES" "state_snapshot (snd c) (a_store (fst c d)) = Inr s"
  shows "rule_view r (tick_step c d) = next_view (ru_debounce r) (fst (ru_predicate r s))
      (is_silenced (snd c) (ru_key r) (fst c d) \<noteq> None) (rule_view r (fst c d))"
    and "tick_signals r c d = next_sent (ru_debounce r) (fst (ru_predicate r s))
      (is_silenced (snd c) (ru_key r) (fst c d) \<noteq> None) (rule_view r (fst c d))"
proof -
  have "tick_result c d = fold (eval_rule s) RULES (fst c d, \<lparr>to_events = [], to_rows = []\<rparr>)"
    using assms(2) by (cases c) (simp add: tick_def)
  then show "rule_view r (tick_step c d) = next_view (ru_debounce r) (fst (ru_predicate r s))
      (is_silenced (snd c) (ru_key r) (fst c d) \<noteq> None) (rule_view r (fst c d))"
    and "tick_signals r c d = next_sent (ru_debounce r) (fst (ru_predicate r s))
      (is_silenced (snd c) (ru_key r) (fst c d) \<noteq> None) (rule_view r (fst c d))"
    using fold_eval_own [OF RULES_ok(1) assms(1), of s "(fst c d, \<lparr>to_events = [], to_rows = []\<rparr>)"] snapshot_now [OF assms(2)]
    unfolding tick_step_def tick_signals_def by (simp_all add: sent_for_def)
qed

lemma tick_step_tables:
  "a_store (tick_step c d) = a_store (fst c d)" "a_silences (tick_step c d) = a_silences (fst c d)"
proof -
  obtain out where "tick_result c d = (fst c d, out) \<or> (\<exists>s. tick_result c d = fold (eval_rule s) RULES (fst c d, out))"
    by (cases c; cases "state_snapshot (snd c) (a_store (fst c d))") (auto simp: tick_def)
  then show "a_store (tick_step c d) = a_store (fst c d)" "a_silences (tick_step c d) = a_silences (fst c d)"
    unfolding tick_step_def using fold_eval_tables by fastforce+
qed

lemma tick_step_view:
  assumes "r \<in> set RULES" "unsilenced r c d" "state_snapshot (snd c) (a_store (fst c d)) = Inr s"
  shows "rule_view r (tick_step c d) = next_view (ru_debounce r) (fst (ru_predicate r s)) False (rule_view r d)"
    and "tick_signals r c d = next_sent (ru_debounce r) (fst (ru_predicate r s)) False (rule_view r d)"
  using tick_step_rule [OF assms(1,3)] assms(2) by (simp_all add: unsilenced_def)

lemma tick_step_raised:
  assumes "unsilenced r c d" "state_snapshot (snd c) (a_store (fst c d)) = Inl e"
  shows "rule_view r (tick_step c d) = rule_view r d" and "tick_signals r c d = []"
  using assms by (cases c; simp add: tick_step_def tick_signals_def tick_def unsilenced_def sent_for_def)+

lemma debounced_step:
  assumes "r \<in> set RULES" "unsilenced r c d" "debounced r d"
  shows "debounced r (tick_step c d)"
proof (cases "state_snapshot (snd c) (a_store (fst c d))")
  case (Inl e)
  then show ?thesis using assms tick_step_raised [OF assms(2)] by (simp add: debounced_def rule_firing_def)
next
  case (Inr s)
  then show ?thesis using tick_step_view [OF assms(1,2)] by (simp add: debounced_def rule_firing_def next_view_def Let_def)
qed

interpretation rule_alarm: edge_alarm "rule_firing r" tick_step "tick_signals r"
  "\<lambda>c d. r \<in> set RULES \<and> unsilenced r c d \<and> debounced r d" for r
proof
  fix c d assume ok: "r \<in> set RULES \<and> unsilenced r c d \<and> debounced r d"
  show "tick_signals r c d = edge_signal (rule_firing r d) (rule_firing r (tick_step c d))"
  proof (cases "state_snapshot (snd c) (a_store (fst c d))")
    case (Inl e)
    then show ?thesis using ok tick_step_raised [of r c d e] by (simp add: rule_firing_def)
  next
    case (Inr s)
    have "0 < ru_debounce r" using ok RULES_ok(2) by blast
    then show ?thesis using ok tick_step_view [of r c d s] Inr
      by (auto simp: rule_firing_def debounced_def next_view_def next_sent_def Let_def edge_signal_def)
  qed
qed

lemma unsilenced_run_ok:
  "r \<in> set RULES \<Longrightarrow> debounced r d \<Longrightarrow> run_ok tick_step (unsilenced r) cs d \<Longrightarrow>
   run_ok tick_step (\<lambda>c d. r \<in> set RULES \<and> unsilenced r c d \<and> debounced r d) cs d"
  by (induction cs arbitrary: d) (auto intro: debounced_step)

text \<open>Deduplication: while no silence covers a rule, and whatever the rest of the program does between the ticks
  except for writing the rule's state, the "firing" and "resolved" messages of the rule alternate over any run of
  ticks, even if some of them fail.\<close>
theorem alert_messages_alternate:
  assumes "r \<in> set RULES" and "debounced r d" and "run_ok tick_step (unsilenced r) calls d"
  shows "alternating (rule_firing r d) (run_signals tick_step (tick_signals r) calls d)
    \<and> up_after (rule_firing r d) (run_signals tick_step (tick_signals r) calls d) = rule_firing r (run_checks tick_step calls d)"
  by (rule rule_alarm.run_edges [OF unsilenced_run_ok [OF assms]])

section \<open>Debouncing\<close>

text \<open>Whether the rule's condition holds at each tick of a run.\<close>
fun rule_holds :: "alert_rule \<Rightarrow> tick_call \<Rightarrow> alert_db \<Rightarrow> bool" where
  "rule_holds r (env, now) d =
     (case state_snapshot now (a_store (env d)) of Inl _ \<Rightarrow> False | Inr s \<Rightarrow> fst (ru_predicate r s))"

fun run_holds :: "alert_rule \<Rightarrow> tick_call list \<Rightarrow> alert_db \<Rightarrow> bool list" where
  "run_holds r [] d = []"
| "run_holds r (c # cs) d = rule_holds r c d # run_holds r cs (tick_step c d)"

fun tick_works :: "tick_call \<Rightarrow> alert_db \<Rightarrow> bool" where
  "tick_works (env, now) d = (\<not> isl (state_snapshot now (a_store (env d))))"

text \<open>The number of \<open>True\<close> at the end of a list, continued from \<open>n\<close>.\<close>
fun streak :: "nat \<Rightarrow> bool list \<Rightarrow> nat" where
  "streak n [] = n"
| "streak n (b # bs) = streak (if b then n + 1 else 0) bs"

lemma streak_append: "streak n (xs @ ys) = streak (streak n xs) ys"
  by (induction xs arbitrary: n) auto

lemma streak_trailing: "streak 0 bs = length (takeWhile id (rev bs))"
proof (induction bs rule: rev_induct)
  case (snoc b bs)
  then show ?case by (simp add: streak_append)
qed simp

lemma tick_step_streak:
  assumes "r \<in> set RULES" "unsilenced r c d" "tick_works c d"
  shows "snd (rule_view r (tick_step c d)) = (if rule_holds r c d then snd (rule_view r d) + 1 else 0)"
    and "rule_firing r (tick_step c d) = (ru_debounce r \<le> (if rule_holds r c d then snd (rule_view r d) + 1 else 0))"
proof -
  obtain env now where c: "c = (env, now)" by fastforce
  obtain s where s: "state_snapshot (snd c) (a_store (fst c d)) = Inr s"
    using assms(3) by (cases "state_snapshot (snd c) (a_store (fst c d))") (auto simp: c)
  show "snd (rule_view r (tick_step c d)) = (if rule_holds r c d then snd (rule_view r d) + 1 else 0)"
    and "rule_firing r (tick_step c d) = (ru_debounce r \<le> (if rule_holds r c d then snd (rule_view r d) + 1 else 0))"
    using tick_step_view(1) [OF assms(1,2) s] s by (auto simp: c next_view_def Let_def rule_firing_def)
qed

lemma run_streak:
  assumes "r \<in> set RULES" "run_ok tick_step (\<lambda>c d. unsilenced r c d \<and> tick_works c d) cs d"
  shows "snd (rule_view r (run_checks tick_step cs d)) = streak (snd (rule_view r d)) (run_holds r cs d)
    \<and> (cs \<noteq> [] \<longrightarrow> rule_firing r (run_checks tick_step cs d) = (ru_debounce r \<le> streak (snd (rule_view r d)) (run_holds r cs d)))"
  using assms(2)
proof (induction cs arbitrary: d)
  case (Cons c cs)
  then have ok: "unsilenced r c d" "tick_works c d" by auto
  show ?case using Cons tick_step_streak [OF assms(1) ok] by (cases "cs = []") auto
qed simp


section \<open>Examples\<close>

definition quiet_db :: alert_db where
  "quiet_db = \<lparr>a_store = empty_store, a_states = [], a_silences = empty_table\<rparr>"

definition stale_rule :: alert_rule where "stale_rule = RULES ! 1"

definition silence_all :: "alert_db \<Rightarrow> alert_db" where
  "silence_all d = fst (add_silence 0 ''sync_*'' ''2999'' ''maintenance'' ''op'' d)"

lemma stale_rule_in: "stale_rule \<in> set RULES"
  by (simp add: stale_rule_def RULES_def)

lemma stale_snapshot:
  "\<exists>s. state_snapshot now empty_store = Inr s \<and> fst (rule_sync_stale s)"
proof -
  have "py_int (str_or None ''0'') = Some 0" by code_simp
  then show ?thesis by (simp add: state_snapshot_def rule_sync_stale_def get_setting_def empty_store_def find_row_def)
qed

lemma stale_step:
  assumes "a_store (fst c d) = empty_store"
  shows "rule_view stale_rule (tick_step c d) =
      next_view 1 True (is_silenced (snd c) ''sync_stale_5m'' (fst c d) \<noteq> None) (rule_view stale_rule (fst c d))"
    and "tick_signals stale_rule c d =
      next_sent 1 True (is_silenced (snd c) ''sync_stale_5m'' (fst c d) \<noteq> None) (rule_view stale_rule (fst c d))"
    and "rule_holds stale_rule c d" and "tick_works c d"
proof -
  obtain s where s: "state_snapshot (snd c) (a_store (fst c d)) = Inr s" "fst (rule_sync_stale s)"
    using stale_snapshot assms by metis
  have r: "ru_key stale_rule = ''sync_stale_5m''" "ru_debounce stale_rule = 1" "ru_predicate stale_rule = rule_sync_stale"
    by (simp_all add: stale_rule_def RULES_def)
  show "rule_view stale_rule (tick_step c d) =
      next_view 1 True (is_silenced (snd c) ''sync_stale_5m'' (fst c d) \<noteq> None) (rule_view stale_rule (fst c d))"
    "tick_signals stale_rule c d =
      next_sent 1 True (is_silenced (snd c) ''sync_stale_5m'' (fst c d) \<noteq> None) (rule_view stale_rule (fst c d))"
    "rule_holds stale_rule c d" "tick_works c d"
    using tick_step_rule [OF stale_rule_in s(1)] s r by (cases c; simp)+
qed

lemma quiet_not_silenced: "a_silences d = empty_table \<Longrightarrow> is_silenced now k d = None"
  by (simp add: is_silenced_def select_rows_def empty_table_def)

lemma quiet_db_tables [simp]: "a_store quiet_db = empty_store" "a_silences quiet_db = empty_table"
  by (simp_all add: quiet_db_def)

lemma stale_rule_start: "rule_view stale_rule quiet_db = (False, 0)"
  by (simp add: rule_view_def load_state_def quiet_db_def find_row_def)

lemma rule_view_silences: "rule_view r (d\<lparr>a_silences := t\<rparr>) = rule_view r d"
  by (simp add: rule_view_def load_state_def)

lemma silence_all_simps [simp]:
  "a_store (silence_all d) = a_store d" "rule_view r (silence_all d) = rule_view r d"
  "a_silences (silence_all d) = fst (insert_row \<lparr>si_pattern = ''sync_*'', si_until_at = ''2999'', si_reason = ''maintenance'',
      si_created_at = isoformat 0, si_created_by = ''op''\<rparr> (a_silences d))"
  by (simp_all add: silence_all_def add_silence_def rule_view_silences case_prod_beta Let_def)

lemma remove_silence_simps [simp]:
  "a_store (remove_silence i d) = a_store d" "rule_view r (remove_silence i d) = rule_view r d"
  "a_silences (remove_silence i d) = delete_rows (\<lambda>j _. j = i) (a_silences d)"
  by (simp_all add: remove_silence_def rule_view_silences)

text \<open>A silence does not only hold messages back: it clears the state it hides. A rule that fires before, during and after
  a silence is announced twice, with no "resolved" in between.\<close>
lemma silence_forgets_firing:
  "run_signals tick_step (tick_signals stale_rule) [(id, 0), (silence_all, MINUTE), (remove_silence 1, 2 * MINUTE)] quiet_db
     = [Raise, Raise]"
proof -
  have "fnmatchcase ''sync_stale_5m'' ''sync_*''" "isoformat MINUTE < ''2999''" by code_simp+
  then show ?thesis
    by (simp add: stale_step tick_step_tables stale_rule_start next_view_def next_sent_def is_silenced_def select_rows_def
        insert_row_def delete_rows_def empty_table_def Let_def)
qed

theorem alert_messages_alternate_witness:
  "run_signals tick_step (tick_signals stale_rule) [(id, 0), (id, MINUTE)] quiet_db = [Raise]
   \<and> alternating False (run_signals tick_step (tick_signals stale_rule) [(id, 0), (id, MINUTE)] quiet_db)"
proof
  show "run_signals tick_step (tick_signals stale_rule) [(id, 0), (id, MINUTE)] quiet_db = [Raise]"
    by (simp add: stale_step tick_step_tables quiet_not_silenced stale_rule_start next_view_def next_sent_def)
  have f: "rule_firing stale_rule quiet_db = False" by (simp add: rule_firing_def stale_rule_start)
  have ok: "run_ok tick_step (unsilenced stale_rule) [(id, 0), (id, MINUTE)] quiet_db"
    by (simp add: unsilenced_def quiet_not_silenced tick_step_tables)
  have deb: "debounced stale_rule quiet_db" by (simp add: debounced_def f)
  show "alternating False (run_signals tick_step (tick_signals stale_rule) [(id, 0), (id, MINUTE)] quiet_db)"
    using alert_messages_alternate [OF stale_rule_in deb ok] unfolding f by (rule conjunct1)
qed


end
