(* ===== verification/Api_Tokens.thy ===== *)
theory Api_Tokens
  imports Iso_Time "HOL-Library.List_Lexorder" "HOL-Library.Char_ord"
begin

text \<open>
  Bearer tokens (\<open>api_tokens.py\<close>): creation, listing, revocation, lookup with expiry, the scope
  order and the guard of the API routes. The digest \<open>sha256\<close> and the random part of a new token are
  arguments; what the properties need of the digest is that the tokens in question do not collide.
\<close>

section \<open>State\<close>

record token_row =
  tok_name :: string
  tok_token_hash :: string
  tok_token_prefix :: string
  tok_scopes :: string
  tok_created_by :: string
  tok_created_at :: instant
  tok_expires_at :: "string option"
  tok_last_used_at :: "instant option"
  tok_last_used_ip :: string
  tok_disabled :: bool

type_synonym token_table = "token_row auto_table"

definition SCOPE_ORDER :: "(string \<times> int) list" where
  "SCOPE_ORDER = [(''stats'', 0), (''read'', 1), (''write'', 2), (''admin'', 3)]"

text \<open>\<open>{s.strip() for s in (scopes or "").split(",") if s.strip()}\<close>, as a list without repetitions.\<close>
definition scope_set :: "string \<Rightarrow> string list" where
  "scope_set scopes = remdups (filter (\<lambda>s. s \<noteq> []) (map py_strip (py_split (CHR '','') scopes)))"

section \<open>Operations\<close>

record created_token =
  ct_id :: nat
  ct_token :: string
  ct_prefix :: string
  ct_scopes :: "string list"
  ct_name :: string

definition name_ok :: "string \<Rightarrow> bool" where
  "name_ok name = (let core = filter (\<lambda>c. c \<noteq> CHR ''-'' \<and> c \<noteq> CHR ''_'') name
                   in core \<noteq> [] \<and> list_all py_isalnum core)"

text \<open>\<open>random\<close> is what \<open>token_urlsafe(32)\<close> returned. The digest column is \<open>UNIQUE\<close>.\<close>
definition create_token :: "(string \<Rightarrow> string) \<Rightarrow> string \<Rightarrow> instant \<Rightarrow> string \<Rightarrow> string \<Rightarrow> string \<Rightarrow> string option \<Rightarrow> token_table
    \<Rightarrow> token_table \<times> (exn + created_token)" where
  "create_token sha256 random now name scopes created_by expires_at t =
     (if name = [] \<or> \<not> name_ok name then (t, Inl (ValueError ''name must be alphanumeric (plus _ and -)''))
      else
        let ss = scope_set scopes
        in case List.find (\<lambda>s. map_of SCOPE_ORDER s = None) ss of
             Some s \<Rightarrow> (t, Inl (ValueError (''unknown scope: '' @ s)))
           | None \<Rightarrow>
               if ss = [] then (t, Inl (ValueError ''at least one scope required''))
               else
                 let raw = ''pk_'' @ random;
                     h = sha256 raw;
                     prefix = take 11 raw
                 in if \<exists>r \<in> set (contents t). tok_token_hash r = h
                    then (t, Inl (IntegrityError ''UNIQUE constraint failed: api_tokens.token_hash''))
                    else
                      let (t', i) = insert_row \<lparr>tok_name = name, tok_token_hash = h, tok_token_prefix = prefix,
                            tok_scopes = py_join '','' (sort ss), tok_created_by = created_by, tok_created_at = now,
                            tok_expires_at = expires_at, tok_last_used_at = None, tok_last_used_ip = [],
                            tok_disabled = False\<rparr> t
                      in (t', Inr \<lparr>ct_id = i, ct_token = raw, ct_prefix = prefix, ct_scopes = sort ss, ct_name = name\<rparr>))"

definition list_tokens :: "token_table \<Rightarrow> (nat \<times> token_row) list" where
  "list_tokens t = rev (rows t)"

definition revoke_token :: "nat \<Rightarrow> token_table \<Rightarrow> token_table" where
  "revoke_token token_id = update_rows (\<lambda>i _. i = token_id) (\<lambda>r. r\<lparr>tok_disabled := True\<rparr>)"

definition delete_token :: "nat \<Rightarrow> token_table \<Rightarrow> token_table" where
  "delete_token token_id = delete_rows (\<lambda>i _. i = token_id)"

text \<open>The row of a token that is not disabled.\<close>
definition enabled_row :: "string \<Rightarrow> token_table \<Rightarrow> (nat \<times> token_row) option" where
  "enabled_row h t = List.find (\<lambda>(_, r). tok_token_hash r = h \<and> \<not> tok_disabled r) (rows t)"

datatype expiry = Valid | Expired | Raises

text \<open>An unreadable stamp counts as no expiry; a stamp without an offset cannot be compared with the clock.\<close>
definition expiry_of :: "instant \<Rightarrow> string option \<Rightarrow> expiry" where
  "expiry_of now expires_at =
     (if \<not> str_truthy expires_at then Valid
      else case parse_any_stamp (the expires_at) of
             None \<Rightarrow> Valid
           | Some (Aware e) \<Rightarrow> if e < now then Expired else Valid
           | Some (Naive _) \<Rightarrow> Raises)"

definition lookup_token :: "(string \<Rightarrow> string) \<Rightarrow> instant \<Rightarrow> string \<Rightarrow> string \<Rightarrow> token_table
    \<Rightarrow> token_table \<times> (exn + (nat \<times> token_row) option)" where
  "lookup_token sha256 now ip raw t =
     (if raw = [] then (t, Inr None)
      else case enabled_row (sha256 raw) t of
             None \<Rightarrow> (t, Inr None)
           | Some (i, r) \<Rightarrow>
               (case expiry_of now (tok_expires_at r) of
                  Expired \<Rightarrow> (t, Inr None)
                | Raises \<Rightarrow> (t, Inl (TypeError ''can't compare offset-naive and offset-aware datetimes''))
                | Valid \<Rightarrow>
                    (update_rows (\<lambda>j _. j = i) (\<lambda>r. r\<lparr>tok_last_used_at := Some now, tok_last_used_ip := ip\<rparr>) t,
                     Inr (Some (i, r)))))"

definition scope_rank :: "string \<Rightarrow> int" where
  "scope_rank s = (case map_of SCOPE_ORDER s of Some n \<Rightarrow> n | None \<Rightarrow> -1)"

definition has_scope :: "string list \<Rightarrow> string \<Rightarrow> bool" where
  "has_scope granted required =
     (if required \<in> set granted then True
      else case map_of SCOPE_ORDER required of
             None \<Rightarrow> False
           | Some need \<Rightarrow> list_ex (\<lambda>s. need \<le> scope_rank s) granted)"

section \<open>The guard of a route\<close>

datatype guard =
    Unauthorized
  | Insufficient_scope string "string list"
  | Pass "nat \<times> token_row"
  | Crash exn

record auth_headers =
  h_authorization :: string
  h_x_protek_token :: "string option"

definition bearer :: "auth_headers \<Rightarrow> string" where
  "bearer h = (if py_startswith (h_authorization h) ''Bearer '' then py_strip (drop 7 (h_authorization h))
               else if str_truthy (h_x_protek_token h) then py_strip (the (h_x_protek_token h)) else [])"

definition require_token :: "(string \<Rightarrow> string) \<Rightarrow> instant \<Rightarrow> string \<Rightarrow> string \<Rightarrow> auth_headers \<Rightarrow> token_table \<Rightarrow> token_table \<times> guard" where
  "require_token sha256 now ip scope headers t =
     (let raw = bearer headers
      in case (if raw = [] then (t, Inr None) else lookup_token sha256 now ip raw t) of
           (t, Inl e) \<Rightarrow> (t, Crash e)
         | (t, Inr None) \<Rightarrow> (t, Unauthorized)
         | (t, Inr (Some (i, r))) \<Rightarrow>
             if has_scope (scope_set (tok_scopes r)) scope then (t, Pass (i, r))
             else (t, Insufficient_scope scope (sort (scope_set (tok_scopes r)))))"

section \<open>Scopes\<close>

lemma scope_rank_nonneg: "map_of SCOPE_ORDER s = Some n \<Longrightarrow> scope_rank s = n \<and> 0 \<le> n"
  by (auto simp: scope_rank_def SCOPE_ORDER_def split: if_splits)

text \<open>A known scope is granted exactly if a scope of at least its rank is.\<close>
lemma has_scope_known:
  assumes "map_of SCOPE_ORDER required = Some n"
  shows "has_scope granted required = (\<exists>s \<in> set granted. scope_rank required \<le> scope_rank s)"
  using assms scope_rank_nonneg [OF assms] by (auto simp: has_scope_def list_ex_iff)

lemma has_scope_unknown: "map_of SCOPE_ORDER required = None \<Longrightarrow> has_scope granted required = (required \<in> set granted)"
  by (simp add: has_scope_def)

lemma py_split_max_join:
  "xs \<noteq> [] \<Longrightarrow> \<forall>x \<in> set xs. c \<notin> set x \<Longrightarrow> length xs \<le> Suc n \<Longrightarrow> py_split_max c n (py_join [c] xs) = xs"
proof (induction xs arbitrary: n rule: list_nonempty_induct)
  case (single x)
  then show ?case by (simp add: py_split_max_last)
next
  case (cons x xs)
  then obtain m where n: "n = Suc m" by (cases n) auto
  obtain y ys where "xs = y # ys" using cons(1) by (cases xs) auto
  then have "py_join [c] (x # xs) = x @ c # py_join [c] xs" by simp
  then show ?case using cons n py_split_max_piece [of c x m] by simp
qed

lemma length_py_join: "length xs \<le> Suc (length (py_join [c] xs))"
  by (induction "[c]" xs rule: py_join.induct) auto

lemma py_split_join: "xs \<noteq> [] \<Longrightarrow> \<forall>x \<in> set xs. c \<notin> set x \<Longrightarrow> py_split c (py_join [c] xs) = xs"
  by (simp add: py_split_def py_split_max_join length_py_join)

lemma known_scope:
  assumes "map_of SCOPE_ORDER s \<noteq> None"
  shows "CHR '','' \<notin> set s \<and> py_strip s = s \<and> s \<noteq> []"
proof -
  have "s \<in> {''stats'', ''read'', ''write'', ''admin''}" using assms by (auto simp: SCOPE_ORDER_def split: if_splits)
  moreover have "py_strip ''stats'' = ''stats''" "py_strip ''read'' = ''read''" "py_strip ''write'' = ''write''"
    "py_strip ''admin'' = ''admin''" by code_simp+
  ultimately show ?thesis by auto
qed

text \<open>The stored text of known scopes reads back as the same scopes.\<close>
lemma scope_set_join:
  assumes "ss \<noteq> []" "distinct ss" "\<forall>s \<in> set ss. map_of SCOPE_ORDER s \<noteq> None"
  shows "scope_set (py_join '','' ss) = ss"
proof -
  have "py_split (CHR '','') (py_join '','' ss) = ss" using assms known_scope by (intro py_split_join) auto
  moreover have "map py_strip ss = ss" using assms(3) known_scope by (auto intro: map_idI)
  moreover have "filter (\<lambda>s. s \<noteq> []) ss = ss" using assms(3) known_scope by (auto intro: filter_True)
  ultimately show ?thesis using assms(2) by (simp add: scope_set_def distinct_remdups_id)
qed

section \<open>Life of a token\<close>

datatype token_op =
    T_create string instant string string string "string option"
  | T_revoke nat
  | T_delete nat
  | T_lookup instant string string

fun run_token_op :: "(string \<Rightarrow> string) \<Rightarrow> token_op \<Rightarrow> token_table \<Rightarrow> token_table" where
  "run_token_op sha256 (T_create random now name scopes creator expires) t = fst (create_token sha256 random now name scopes creator expires t)"
| "run_token_op sha256 (T_revoke i) t = revoke_token i t"
| "run_token_op sha256 (T_delete i) t = delete_token i t"
| "run_token_op sha256 (T_lookup now ip raw) t = fst (lookup_token sha256 now ip raw t)"

definition tokens_ok :: "token_table \<Rightarrow> bool" where
  "tokens_ok t = (auto_ok t \<and> distinct (map tok_token_hash (contents t)))"

lemma create_token_table:
  "fst (create_token sha256 random now name scopes creator expires t) = t
   \<or> (\<exists>r. fst (create_token sha256 random now name scopes creator expires t) = fst (insert_row r t)
        \<and> tok_token_hash r \<notin> tok_token_hash ` set (contents t) \<and> tok_token_hash r = sha256 (''pk_'' @ random))"
proof -
  define ss where "ss = scope_set scopes"
  define r where "r = \<lparr>tok_name = name, tok_token_hash = sha256 (''pk_'' @ random), tok_token_prefix = take 11 (''pk_'' @ random),
      tok_scopes = py_join '','' (sort ss), tok_created_by = creator, tok_created_at = now,
      tok_expires_at = expires, tok_last_used_at = None, tok_last_used_ip = [], tok_disabled = False\<rparr>"
  have "fst (create_token sha256 random now name scopes creator expires t) =
      (if name = [] \<or> \<not> name_ok name \<or> List.find (\<lambda>s. map_of SCOPE_ORDER s = None) ss \<noteq> None \<or> ss = []
          \<or> (\<exists>r \<in> set (contents t). tok_token_hash r = sha256 (''pk_'' @ random))
       then t else fst (insert_row r t))"
    unfolding create_token_def Let_def ss_def [symmetric] r_def
    by (simp add: case_prod_beta split: option.split)
  then show ?thesis by (auto simp: r_def intro!: exI [of _ r])
qed

lemma lookup_token_table:
  "fst (lookup_token sha256 now ip raw t) = t
   \<or> (\<exists>i. fst (lookup_token sha256 now ip raw t) =
        update_rows (\<lambda>j _. j = i) (\<lambda>r. r\<lparr>tok_last_used_at := Some now, tok_last_used_ip := ip\<rparr>) t)"
  by (auto simp: lookup_token_def split: option.splits expiry.splits)

text \<open>Every operation keeps the table well formed.\<close>
lemma tokens_ok_step: "tokens_ok t \<Longrightarrow> tokens_ok (run_token_op sha256 op t)"
proof (cases op)
  case (T_create random now name scopes creator expires)
  assume "tokens_ok t"
  then show ?thesis
    using create_token_table [of sha256 random now name scopes creator expires t]
    by (auto simp: T_create tokens_ok_def tables)
next
  case (T_revoke i)
  assume "tokens_ok t"
  then show ?thesis
    by (simp add: T_revoke revoke_token_def tokens_ok_def auto_ok_update map_contents_update)
next
  case (T_delete i)
  assume t: "tokens_ok t"
  have "contents (delete_token i t) = map snd (filter (\<lambda>p. fst p \<noteq> i) (rows t))"
    by (simp add: contents_def delete_token_def delete_rows_def case_prod_unfold)
  moreover have "distinct (map (tok_token_hash \<circ> snd) (filter (\<lambda>p. fst p \<noteq> i) (rows t)))"
    using t by (simp add: tokens_ok_def contents_def distinct_map_filter)
  ultimately show ?thesis using t by (simp add: T_delete tokens_ok_def delete_token_def auto_ok_delete)
next
  case (T_lookup now ip raw)
  assume "tokens_ok t"
  then show ?thesis using lookup_token_table [of sha256 now ip raw t]
    by (auto simp: T_lookup tokens_ok_def map_contents_update)
qed

lemma tokens_ok_run: "tokens_ok t \<Longrightarrow> tokens_ok (fold (run_token_op sha256) ops t)"
  by (induction ops arbitrary: t) (auto intro: tokens_ok_step)

text \<open>A usable row with this id, digest, scopes and expiry.\<close>
definition usable :: "nat \<Rightarrow> string \<Rightarrow> string \<Rightarrow> string option \<Rightarrow> token_table \<Rightarrow> bool" where
  "usable i h scopes expires t =
     (\<exists>r. (i, r) \<in> set (rows t) \<and> tok_token_hash r = h \<and> \<not> tok_disabled r \<and> tok_scopes r = scopes \<and> tok_expires_at r = expires)"

text \<open>No usable row has this digest.\<close>
definition unusable :: "string \<Rightarrow> token_table \<Rightarrow> bool" where
  "unusable h t = (\<forall>r \<in> set (contents t). tok_token_hash r = h \<longrightarrow> tok_disabled r)"

fun touches :: "nat \<Rightarrow> token_op \<Rightarrow> bool" where
  "touches i (T_revoke j) = (i = j)"
| "touches i (T_delete j) = (i = j)"
| "touches i _ = False"

lemma update_rows_member: "(i, r) \<in> set (rows t) \<Longrightarrow> (i, if P i r then f r else r) \<in> set (rows (update_rows P f t))"
  by (force simp: update_rows_def)

lemma usable_update:
  assumes "usable i h s e t"
    and "\<And>r. P i r \<Longrightarrow> tok_token_hash (f r) = tok_token_hash r \<and> tok_disabled (f r) = tok_disabled r
        \<and> tok_scopes (f r) = tok_scopes r \<and> tok_expires_at (f r) = tok_expires_at r"
  shows "usable i h s e (update_rows P f t)"
proof -
  obtain r where r: "(i, r) \<in> set (rows t)" "tok_token_hash r = h" "\<not> tok_disabled r" "tok_scopes r = s" "tok_expires_at r = e"
    using assms(1) by (auto simp: usable_def)
  have "(i, if P i r then f r else r) \<in> set (rows (update_rows P f t))" by (rule update_rows_member [OF r(1)])
  then show ?thesis unfolding usable_def using r assms(2) [of r] by (intro exI [of _ "if P i r then f r else r"]) auto
qed

lemma usable_step: "usable i h s e t \<Longrightarrow> \<not> touches i op \<Longrightarrow> usable i h s e (run_token_op sha256 op t)"
proof (cases op)
  case (T_create random now name scopes creator expires)
  assume "usable i h s e t"
  then show ?thesis
    using create_token_table [of sha256 random now name scopes creator expires t]
    by (auto simp: T_create usable_def insert_row_def Let_def)
next
  case (T_revoke j)
  assume "usable i h s e t" "\<not> touches i op"
  then show ?thesis by (simp add: T_revoke revoke_token_def) (rule usable_update, auto)
next
  case (T_delete j)
  assume "usable i h s e t" "\<not> touches i op"
  then show ?thesis by (auto simp: T_delete delete_token_def usable_def delete_rows_def)
next
  case (T_lookup now ip raw)
  assume u: "usable i h s e t"
  have "usable i h s e (update_rows P (\<lambda>r. r\<lparr>tok_last_used_at := Some now, tok_last_used_ip := ip\<rparr>) t)" for P
    by (rule usable_update [OF u]) simp
  then show ?thesis using u lookup_token_table [of sha256 now ip raw t] by (auto simp: T_lookup)
qed

lemma usable_run: "usable i h s e t \<Longrightarrow> list_all (\<lambda>op. \<not> touches i op) ops \<Longrightarrow> usable i h s e (fold (run_token_op sha256) ops t)"
  by (induction ops arbitrary: t) (auto intro: usable_step)

lemma unusable_step:
  assumes "unusable h t" and "h \<in> tok_token_hash ` set (contents t) \<or> (case op of T_create random _ _ _ _ _ \<Rightarrow> sha256 (''pk_'' @ random) \<noteq> h | _ \<Rightarrow> True)"
  shows "unusable h (run_token_op sha256 op t)"
proof (cases op)
  case (T_create random now name scopes creator expires)
  then show ?thesis using assms create_token_table [of sha256 random now name scopes creator expires t]
    by (auto simp: unusable_def tables)
next
  case (T_revoke j)
  then show ?thesis using assms(1)
    by (auto simp: unusable_def revoke_token_def elim!: set_contents_update)
next
  case (T_delete j)
  have "set (contents (delete_token j t)) \<subseteq> set (contents t)"
    by (auto simp: contents_def delete_token_def delete_rows_def)
  then show ?thesis using assms(1) by (auto simp: T_delete unusable_def)
next
  case (T_lookup now ip raw)
  have "unusable h (update_rows P (\<lambda>r. r\<lparr>tok_last_used_at := Some now, tok_last_used_ip := ip\<rparr>) t)" for P
    using assms(1) by (auto simp: unusable_def elim!: set_contents_update)
  then show ?thesis using assms(1) lookup_token_table [of sha256 now ip raw t] by (auto simp: T_lookup)
qed

lemma enabled_row_unusable: "unusable h t \<Longrightarrow> enabled_row h t = None"
  by (auto simp: enabled_row_def unusable_def contents_def find_None_iff)

lemma enabled_row_usable:
  assumes "usable i h s e t" "tokens_ok t"
  shows "\<exists>r. enabled_row h t = Some (i, r) \<and> tok_scopes r = s \<and> tok_expires_at r = e"
proof -
  obtain r where r: "(i, r) \<in> set (rows t)" "tok_token_hash r = h" "\<not> tok_disabled r" "tok_scopes r = s" "tok_expires_at r = e"
    using assms(1) by (auto simp: usable_def)
  have "enabled_row h t \<noteq> None" using r by (auto simp: enabled_row_def find_None_iff)
  then obtain q where q: "enabled_row h t = Some q" by blast
  then have "q \<in> set (rows t)" "tok_token_hash (snd q) = h"
    unfolding enabled_row_def find_Some_iff by (auto dest: nth_mem)
  moreover have "inj_on (tok_token_hash \<circ> snd) (set (rows t))"
    using assms(2) by (simp add: tokens_ok_def contents_def distinct_map)
  ultimately have "q = (i, r)" using r by (auto simp: inj_on_def)
  then show ?thesis using q r by auto
qed

section \<open>What a token opens\<close>

lemma has_scope_cong: "set xs = set ys \<Longrightarrow> has_scope xs s = has_scope ys s"
  by (simp add: has_scope_def list_ex_iff split: option.split)

lemma distinct_scope_set [simp]: "distinct (scope_set s)"
  by (simp add: scope_set_def)

lemma created_token_usable:
  assumes "create_token sha256 random now name scopes creator expires t = (t0, Inr ct)" and "tokens_ok t"
  shows "usable (ct_id ct) (sha256 (ct_token ct)) (py_join '','' (ct_scopes ct)) expires t0 \<and> tokens_ok t0
    \<and> ct_token ct \<noteq> [] \<and> ct_scopes ct = sort (scope_set scopes) \<and> scope_set (py_join '','' (ct_scopes ct)) = ct_scopes ct"
proof -
  define ss where "ss = scope_set scopes"
  have run: "t0 = run_token_op sha256 (T_create random now name scopes creator expires) t" using assms(1) by simp
  have ok: "ss \<noteq> []" "List.find (\<lambda>s. map_of SCOPE_ORDER s = None) ss = None"
    and ct: "usable (ct_id ct) (sha256 (ct_token ct)) (py_join '','' (ct_scopes ct)) expires t0"
      "ct_token ct = ''pk_'' @ random" "ct_scopes ct = sort ss"
    using assms(1) unfolding create_token_def Let_def ss_def [symmetric]
    by (auto simp: insert_row_def usable_def Let_def split: if_splits option.splits)
  have "\<forall>s \<in> set ss. map_of SCOPE_ORDER s \<noteq> None" using ok(2) by (auto simp: find_None_iff)
  then have "scope_set (py_join '','' (sort ss)) = sort ss"
    using ok(1) by (intro scope_set_join) (metis set_empty set_sort, auto simp: ss_def)
  then show ?thesis using ct tokens_ok_step [OF assms(2)] by (simp add: ss_def run del: run_token_op.simps)
qed


text \<open>A revoked or deleted token stays dead: whatever operations follow, as long as no new token has the same
  digest, every request that carries it is answered with 401.\<close>
theorem revoked_token_refused:
  assumes "tokens_ok t" and "(i, r) \<in> set (rows t)" and "sha256 raw = tok_token_hash r" and "raw \<noteq> []"
    and "t0 = revoke_token i t \<or> t0 = delete_token i t"
    and "\<forall>op \<in> set ops. (case op of T_create random _ _ _ _ _ \<Rightarrow> sha256 (''pk_'' @ random) \<noteq> tok_token_hash r | _ \<Rightarrow> True)"
    and "bearer headers = raw"
  shows "snd (require_token sha256 later ip scope headers (fold (run_token_op sha256) ops t0)) = Unauthorized"
proof -
  have inj: "inj_on (tok_token_hash \<circ> snd) (set (rows t))"
    using assms(1) by (simp add: tokens_ok_def contents_def distinct_map)
  then have only: "tok_token_hash r' = tok_token_hash r \<Longrightarrow> j = i \<and> r' = r" if "(j, r') \<in> set (rows t)" for j r'
    using that assms(2) inj_onD [OF inj, of "(j, r')" "(i, r)"] by simp
  have "unusable (tok_token_hash r) t0"
    using assms(5) only
    by (auto simp: unusable_def contents_def revoke_token_def delete_token_def update_rows_def delete_rows_def)
  then have "unusable (tok_token_hash r) (fold (run_token_op sha256) ops t0)"
    using assms(6) by (induction ops arbitrary: t0) (auto intro!: unusable_step)
  then show ?thesis
    using assms(3,4,7) by (simp add: require_token_def lookup_token_def Let_def enabled_row_unusable)
qed

section \<open>Examples\<close>

definition example_digest :: "string \<Rightarrow> string" where "example_digest s = ''#'' @ s"

definition example_tokens :: token_table where
  "example_tokens = fst (create_token example_digest ''abc'' 0 ''ci'' ''read, stats'' ''op'' (Some ''2026-01-01'') empty_table)"

definition read_tokens :: token_table where
  "read_tokens = fst (create_token example_digest ''abc'' 0 ''ci'' ''read'' ''op'' None empty_table)"

definition with_bearer :: "string \<Rightarrow> auth_headers" where
  "with_bearer raw = \<lparr>h_authorization = ''Bearer '' @ raw, h_x_protek_token = None\<rparr>"

text \<open>An expiry given as a date, or without an offset, makes every request with the token fail with an exception.\<close>
lemma naive_expiry_crashes:
  "snd (require_token example_digest 0 ''::1'' ''read'' (with_bearer ''pk_abc'') example_tokens)
     = Crash (TypeError ''can't compare offset-naive and offset-aware datetimes'')"
  by code_simp


theorem revoked_token_refused_witness:
  "snd (require_token example_digest 0 ''::1'' ''read'' (with_bearer ''pk_abc'')
     (fold (run_token_op example_digest) [T_create ''xyz'' 1 ''ci2'' ''admin'' ''op'' None, T_lookup 2 ''::1'' ''pk_abc'']
        (revoke_token 1 read_tokens))) = Unauthorized"
proof -
  let ?r = "snd (hd (rows read_tokens))"
  have "tokens_ok read_tokens" by code_simp
  moreover have "(1, ?r) \<in> set (rows read_tokens)" by code_simp
  moreover have "example_digest ''pk_abc'' = tok_token_hash ?r" by code_simp
  moreover have "bearer (with_bearer ''pk_abc'') = ''pk_abc''" by code_simp
  moreover have "\<forall>op \<in> set [T_create ''xyz'' 1 ''ci2'' ''admin'' ''op'' None, T_lookup 2 ''::1'' ''pk_abc''].
      (case op of T_create random _ _ _ _ _ \<Rightarrow> example_digest (''pk_'' @ random) \<noteq> tok_token_hash ?r | _ \<Rightarrow> True)"
    by code_simp
  ultimately show ?thesis by (intro revoked_token_refused) (assumption | simp)+
qed

end
