(* ===== verification/Auth.thy ===== *)
theory Auth
  imports Federation Ip_Address Iso_Time Alarms
begin

text \<open>
  Login, sessions and roles (\<open>auth.py\<close>, with the login route and the per-request check of \<open>app.py\<close>):
  the address allowlist, the lockout after failed logins, the users table with its protected first
  row, redirect targets, the session and the role guard. The password check of bcrypt and the code
  check of pyotp are arguments; they may raise, which counts as a failure. Rendering is reduced to
  the answer it gives.
\<close>

section \<open>State\<close>

record attempt_row =
  at_ip :: string
  at_attempts :: int
  at_locked_until :: "string option"
  at_last_attempt :: string

record login_audit_row =
  la_ip :: string
  la_username :: string
  la_success :: bool
  la_reason :: string
  la_created_at :: instant

record user_row =
  us_username :: string
  us_password_hash :: string
  us_totp_secret :: string
  us_role :: string
  us_created_at :: instant
  us_last_login_at :: "instant option"
  us_disabled :: bool

record auth_db =
  attempts_t :: "attempt_row list"
  login_audit_t :: "login_audit_row auto_table"
  users_t :: "user_row auto_table"

section \<open>Environment\<close>

definition clean_env :: "environment \<Rightarrow> string \<Rightarrow> string" where
  "clean_env env name = py_strip (hd (py_split_max (CHR ''#'') 1 (case env name of None \<Rightarrow> [] | Some s \<Rightarrow> s)))"

definition env_int :: "environment \<Rightarrow> string \<Rightarrow> int \<Rightarrow> int" where
  "env_int env name dflt =
     (let raw = clean_env env name
      in if raw = [] then dflt else case py_int raw of Some n \<Rightarrow> n | None \<Rightarrow> dflt)"

definition max_attempts :: "environment \<Rightarrow> int" where "max_attempts env = env_int env ''MAX_LOGIN_ATTEMPTS'' 5"
definition lockout_minutes :: "environment \<Rightarrow> int" where "lockout_minutes env = env_int env ''LOCKOUT_MINUTES'' 15"
definition session_timeout_minutes :: "environment \<Rightarrow> int" where
  "session_timeout_minutes env = env_int env ''SESSION_TIMEOUT_MIN'' 30"

section \<open>Address allowlist\<close>

fun entry_allows :: "ip \<Rightarrow> string \<Rightarrow> bool" where
  "entry_allows addr entry =
     (if CHR ''/'' \<in> set entry
      then (case ip_network entry of None \<Rightarrow> False | Some n \<Rightarrow> in_network addr n)
      else (case ip_address entry of None \<Rightarrow> False | Some a \<Rightarrow> addr = a))"

definition ip_allowed :: "environment \<Rightarrow> string \<Rightarrow> bool" where
  "ip_allowed env ip =
     (let raw = clean_env env ''IP_WHITELIST''
      in if raw = [] then True
         else case ip_address ip of
                None \<Rightarrow> False
              | Some addr \<Rightarrow> list_ex (entry_allows addr) (filter (\<lambda>e. e \<noteq> []) (map py_strip (py_split (CHR '','') raw))))"

section \<open>Lockout\<close>

definition is_locked :: "instant \<Rightarrow> string \<Rightarrow> auth_db \<Rightarrow> bool \<times> int" where
  "is_locked now ip db =
     (case find_row at_ip ip (attempts_t db) of
        None \<Rightarrow> (False, 0)
      | Some row \<Rightarrow>
          if \<not> str_truthy (at_locked_until row) then (False, 0)
          else case fromisoformat (the (at_locked_until row)) of
                 None \<Rightarrow> (False, 0)
               | Some until \<Rightarrow>
                   if now < until then (True, max 1 ((until - now) div MINUTE + 1)) else (False, 0))"

definition record_failure :: "environment \<Rightarrow> instant \<Rightarrow> string \<Rightarrow> auth_db \<Rightarrow> auth_db \<times> event list" where
  "record_failure env now ip db =
     (let n = (case find_row at_ip ip (attempts_t db) of Some row \<Rightarrow> at_attempts row | None \<Rightarrow> 0) + 1;
          locked_until = (if max_attempts env \<le> n then Some (isoformat (now + lockout_minutes env * MINUTE)) else None);
          db' = db\<lparr>attempts_t := upsert at_ip
                     \<lparr>at_ip = ip, at_attempts = n, at_locked_until = locked_until, at_last_attempt = isoformat now\<rparr>
                     (\<lambda>r. r\<lparr>at_attempts := n, at_locked_until := locked_until, at_last_attempt := isoformat now\<rparr>)
                     (attempts_t db)\<rparr>
      in (db',
          [Notify ''login_failure'' (''Failed login from '' @ ip @ ''. Attempt '' @ py_str_int n @ ''/''
             @ py_str_int (max_attempts env) @ ''.'') ''Login failure'']
          @ (if locked_until \<noteq> None
             then [Notify ''login_locked'' (''IP '' @ ip @ '' locked for '' @ py_str_int (lockout_minutes env)
                     @ '' minutes after '' @ py_str_int n @ '' failed attempts.'') ''IP locked out''] else [])
          @ [Ship ''auth.failure'' [(''ip'', Some ip), (''attempts'', Some (py_str_int n)),
               (''max'', Some (py_str_int (max_attempts env)))]]
          @ (if locked_until \<noteq> None
             then [Ship ''auth.locked'' [(''ip'', Some ip), (''attempts'', Some (py_str_int n)),
                     (''lockout_min'', Some (py_str_int (lockout_minutes env)))]] else [])))"

definition clear_failures :: "string \<Rightarrow> auth_db \<Rightarrow> auth_db" where
  "clear_failures ip db = db\<lparr>attempts_t := filter (\<lambda>r. at_ip r \<noteq> ip) (attempts_t db)\<rparr>"

definition record_audit :: "instant \<Rightarrow> string \<Rightarrow> string \<Rightarrow> bool \<Rightarrow> string \<Rightarrow> auth_db \<Rightarrow> auth_db" where
  "record_audit now ip username success reason db =
     db\<lparr>login_audit_t := fst (insert_row \<lparr>la_ip = ip, la_username = username, la_success = success, la_reason = reason,
          la_created_at = now\<rparr> (login_audit_t db))\<rparr>"

section \<open>Redirect targets\<close>

definition ascii_alpha :: "char \<Rightarrow> bool" where
  "ascii_alpha c = ((97 \<le> code_point c \<and> code_point c \<le> 122) \<or> (65 \<le> code_point c \<and> code_point c \<le> 90))"

definition scheme_char :: "char \<Rightarrow> bool" where
  "scheme_char c = (ascii_alpha c \<or> (48 \<le> code_point c \<and> code_point c \<le> 57) \<or> c \<in> set ''+-.'')"

text \<open>The scheme and the network location of \<open>urlparse\<close>, which first drops leading control characters and blanks and
  every tab and line break; a location with one of the two brackets raises. The check of what stands between
  brackets is left out.\<close>
definition urlparse :: "string \<Rightarrow> exn + string \<times> string" where
  "urlparse url =
     (let u = filter (\<lambda>c. code_point c \<notin> {9, 10, 13}) (dropWhile (\<lambda>c. code_point c \<le> 32) url);
          head = takeWhile (\<lambda>c. c \<noteq> CHR '':'') u;
          has_scheme = (CHR '':'' \<in> set u \<and> head \<noteq> [] \<and> ascii_alpha (hd head) \<and> list_all scheme_char head);
          rest = (if has_scheme then drop (length head + 1) u else u);
          netloc = (if py_startswith rest ''//'' then takeWhile (\<lambda>c. c \<notin> set ''/?#'') (drop 2 rest) else [])
      in if (CHR ''['' \<in> set netloc) \<noteq> (CHR '']'' \<in> set netloc) then Inl (ValueError ''Invalid IPv6 URL'')
         else Inr (if has_scheme then py_lower head else [], netloc))"

definition safe_next :: "string option \<Rightarrow> string \<Rightarrow> exn + string" where
  "safe_next target fallback =
     (if \<not> str_truthy target then Inr fallback
      else
        let t = py_strip (the target)
        in if t = [] \<or> list_ex (\<lambda>c. code_point c \<in> {13, 10, 9, 0}) t then Inr fallback
           else if py_contains t ''://'' \<or> py_startswith t ''//'' \<or> py_startswith t [CHR 0x5C] then Inr fallback
           else if py_startswith t (CHR ''/'' # [CHR 0x5C]) \<or> py_startswith t ''/%5C'' \<or> py_startswith t ''/%5c'' then Inr fallback
           else case urlparse t of
                  Inl e \<Rightarrow> Inl e
                | Inr (scheme, netloc) \<Rightarrow>
                    if scheme \<noteq> [] \<or> netloc \<noteq> [] then Inr fallback
                    else Inr (if py_startswith t ''/'' then t else fallback))"

section \<open>Users\<close>

definition user_with_name :: "string \<Rightarrow> auth_db \<Rightarrow> (nat \<times> user_row) option" where
  "user_with_name uname db = List.find (\<lambda>(_, u). us_username u = uname) (rows (users_t db))"

definition seed_env_user :: "environment \<Rightarrow> instant \<Rightarrow> auth_db \<Rightarrow> auth_db" where
  "seed_env_user env now db =
     (let uname = clean_env env ''APP_USERNAME''; h = clean_env env ''APP_PASSWORD_HASH''; secret = clean_env env ''TOTP_SECRET''
      in if uname = [] \<or> h = [] \<or> secret = [] then db
         else case user_with_name uname db of
                Some (i, u) \<Rightarrow>
                  if us_password_hash u \<noteq> h \<or> us_totp_secret u \<noteq> secret
                  then db\<lparr>users_t := update_rows (\<lambda>j _. j = i)
                         (\<lambda>u. u\<lparr>us_password_hash := h, us_totp_secret := secret, us_role := ''admin'', us_disabled := False\<rparr>)
                         (users_t db)\<rparr>
                  else db
              | None \<Rightarrow> db\<lparr>users_t := fst (insert_row \<lparr>us_username = uname, us_password_hash = h, us_totp_secret = secret,
                  us_role = ''admin'', us_created_at = now, us_last_login_at = None, us_disabled = False\<rparr> (users_t db))\<rparr>)"

definition get_user_by_id :: "nat \<Rightarrow> auth_db \<Rightarrow> (nat \<times> user_row) option" where
  "get_user_by_id uid db =
     (if uid = 0 then None else List.find (\<lambda>(i, u). i = uid \<and> \<not> us_disabled u) (rows (users_t db)))"

definition get_user :: "string \<Rightarrow> auth_db \<Rightarrow> (nat \<times> user_row) option" where
  "get_user username db =
     (if username = [] then None else List.find (\<lambda>(_, u). us_username u = username \<and> \<not> us_disabled u) (rows (users_t db)))"

definition list_users :: "auth_db \<Rightarrow> (nat \<times> user_row) list" where
  "list_users db = rows (users_t db)"

definition ROLES :: "string list" where "ROLES = [''viewer'', ''operator'', ''admin'']"

text \<open>\<open>pw_hash\<close> and \<open>secret\<close> are what bcrypt and pyotp generated; the username column is \<open>UNIQUE\<close>.\<close>
definition add_user :: "string \<Rightarrow> string \<Rightarrow> instant \<Rightarrow> string \<Rightarrow> string \<Rightarrow> string \<Rightarrow> auth_db \<Rightarrow> auth_db \<times> (exn + nat)" where
  "add_user pw_hash secret now username password role db =
     (let core = filter (\<lambda>c. c \<noteq> CHR ''_'' \<and> c \<noteq> CHR ''-'') username
      in if username = [] \<or> core = [] \<or> \<not> list_all py_isalnum core
         then (db, Inl (ValueError ''username must be alphanumeric (plus _ and -)''))
         else if length password < 8 then (db, Inl (ValueError ''password must be >= 8 characters''))
         else if role \<notin> set ROLES then (db, Inl (ValueError ''role must be viewer / operator / admin''))
         else if \<exists>u \<in> set (contents (users_t db)). us_username u = username
         then (db, Inl (IntegrityError ''UNIQUE constraint failed: users.username''))
         else let (t, i) = insert_row \<lparr>us_username = username, us_password_hash = pw_hash, us_totp_secret = secret,
                    us_role = role, us_created_at = now, us_last_login_at = None, us_disabled = False\<rparr> (users_t db)
              in (db\<lparr>users_t := t\<rparr>, Inr i))"

definition set_user_disabled :: "nat \<Rightarrow> bool \<Rightarrow> auth_db \<Rightarrow> auth_db \<times> exn option" where
  "set_user_disabled user_id disabled db =
     (if user_id = 1 \<and> disabled then (db, Some (ValueError ''cannot disable the env-anchored admin (user #1)''))
      else (db\<lparr>users_t := update_rows (\<lambda>i _. i = user_id) (\<lambda>u. u\<lparr>us_disabled := disabled\<rparr>) (users_t db)\<rparr>, None))"

definition set_user_role :: "nat \<Rightarrow> string \<Rightarrow> auth_db \<Rightarrow> auth_db \<times> exn option" where
  "set_user_role user_id role db =
     (if role \<notin> set ROLES then (db, Some (ValueError ''role must be viewer / operator / admin''))
      else if user_id = 1 \<and> role \<noteq> ''admin'' then (db, Some (ValueError ''cannot demote the env-anchored admin (user #1)''))
      else (db\<lparr>users_t := update_rows (\<lambda>i _. i = user_id) (\<lambda>u. u\<lparr>us_role := role\<rparr>) (users_t db)\<rparr>, None))"

definition delete_user :: "nat \<Rightarrow> auth_db \<Rightarrow> auth_db \<times> exn option" where
  "delete_user user_id db =
     (if user_id = 1 then (db, Some (ValueError ''cannot delete the env-anchored admin (user #1)''))
      else (db\<lparr>users_t := delete_rows (\<lambda>i _. i = user_id) (users_t db)\<rparr>, None))"

definition record_user_login :: "instant \<Rightarrow> nat \<Rightarrow> auth_db \<Rightarrow> auth_db" where
  "record_user_login now user_id db =
     db\<lparr>users_t := update_rows (\<lambda>i _. i = user_id) (\<lambda>u. u\<lparr>us_last_login_at := Some now\<rparr>) (users_t db)\<rparr>"

section \<open>Credentials\<close>

text \<open>\<open>checkpw\<close> and \<open>totp\<close> return nothing when the library raises.\<close>
definition verify_password :: "(string \<Rightarrow> string \<Rightarrow> bool option) \<Rightarrow> string \<Rightarrow> string \<Rightarrow> auth_db \<Rightarrow> (nat \<times> user_row) option" where
  "verify_password checkpw username password db =
     (if username = [] \<or> password = [] then None
      else case get_user username db of
             None \<Rightarrow> None
           | Some (i, u) \<Rightarrow> if checkpw password (us_password_hash u) = Some True then Some (i, u) else None)"

definition verify_totp_for :: "(string \<Rightarrow> string \<Rightarrow> bool option) \<Rightarrow> user_row \<Rightarrow> string \<Rightarrow> bool" where
  "verify_totp_for totp user code =
     (if us_totp_secret user = [] \<or> code = [] then False
      else totp (us_totp_secret user) (py_strip (filter (\<lambda>c. c \<noteq> CHR '' '') code)) = Some True)"

section \<open>Sessions and roles\<close>

record web_session =
  ws_logged_in :: bool
  ws_username :: string
  ws_user_id :: "nat option"
  ws_role :: "string option"
  ws_auth_source :: string
  ws_last_active :: "string option"

definition empty_session :: web_session where
  "empty_session = \<lparr>ws_logged_in = False, ws_username = [], ws_user_id = None, ws_role = None, ws_auth_source = [],
     ws_last_active = None\<rparr>"

definition touch_session :: "instant \<Rightarrow> web_session \<Rightarrow> web_session" where
  "touch_session now s = s\<lparr>ws_last_active := Some (isoformat now)\<rparr>"

definition session_expired :: "environment \<Rightarrow> instant \<Rightarrow> web_session \<Rightarrow> bool" where
  "session_expired env now s =
     (if \<not> str_truthy (ws_last_active s) then True
      else case fromisoformat (the (ws_last_active s)) of
             None \<Rightarrow> True
           | Some ts \<Rightarrow> session_timeout_minutes env * MINUTE < now - ts)"

definition ROLE_ORDER :: "(string \<times> int) list" where
  "ROLE_ORDER = [(''viewer'', 1), (''operator'', 2), (''admin'', 3)]"

definition current_role :: "web_session \<Rightarrow> string" where
  "current_role s = (case ws_role s of Some r \<Rightarrow> r | None \<Rightarrow> ''viewer'')"

definition role_rank :: "int \<Rightarrow> string \<Rightarrow> int" where
  "role_rank missing r = (case map_of ROLE_ORDER r of Some n \<Rightarrow> n | None \<Rightarrow> missing)"

definition has_role :: "string \<Rightarrow> web_session \<Rightarrow> bool" where
  "has_role required s = (role_rank 99 required \<le> role_rank 0 (current_role s))"

datatype answer = Blocked_page | To_login | To_login_expired | Forbidden | Serve

definition login_required :: "environment \<Rightarrow> instant \<Rightarrow> string \<Rightarrow> web_session \<Rightarrow> web_session \<times> answer" where
  "login_required env now ip s =
     (if \<not> ip_allowed env ip then (s, Blocked_page)
      else if \<not> ws_logged_in s then (s, To_login)
      else if session_expired env now s then (empty_session, To_login_expired)
      else (touch_session now s, Serve))"

definition role_required :: "string \<Rightarrow> web_session \<Rightarrow> answer" where
  "role_required required s =
     (if \<not> ws_logged_in s then To_login else if \<not> has_role required s then Forbidden else Serve)"

text \<open>\<open>_revalidate_session\<close> of \<open>app.py\<close>, run before every request; \<open>lookup_ok\<close> tells whether the query succeeded, and
  \<open>google_role\<close> is the allowlist of Google accounts.\<close>
definition revalidate_session :: "(string \<Rightarrow> string option) \<Rightarrow> bool \<Rightarrow> bool \<Rightarrow> auth_db \<Rightarrow> web_session \<Rightarrow> web_session" where
  "revalidate_session google_role static lookup_ok db s =
     (if \<not> ws_logged_in s \<or> static \<or> \<not> lookup_ok then s
      else
        let uid = (case ws_user_id s of Some i \<Rightarrow> i | None \<Rightarrow> 0)
        in case (if uid \<noteq> 0 then get_user_by_id uid db else get_user (ws_username s) db) of
             None \<Rightarrow> empty_session
           | Some (i, u) \<Rightarrow>
               let s = s\<lparr>ws_user_id := Some i, ws_username := us_username u\<rparr>
               in if ws_auth_source s = ''google''
                  then (case google_role (us_username u) of
                          None \<Rightarrow> empty_session
                        | Some r \<Rightarrow> if r = [] then empty_session else s\<lparr>ws_role := Some r\<rparr>)
                  else s\<lparr>ws_role := Some (us_role u)\<rparr>)"

section \<open>The login route\<close>

record login_form =
  lf_username :: string
  lf_password :: string
  lf_totp :: string

datatype login_answer =
    Login_blocked
  | Login_page "string option" bool int
  | Login_redirect string
  | Login_crash exn

text \<open>\<open>POST /login\<close>.\<close>
definition login_post :: "environment \<Rightarrow> (string \<Rightarrow> string \<Rightarrow> bool option) \<Rightarrow> (string \<Rightarrow> string \<Rightarrow> bool option) \<Rightarrow> instant \<Rightarrow> string
    \<Rightarrow> login_form \<Rightarrow> string option \<Rightarrow> web_session \<Rightarrow> auth_db \<Rightarrow> auth_db \<times> web_session \<times> event list \<times> login_answer" where
  "login_post env checkpw totp now ip form next_url s db =
     (if \<not> ip_allowed env ip then (db, s, [], Login_blocked)
      else if fst (is_locked now ip db)
      then (db, s, [], Login_page (Some (''Too many failures. Try again in '' @ py_str_int (snd (is_locked now ip db)) @ '' minutes.''))
              True (snd (is_locked now ip db)))
      else
        let username = py_strip (lf_username form);
            failed = (\<lambda>reason message.
              let (db1, ev) = record_failure env now ip db;
                  db2 = record_audit now ip username False reason db1
              in (db2, s, ev, Login_page (Some message) (fst (is_locked now ip db2)) (snd (is_locked now ip db2))))
        in case verify_password checkpw username (lf_password form) db of
             None \<Rightarrow> failed ''bad credentials'' ''Invalid credentials.''
           | Some (i, u) \<Rightarrow>
               if \<not> verify_totp_for totp u (py_strip (lf_totp form)) then failed ''bad TOTP'' ''Invalid TOTP code.''
               else
                 let db = record_user_login now i (record_audit now ip username True [] (clear_failures ip db));
                     s = touch_session now (empty_session\<lparr>ws_logged_in := True, ws_username := username, ws_user_id := Some i,
                           ws_role := Some (us_role u)\<rparr>);
                     ev = [Ship ''auth.success'' [(''ip'', Some ip), (''actor'', Some username), (''role'', Some (us_role u))]]
                 in (db, s, ev, case safe_next next_url ''/'' of Inl e \<Rightarrow> Login_crash e | Inr url \<Rightarrow> Login_redirect url))"

section \<open>The lockout bounds guessing\<close>

text \<open>The number of failed attempts of an address and the end of its lock.\<close>
definition failures :: "string \<Rightarrow> auth_db \<Rightarrow> int" where
  "failures ip db = (case find_row at_ip ip (attempts_t db) of Some r \<Rightarrow> at_attempts r | None \<Rightarrow> 0)"

definition lock_end :: "string \<Rightarrow> auth_db \<Rightarrow> instant option" where
  "lock_end ip db =
     (case find_row at_ip ip (attempts_t db) of
        None \<Rightarrow> None
      | Some r \<Rightarrow> if str_truthy (at_locked_until r) then fromisoformat (the (at_locked_until r)) else None)"

lemma is_locked_iff: "fst (is_locked now ip db) = (\<exists>u. lock_end ip db = Some u \<and> now < u)"
  by (auto simp: is_locked_def lock_end_def split: option.splits)

lemma record_audit_attempts [simp]: "attempts_t (record_audit now ip u b r db) = attempts_t db"
  by (simp add: record_audit_def)

lemma record_failure_row:
  "find_row at_ip k (attempts_t (fst (record_failure env now ip db))) =
     (if k = ip
      then Some ((case find_row at_ip ip (attempts_t db) of Some r \<Rightarrow> r
                  | None \<Rightarrow> \<lparr>at_ip = ip, at_attempts = 0, at_locked_until = None, at_last_attempt = []\<rparr>)
             \<lparr>at_attempts := failures ip db + 1,
              at_locked_until := (if max_attempts env \<le> failures ip db + 1
                then Some (isoformat (now + lockout_minutes env * MINUTE)) else None), at_last_attempt := isoformat now\<rparr>)
      else find_row at_ip k (attempts_t db))"
proof (cases "k = ip")
  case True
  define n where "n = failures ip db + 1"
  define l where "l = (if max_attempts env \<le> n then Some (isoformat (now + lockout_minutes env * MINUTE)) else None)"
  define new where "new = \<lparr>at_ip = ip, at_attempts = n, at_locked_until = l, at_last_attempt = isoformat now\<rparr>"
  define g where "g = (\<lambda>r :: attempt_row. r\<lparr>at_attempts := n, at_locked_until := l, at_last_attempt := isoformat now\<rparr>)"
  have "find_row at_ip (at_ip new) (upsert at_ip new g (attempts_t db)) =
      Some (case find_row at_ip (at_ip new) (attempts_t db) of None \<Rightarrow> new | Some r \<Rightarrow> g r)"
    by (rule find_row_upsert_same) (simp add: g_def)
  moreover have "attempts_t (fst (record_failure env now ip db)) = upsert at_ip new g (attempts_t db)"
    by (simp add: record_failure_def Let_def new_def g_def n_def l_def failures_def)
  ultimately show ?thesis using True
    by (simp add: new_def g_def n_def l_def split: option.split)
next
  case False
  then show ?thesis by (simp add: record_failure_def Let_def find_row_upsert_other)
qed

lemma record_failure_view:
  assumes "datable (now + lockout_minutes env * MINUTE)"
  shows "failures ip (fst (record_failure env now ip db)) = failures ip db + 1"
    and "lock_end ip (fst (record_failure env now ip db)) =
      (if max_attempts env \<le> failures ip db + 1 then Some (now + lockout_minutes env * MINUTE) else None)"
  using assms
  by (simp_all add: failures_def [of ip "fst (record_failure env now ip db)"] lock_end_def record_failure_row str_truthy_def
      fromisoformat_isoformat)

text \<open>A login request of the address, after whatever the others did.\<close>
type_synonym post_call = "(auth_db \<Rightarrow> auth_db) \<times> instant \<times> login_form"

type_synonym check = "string \<Rightarrow> string \<Rightarrow> bool option"

fun post_result :: "environment \<Rightarrow> check \<Rightarrow> check \<Rightarrow> string \<Rightarrow> post_call \<Rightarrow> auth_db
    \<Rightarrow> auth_db \<times> web_session \<times> event list \<times> login_answer" where
  "post_result env checkpw totp ip (others, now, form) db =
     login_post env checkpw totp now ip form None empty_session (others db)"

definition post_step :: "environment \<Rightarrow> check \<Rightarrow> check \<Rightarrow> string \<Rightarrow> post_call \<Rightarrow> auth_db \<Rightarrow> auth_db" where
  "post_step env checkpw totp ip c db = fst (post_result env checkpw totp ip c db)"

text \<open>The request does not succeed, and the others leave the row of the address alone.\<close>
definition refused :: "environment \<Rightarrow> check \<Rightarrow> check \<Rightarrow> string \<Rightarrow> post_call \<Rightarrow> auth_db \<Rightarrow> bool" where
  "refused env checkpw totp ip c db =
     (find_row at_ip ip (attempts_t (fst c db)) = find_row at_ip ip (attempts_t db)
      \<and> \<not> ws_logged_in (fst (snd (post_result env checkpw totp ip c db))))"

text \<open>The request's credentials are looked at.\<close>
definition evaluated :: "environment \<Rightarrow> string \<Rightarrow> post_call \<Rightarrow> auth_db \<Rightarrow> bool" where
  "evaluated env ip c db = (ip_allowed env ip \<and> \<not> fst (is_locked (fst (snd c)) ip (fst c db)))"

fun run_count :: "('i \<Rightarrow> 's \<Rightarrow> 's) \<Rightarrow> ('i \<Rightarrow> 's \<Rightarrow> bool) \<Rightarrow> 'i list \<Rightarrow> 's \<Rightarrow> nat" where
  "run_count check P [] s = 0"
| "run_count check P (i # is) s = (if P i s then 1 else 0) + run_count check P is (check i s)"

lemma view_cong:
  assumes "find_row at_ip ip (attempts_t d) = find_row at_ip ip (attempts_t d')"
  shows "failures ip d = failures ip d'" "lock_end ip d = lock_end ip d'"
  using assms by (simp_all add: failures_def lock_end_def)

lemma login_post_refused:
  assumes "\<not> ws_logged_in (fst (snd (login_post env checkpw totp now ip form nx empty_session db)))"
  shows "attempts_t (fst (login_post env checkpw totp now ip form nx empty_session db)) =
    (if ip_allowed env ip \<and> \<not> fst (is_locked now ip db) then attempts_t (fst (record_failure env now ip db)) else attempts_t db)"
  using assms
  by (auto simp: login_post_def Let_def case_prod_beta touch_session_def split: option.splits if_splits)

lemma post_step_view:
  assumes "refused env checkpw totp ip c db" and "datable (fst (snd c) + lockout_minutes env * MINUTE)"
  shows "evaluated env ip c db \<Longrightarrow> failures ip (post_step env checkpw totp ip c db) = failures ip db + 1"
    and "evaluated env ip c db \<Longrightarrow> lock_end ip (post_step env checkpw totp ip c db) =
      (if max_attempts env \<le> failures ip db + 1 then Some (fst (snd c) + lockout_minutes env * MINUTE) else None)"
    and "\<not> evaluated env ip c db \<Longrightarrow> failures ip (post_step env checkpw totp ip c db) = failures ip db"
    and "\<not> evaluated env ip c db \<Longrightarrow> lock_end ip (post_step env checkpw totp ip c db) = lock_end ip db"
proof -
  obtain others now form where c: "c = (others, now, form)" using prod_cases3 by blast
  have keep: "find_row at_ip ip (attempts_t (others db)) = find_row at_ip ip (attempts_t db)"
    using assms(1) by (simp add: refused_def c)
  have "\<not> ws_logged_in (fst (snd (login_post env checkpw totp now ip form None empty_session (others db))))"
    using assms(1) by (simp add: refused_def c)
  note step = login_post_refused [OF this]
  note same = view_cong [OF keep]
  have ev: "evaluated env ip c db = (ip_allowed env ip \<and> \<not> fst (is_locked now ip (others db)))"
    by (simp add: evaluated_def c)
  show "evaluated env ip c db \<Longrightarrow> failures ip (post_step env checkpw totp ip c db) = failures ip db + 1"
    and "evaluated env ip c db \<Longrightarrow> lock_end ip (post_step env checkpw totp ip c db) =
      (if max_attempts env \<le> failures ip db + 1 then Some (fst (snd c) + lockout_minutes env * MINUTE) else None)"
    using step record_failure_view [of now env ip "others db"] assms(2) unfolding ev
    by (simp_all add: post_step_def c same failures_def [of ip "fst (record_failure env now ip (others db))"]
        failures_def [of ip "fst (login_post env checkpw totp now ip form None empty_session (others db))"]
        lock_end_def [of ip "fst (record_failure env now ip (others db))"]
        lock_end_def [of ip "fst (login_post env checkpw totp now ip form None empty_session (others db))"])
  show "\<not> evaluated env ip c db \<Longrightarrow> failures ip (post_step env checkpw totp ip c db) = failures ip db"
    and "\<not> evaluated env ip c db \<Longrightarrow> lock_end ip (post_step env checkpw totp ip c db) = lock_end ip db"
    using step keep unfolding ev by (auto simp: post_step_def c failures_def lock_end_def)
qed

text \<open>How many steps of length \<open>L\<close> fit from \<open>u\<close> to \<open>e\<close>.\<close>
definition slots :: "int \<Rightarrow> int \<Rightarrow> int \<Rightarrow> int" where
  "slots L u e = (if e < u then 0 else 1 + (e - u) div L)"

lemma slots_step: "0 < L \<Longrightarrow> u \<le> s \<Longrightarrow> s \<le> e \<Longrightarrow> 1 + slots L (s + L) e \<le> slots L u e"
proof -
  assume a: "0 < L" "u \<le> s" "s \<le> e"
  have "(e - (s + L)) div L = (e - s) div L - 1"
    using a(1) div_diff [of L L "e - s"] by (simp add: diff_diff_eq [symmetric] div_add_self1 [of L "e - s - L"])
      (metis add.commute add_diff_cancel_left' diff_add_cancel div_add_self2 less_irrefl)
  moreover have "(e - s) div L \<le> (e - u) div L" using a by (simp add: zdiv_mono1)
  moreover have "0 \<le> (e - s) div L" using a by (simp add: pos_imp_zdiv_nonneg_iff)
  ultimately show ?thesis using a by (auto simp: slots_def)
qed

lemma slots_le: "0 < L \<Longrightarrow> s \<le> e \<Longrightarrow> t0 \<le> s \<Longrightarrow> 1 + slots L (s + L) e \<le> 1 + (e - t0) div L"
  using slots_step [of L t0 s e] by (simp add: slots_def)

text \<open>The times of the calls lie in an interval, and the ends of the locks can be written.\<close>
definition timely :: "environment \<Rightarrow> instant \<Rightarrow> instant \<Rightarrow> post_call list \<Rightarrow> bool" where
  "timely env t0 e calls =
     list_all (\<lambda>c. t0 \<le> fst (snd c) \<and> fst (snd c) \<le> e \<and> datable (fst (snd c) + lockout_minutes env * MINUTE)) calls"

lemma guesses_locked:
  assumes "0 < lockout_minutes env * MINUTE"
    and "run_ok (post_step env checkpw totp ip) (refused env checkpw totp ip) calls db" and "timely env t0 e calls"
    and "max_attempts env \<le> failures ip db" and "lock_end ip db = Some u"
  shows "int (run_count (post_step env checkpw totp ip) (evaluated env ip) calls db) \<le> slots (lockout_minutes env * MINUTE) u e"
  using assms(2-)
proof (induction calls arbitrary: db u)
  case Nil
  then show ?case using assms(1) by (simp add: slots_def pos_imp_zdiv_nonneg_iff)
next
  case (Cons c calls)
  have c: "refused env checkpw totp ip c db" "datable (fst (snd c) + lockout_minutes env * MINUTE)" "fst (snd c) \<le> e"
    using Cons.prems by (auto simp: timely_def)
  note view = post_step_view [OF c(1,2)]
  show ?case
  proof (cases "evaluated env ip c db")
    case True
    have "lock_end ip (fst c db) = lock_end ip db" using c(1) by (auto simp: refused_def intro: view_cong)
    then have "u \<le> fst (snd c)" using True Cons.prems(4) by (auto simp: evaluated_def is_locked_iff)
    then have "1 + slots (lockout_minutes env * MINUTE) (fst (snd c) + lockout_minutes env * MINUTE) e
        \<le> slots (lockout_minutes env * MINUTE) u e" using slots_step assms(1) c(3) by blast
    moreover have "int (run_count (post_step env checkpw totp ip) (evaluated env ip) calls (post_step env checkpw totp ip c db))
        \<le> slots (lockout_minutes env * MINUTE) (fst (snd c) + lockout_minutes env * MINUTE) e"
      using Cons.prems True view by (intro Cons.IH) (auto simp: timely_def)
    ultimately show ?thesis using True by simp
  next
    case False
    then show ?thesis using Cons.prems view by (simp add: Cons.IH timely_def)
  qed
qed

lemma guesses_open:
  assumes "0 < lockout_minutes env * MINUTE" and "t0 \<le> e"
    and "run_ok (post_step env checkpw totp ip) (refused env checkpw totp ip) calls db" and "timely env t0 e calls"
    and "failures ip db < max_attempts env"
  shows "int (run_count (post_step env checkpw totp ip) (evaluated env ip) calls db)
    \<le> (max_attempts env - failures ip db) + (e - t0) div (lockout_minutes env * MINUTE)"
  using assms(3-)
proof (induction calls arbitrary: db)
  case Nil
  have "0 \<le> (e - t0) div (lockout_minutes env * MINUTE)" using assms(1,2) by (simp add: pos_imp_zdiv_nonneg_iff)
  then show ?case using Nil by simp
next
  case (Cons c calls)
  let ?L = "lockout_minutes env * MINUTE" and ?n = "run_count (post_step env checkpw totp ip) (evaluated env ip) calls (post_step env checkpw totp ip c db)"
  have c: "refused env checkpw totp ip c db" "datable (fst (snd c) + ?L)" "fst (snd c) \<le> e" "t0 \<le> fst (snd c)"
    and rest: "run_ok (post_step env checkpw totp ip) (refused env checkpw totp ip) calls (post_step env checkpw totp ip c db)"
      "timely env t0 e calls"
    using Cons.prems by (auto simp: timely_def)
  note view = post_step_view [OF c(1,2)]
  consider "\<not> evaluated env ip c db" | "evaluated env ip c db" "failures ip db + 1 < max_attempts env"
    | "evaluated env ip c db" "failures ip db + 1 = max_attempts env" using Cons.prems(3) by linarith
  then show ?case
  proof cases
    case 1
    then show ?thesis using Cons.IH [OF rest] Cons.prems(3) view by simp
  next
    case 2
    then show ?thesis using Cons.IH [OF rest] view by simp
  next
    case 3
    then have "int ?n \<le> slots ?L (fst (snd c) + ?L) e"
      using view by (intro guesses_locked [OF assms(1) rest]) auto
    moreover have "1 + slots ?L (fst (snd c) + ?L) e \<le> 1 + (e - t0) div ?L" using slots_le assms(1) c(3,4) by blast
    ultimately show ?thesis using 3 by simp
  qed
qed

text \<open>(C11) The lockout bounds guessing: while all logins of an address fail, the number of attempts whose credentials are
  looked at at all, between two points in time, is at most the allowed number of attempts plus one for each full lockout
  period in between, whatever other clients do meanwhile.\<close>
theorem lockout_bounds_guesses:
  assumes "0 < max_attempts env" and "0 < lockout_minutes env" and "t0 \<le> e"
    and "find_row at_ip ip (attempts_t db) = None"
    and "run_ok (post_step env checkpw totp ip) (refused env checkpw totp ip) calls db" and "timely env t0 e calls"
  shows "int (run_count (post_step env checkpw totp ip) (evaluated env ip) calls db)
    \<le> max_attempts env + (e - t0) div (lockout_minutes env * MINUTE)"
proof -
  have "0 < lockout_minutes env * MINUTE" using assms(2) by (simp add: MINUTE_def SECOND_def)
  moreover have "failures ip db = 0" using assms(4) by (simp add: failures_def)
  ultimately show ?thesis using guesses_open [OF _ assms(3,5,6)] assms(1) by simp
qed

section \<open>Who gets in\<close>

definition users_ok :: "auth_db \<Rightarrow> bool" where
  "users_ok db = (auto_ok (users_t db) \<and> distinct (map us_username (contents (users_t db))))"

lemma get_user_Some: "get_user n db = Some (i, u) \<Longrightarrow> (i, u) \<in> set (rows (users_t db)) \<and> us_username u = n \<and> \<not> us_disabled u"
  unfolding get_user_def by (auto simp: find_Some_iff dest: nth_mem split: if_splits)

lemma get_user_member:
  assumes "users_ok db" "(i, u) \<in> set (rows (users_t db))" "\<not> us_disabled u" "us_username u \<noteq> []"
  shows "get_user (us_username u) db = Some (i, u)"
proof -
  have "get_user (us_username u) db \<noteq> None" using assms by (auto simp: get_user_def find_None_iff)
  then obtain j v where v: "get_user (us_username u) db = Some (j, v)" by auto
  have "inj_on (us_username \<circ> snd) (set (rows (users_t db)))"
    using assms(1) by (simp add: users_ok_def contents_def distinct_map)
  from inj_onD [OF this, of "(j, v)" "(i, u)"] have "(j, v) = (i, u)" using get_user_Some [OF v] assms(2) by simp
  then show ?thesis using v by simp
qed

text \<open>(C12) A password login succeeds exactly when the address is allowed and not locked, and there is an enabled user of
  that name whose password and one-time code both check; the session then carries the id and the role of that user. Any
  attempt that is looked at and fails is counted and entered in the login audit.\<close>
theorem login_succeeds_exactly:
  assumes "users_ok db" and "login_post env checkpw totp now ip form nx empty_session db = (db', s', ev, ans)"
  shows "(ws_logged_in s' \<longleftrightarrow>
      ip_allowed env ip \<and> \<not> fst (is_locked now ip db) \<and> lf_password form \<noteq> []
      \<and> (\<exists>i u. (i, u) \<in> set (rows (users_t db)) \<and> us_username u = py_strip (lf_username form) \<and> us_username u \<noteq> []
           \<and> \<not> us_disabled u \<and> checkpw (lf_password form) (us_password_hash u) = Some True
           \<and> verify_totp_for totp u (py_strip (lf_totp form)) \<and> ws_user_id s' = Some i \<and> ws_role s' = Some (us_role u)))
    \<and> (\<not> ws_logged_in s' \<longrightarrow> ip_allowed env ip \<longrightarrow> \<not> fst (is_locked now ip db) \<longrightarrow>
        failures ip db' = failures ip db + 1 \<and> length (contents (login_audit_t db')) = length (contents (login_audit_t db)) + 1)"
proof (cases "ip_allowed env ip \<and> \<not> fst (is_locked now ip db)")
  case False
  then have "s' = empty_session" using assms(2) by (auto simp: login_post_def split: if_splits)
  then show ?thesis using False by (auto simp: empty_session_def)
next
  case True
  define n where "n = py_strip (lf_username form)"
  define good where "good = (case verify_password checkpw n (lf_password form) db of None \<Rightarrow> False
      | Some (i, u) \<Rightarrow> verify_totp_for totp u (py_strip (lf_totp form)))"
  have iff: "good \<longleftrightarrow> lf_password form \<noteq> [] \<and> (\<exists>i u. (i, u) \<in> set (rows (users_t db)) \<and> us_username u = n \<and> us_username u \<noteq> []
      \<and> \<not> us_disabled u \<and> checkpw (lf_password form) (us_password_hash u) = Some True
      \<and> verify_totp_for totp u (py_strip (lf_totp form)))"
    using get_user_Some [of n db] get_user_member [OF assms(1)]
    by (fastforce simp: good_def verify_password_def split: option.splits if_splits)
  show ?thesis
  proof (cases good)
    case g: True
    then obtain i u where iu: "verify_password checkpw n (lf_password form) db = Some (i, u)"
      "verify_totp_for totp u (py_strip (lf_totp form))" by (auto simp: good_def split: option.splits)
    then have s': "s' = touch_session now (empty_session\<lparr>ws_logged_in := True, ws_username := n, ws_user_id := Some i,
        ws_role := Some (us_role u)\<rparr>)"
      using assms(2) True by (simp add: login_post_def Let_def n_def [symmetric])
    have u: "get_user n db = Some (i, u)" "n \<noteq> []" "lf_password form \<noteq> []" "checkpw (lf_password form) (us_password_hash u) = Some True"
      using iu(1) by (auto simp: verify_password_def split: if_splits option.splits)
    show ?thesis using True iu(2) u get_user_Some [OF u(1)] unfolding s' n_def [symmetric]
      by (auto simp: touch_session_def)
  next
    case False
    obtain reason where fail: "db' = record_audit now ip n False reason (fst (record_failure env now ip db)) \<and> s' = empty_session"
      using assms(2) True False
      by (auto simp: login_post_def Let_def n_def [symmetric] good_def case_prod_beta split: option.splits if_splits)
    have "login_audit_t (fst (record_failure env now ip db)) = login_audit_t db"
      by (simp add: record_failure_def Let_def)
    moreover have "failures ip (fst (record_failure env now ip db)) = failures ip db + 1"
      by (simp add: failures_def [of ip "fst (record_failure env now ip db)"] record_failure_row)
    ultimately have "failures ip db' = failures ip db + 1"
      "length (contents (login_audit_t db')) = length (contents (login_audit_t db)) + 1"
      using fail by (auto simp: failures_def record_audit_def contents_insert)
    moreover have "\<not> ws_logged_in s'" using fail by (simp add: empty_session_def)
    ultimately show ?thesis using False iff True by (auto simp: n_def)
  qed
qed

section \<open>What a session may do\<close>

lemma get_user_by_id_iff:
  assumes "auto_ok (users_t db)" and "i \<noteq> 0"
  shows "get_user_by_id i db = Some (j, u) \<longleftrightarrow> j = i \<and> (i, u) \<in> set (rows (users_t db)) \<and> \<not> us_disabled u"
proof
  assume "get_user_by_id i db = Some (j, u)"
  then show "j = i \<and> (i, u) \<in> set (rows (users_t db)) \<and> \<not> us_disabled u"
    unfolding get_user_by_id_def using assms(2) by (auto simp: find_Some_iff dest: nth_mem)
next
  assume u: "j = i \<and> (i, u) \<in> set (rows (users_t db)) \<and> \<not> us_disabled u"
  then have "get_user_by_id i db \<noteq> None" using assms(2) by (auto simp: get_user_by_id_def find_None_iff)
  then obtain q where q: "get_user_by_id i db = Some q" by blast
  then have "q \<in> set (rows (users_t db))" "fst q = i"
    unfolding get_user_by_id_def using assms(2) by (auto simp: find_Some_iff dest: nth_mem)
  moreover have "inj_on fst (set (rows (users_t db)))" using assms(1) by (simp add: auto_ok_def distinct_map)
  ultimately have "q = (i, u)" using u inj_onD [of fst "set (rows (users_t db))" q "(i, u)"] by simp
  then show "get_user_by_id i db = Some (j, u)" using q u by simp
qed

text \<open>A request through the two guards of a route, after the session was checked against the table.\<close>
definition guarded_request :: "environment \<Rightarrow> (string \<Rightarrow> string option) \<Rightarrow> instant \<Rightarrow> string \<Rightarrow> string \<Rightarrow> auth_db \<Rightarrow> web_session \<Rightarrow> answer" where
  "guarded_request env google_role now ip required db s =
     (case login_required env now ip (revalidate_session google_role False True db s) of
        (s, Serve) \<Rightarrow> role_required required s
      | (_, a) \<Rightarrow> a)"


section \<open>The first user\<close>

datatype user_op =
    U_seed environment instant
  | U_add string string instant string string string
  | U_disable nat bool
  | U_role nat string
  | U_delete nat
  | U_login instant nat

fun run_user_op :: "user_op \<Rightarrow> auth_db \<Rightarrow> auth_db" where
  "run_user_op (U_seed env now) db = seed_env_user env now db"
| "run_user_op (U_add h secret now name pw role) db = fst (add_user h secret now name pw role db)"
| "run_user_op (U_disable i b) db = fst (set_user_disabled i b db)"
| "run_user_op (U_role i r) db = fst (set_user_role i r db)"
| "run_user_op (U_delete i) db = fst (delete_user i db)"
| "run_user_op (U_login now i) db = record_user_login now i db"

definition first_admin :: "auth_db \<Rightarrow> bool" where
  "first_admin db = (\<exists>u. (1, u) \<in> set (rows (users_t db)) \<and> us_role u = ''admin'' \<and> \<not> us_disabled u)"

lemma first_admin_update:
  assumes "first_admin db" and "\<And>u. P 1 u \<Longrightarrow> us_role u = ''admin'' \<Longrightarrow> \<not> us_disabled u \<Longrightarrow> us_role (f u) = ''admin'' \<and> \<not> us_disabled (f u)"
  shows "first_admin (db\<lparr>users_t := update_rows P f (users_t db)\<rparr>)"
proof -
  obtain u where u: "(1, u) \<in> set (rows (users_t db))" "us_role u = ''admin''" "\<not> us_disabled u"
    using assms(1) by (auto simp: first_admin_def)
  then have "(1, if P 1 u then f u else u) \<in> set (rows (update_rows P f (users_t db)))" by (force simp: update_rows_def)
  then show ?thesis unfolding first_admin_def using u assms(2) [of u]
    by (intro exI [of _ "if P 1 u then f u else u"]) auto
qed

lemma first_admin_insert: "first_admin db \<Longrightarrow> first_admin (db\<lparr>users_t := fst (insert_row r (users_t db))\<rparr>)"
  by (auto simp: first_admin_def insert_row_def Let_def)

lemma first_admin_step: "first_admin db \<Longrightarrow> first_admin (run_user_op op db)"
proof (cases op)
  case (U_seed env now)
  assume "first_admin db"
  then show ?thesis
    by (auto simp: U_seed seed_env_user_def Let_def intro: first_admin_update first_admin_insert split: option.splits)
next
  case (U_add h secret now name pw role)
  assume "first_admin db"
  then show ?thesis by (auto simp: U_add add_user_def Let_def case_prod_beta intro: first_admin_insert)
next
  case (U_disable i b)
  assume "first_admin db"
  then show ?thesis by (auto simp: U_disable set_user_disabled_def intro: first_admin_update)
next
  case (U_role i r)
  assume "first_admin db"
  then show ?thesis by (auto simp: U_role set_user_role_def intro: first_admin_update)
next
  case (U_delete i)
  assume "first_admin db"
  then show ?thesis by (auto simp: U_delete delete_user_def first_admin_def delete_rows_def)
next
  case (U_login now i)
  assume "first_admin db"
  then show ?thesis by (auto simp: U_login record_user_login_def intro: first_admin_update)
qed

lemma users_ok_step: "users_ok db \<Longrightarrow> users_ok (run_user_op op db)"
proof (cases op)
  case (U_seed env now)
  assume ok: "users_ok db"
  have fresh: "us_username r \<notin> us_username ` set (contents (users_t db))" if "user_with_name (us_username r) db = None" for r :: user_row
    using that by (force simp: user_with_name_def find_None_iff contents_def)
  then have "user_with_name n db = None \<Longrightarrow> n \<notin> us_username ` set (contents (users_t db))" for n
    using fresh [of "\<lparr>us_username = n, us_password_hash = [], us_totp_secret = [], us_role = [], us_created_at = 0,
        us_last_login_at = None, us_disabled = False\<rparr>"] by simp
  then show ?thesis using ok
    by (auto simp: U_seed seed_env_user_def Let_def users_ok_def map_contents_update contents_insert split: option.splits)
next
  case (U_add h secret now name pw role)
  assume "users_ok db"
  then show ?thesis by (auto simp: U_add add_user_def Let_def case_prod_beta users_ok_def contents_insert)
next
  case (U_delete i)
  assume ok: "users_ok db"
  have "contents (delete_rows (\<lambda>j _. j = i) (users_t db)) = map snd (filter (\<lambda>p. fst p \<noteq> i) (rows (users_t db)))"
    by (simp add: contents_def delete_rows_def case_prod_unfold)
  moreover have "distinct (map (us_username \<circ> snd) (filter (\<lambda>p. fst p \<noteq> i) (rows (users_t db))))"
    using ok by (simp add: users_ok_def contents_def distinct_map_filter)
  ultimately show ?thesis using ok by (auto simp: U_delete delete_user_def users_ok_def)
qed (auto simp: set_user_disabled_def set_user_role_def record_user_login_def users_ok_def map_contents_update)


section \<open>Redirects stay on the site\<close>

text \<open>A path of this site: one slash, then neither a slash nor a backslash nor an encoded one, and nothing that names
  another host or splits a header.\<close>
definition local_path :: "string \<Rightarrow> bool" where
  "local_path t =
     (case t of
        [] \<Rightarrow> False
      | c # rest \<Rightarrow> c = CHR ''/'' \<and> (rest = [] \<or> hd rest \<notin> {CHR ''/'', CHR 0x5C})
          \<and> take 3 rest \<notin> {''%5C'', ''%5c''}
          \<and> \<not> py_contains t ''://'' \<and> (\<forall>c \<in> set t. code_point c \<notin> {13, 10, 9, 0}))"

lemma urlparse_path:
  assumes "py_startswith t ''/''" "\<not> py_startswith t ''//''" "\<forall>c \<in> set t. code_point c \<notin> {13, 10, 9, 0}"
  shows "urlparse t = Inr ([], [])"
proof -
  obtain rest where t: "t = CHR ''/'' # rest" using assms(1) by (cases t) (auto simp: py_startswith_def)
  have cp: "code_point (CHR ''/'') = 47" "\<not> ascii_alpha (CHR ''/'')" by code_simp+
  have d: "dropWhile (\<lambda>c. code_point c \<le> 32) t = t" using cp by (simp add: t)
  have f: "filter (\<lambda>c. code_point c \<notin> {9, 10, 13}) t = t" using assms(3) by (intro filter_True) auto
  have h: "takeWhile (\<lambda>c. c \<noteq> CHR '':'') t = CHR ''/'' # takeWhile (\<lambda>c. c \<noteq> CHR '':'') rest" by (simp add: t)
  show ?thesis unfolding urlparse_def Let_def d f h using assms(2) cp by simp
qed

text \<open>(C15) A login never sends the browser elsewhere: whatever the request's target is, the redirect goes to the fallback
  or to a path of this site; a target that is such a path is honoured as it stands (up to surrounding blanks), and the
  only other outcome, for a malformed target that is no path, is an error.\<close>
theorem safe_next_stays_local:
  "(\<forall>u. safe_next target fallback = Inr u \<longrightarrow> u = fallback \<or> local_path u)
   \<and> (\<forall>t. target = Some t \<longrightarrow> local_path (py_strip t) \<longrightarrow> safe_next target fallback = Inr (py_strip t))
   \<and> (\<forall>t e. safe_next target fallback = Inl e \<longrightarrow> target = Some t \<longrightarrow> \<not> py_startswith (py_strip t) ''/'')"
proof (intro conjI allI impI)
  fix u assume u: "safe_next target fallback = Inr u"
  then show "u = fallback \<or> local_path u"
    by (cases u) (auto simp: safe_next_def Let_def local_path_def py_startswith_def list_ex_iff neq_Nil_conv numeral_eq_Suc
        split: if_splits sum.splits prod.splits list.splits)
next
  fix t assume t: "target = Some t" "local_path (py_strip t)"
  define s where "s = py_strip t"
  obtain rest where s: "s = CHR ''/'' # rest" "rest = [] \<or> hd rest \<notin> {CHR ''/'', CHR 0x5C}" "take 3 rest \<notin> {''%5C'', ''%5c''}"
    "\<not> py_contains s ''://''" "\<forall>c \<in> set s. code_point c \<notin> {13, 10, 9, 0}"
    using t(2) by (cases s) (auto simp: local_path_def s_def)
  have two: "take (Suc 0) rest \<noteq> ''/''" "take (Suc 0) rest \<noteq> [CHR 0x5C]" using s(2) by (cases rest; auto)+
  have "urlparse s = Inr ([], [])" using s two by (intro urlparse_path) (auto simp: py_startswith_def)
  moreover have "t \<noteq> []" using s(1) by (auto simp: s_def py_strip_def py_lstrip_def py_rstrip_def)
  ultimately show "safe_next target fallback = Inr (py_strip t)"
    unfolding t(1) safe_next_def option.sel s_def [symmetric] Let_def using s two
    by (auto simp: str_truthy_def list_ex_iff py_startswith_def numeral_eq_Suc)
next
  fix t e assume e: "safe_next target fallback = Inl e" "target = Some t"
  show "\<not> py_startswith (py_strip t) ''/''"
  proof
    assume p: "py_startswith (py_strip t) ''/''"
    with e have "\<not> py_startswith (py_strip t) ''//''" "\<forall>c \<in> set (py_strip t). code_point c \<notin> {13, 10, 9, 0}"
      by (auto simp: safe_next_def Let_def list_ex_iff split: if_splits)
    from urlparse_path [OF p this] show False using e by (auto simp: safe_next_def Let_def split: if_splits)
  qed
qed

section \<open>Examples\<close>

definition no_env :: environment where "no_env name = None"

definition plain_check :: check where "plain_check a b = Some (a = b)"

definition boss :: user_row where
  "boss = \<lparr>us_username = ''boss'', us_password_hash = ''hunter22'', us_totp_secret = ''JBSW'', us_role = ''admin'',
     us_created_at = 0, us_last_login_at = None, us_disabled = False\<rparr>"

definition eve :: user_row where
  "eve = boss\<lparr>us_username := ''eve'', us_role := ''operator''\<rparr>"

definition office :: auth_db where
  "office = \<lparr>attempts_t = [], login_audit_t = empty_table, users_t = \<lparr>rows = [(1, boss), (2, eve)], seq = 2\<rparr>\<rparr>"

definition guess :: "instant \<Rightarrow> string \<Rightarrow> post_call" where
  "guess t pw = (id, t, \<lparr>lf_username = ''boss'', lf_password = pw, lf_totp = ''000000''\<rparr>)"

definition eve_session :: web_session where
  "eve_session = touch_session 0 (empty_session\<lparr>ws_logged_in := True, ws_user_id := Some 2, ws_role := Some ''operator''\<rparr>)"

text \<open>The protection goes by the row number, not by the configured name: if the configured administrator is not the first
  row, it can be deleted.\<close>
definition renamed_env :: environment where
  "renamed_env name = (if name = ''APP_USERNAME'' then Some ''root'' else if name = ''APP_PASSWORD_HASH'' then Some ''h''
     else if name = ''TOTP_SECRET'' then Some ''JBSW'' else None)"

lemma env_admin_unprotected:
  "map (us_username \<circ> snd) (rows (users_t (seed_env_user renamed_env 0 office))) = [''boss'', ''eve'', ''root'']
   \<and> map (us_username \<circ> snd) (rows (users_t (fst (delete_user 3 (seed_env_user renamed_env 0 office))))) = [''boss'', ''eve'']
   \<and> snd (delete_user 3 (seed_env_user renamed_env 0 office)) = None"
  by code_simp

lemma no_env_settings: "max_attempts no_env = 5" "lockout_minutes no_env = 15" "ip_allowed no_env ''10.0.0.9''"
  by code_simp+

theorem lockout_bounds_guesses_witness:
  "int (run_count (post_step no_env plain_check plain_check ''10.0.0.9'') (evaluated no_env ''10.0.0.9'')
     [guess 0 ''a'', guess 0 ''b''] office) \<le> 5 + (MINUTE - 0) div (15 * MINUTE)"
proof -
  have m: "0 < max_attempts no_env" "0 < lockout_minutes no_env" by (simp_all add: no_env_settings)
  have f: "find_row at_ip ''10.0.0.9'' (attempts_t office) = None" by (simp add: office_def find_row_def)
  have t: "timely no_env 0 MINUTE [guess 0 ''a'', guess 0 ''b'']" by code_simp
  have r: "run_ok (post_step no_env plain_check plain_check ''10.0.0.9'') (refused no_env plain_check plain_check ''10.0.0.9'')
      [guess 0 ''a'', guess 0 ''b''] office" by code_simp
  have "(0::instant) \<le> MINUTE" by (simp add: MINUTE_def SECOND_def)
  from lockout_bounds_guesses [OF m this f r t] show ?thesis unfolding no_env_settings .
qed

lemma office_ok: "users_ok office" "first_admin office" "auto_ok (users_t office)"
proof -
  show "users_ok office" "auto_ok (users_t office)" by code_simp+
  show "first_admin office" by (simp add: first_admin_def office_def boss_def)
qed

definition good_form :: login_form where
  "good_form = \<lparr>lf_username = '' eve '', lf_password = ''hunter22'', lf_totp = ''JBSW''\<rparr>"

theorem login_succeeds_exactly_witness:
  "ws_logged_in (fst (snd (login_post no_env plain_check plain_check 0 ''10.0.0.9'' good_form None empty_session office)))
   \<and> ip_allowed no_env ''10.0.0.9'' \<and> \<not> fst (is_locked 0 ''10.0.0.9'' office)"
proof -
  let ?r = "login_post no_env plain_check plain_check 0 ''10.0.0.9'' good_form None empty_session office"
  have r: "?r = (fst ?r, fst (snd ?r), fst (snd (snd ?r)), snd (snd (snd ?r)))" by simp
  have l: "ws_logged_in (fst (snd ?r))" by code_simp
  from login_succeeds_exactly [OF office_ok(1) r] l show ?thesis by blast
qed



theorem safe_next_stays_local_witness:
  "safe_next (Some ''//evil.example/'') ''/'' = Inr ''/'' \<and> (''/'' = ''/'' \<or> local_path ''/'')
   \<and> safe_next (Some ''/decisions?page=2'') ''/'' = Inr ''/decisions?page=2''"
proof -
  have a: "safe_next (Some ''//evil.example/'') ''/'' = Inr ''/''" by code_simp
  have b: "local_path (py_strip ''/decisions?page=2'')" "py_strip ''/decisions?page=2'' = ''/decisions?page=2''" by code_simp+
  show ?thesis using a safe_next_stays_local [of "Some ''/decisions?page=2''" "''/''"] b by auto
qed

end
