(* ===== verification/Sso.thy ===== *)
theory Sso
  imports Auth
begin

text \<open>
  Sign-in through an identity provider (\<open>google_auth.py\<close>, \<open>oidc.py\<close>, \<open>saml.py\<close> and their callbacks in \<open>app.py\<close>): the role
  mappings, the provisioning of the user row and the callback routes. The libraries that talk to the provider are outside: what
  they return, claims or attributes or an error, is an argument, and so are the password hash that is generated for a new
  row and whether the client or library is there. A claim that holds one string instead of a list is a list of one. Flash messages are left out.
\<close>

section \<open>Google: the allowlist of accounts\<close>

definition ROLE_ENV :: "(string \<times> string) list" where
  "ROLE_ENV = [(''admin'', ''GOOGLE_ADMIN_EMAILS''), (''operator'', ''GOOGLE_OPERATOR_EMAILS''), (''viewer'', ''GOOGLE_VIEWER_EMAILS'')]"

definition google_emails :: "environment \<Rightarrow> string \<Rightarrow> string list" where
  "google_emails env name = map (\<lambda>e. py_lower (py_strip e)) (filter (\<lambda>e. py_strip e \<noteq> []) (py_split (CHR '','') (clean_env env name)))"

record google_config =
  gg_client_id :: string
  gg_client_secret :: string
  gg_emails :: "(string \<times> string list) list"

definition google_config_of :: "environment \<Rightarrow> google_config" where
  "google_config_of env =
     \<lparr>gg_client_id = clean_env env ''GOOGLE_CLIENT_ID'',
      gg_client_secret = py_strip (case env ''GOOGLE_CLIENT_SECRET'' of None \<Rightarrow> [] | Some s \<Rightarrow> s),
      gg_emails = map (\<lambda>(role, name). (role, google_emails env name)) ROLE_ENV\<rparr>"

definition google_configured :: "environment \<Rightarrow> bool" where
  "google_configured env =
     (let c = google_config_of env
      in gg_client_id c \<noteq> [] \<and> gg_client_secret c \<noteq> [] \<and> list_ex (\<lambda>(_, es). es \<noteq> []) (gg_emails c))"

definition google_problems :: "environment \<Rightarrow> string list" where
  "google_problems env =
     (let c = google_config_of env; any_emails = list_ex (\<lambda>(_, es). es \<noteq> []) (gg_emails c)
      in if gg_client_id c = [] \<and> gg_client_secret c = [] \<and> \<not> any_emails then []
         else (if gg_client_id c = [] then [''GOOGLE_CLIENT_ID is unset''] else [])
            @ (if gg_client_secret c = [] then [''GOOGLE_CLIENT_SECRET is unset''] else [])
            @ (if any_emails then [] else [''GOOGLE_ADMIN_EMAILS / GOOGLE_OPERATOR_EMAILS / GOOGLE_VIEWER_EMAILS are all empty, so nobody could sign in'']))"

text \<open>\<open>role_for\<close>: the first role, in the order of \<open>ROLE_ENV\<close>, whose list holds the email.\<close>
definition google_role_for :: "environment \<Rightarrow> string \<Rightarrow> string option" where
  "google_role_for env email =
     (if email = [] then None
      else map_option fst (List.find (\<lambda>(role, es). py_lower (py_strip email) \<in> set es) (gg_emails (google_config_of env))))"

record google_claims =
  gc_email :: "string option"
  gc_email_verified :: bool
  gc_sub :: string

datatype google_exchange = Mismatching_state | Exchange_failed string | Token "google_claims option"

text \<open>\<open>complete\<close>: the code and the email of a \<open>GoogleSignInError\<close>, or who signed in as what; \<open>gc_email_verified\<close> tells
  whether the claim is exactly \<open>True\<close>.\<close>
definition google_complete :: "environment \<Rightarrow> string option \<Rightarrow> google_exchange \<Rightarrow> (string \<times> string) + (string \<times> string \<times> string)" where
  "google_complete env arg_error exchange =
     (if str_truthy arg_error then (if arg_error = Some ''access_denied'' then Inl (''cancelled'', []) else Inl (''failed'', []))
      else case exchange of
             Mismatching_state \<Rightarrow> Inl (''expired'', [])
           | Exchange_failed _ \<Rightarrow> Inl (''failed'', [])
           | Token None \<Rightarrow> Inl (''failed'', [])
           | Token (Some claims) \<Rightarrow>
               let email = (case gc_email claims of None \<Rightarrow> [] | Some e \<Rightarrow> py_lower (py_strip e))
               in if email = [] \<or> \<not> gc_email_verified claims then Inl (''unverified'', email)
                  else case google_role_for env email of
                         None \<Rightarrow> Inl (''not_allowed'', email)
                       | Some role \<Rightarrow> Inr (email, role, gc_sub claims))"

section \<open>The user row of a signed-in account\<close>

text \<open>\<open>upsert_sso_user\<close>; nothing is returned when the user is disabled, which the code raises as \<open>PermissionError\<close>.\<close>
definition upsert_sso_user :: "string \<Rightarrow> instant \<Rightarrow> string \<Rightarrow> string \<Rightarrow> auth_db \<Rightarrow> auth_db \<times> nat option" where
  "upsert_sso_user pw_hash now email role db =
     (case user_with_name email db of
        Some (i, u) \<Rightarrow>
          if us_disabled u then (db, None)
          else (db\<lparr>users_t := update_rows (\<lambda>j _. j = i) (\<lambda>u. u\<lparr>us_role := role, us_last_login_at := Some now\<rparr>) (users_t db)\<rparr>, Some i)
      | None \<Rightarrow>
          (case insert_row \<lparr>us_username = email, us_password_hash = pw_hash, us_totp_secret = replicate 32 (CHR ''X''), us_role = role,
                            us_created_at = now, us_last_login_at = Some now, us_disabled = False\<rparr> (users_t db) of
             (t, i) \<Rightarrow> (db\<lparr>users_t := t\<rparr>, Some i)))"

text \<open>The session a callback starts.\<close>
definition sso_session :: "instant \<Rightarrow> string \<Rightarrow> nat \<Rightarrow> string \<Rightarrow> string \<Rightarrow> web_session" where
  "sso_session now email uid role source =
     touch_session now (empty_session\<lparr>ws_logged_in := True, ws_username := email, ws_user_id := Some uid, ws_role := Some role,
       ws_auth_source := source\<rparr>)"

section \<open>The Google callback\<close>

datatype sso_answer =
    Sso_blocked
  | Sso_unavailable
  | Sso_login "string option"
  | Sso_redirect string
  | Sso_test_result
  | Sso_crash exn

definition google_gate :: "environment \<Rightarrow> instant \<Rightarrow> string \<Rightarrow> bool \<Rightarrow> auth_db \<Rightarrow> sso_answer option" where
  "google_gate env now ip client db =
     (if \<not> ip_allowed env ip then Some Sso_blocked
      else if fst (is_locked now ip db) then Some (Sso_login None)
      else if \<not> client then Some (Sso_login (Some ''not_configured''))
      else None)"

definition google_failed :: "environment \<Rightarrow> instant \<Rightarrow> string \<Rightarrow> string \<times> string \<Rightarrow> auth_db \<Rightarrow> auth_db \<times> event list \<times> sso_answer" where
  "google_failed env now ip e db =
     (case e of (code, email) \<Rightarrow>
        let db = record_audit now ip (if email = [] then ''(google)'' else email) False (''google: '' @ code) db
        in if code \<in> {''not_allowed'', ''unverified'', ''disabled''}
           then (case record_failure env now ip db of
                   (db, ev) \<Rightarrow> (db, ev @ [Ship ''auth.sso_denied'' [(''ip'', Some ip), (''email'', Some email), (''method'', Some ''google''), (''reason'', Some code)]],
                                Sso_login (Some code)))
           else (db, [], Sso_login (Some code)))"

text \<open>\<open>google_callback\<close>; \<open>google_next\<close> is the target kept in the session across the round trip.\<close>
definition google_callback :: "environment \<Rightarrow> instant \<Rightarrow> string \<Rightarrow> bool \<Rightarrow> string \<Rightarrow> string option \<Rightarrow> google_exchange \<Rightarrow> string
    \<Rightarrow> web_session \<Rightarrow> auth_db \<Rightarrow> auth_db \<times> web_session \<times> event list \<times> sso_answer" where
  "google_callback env now ip client pw_hash arg_error exchange google_next s db =
     (case google_gate env now ip client db of
        Some a \<Rightarrow> (db, s, [], a)
      | None \<Rightarrow>
          (case google_complete env arg_error exchange of
             Inl e \<Rightarrow> (case google_failed env now ip e db of (db, ev, a) \<Rightarrow> (db, s, ev, a))
           | Inr (email, role, _) \<Rightarrow>
               (case upsert_sso_user pw_hash now email role db of
                  (db, None) \<Rightarrow> (case google_failed env now ip (''disabled'', email) db of (db, ev, a) \<Rightarrow> (db, s, ev, a))
                | (db, Some uid) \<Rightarrow>
                    (record_audit now ip email True ''google'' (clear_failures ip db),
                     sso_session now email uid role ''google'',
                     [Ship ''auth.sso_success'' [(''ip'', Some ip), (''actor'', Some email), (''role'', Some role), (''method'', Some ''google'')]],
                     case safe_next (Some google_next) ''/'' of Inl e \<Rightarrow> Sso_crash e | Inr url \<Rightarrow> Sso_redirect url))))"

section \<open>OpenID Connect and SAML: groups and domains\<close>

definition sso_split :: "string \<Rightarrow> string list" where
  "sso_split s = filter (\<lambda>x. x \<noteq> []) (map py_strip (py_split (CHR '','') s))"

text \<open>The tail both role mappings share; \<open>pre\<close> is the prefix of the settings.\<close>
definition group_role :: "environment \<Rightarrow> string \<Rightarrow> string list \<Rightarrow> string option" where
  "group_role env pre groups =
     (let granted = (\<lambda>name. list_ex (\<lambda>g. g \<in> set (sso_split (clean_env env (pre @ name)))) groups);
          dflt = clean_env env (pre @ ''_DEFAULT_ROLE'')
      in if granted ''_GROUPS_ADMIN'' then Some ''admin''
         else if granted ''_GROUPS_OPERATOR'' then Some ''operator''
         else if granted ''_GROUPS_VIEWER'' then Some ''viewer''
         else if dflt \<in> {''admin'', ''operator'', ''viewer''} then Some dflt
         else None)"

record oidc_claims =
  oc_email :: string
  oc_email_verified :: "bool option"
  oc_claim :: "string \<Rightarrow> string list"

definition oidc_role_for_claims :: "environment \<Rightarrow> oidc_claims \<Rightarrow> string option" where
  "oidc_role_for_claims env claims =
     (let email = py_lower (oc_email claims);
          domains = sso_split (clean_env env ''OIDC_ALLOWED_DOMAINS'')
      in if oc_email_verified claims = Some False then None
         else if domains \<noteq> [] \<and> \<not> list_ex (\<lambda>d. py_endswith email (CHR ''@'' # d)) domains then None
         else group_role env ''OIDC'' (oc_claim claims (str_or (Some (clean_env env ''OIDC_GROUPS_CLAIM'')) ''groups'')))"

text \<open>\<open>sso_callback\<close>; the token exchange and the fetch of the claims end in claims or in nothing.\<close>
definition oidc_callback :: "environment \<Rightarrow> instant \<Rightarrow> string \<Rightarrow> bool \<Rightarrow> string \<Rightarrow> bool \<Rightarrow> oidc_claims option
    \<Rightarrow> web_session \<Rightarrow> auth_db \<Rightarrow> auth_db \<times> web_session \<times> event list \<times> sso_answer" where
  "oidc_callback env now ip client pw_hash test_mode exchange s db =
     (if \<not> client then (db, s, [], Sso_unavailable)
      else let refused = (if test_mode then Sso_test_result else Sso_login None) in
      case exchange of
        None \<Rightarrow> (record_audit now ip ''(sso)'' False ''OIDC token exchange failed'' db, s, [], refused)
      | Some claims \<Rightarrow>
          let email = py_strip (py_lower (oc_email claims))
          in if email = [] then (record_audit now ip ''(sso)'' False ''OIDC missing email claim'' db, s, [], refused)
             else if test_mode then (db, s, [], Sso_test_result)
             else (case oidc_role_for_claims env claims of
                     None \<Rightarrow> (record_audit now ip email False ''OIDC role mapping denied'' db, s,
                              [Ship ''auth.sso_denied'' [(''ip'', Some ip), (''email'', Some email), (''reason'', Some ''role-deny'')]], Sso_login None)
                   | Some role \<Rightarrow>
                       (case upsert_sso_user pw_hash now email role db of
                          (db, None) \<Rightarrow> (record_audit now ip email False ''OIDC user disabled'' db, s, [], Sso_login None)
                        | (db, Some uid) \<Rightarrow>
                            (record_audit now ip email True ''sso'' db, sso_session now email uid role ''sso'',
                             [Ship ''auth.sso_success'' [(''ip'', Some ip), (''actor'', Some email), (''role'', Some role)]], Sso_redirect ''/''))))"

type_synonym saml_attributes = "(string \<times> string list) list"

definition attr_of :: "saml_attributes \<Rightarrow> string \<Rightarrow> string list" where
  "attr_of attrs k = (case map_of attrs k of Some vs \<Rightarrow> vs | None \<Rightarrow> [])"

definition SAML_EMAIL :: string where
  "SAML_EMAIL = ''http://schemas.xmlsoap.org/ws/2005/05/identity/claims/emailaddress''"

definition email_from_attributes :: "environment \<Rightarrow> saml_attributes \<Rightarrow> string" where
  "email_from_attributes env attrs =
     (let named = attr_of attrs (str_or (Some (clean_env env ''SAML_EMAIL_ATTR'')) SAML_EMAIL);
          vs = (if named \<noteq> [] then named else attr_of attrs ''email'')
      in py_strip (py_lower (case vs of [] \<Rightarrow> [] | v # _ \<Rightarrow> v)))"

definition saml_role_for_attributes :: "environment \<Rightarrow> saml_attributes \<Rightarrow> string option" where
  "saml_role_for_attributes env attrs =
     (let email = email_from_attributes env attrs;
          allowed = sso_split (clean_env env ''SAML_ALLOWED_DOMAINS'');
          domain = (if CHR ''@'' \<in> set email then tl (dropWhile (\<lambda>c. c \<noteq> CHR ''@'') email) else [])
      in if email = [] then None
         else if allowed \<noteq> [] \<and> domain \<notin> set allowed then None
         else group_role env ''SAML'' (attr_of attrs (str_or (Some (clean_env env ''SAML_GROUPS_ATTR'')) ''groups'')))"

text \<open>What \<open>process_response\<close> and the checks after it give: an exception, validation errors, a response that is not authenticated,
  or the attributes and the name id.\<close>
datatype saml_outcome = Saml_raises | Saml_errors "string list" | Saml_unauthenticated | Saml_response saml_attributes string

definition with_nameid :: "saml_attributes \<Rightarrow> string \<Rightarrow> saml_attributes" where
  "with_nameid attrs nameid = (if list_ex (\<lambda>(k, _). py_lower k = ''nameid'') attrs then attrs else attrs @ [(''nameid'', [nameid])])"

definition saml_acs :: "environment \<Rightarrow> instant \<Rightarrow> string \<Rightarrow> bool \<Rightarrow> string \<Rightarrow> saml_outcome
    \<Rightarrow> web_session \<Rightarrow> auth_db \<Rightarrow> auth_db \<times> web_session \<times> event list \<times> sso_answer" where
  "saml_acs env now ip available pw_hash outcome s db =
     (if \<not> available then (db, s, [], Sso_unavailable)
      else case outcome of
        Saml_raises \<Rightarrow> (record_audit now ip ''(saml)'' False ''SAML response processing failed'' db, s, [], Sso_login None)
      | Saml_errors es \<Rightarrow> (record_audit now ip ''(saml)'' False (take 200 (''SAML validation: '' @ py_join '', '' es)) db, s, [], Sso_login None)
      | Saml_unauthenticated \<Rightarrow> (record_audit now ip ''(saml)'' False ''SAML response not authenticated'' db, s, [], Sso_login None)
      | Saml_response attributes nameid \<Rightarrow>
          let attrs = with_nameid attributes nameid;
              from_attrs = email_from_attributes env attrs;
              email = (if from_attrs \<noteq> [] then from_attrs
                       else if CHR ''@'' \<in> set nameid then py_strip (py_lower nameid) else [])
          in if email = [] then (record_audit now ip ''(saml)'' False ''SAML missing email attribute / NameID'' db, s, [], Sso_login None)
             else (case saml_role_for_attributes env attrs of
                     None \<Rightarrow> (record_audit now ip email False ''SAML role mapping denied'' db, s,
                              [Ship ''auth.sso_denied'' [(''ip'', Some ip), (''email'', Some email), (''method'', Some ''saml''), (''reason'', Some ''role-deny'')]],
                              Sso_login None)
                   | Some role \<Rightarrow>
                       (case upsert_sso_user pw_hash now email role db of
                          (db, None) \<Rightarrow> (record_audit now ip email False ''SAML user disabled: user disabled'' db, s, [], Sso_login None)
                        | (db, Some uid) \<Rightarrow>
                            (record_audit now ip email True ''SAML SSO success'' db, sso_session now email uid role ''saml'',
                             [Ship ''auth.sso_success'' [(''ip'', Some ip), (''actor'', Some email), (''role'', Some role), (''method'', Some ''saml'')]],
                             Sso_redirect ''/''))))"

section \<open>Who gets in with a Google account\<close>

text \<open>The role of an email, by the three lists.\<close>
definition allowlisted :: "environment \<Rightarrow> string \<Rightarrow> string \<Rightarrow> bool" where
  "allowlisted env name email = (py_lower (py_strip email) \<in> set (google_emails env name))"

lemma google_role_for_eq:
  "google_role_for env email =
     (if email = [] then None
      else if allowlisted env ''GOOGLE_ADMIN_EMAILS'' email then Some ''admin''
      else if allowlisted env ''GOOGLE_OPERATOR_EMAILS'' email then Some ''operator''
      else if allowlisted env ''GOOGLE_VIEWER_EMAILS'' email then Some ''viewer'' else None)"
  by (simp add: google_role_for_def google_config_of_def ROLE_ENV_def allowlisted_def)

lemma google_role_for_nonempty: "google_role_for env email = Some r \<Longrightarrow> r \<noteq> []"
  by (auto simp: google_role_for_eq split: if_splits)

text \<open>The access of a Google account is the allowlist, at the time of the request: a request of a session that Google opened reaches a route that
  asks for a role exactly if the address is allowed, the session is not stale, the table holds an enabled user of the session's id, and
  the name of that user is listed in the environment under a role of that rank or higher. The role in the users table does not
  matter, and a listing under two roles counts as the higher one.\<close>
theorem google_access_follows_allowlist:
  assumes "auto_ok (users_t db)" and "ws_logged_in s" and "ws_user_id s = Some i" and "i \<noteq> 0"
    and "ws_auth_source s = ''google''" and "required \<in> set ROLES"
  shows "guarded_request env (google_role_for env) now ip required db s = Serve \<longleftrightarrow>
    ip_allowed env ip \<and> \<not> session_expired env now s
    \<and> (\<exists>u. (i, u) \<in> set (rows (users_t db)) \<and> \<not> us_disabled u \<and> us_username u \<noteq> []
        \<and> (allowlisted env ''GOOGLE_ADMIN_EMAILS'' (us_username u)
           \<or> (required \<noteq> ''admin'' \<and> allowlisted env ''GOOGLE_OPERATOR_EMAILS'' (us_username u))
           \<or> (required = ''viewer'' \<and> allowlisted env ''GOOGLE_VIEWER_EMAILS'' (us_username u))))"
    (is "?serve \<longleftrightarrow> ?ok \<and> ?fresh \<and> (\<exists>u. ?row u \<and> ?enabled u \<and> ?listed u)")
proof -
  have rank: "(\<exists>r. google_role_for env n = Some r \<and> role_rank 99 required \<le> role_rank 0 r) \<longleftrightarrow>
      n \<noteq> [] \<and> (allowlisted env ''GOOGLE_ADMIN_EMAILS'' n \<or> (required \<noteq> ''admin'' \<and> allowlisted env ''GOOGLE_OPERATOR_EMAILS'' n)
         \<or> (required = ''viewer'' \<and> allowlisted env ''GOOGLE_VIEWER_EMAILS'' n))" for n
    using assms(6) by (auto simp: google_role_for_eq ROLES_def role_rank_def ROLE_ORDER_def)
  show ?thesis
  proof (cases "get_user_by_id i db")
    case None
    then have "revalidate_session (google_role_for env) False True db s = empty_session"
      using assms by (simp add: revalidate_session_def)
    moreover have "\<not> (\<exists>u. ?row u \<and> ?enabled u)"
      using None get_user_by_id_iff [OF assms(1,4)] by (metis option.distinct(1))
    ultimately show ?thesis by (auto simp: guarded_request_def login_required_def empty_session_def)
  next
    case (Some ju)
    then obtain u where u: "get_user_by_id i db = Some (i, u)" "?row u" "?enabled u"
      using get_user_by_id_iff [OF assms(1,4)] by (cases ju) auto
    have only: "?row v \<Longrightarrow> ?enabled v \<Longrightarrow> v = u" for v
      using get_user_by_id_iff [OF assms(1,4), of i v] u(1) by auto
    have stale: "session_expired env now (s\<lparr>ws_user_id := a, ws_username := b, ws_role := c\<rparr>) = session_expired env now s" for a b c
      by (simp add: session_expired_def)
    have "?serve \<longleftrightarrow> ?ok \<and> ?fresh \<and> (\<exists>r. google_role_for env (us_username u) = Some r \<and> role_rank 99 required \<le> role_rank 0 r)"
    proof (cases "google_role_for env (us_username u)")
      case None
      then have "revalidate_session (google_role_for env) False True db s = empty_session"
        using assms(2-5) u(1) by (simp add: revalidate_session_def)
      then show ?thesis using None by (simp add: guarded_request_def login_required_def empty_session_def)
    next
      case (Some r)
      then have "revalidate_session (google_role_for env) False True db s = s\<lparr>ws_user_id := Some i, ws_username := us_username u, ws_role := Some r\<rparr>"
        using assms(2-5) u(1) google_role_for_nonempty [OF Some] by (simp add: revalidate_session_def)
      then show ?thesis using assms(2) Some stale
        by (simp add: guarded_request_def login_required_def role_required_def touch_session_def has_role_def current_role_def)
    qed
    then show ?thesis unfolding rank using only u(2,3) by blast
  qed
qed


definition ann :: user_row where
  "ann = boss\<lparr>us_username := ''ann@x'', us_role := ''viewer''\<rparr>"

definition google_office :: auth_db where
  "google_office = \<lparr>attempts_t = [], login_audit_t = empty_table, users_t = \<lparr>rows = [(1, boss), (2, ann)], seq = 2\<rparr>\<rparr>"

definition google_env :: environment where
  "google_env name = (if name = ''GOOGLE_OPERATOR_EMAILS'' then Some ''joe@x, Ann@X'' else if name = ''GOOGLE_VIEWER_EMAILS'' then Some ''ann@x'' else None)"

definition ann_session :: web_session where
  "ann_session = sso_session 0 ''ann@x'' 2 ''viewer'' ''google''"

theorem google_access_follows_allowlist_witness:
  "guarded_request google_env (google_role_for google_env) 0 ''10.0.0.9'' ''operator'' google_office ann_session = Serve
   \<and> guarded_request google_env (google_role_for google_env) 0 ''10.0.0.9'' ''admin'' google_office ann_session \<noteq> Serve"
proof
  have ok: "auto_ok (users_t google_office)" by code_simp
  have s: "ws_logged_in ann_session" "ws_user_id ann_session = Some 2" "(2 :: nat) \<noteq> 0" "ws_auth_source ann_session = ''google''"
    "''operator'' \<in> set ROLES" "''admin'' \<in> set ROLES" by code_simp+
  note acc = google_access_follows_allowlist [OF ok s(1-4)]
  have env: "ip_allowed google_env ''10.0.0.9''" "\<not> session_expired google_env 0 ann_session" by code_simp+
  have row: "(2, u) \<in> set (rows (users_t google_office)) \<longleftrightarrow> u = ann" for u by (auto simp: google_office_def)
  have mail: "\<not> us_disabled ann" "us_username ann \<noteq> []" "allowlisted google_env ''GOOGLE_OPERATOR_EMAILS'' (us_username ann)"
    "\<not> allowlisted google_env ''GOOGLE_ADMIN_EMAILS'' (us_username ann)" "''operator'' \<noteq> ''admin''" "''admin'' \<noteq> ''viewer''" by code_simp+
  show "guarded_request google_env (google_role_for google_env) 0 ''10.0.0.9'' ''operator'' google_office ann_session = Serve"
    unfolding acc [OF s(5)] row using env mail by blast
  show "guarded_request google_env (google_role_for google_env) 0 ''10.0.0.9'' ''admin'' google_office ann_session \<noteq> Serve"
    unfolding acc [OF s(6)] row using mail by blast
qed

definition google_claims_of :: "string \<Rightarrow> google_claims" where
  "google_claims_of e = \<lparr>gc_email = Some e, gc_email_verified = True, gc_sub = ''1''\<rparr>"


section \<open>What the mappings do not do\<close>

definition sso_env :: environment where
  "sso_env name = (if name = ''OIDC_DEFAULT_ROLE'' \<or> name = ''SAML_DEFAULT_ROLE'' then Some ''viewer''
     else if name = ''OIDC_ALLOWED_DOMAINS'' \<or> name = ''SAML_ALLOWED_DOMAINS'' then Some ''Corp.example, x''
     else None)"

definition oidc_claims_of :: "string \<Rightarrow> oidc_claims" where
  "oidc_claims_of e = \<lparr>oc_email = e, oc_email_verified = Some True, oc_claim = (\<lambda>_. [])\<rparr>"

text \<open>A sign-in through a provider takes the administrator role from the first user if the email is its name: the guards on role
  changes stand only in the user administration.\<close>
lemma sso_demotes_first_admin:
  "first_admin google_office
   \<and> \<not> first_admin (fst (oidc_callback sso_env 0 ''10.0.0.9'' True ''h'' False (Some (oidc_claims_of ''boss@x'')) empty_session
        (google_office\<lparr>users_t := \<lparr>rows = [(1, boss\<lparr>us_username := ''boss@x''\<rparr>), (2, ann)], seq = 2\<rparr>\<rparr>)))"
proof
  show "first_admin google_office" by (simp add: first_admin_def google_office_def boss_def)
  let ?db = "google_office\<lparr>users_t := \<lparr>rows = [(1, boss\<lparr>us_username := ''boss@x''\<rparr>), (2, ann)], seq = 2\<rparr>\<rparr>"
  have role: "oidc_role_for_claims sso_env (oidc_claims_of ''boss@x'') = Some ''viewer''" by code_simp
  have mail: "py_strip (py_lower (oc_email (oidc_claims_of ''boss@x''))) = ''boss@x''" by code_simp
  have "user_with_name ''boss@x'' ?db = Some (1, boss\<lparr>us_username := ''boss@x''\<rparr>)" by (simp add: user_with_name_def)
  then have up: "upsert_sso_user ''h'' 0 ''boss@x'' ''viewer'' ?db =
      (?db\<lparr>users_t := update_rows (\<lambda>j _. j = 1) (\<lambda>u. u\<lparr>us_role := ''viewer'', us_last_login_at := Some 0\<rparr>) (users_t ?db)\<rparr>, Some 1)"
    by (simp add: upsert_sso_user_def boss_def)
  show "\<not> first_admin (fst (oidc_callback sso_env 0 ''10.0.0.9'' True ''h'' False (Some (oidc_claims_of ''boss@x'')) empty_session ?db))"
    unfolding oidc_callback_def Let_def option.case mail role up by (simp add: first_admin_def record_audit_def update_rows_def boss_def)
qed

text \<open>A domain that is configured with a capital letter admits nobody, since only the email is lower-cased.\<close>
lemma capital_domain_admits_nobody:
  "oidc_role_for_claims sso_env (oidc_claims_of ''a@Corp.example'') = None \<and> oidc_role_for_claims sso_env (oidc_claims_of ''a@corp.example'') = None"
  by code_simp

text \<open>The two mappings differ on an email with a second \<open>@\<close>.\<close>
lemma saml_and_oidc_differ:
  "oidc_role_for_claims sso_env (oidc_claims_of ''a@b@x'') = Some ''viewer''
   \<and> saml_role_for_attributes sso_env [(''email'', [''a@b@x''])] = None"
  by code_simp

text \<open>The email the SAML route takes from the name id never opens a session: the role mapping looks at the attributes only.\<close>
lemma nameid_email_never_admitted:
  "email_from_attributes env (with_nameid attrs nameid) = [] \<Longrightarrow>
     fst (snd (saml_acs env now ip True pw_hash (Saml_response attrs nameid) s db)) = s"
  by (simp add: saml_acs_def Let_def saml_role_for_attributes_def)

end
