(* ===== verification/Ha.thy ===== *)
theory Ha
  imports Federation Iso_Time
begin

text \<open>
  Active-passive operation (\<open>ha.py\<close>): how the role of a node is resolved, promotion and demotion
  with their audit trail, and the heartbeat the standby watches.
\<close>

record ha_db =
  h_settings :: store
  h_audit :: "audit_row auto_table"

definition VALID_ROLES :: "string list" where "VALID_ROLES = [''primary'', ''standby'']"
definition DEFAULT_HEARTBEAT_STALE_SEC :: int where "DEFAULT_HEARTBEAT_STALE_SEC = 60"

definition ha_envstr :: "environment \<Rightarrow> string \<Rightarrow> string" where
  "ha_envstr env name = py_strip (hd (py_split_max (CHR ''#'') 1 (case env name of None \<Rightarrow> [] | Some s \<Rightarrow> s)))"

definition ha_role :: "environment \<Rightarrow> store \<Rightarrow> string" where
  "ha_role env db =
     (let db_override = py_lower (py_strip (str_or (get_setting ''ha.role'' db) []));
          env_role = py_lower (ha_envstr env ''HA_ROLE'')
      in if db_override \<in> set VALID_ROLES then db_override
         else if env_role \<in> set VALID_ROLES then env_role
         else ''primary'')"

definition is_standby :: "environment \<Rightarrow> store \<Rightarrow> bool" where "is_standby env db = (ha_role env db = ''standby'')"
definition is_primary :: "environment \<Rightarrow> store \<Rightarrow> bool" where "is_primary env db = (ha_role env db = ''primary'')"

section \<open>Promotion and demotion\<close>

record role_change =
  rc_old_role :: string
  rc_new_role :: string
  rc_actor :: string
  rc_reason :: string

text \<open>\<open>_audit\<close> is best effort; \<open>audit_ok\<close> tells whether the insert succeeded.\<close>
definition ha_audit :: "bool \<Rightarrow> instant \<Rightarrow> string \<Rightarrow> role_change \<Rightarrow> ha_db \<Rightarrow> ha_db" where
  "ha_audit audit_ok now action c d =
     (if audit_ok
      then d\<lparr>h_audit := fst (insert_row \<lparr>au_created_at = now, au_actor = rc_actor c, au_ip = [], au_action = action,
               au_target = [], au_before = [],
               au_after = [(''actor'', Some (rc_actor c)), (''reason'', Some (rc_reason c)), (''old'', Some (rc_old_role c)),
                           (''new'', Some (rc_new_role c))], au_note = []\<rparr> (h_audit d))\<rparr>
      else d)"

definition change_settings :: "instant \<Rightarrow> string \<Rightarrow> string \<Rightarrow> string \<Rightarrow> store \<Rightarrow> store" where
  "change_settings now new actor reason db =
     set_setting now ''ha.last_role_change_reason'' (take 300 reason)
       (set_setting now ''ha.last_role_change_actor'' actor
         (set_setting now ''ha.last_role_change_at'' (isoformat now)
           (set_setting now ''ha.role'' new db)))"

definition promote :: "environment \<Rightarrow> bool \<Rightarrow> instant \<Rightarrow> string \<Rightarrow> string \<Rightarrow> ha_db \<Rightarrow> ha_db \<times> role_change" where
  "promote env audit_ok now actor reason d =
     (let c = \<lparr>rc_old_role = ha_role env (h_settings d), rc_new_role = ''primary'', rc_actor = actor, rc_reason = reason\<rparr>
      in (ha_audit audit_ok now ''ha.promote'' c (d\<lparr>h_settings := change_settings now ''primary'' actor reason (h_settings d)\<rparr>), c))"

definition demote :: "environment \<Rightarrow> bool \<Rightarrow> instant \<Rightarrow> string \<Rightarrow> string \<Rightarrow> ha_db \<Rightarrow> ha_db \<times> role_change" where
  "demote env audit_ok now actor reason d =
     (let c = \<lparr>rc_old_role = ha_role env (h_settings d), rc_new_role = ''standby'', rc_actor = actor, rc_reason = reason\<rparr>
      in (ha_audit audit_ok now ''ha.demote'' c (d\<lparr>h_settings := change_settings now ''standby'' actor reason (h_settings d)\<rparr>), c))"

section \<open>Heartbeat\<close>

definition last_heartbeat_iso :: "store \<Rightarrow> string" where
  "last_heartbeat_iso db = str_or (get_setting ''poller.last_at'' db) []"

definition heartbeat_lag_seconds :: "instant \<Rightarrow> store \<Rightarrow> exn + int option" where
  "heartbeat_lag_seconds now db =
     (let iso_text = last_heartbeat_iso db
      in if iso_text = [] then Inr None
         else case parse_any_stamp iso_text of
                None \<Rightarrow> Inr None
              | Some (Naive _) \<Rightarrow> Inl (TypeError ''can't subtract offset-naive and offset-aware datetimes'')
              | Some (Aware t) \<Rightarrow> Inr (Some (py_trunc (of_int (now - t) / of_int SECOND))))"

definition heartbeat_stale_threshold_sec :: "store \<Rightarrow> int" where
  "heartbeat_stale_threshold_sec db =
     (case get_setting ''ha.heartbeat_stale_sec'' db of
        None \<Rightarrow> max 15 DEFAULT_HEARTBEAT_STALE_SEC
      | Some s \<Rightarrow> if s = [] then max 15 DEFAULT_HEARTBEAT_STALE_SEC
                  else case py_int s of Some n \<Rightarrow> max 15 n | None \<Rightarrow> DEFAULT_HEARTBEAT_STALE_SEC)"

definition is_heartbeat_stale :: "instant \<Rightarrow> store \<Rightarrow> exn + bool" where
  "is_heartbeat_stale now db =
     (case heartbeat_lag_seconds now db of
        Inl e \<Rightarrow> Inl e
      | Inr None \<Rightarrow> Inr False
      | Inr (Some lag) \<Rightarrow> Inr (heartbeat_stale_threshold_sec db < lag))"

record ha_summary =
  hs_role :: string
  hs_env_role :: string
  hs_db_override :: string
  hs_last_heartbeat_at :: string
  hs_lag :: "int option"
  hs_threshold :: int
  hs_stale :: bool
  hs_last_role_change_at :: string
  hs_last_role_change_actor :: string
  hs_last_role_change_reason :: string
  hs_auto_failover_enabled :: bool

definition or_else :: "string \<Rightarrow> string \<Rightarrow> string" where
  "or_else s d = (if s = [] then d else s)"

definition ha_summary_of :: "environment \<Rightarrow> instant \<Rightarrow> store \<Rightarrow> exn + ha_summary" where
  "ha_summary_of env now db =
     (case (heartbeat_lag_seconds now db, is_heartbeat_stale now db) of
        (Inl e, _) \<Rightarrow> Inl e
      | (_, Inl e) \<Rightarrow> Inl e
      | (Inr lag, Inr stale) \<Rightarrow> Inr
          \<lparr>hs_role = ha_role env db,
           hs_env_role = or_else (ha_envstr env ''HA_ROLE'') ''(unset)'',
           hs_db_override = or_else (py_strip (str_or (get_setting ''ha.role'' db) [])) ''(unset)'',
           hs_last_heartbeat_at = or_else (last_heartbeat_iso db) ''(never)'',
           hs_lag = lag, hs_threshold = heartbeat_stale_threshold_sec db, hs_stale = stale,
           hs_last_role_change_at = str_or (get_setting ''ha.last_role_change_at'' db) ''(never)'',
           hs_last_role_change_actor = str_or (get_setting ''ha.last_role_change_actor'' db) [],
           hs_last_role_change_reason = str_or (get_setting ''ha.last_role_change_reason'' db) [],
           hs_auto_failover_enabled = (str_or (get_setting ''ha.auto_failover_enabled'' db) ''0'' = ''1'')\<rparr>)"

section \<open>Properties\<close>

lemma ha_role_valid: "ha_role env db \<in> set VALID_ROLES"
  by (auto simp: ha_role_def Let_def VALID_ROLES_def)

lemma ha_role_setting:
  assumes "get_setting ''ha.role'' db = Some r" "r \<in> set VALID_ROLES"
  shows "ha_role env db = r"
proof -
  have r: "py_lower (py_strip ''primary'') = ''primary''" "py_lower (py_strip ''standby'') = ''standby''" by code_simp+
  have "py_lower (py_strip r) = r" using assms(2) r by (auto simp: VALID_ROLES_def)
  then show ?thesis using assms by (auto simp: ha_role_def Let_def str_or_def VALID_ROLES_def)
qed

text \<open>Operator actions on the role.\<close>
datatype role_op = Promote bool instant string string | Demote bool instant string string

fun run_role_op :: "environment \<Rightarrow> role_op \<Rightarrow> ha_db \<Rightarrow> ha_db" where
  "run_role_op env (Promote ok now actor reason) d = fst (promote env ok now actor reason d)"
| "run_role_op env (Demote ok now actor reason) d = fst (demote env ok now actor reason d)"

fun op_role :: "role_op \<Rightarrow> string" where
  "op_role (Promote _ _ _ _) = ''primary''"
| "op_role (Demote _ _ _ _) = ''standby''"

fun op_audited :: "role_op \<Rightarrow> bool" where
  "op_audited (Promote ok _ _ _) = ok"
| "op_audited (Demote ok _ _ _) = ok"

lemma run_role_op_role: "ha_role env' (h_settings (run_role_op env op d)) = op_role op"
  by (cases op; rule ha_role_setting)
    (auto simp: promote_def demote_def Let_def ha_audit_def change_settings_def VALID_ROLES_def)

text \<open>The audit rows a sequence of actions writes: each names the role before and after it.\<close>
fun audit_trail :: "environment \<Rightarrow> role_op list \<Rightarrow> string \<Rightarrow> (string \<times> string) list" where
  "audit_trail env [] r = []"
| "audit_trail env (op # ops) r = (if op_audited op then [(r, op_role op)] else []) @ audit_trail env ops (op_role op)"

definition audited_change :: "audit_row \<Rightarrow> string \<times> string" where
  "audited_change a = (the (the (map_of (au_after a) ''old'')), the (the (map_of (au_after a) ''new'')))"

lemma run_role_op_audit:
  "map audited_change (contents (h_audit (run_role_op env op d))) =
   map audited_change (contents (h_audit d)) @ (if op_audited op then [(ha_role env (h_settings d), op_role op)] else [])"
  by (cases op) (auto simp: promote_def demote_def Let_def ha_audit_def audited_change_def contents_insert)

text \<open>The last operator action decides: after any sequence of promotions and demotions the node has the role of the
  last one, whatever its environment says and even if the audit insert failed; the audit trail lists the changes in
  order, each with the role the node really had before it.\<close>
theorem last_role_change_wins:
  assumes "ops \<noteq> []"
  shows "ha_role env' (h_settings (fold (run_role_op env) ops d)) = op_role (last ops)
    \<and> map audited_change (contents (h_audit (fold (run_role_op env) ops d))) =
        map audited_change (contents (h_audit d)) @ audit_trail env ops (ha_role env (h_settings d))"
proof
  show "ha_role env' (h_settings (fold (run_role_op env) ops d)) = op_role (last ops)"
    using assms by (induction ops arbitrary: d rule: list_nonempty_induct) (simp_all add: run_role_op_role del: run_role_op.simps)
  show "map audited_change (contents (h_audit (fold (run_role_op env) ops d))) =
        map audited_change (contents (h_audit d)) @ audit_trail env ops (ha_role env (h_settings d))"
    by (induction ops arbitrary: d) (simp_all add: run_role_op_audit run_role_op_role del: run_role_op.simps)
qed

theorem last_role_change_wins_witness:
  "ha_role (\<lambda>_. Some ''primary'')
     (h_settings (fold (run_role_op (\<lambda>_. None)) [Promote True 0 ''op'' ''x'', Demote False 1 ''op'' ''y'']
       \<lparr>h_settings = empty_store, h_audit = empty_table\<rparr>)) = ''standby''"
  using last_role_change_wins [of "[Promote True 0 ''op'' ''x'', Demote False 1 ''op'' ''y'']" "\<lambda>_. Some ''primary''"
      "\<lambda>_. None" "\<lparr>h_settings = empty_store, h_audit = empty_table\<rparr>"] by (simp del: fold_simps)

end
