(* ===== verification/Queues.thy ===== *)
theory Queues
  imports Py_Prelude
begin

text \<open>
  Bounded queues between the code that reports an event and the worker that delivers it. The interface: a step
  takes entries from the queue and puts entries into it, and may drop some of either when the bound is
  reached; it never reorders, repeats or invents one, and it counts what it drops. Both queues of the program are
  instances, although one drops the oldest entry and the other the newest.
\<close>

text \<open>What a run of steps collects of an observation.\<close>
fun run_steps :: "('op \<Rightarrow> 's \<Rightarrow> 's) \<Rightarrow> 'op list \<Rightarrow> 's \<Rightarrow> 's" where
  "run_steps step [] s = s"
| "run_steps step (op # ops) s = run_steps step ops (step op s)"

fun run_collect :: "('op \<Rightarrow> 's \<Rightarrow> 's) \<Rightarrow> ('op \<Rightarrow> 's \<Rightarrow> 'a list) \<Rightarrow> 'op list \<Rightarrow> 's \<Rightarrow> 'a list" where
  "run_collect step obs [] s = []"
| "run_collect step obs (op # ops) s = obs op s @ run_collect step obs ops (step op s)"

fun run_sum :: "('op \<Rightarrow> 's \<Rightarrow> 's) \<Rightarrow> ('op \<Rightarrow> 's \<Rightarrow> nat) \<Rightarrow> 'op list \<Rightarrow> 's \<Rightarrow> nat" where
  "run_sum step obs [] s = 0"
| "run_sum step obs (op # ops) s = obs op s + run_sum step obs ops (step op s)"

locale lossy_queue =
  fixes items :: "'s \<Rightarrow> 'a list"
    and step :: "'op \<Rightarrow> 's \<Rightarrow> 's"
    and offered :: "'op \<Rightarrow> 's \<Rightarrow> 'a list"
    and taken :: "'op \<Rightarrow> 's \<Rightarrow> 'a list"
    and dropped :: "'op \<Rightarrow> 's \<Rightarrow> nat"
  assumes in_order: "subseq (taken op s @ items (step op s)) (items s @ offered op s)"
    and counted: "length (items s) + length (offered op s) = length (taken op s) + length (items (step op s)) + dropped op s"
begin

lemma run_in_order:
  "subseq (run_collect step taken ops s @ items (run_steps step ops s)) (items s @ run_collect step offered ops s)"
proof (induction ops arbitrary: s)
  case (Cons op ops)
  have "subseq (taken op s @ run_collect step taken ops (step op s) @ items (run_steps step ops (step op s)))
      (taken op s @ items (step op s) @ run_collect step offered ops (step op s))"
    using Cons by (simp add: subseq_append')
  moreover have "subseq ((taken op s @ items (step op s)) @ run_collect step offered ops (step op s))
      ((items s @ offered op s) @ run_collect step offered ops (step op s))"
    using in_order by (rule list_emb_append_mono) simp
  ultimately show ?case using subseq_order.order_trans by fastforce
qed simp

lemma run_counted:
  "length (items s) + length (run_collect step offered ops s) =
   length (run_collect step taken ops s) + length (items (run_steps step ops s)) + run_sum step dropped ops s"
proof (induction ops arbitrary: s)
  case (Cons op ops)
  show ?case using counted [of s op] Cons [of "step op s"] by simp
qed simp

text \<open>Unless something was dropped, exactly what was offered is taken, in order, up to what is still inside.\<close>
lemma run_exact:
  assumes "run_sum step dropped ops s = 0"
  shows "run_collect step taken ops s @ items (run_steps step ops s) = items s @ run_collect step offered ops s"
  using run_in_order [of ops s] run_counted [of s ops] assms by (intro subseq_same_length) auto

end

end
