(* ===== verification/Webhooks_Out.thy ===== *)
theory Webhooks_Out
  imports Ratelimit Queues
begin

text \<open>
  Outbound webhooks (\<open>webhooks_out.py\<close>): the subscribers, the masks that select events, the signed delivery with
  its retries, the dead-letter table and its replay, the bounded queue and the worker that drains it.
  What lies outside is the record \<open>hook_env\<close>: the clock, the sleep, the HTTP exchange, the host name of a URL
  (as in \<open>ratelimit.py\<close>), the JSON text of an event and the HMAC-SHA256 digest; the world they act on is a type variable.
  The JSON column of the dead-letter table is kept as the payload itself. One worker thread drains the queue, so
  deliveries are sequential; an operator's change takes effect between two of them. A dash in two of the messages is written as a hyphen.
\<close>

section \<open>Data\<close>

type_synonym payload = "(string \<times> string option) list"

record webhook_sub =
  ws_name :: string
  ws_url :: string
  ws_hmac_secret :: string
  ws_event_mask :: string
  ws_enabled :: bool
  ws_created_at :: instant
  ws_last_ok_at :: "instant option"
  ws_last_error :: string
  ws_consec_failures :: nat

record dlq_row =
  dq_sub_id :: nat
  dq_event_type :: string
  dq_payload :: payload
  dq_last_error :: string
  dq_attempts :: nat
  dq_first_seen_at :: instant
  dq_last_attempt_at :: instant

record http_post =
  hp_url :: string
  hp_headers :: "(string \<times> string) list"
  hp_body :: string

text \<open>What \<open>requests.post\<close> gives: a response, one of the library's own errors, or any other exception.\<close>
datatype post_reply = Response int string | Request_failed string | Raised exn

record 'w hook_env =
  he_now :: "'w \<Rightarrow> instant"
  he_sleep :: "nat \<Rightarrow> 'w \<Rightarrow> 'w"
  he_post :: "http_post \<Rightarrow> 'w \<Rightarrow> post_reply \<times> 'w"
  he_host :: "string \<Rightarrow> string option"
  he_dumps :: "string \<Rightarrow> payload \<Rightarrow> string"
  he_hmac :: "string \<Rightarrow> string \<Rightarrow> string"

text \<open>The tables, the buckets, the queue, the outside world and the requests made so far with their replies.\<close>
record 'w hooks =
  hk_subs :: "webhook_sub auto_table"
  hk_dlq :: "dlq_row auto_table"
  hk_buckets :: registry
  hk_settings :: store
  hk_queue :: "(string \<times> payload) list"
  hk_world :: 'w
  hk_posts :: "(http_post \<times> post_reply) list"

definition BACKOFF :: "nat list" where "BACKOFF = [2, 4, 8]"
definition HOOK_QUEUE_MAX :: nat where "HOOK_QUEUE_MAX = 10000"

section \<open>Subscribers\<close>

definition list_subs :: "webhook_sub auto_table \<Rightarrow> (nat \<times> webhook_sub) list" where
  "list_subs t = rev (rows t)"

definition add_sub :: "instant \<Rightarrow> string \<Rightarrow> string \<Rightarrow> string \<Rightarrow> string \<Rightarrow> string option \<Rightarrow> 'w hooks \<Rightarrow> 'w hooks \<times> (exn + nat)" where
  "add_sub now fresh name url event_mask hmac_secret h =
     (let core = filter (\<lambda>c. c \<noteq> CHR ''-'' \<and> c \<noteq> CHR ''_'') name
      in if core = [] \<or> \<not> list_all py_isalnum core then (h, Inl (ValueError ''name must be alphanumeric (+ _ -)''))
         else if \<not> (py_startswith url ''http://'' \<or> py_startswith url ''https://'')
              then (h, Inl (ValueError ''url must start with http:// or https://''))
         else if \<exists>p \<in> set (rows (hk_subs h)). ws_name (snd p) = name
              then (h, Inl (IntegrityError ''UNIQUE constraint failed: webhook_subs.name''))
         else case insert_row \<lparr>ws_name = name, ws_url = url, ws_hmac_secret = str_or hmac_secret fresh, ws_event_mask = event_mask, ws_enabled = True,
                                ws_created_at = now, ws_last_ok_at = None, ws_last_error = [], ws_consec_failures = 0\<rparr> (hk_subs h) of
                (t, i) \<Rightarrow> (h\<lparr>hk_subs := t\<rparr>, Inr i))"

definition delete_sub :: "nat \<Rightarrow> 'w hooks \<Rightarrow> 'w hooks" where
  "delete_sub sub_id h =
     h\<lparr>hk_subs := delete_rows (\<lambda>i _. i = sub_id) (hk_subs h), hk_dlq := delete_rows (\<lambda>_ r. dq_sub_id r = sub_id) (hk_dlq h)\<rparr>"

definition toggle_sub :: "nat \<Rightarrow> bool \<Rightarrow> 'w hooks \<Rightarrow> 'w hooks" where
  "toggle_sub sub_id enabled h = h\<lparr>hk_subs := update_rows (\<lambda>i _. i = sub_id) (\<lambda>r. r\<lparr>ws_enabled := enabled\<rparr>) (hk_subs h)\<rparr>"

definition find_sub :: "nat \<Rightarrow> 'w hooks \<Rightarrow> webhook_sub option" where
  "find_sub sub_id h = map_of (rows (hk_subs h)) sub_id"

text \<open>\<open>list_dlq\<close>, with the name and the URL of the subscriber if it still exists.\<close>
definition list_dlq :: "nat \<Rightarrow> 'w hooks \<Rightarrow> (nat \<times> dlq_row \<times> (string \<times> string) option) list" where
  "list_dlq limit h =
     take limit (map (\<lambda>(i, r). (i, r, map_option (\<lambda>s. (ws_name s, ws_url s)) (find_sub (dq_sub_id r) h))) (rev (rows (hk_dlq h))))"

section \<open>Masks\<close>

text \<open>\<open>_match\<close>: no mask, a lone star, or a comma-separated list of globs.\<close>
definition mask_match :: "string \<Rightarrow> string \<Rightarrow> bool" where
  "mask_match event_mask event_type =
     (event_mask = [] \<or> event_mask = ''*''
      \<or> list_ex (\<lambda>p. fnmatchcase event_type (py_strip p)) (filter (\<lambda>p. py_strip p \<noteq> []) (py_split (CHR '','') event_mask)))"

section \<open>Delivery\<close>

text \<open>\<open>_sign\<close>.\<close>
definition sign :: "('w, 'e) hook_env_scheme \<Rightarrow> string \<Rightarrow> string \<Rightarrow> string \<Rightarrow> string" where
  "sign env secret timestamp body = ''sha256='' @ he_hmac env secret (timestamp @ ''.'' @ body)"

definition signed_post :: "('w, 'e) hook_env_scheme \<Rightarrow> instant \<Rightarrow> string \<Rightarrow> string \<Rightarrow> string \<Rightarrow> payload \<Rightarrow> http_post" where
  "signed_post env now url secret event_type p =
     (let body = he_dumps env event_type p; ts = py_str_int (now div SECOND)
      in \<lparr>hp_url = url,
          hp_headers = [(''Content-Type'', ''application/json''), (''X-Protek-Event'', event_type), (''X-Protek-Timestamp'', ts),
                        (''X-Protek-Signature'', sign env secret ts body), (''User-Agent'', ''protek-webhook/1.0'')],
          hp_body = body\<rparr>)"

definition monotonic :: "instant \<Rightarrow> rat" where
  "monotonic now = of_int now / of_int SECOND"

definition bucket_name :: "string option \<Rightarrow> string" where
  "bucket_name host = ''webhook.'' @ str_or host ''unknown''"

text \<open>\<open>webhook_bucket_for(url).acquire()\<close> and \<open>.record_429()\<close>, which change the bucket in the registry.\<close>
definition take_token :: "('w, 'e) hook_env_scheme \<Rightarrow> string \<Rightarrow> 'w hooks \<Rightarrow> 'w hooks \<times> bool" where
  "take_token env url h =
     (let now = monotonic (he_now env (hk_world h)); host = he_host env url;
          (reg, b) = webhook_bucket_for (hk_settings h) now host (hk_buckets h);
          (b, ok) = bucket_acquire now 1 b
      in (h\<lparr>hk_buckets := AList.update (bucket_name host) b reg\<rparr>, ok))"

definition penalise :: "('w, 'e) hook_env_scheme \<Rightarrow> string \<Rightarrow> 'w hooks \<Rightarrow> 'w hooks" where
  "penalise env url h =
     (let now = monotonic (he_now env (hk_world h)); host = he_host env url;
          (reg, b) = webhook_bucket_for (hk_settings h) now host (hk_buckets h)
      in h\<lparr>hk_buckets := AList.update (bucket_name host) (bucket_record_429 now b) reg\<rparr>)"

definition delivered :: "post_reply \<Rightarrow> bool" where
  "delivered r = (case r of Response code _ \<Rightarrow> 200 \<le> code \<and> code < 300 | _ \<Rightarrow> False)"

text \<open>\<open>_send_once\<close>: an exception that is not one of the library's own, or success with an error text.\<close>
definition send_once :: "('w, 'e) hook_env_scheme \<Rightarrow> string \<Rightarrow> string \<Rightarrow> string \<Rightarrow> payload \<Rightarrow> 'w hooks \<Rightarrow> 'w hooks \<times> (exn + bool \<times> string)" where
  "send_once env url secret event_type p h =
     (let (h, ok) = take_token env url h
      in if \<not> ok then (h, Inr (False, ''backpressure - webhook bucket exhausted''))
         else let req = signed_post env (he_now env (hk_world h)) url secret event_type p;
                  (reply, w) = he_post env req (hk_world h);
                  h = h\<lparr>hk_world := w, hk_posts := hk_posts h @ [(req, reply)]\<rparr>
              in case reply of
                   Response code body \<Rightarrow>
                     if code = 429 then (penalise env url h, Inr (False, ''HTTP 429: rate limited''))
                     else if 200 \<le> code \<and> code < 300 then (h, Inr (True, []))
                     else (h, Inr (False, ''HTTP '' @ py_str_int code @ '': '' @ take 200 body))
                 | Request_failed e \<Rightarrow> (h, Inr (False, ''network: '' @ e))
                 | Raised e \<Rightarrow> (h, Inl e))"

definition mark_ok :: "instant \<Rightarrow> nat \<Rightarrow> 'w hooks \<Rightarrow> 'w hooks" where
  "mark_ok now sub_id h =
     h\<lparr>hk_subs := update_rows (\<lambda>i _. i = sub_id) (\<lambda>r. r\<lparr>ws_last_ok_at := Some now, ws_last_error := [], ws_consec_failures := 0\<rparr>) (hk_subs h)\<rparr>"

definition mark_fail :: "nat \<Rightarrow> string \<Rightarrow> 'w hooks \<Rightarrow> 'w hooks" where
  "mark_fail sub_id err h =
     h\<lparr>hk_subs := update_rows (\<lambda>i _. i = sub_id)
         (\<lambda>r. r\<lparr>ws_last_error := take 300 err, ws_consec_failures := ws_consec_failures r + 1\<rparr>) (hk_subs h)\<rparr>"

text \<open>\<open>SELECT MAX(id)\<close> and the bound on the table.\<close>
definition max_id :: "'r auto_table \<Rightarrow> nat" where
  "max_id t = fold max (map fst (rows t)) 0"

definition keep_newest_rows :: "nat \<Rightarrow> 'r auto_table \<Rightarrow> 'r auto_table" where
  "keep_newest_rows n t = delete_rows (\<lambda>i _. int i < int (max_id t) - int n) t"

definition push_dlq :: "instant \<Rightarrow> nat \<Rightarrow> string \<Rightarrow> payload \<Rightarrow> string \<Rightarrow> 'w hooks \<Rightarrow> 'w hooks" where
  "push_dlq now sub_id event_type p err h =
     h\<lparr>hk_dlq := keep_newest_rows 1000 (fst (insert_row
         \<lparr>dq_sub_id = sub_id, dq_event_type = event_type, dq_payload = p, dq_last_error = take 300 err, dq_attempts = length BACKOFF,
          dq_first_seen_at = now, dq_last_attempt_at = now\<rparr> (hk_dlq h)))\<rparr>"

text \<open>The attempts, with the waits between them; \<open>None\<close> means delivered, else the last error.\<close>
fun attempts :: "('w, 'e) hook_env_scheme \<Rightarrow> string \<Rightarrow> string \<Rightarrow> string \<Rightarrow> payload \<Rightarrow> nat list \<Rightarrow> string \<Rightarrow> 'w hooks \<Rightarrow> 'w hooks \<times> (exn + string option)" where
  "attempts env url secret event_type p [] last_err h = (h, Inr (Some last_err))"
| "attempts env url secret event_type p (wait # waits) last_err h =
     (case send_once env url secret event_type p h of
        (h, Inl e) \<Rightarrow> (h, Inl e)
      | (h, Inr (ok, err)) \<Rightarrow>
          if ok then (h, Inr None)
          else attempts env url secret event_type p waits err
                 (if waits = [] then h else h\<lparr>hk_world := he_sleep env wait (hk_world h)\<rparr>))"

definition deliver_one :: "('w, 'e) hook_env_scheme \<Rightarrow> string \<Rightarrow> payload \<Rightarrow> nat \<times> webhook_sub \<Rightarrow> 'w hooks \<Rightarrow> 'w hooks \<times> exn option" where
  "deliver_one env event_type p sub h =
     (case find_sub (fst sub) h of
        None \<Rightarrow> (h, None)
      | Some row \<Rightarrow>
          (case attempts env (ws_url (snd sub)) (ws_hmac_secret row) event_type p BACKOFF [] h of
             (h, Inl e) \<Rightarrow> (h, Some e)
           | (h, Inr None) \<Rightarrow> (mark_ok (he_now env (hk_world h)) (fst sub) h, None)
           | (h, Inr (Some err)) \<Rightarrow>
               (mark_fail (fst sub) err (push_dlq (he_now env (hk_world h)) (fst sub) event_type p err h), None)))"

fun deliver_each :: "('w, 'e) hook_env_scheme \<Rightarrow> string \<Rightarrow> payload \<Rightarrow> (nat \<times> webhook_sub) list \<Rightarrow> 'w hooks \<Rightarrow> 'w hooks \<times> exn option" where
  "deliver_each env event_type p [] h = (h, None)"
| "deliver_each env event_type p (sub # subs) h =
     (case deliver_one env event_type p sub h of
        (h, Some e) \<Rightarrow> (h, Some e)
      | (h, None) \<Rightarrow> deliver_each env event_type p subs h)"

definition recipients :: "string \<Rightarrow> webhook_sub auto_table \<Rightarrow> (nat \<times> webhook_sub) list" where
  "recipients event_type t = filter (\<lambda>(_, s). ws_enabled s \<and> mask_match (ws_event_mask s) event_type) (list_subs t)"

definition deliver_all :: "('w, 'e) hook_env_scheme \<Rightarrow> string \<Rightarrow> payload \<Rightarrow> 'w hooks \<Rightarrow> 'w hooks \<times> exn option" where
  "deliver_all env event_type p h = deliver_each env event_type p (recipients event_type (hk_subs h)) h"

text \<open>\<open>emit\<close>: drops the event when the queue is full. One round of \<open>_worker_loop\<close>, which swallows every exception.\<close>
definition emit_event :: "string \<Rightarrow> payload \<Rightarrow> 'w hooks \<Rightarrow> 'w hooks" where
  "emit_event event_type p h = (if length (hk_queue h) < HOOK_QUEUE_MAX then h\<lparr>hk_queue := hk_queue h @ [(event_type, p)]\<rparr> else h)"

definition worker_step :: "('w, 'e) hook_env_scheme \<Rightarrow> 'w hooks \<Rightarrow> 'w hooks" where
  "worker_step env h =
     (case hk_queue h of
        [] \<Rightarrow> h
      | (event_type, p) # q \<Rightarrow> fst (deliver_all env event_type p (h\<lparr>hk_queue := q\<rparr>)))"

definition replay_dlq :: "('w, 'e) hook_env_scheme \<Rightarrow> nat \<Rightarrow> 'w hooks \<Rightarrow> 'w hooks \<times> (exn + bool \<times> string)" where
  "replay_dlq env entry_id h =
     (case map_of (rows (hk_dlq h)) entry_id of
        None \<Rightarrow> (h, Inr (False, ''not found''))
      | Some row \<Rightarrow>
          (case find_sub (dq_sub_id row) h of
             None \<Rightarrow> (h, Inr (False, ''subscriber gone - DLQ orphaned, cannot replay''))
           | Some s \<Rightarrow>
               if ws_url s = [] then (h, Inr (False, ''subscriber gone - DLQ orphaned, cannot replay''))
               else (case send_once env (ws_url s) (ws_hmac_secret s) (dq_event_type row) (dq_payload row) h of
                       (h, Inl e) \<Rightarrow> (h, Inl e)
                     | (h, Inr (ok, err)) \<Rightarrow>
                         if ok then (h\<lparr>hk_dlq := delete_rows (\<lambda>i _. i = entry_id) (hk_dlq h)\<rparr>, Inr (True, ws_url s))
                         else (h\<lparr>hk_dlq := update_rows (\<lambda>i _. i = entry_id)
                                  (\<lambda>r. r\<lparr>dq_attempts := dq_attempts r + 1, dq_last_attempt_at := he_now env (hk_world h), dq_last_error := take 300 err\<rparr>)
                                  (hk_dlq h)\<rparr>, Inr (False, err)))))"

section \<open>What one delivery does\<close>

text \<open>The receiver's check as the module documents it.\<close>
definition verify_signature :: "('w, 'e) hook_env_scheme \<Rightarrow> string \<Rightarrow> http_post \<Rightarrow> bool" where
  "verify_signature env secret req =
     (case (map_of (hp_headers req) ''X-Protek-Timestamp'', map_of (hp_headers req) ''X-Protek-Signature'') of
        (Some ts, Some sig) \<Rightarrow> py_split_max (CHR ''='') 1 sig = [''sha256'', he_hmac env secret (ts @ ''.'' @ hp_body req)]
      | _ \<Rightarrow> False)"

definition addressed :: "('w, 'e) hook_env_scheme \<Rightarrow> string \<Rightarrow> string \<Rightarrow> string \<Rightarrow> payload \<Rightarrow> http_post \<Rightarrow> bool" where
  "addressed env url secret event_type p req =
     (hp_url req = url \<and> hp_body req = he_dumps env event_type p \<and> map_of (hp_headers req) ''X-Protek-Event'' = Some event_type
      \<and> verify_signature env secret req)"

definition never_raises :: "('w, 'e) hook_env_scheme \<Rightarrow> bool" where
  "never_raises env = (\<forall>req w e. fst (he_post env req w) \<noteq> Raised e)"

definition same_tables :: "'w hooks \<Rightarrow> 'w hooks \<Rightarrow> bool" where
  "same_tables h h' = (hk_subs h' = hk_subs h \<and> hk_dlq h' = hk_dlq h \<and> hk_queue h' = hk_queue h)"

lemma addressed_signed_post: "addressed env url secret ev p (signed_post env now url secret ev p)"
  by (simp add: addressed_def verify_signature_def signed_post_def sign_def Let_def)

lemma same_tables_trans: "same_tables h h1 \<Longrightarrow> same_tables h1 h2 \<Longrightarrow> same_tables h h2"
  by (simp add: same_tables_def)

lemma take_token_frame:
  "take_token env url h = (h', ok) \<Longrightarrow> same_tables h h' \<and> hk_posts h' = hk_posts h \<and> hk_world h' = hk_world h"
  by (auto simp: take_token_def Let_def same_tables_def split: prod.splits)

lemma penalise_frame: "same_tables h (penalise env url h) \<and> hk_posts (penalise env url h) = hk_posts h"
  by (auto simp: penalise_def Let_def same_tables_def split: prod.splits)

text \<open>One attempt makes at most one request, addressed to the subscriber, and succeeds exactly if it was answered with a success.\<close>
lemma send_once_spec:
  assumes "never_raises env" "send_once env url secret ev p h = (h', r)"
  shows "\<exists>ok err new. r = Inr (ok, err) \<and> hk_posts h' = hk_posts h @ new \<and> length new \<le> 1 \<and> same_tables h h'
    \<and> (\<forall>(req, _) \<in> set new. addressed env url secret ev p req) \<and> (ok \<longleftrightarrow> (\<exists>(_, reply) \<in> set new. delivered reply))"
proof -
  obtain h1 got where tok: "take_token env url h = (h1, got)" by force
  note frame = take_token_frame [OF tok]
  show ?thesis
  proof (cases got)
    case False
    then show ?thesis using assms(2) tok frame by (intro exI [of _ False] exI exI [of _ "[]"]) (auto simp: send_once_def)
  next
    case True
    define req where "req = signed_post env (he_now env (hk_world h1)) url secret ev p"
    obtain reply w where post: "he_post env req (hk_world h1) = (reply, w)" by force
    define h2 where "h2 = h1\<lparr>hk_world := w, hk_posts := hk_posts h1 @ [(req, reply)]\<rparr>"
    have h2: "same_tables h h2" "hk_posts h2 = hk_posts h @ [(req, reply)]" using frame by (auto simp: h2_def same_tables_def)
    have addr: "addressed env url secret ev p req" unfolding req_def by (rule addressed_signed_post)
    have send: "send_once env url secret ev p h = (case reply of
          Response code body \<Rightarrow> if code = 429 then (penalise env url h2, Inr (False, ''HTTP 429: rate limited''))
            else if 200 \<le> code \<and> code < 300 then (h2, Inr (True, []))
            else (h2, Inr (False, ''HTTP '' @ py_str_int code @ '': '' @ take 200 body))
        | Request_failed e \<Rightarrow> (h2, Inr (False, ''network: '' @ e)) | Raised e \<Rightarrow> (h2, Inl e))"
      using True by (cases reply) (simp_all add: send_once_def tok req_def [symmetric] post h2_def Let_def)
    have "\<exists>ok err. r = Inr (ok, err) \<and> ok = delivered reply \<and> (h' = h2 \<or> h' = penalise env url h2)"
    proof (cases reply)
      case (Response code body)
      then show ?thesis using assms(2) send by (auto simp: delivered_def split: if_splits)
    next
      case (Raised e)
      then show ?thesis using assms(1) post unfolding never_raises_def by (metis fst_conv)
    qed (use assms(2) send in \<open>auto simp: delivered_def\<close>)
    then obtain ok err where "r = Inr (ok, err)" "ok = delivered reply" and h': "h' = h2 \<or> h' = penalise env url h2" by blast
    moreover have "same_tables h h'" "hk_posts h' = hk_posts h @ [(req, reply)]"
      using h' h2 penalise_frame [of h2 env url] same_tables_trans by auto
    ultimately show ?thesis using addr by (intro exI [of _ ok] exI [of _ err] exI [of _ "[(req, reply)]"]) auto
  qed
qed

text \<open>The attempts end delivered exactly if the last request was answered with a success, and there is at most one per wait.\<close>
lemma attempts_spec:
  assumes "never_raises env" "attempts env url secret ev p waits last_err h = (h', r)"
  shows "\<exists>out new. r = Inr out \<and> hk_posts h' = hk_posts h @ new \<and> length new \<le> length waits \<and> same_tables h h'
    \<and> (\<forall>(req, _) \<in> set new. addressed env url secret ev p req) \<and> (out = None \<longleftrightarrow> (\<exists>(_, reply) \<in> set new. delivered reply))"
  using assms(2)
proof (induction waits arbitrary: h last_err)
  case Nil
  then show ?case by (intro exI [of _ "Some last_err"] exI [of _ "[]"]) (simp add: same_tables_def)
next
  case (Cons wait waits)
  obtain h1 r1 where send: "send_once env url secret ev p h = (h1, r1)" by force
  obtain ok err new1 where r1: "r1 = Inr (ok, err)" and new1: "hk_posts h1 = hk_posts h @ new1" "length new1 \<le> 1" "same_tables h h1"
      "\<forall>(req, _) \<in> set new1. addressed env url secret ev p req" "ok \<longleftrightarrow> (\<exists>(_, reply) \<in> set new1. delivered reply)"
    using send_once_spec [OF assms(1) send] by blast
  show ?case
  proof (cases ok)
    case True
    then have "h' = h1" "r = Inr None" using Cons.prems send r1 by simp_all
    then show ?thesis using new1 True by (intro exI [of _ None] exI [of _ new1]) auto
  next
    case False
    define h2 where "h2 = (if waits = [] then h1 else h1\<lparr>hk_world := he_sleep env wait (hk_world h1)\<rparr>)"
    have h2: "hk_posts h2 = hk_posts h1" "same_tables h1 h2" by (simp_all add: h2_def same_tables_def)
    have "attempts env url secret ev p waits err h2 = (h', r)" using Cons.prems send r1 False by (simp add: h2_def)
    from Cons.IH [OF this] obtain out new2 where new2: "r = Inr out" "hk_posts h' = hk_posts h2 @ new2" "length new2 \<le> length waits" "same_tables h2 h'"
        "\<forall>(req, _) \<in> set new2. addressed env url secret ev p req" "out = None \<longleftrightarrow> (\<exists>(_, reply) \<in> set new2. delivered reply)"
      by blast
    have "same_tables h h'" using new1(3) h2(2) new2(4) same_tables_trans by blast
    then show ?thesis using new1 new2 h2(1) False by (intro exI [of _ out] exI [of _ "new1 @ new2"]) auto
  qed
qed

section \<open>Tables that keep their newest rows\<close>

lemma fold_max: "fold max xs (a :: nat) = Max (insert a (set xs))"
  using Max.set_eq_fold [of a xs] by simp

lemma max_id_insert: "auto_ok t \<Longrightarrow> max_id (fst (insert_row r t)) = seq t + 1"
proof -
  assume ok: "auto_ok t"
  have "Max (insert 0 (set (map fst (rows (fst (insert_row r t)))))) = seq t + 1"
    using ok by (intro Max_eqI) (auto simp: auto_ok_def insert_row_def Let_def)
  then show ?thesis by (simp only: max_id_def fold_max)
qed

lemma keep_newest_insert:
  assumes "auto_ok t"
  shows "rows (keep_newest_rows n (fst (insert_row r t))) = filter (\<lambda>(i, _). seq t + 1 \<le> i + n) (rows t) @ [(seq t + 1, r)]"
    "seq (keep_newest_rows n (fst (insert_row r t))) = seq t + 1" "auto_ok (keep_newest_rows n (fst (insert_row r t)))"
proof -
  have "(\<not> int i < int (seq t + 1) - int n) = (seq t + 1 \<le> i + n)" for i by linarith
  then show "rows (keep_newest_rows n (fst (insert_row r t))) = filter (\<lambda>(i, _). seq t + 1 \<le> i + n) (rows t) @ [(seq t + 1, r)]"
    unfolding keep_newest_rows_def max_id_insert [OF assms] delete_rows_def by (auto simp: insert_row_def Let_def case_prod_beta)
  show "seq (keep_newest_rows n (fst (insert_row r t))) = seq t + 1"
    by (simp add: keep_newest_rows_def delete_rows_def insert_row_def Let_def)
  show "auto_ok (keep_newest_rows n (fst (insert_row r t)))"
    unfolding keep_newest_rows_def using assms by blast
qed

text \<open>The rows lie within a window below the counter, so there are at most \<open>n + 1\<close> of them.\<close>
definition windowed :: "nat \<Rightarrow> 'r auto_table \<Rightarrow> bool" where
  "windowed n t = (auto_ok t \<and> (\<forall>p \<in> set (rows t). seq t \<le> fst p + n))"

lemma windowed_length: "windowed n t \<Longrightarrow> length (rows t) \<le> n + 1"
proof -
  assume w: "windowed n t"
  then have "fst ` set (rows t) \<subseteq> {seq t - n..seq t}" by (force simp: windowed_def auto_ok_def)
  then have "card (fst ` set (rows t)) \<le> card {seq t - n..seq t}" by (intro card_mono) auto
  also have "\<dots> \<le> n + 1" by simp
  finally show ?thesis using w distinct_card [of "map fst (rows t)"] by (simp add: windowed_def auto_ok_def)
qed

lemma windowed_insert: "auto_ok t \<Longrightarrow> windowed n (keep_newest_rows n (fst (insert_row r t)))"
  using keep_newest_insert [of t n r] by (auto simp: windowed_def)

lemma windowed_update: "windowed n t \<Longrightarrow> windowed n (update_rows P f t)"
  by (auto simp: windowed_def update_rows_def [of P f t]) (auto intro!: auto_ok_update [of t P f, unfolded update_rows_def])

lemma windowed_delete: "windowed n t \<Longrightarrow> windowed n (delete_rows P t)"
  by (auto simp: windowed_def) (auto simp: delete_rows_def)

lemma map_of_update_id: "map_of (rows (update_rows (\<lambda>i _. i = k) f t)) j = (if j = k then map_option f (map_of (rows t) j) else map_of (rows t) j)"
proof -
  have "map_of (map (\<lambda>(i, r). (i, if i = k then f r else r)) rs) j = (if j = k then map_option f (map_of rs j) else map_of rs j)" for rs :: "(nat \<times> 'a) list"
    by (induction rs) auto
  then show ?thesis by (simp add: update_rows_def)
qed

section \<open>What a round of the worker does\<close>

definition sub_ok :: "instant \<Rightarrow> webhook_sub \<Rightarrow> webhook_sub" where
  "sub_ok now s = s\<lparr>ws_last_ok_at := Some now, ws_last_error := [], ws_consec_failures := 0\<rparr>"

definition sub_failed :: "string \<Rightarrow> webhook_sub \<Rightarrow> webhook_sub" where
  "sub_failed err s = s\<lparr>ws_last_error := take 300 err, ws_consec_failures := ws_consec_failures s + 1\<rparr>"

text \<open>The event reached the subscriber, or it is a new row of the dead-letter table; its row tells which.\<close>
definition settled :: "('w, 'e) hook_env_scheme \<Rightarrow> string \<Rightarrow> payload \<Rightarrow> nat \<Rightarrow> (http_post \<times> post_reply) list \<Rightarrow> 'w hooks \<Rightarrow> nat \<times> webhook_sub \<Rightarrow> bool" where
  "settled env ev p old new h' sub =
     ((\<exists>(req, reply) \<in> set new. addressed env (ws_url (snd sub)) (ws_hmac_secret (snd sub)) ev p req \<and> delivered reply)
        \<and> (\<exists>now. find_sub (fst sub) h' = Some (sub_ok now (snd sub)))
      \<or> (\<exists>(k, r) \<in> set (rows (hk_dlq h')). old < k \<and> dq_sub_id r = fst sub \<and> dq_event_type r = ev \<and> dq_payload r = p)
        \<and> (\<exists>err. find_sub (fst sub) h' = Some (sub_failed err (snd sub))))"

text \<open>Between two states the dead-letter table got at most \<open>n\<close> rows and lost only rows far below its counter.\<close>
definition dlq_step :: "nat \<Rightarrow> 'w hooks \<Rightarrow> 'w hooks \<Rightarrow> bool" where
  "dlq_step n h h' =
     (auto_ok (hk_dlq h') \<and> seq (hk_dlq h) \<le> seq (hk_dlq h') \<and> seq (hk_dlq h') \<le> seq (hk_dlq h) + n
      \<and> (\<forall>q \<in> set (rows (hk_dlq h)). seq (hk_dlq h') \<le> fst q + 1000 \<longrightarrow> q \<in> set (rows (hk_dlq h'))))"

lemma dlq_step_trans: "dlq_step m h h1 \<Longrightarrow> dlq_step n h1 h2 \<Longrightarrow> dlq_step (m + n) h h2"
  by (fastforce simp: dlq_step_def)

lemma deliver_one_spec:
  assumes "never_raises env" "auto_ok (hk_dlq h)" "find_sub i h = Some s" "deliver_one env ev p (i, s) h = (h', e)"
  shows "\<exists>new. e = None \<and> hk_queue h' = hk_queue h \<and> dlq_step 1 h h' \<and> (\<forall>j. j \<noteq> i \<longrightarrow> find_sub j h' = find_sub j h)
    \<and> hk_posts h' = hk_posts h @ new \<and> length new \<le> 3 \<and> (\<forall>(req, _) \<in> set new. addressed env (ws_url s) (ws_hmac_secret s) ev p req)
    \<and> settled env ev p (seq (hk_dlq h)) new h' (i, s)"
proof -
  obtain h1 r where att: "attempts env (ws_url s) (ws_hmac_secret s) ev p BACKOFF [] h = (h1, r)" by force
  obtain out new where out: "r = Inr out" "hk_posts h1 = hk_posts h @ new" "length new \<le> length BACKOFF" "same_tables h h1"
      "\<forall>(req, _) \<in> set new. addressed env (ws_url s) (ws_hmac_secret s) ev p req" "out = None \<longleftrightarrow> (\<exists>(_, reply) \<in> set new. delivered reply)"
    using attempts_spec [OF assms(1) att] by blast
  have h1: "hk_subs h1 = hk_subs h" "hk_dlq h1 = hk_dlq h" "hk_queue h1 = hk_queue h" using out(4) by (simp_all add: same_tables_def)
  have len: "length new \<le> 3" using out(3) by (simp add: BACKOFF_def)
  show ?thesis
  proof (cases out)
    case None
    then have "h' = mark_ok (he_now env (hk_world h1)) i h1" "e = None" using assms(3,4) att out(1) by (simp_all add: deliver_one_def)
    then have h': "hk_posts h' = hk_posts h @ new" "hk_queue h' = hk_queue h" "hk_dlq h' = hk_dlq h"
        "\<And>j. find_sub j h' = (if j = i then Some (sub_ok (he_now env (hk_world h1)) s) else find_sub j h)"
      using h1 out(2) assms(3) by (simp_all add: mark_ok_def find_sub_def map_of_update_id sub_ok_def)
    have "dlq_step 1 h h'" using assms(2) h' by (simp add: dlq_step_def)
    moreover have "settled env ev p (seq (hk_dlq h)) new h' (i, s)"
      unfolding settled_def h'(4) using out(5,6) None by (fastforce intro: disjI1)
    ultimately show ?thesis using h' out(5) len \<open>e = None\<close> by (intro exI [of _ new]) auto
  next
    case (Some err)
    define row where "row = \<lparr>dq_sub_id = i, dq_event_type = ev, dq_payload = p, dq_last_error = take 300 err, dq_attempts = length BACKOFF,
          dq_first_seen_at = he_now env (hk_world h1), dq_last_attempt_at = he_now env (hk_world h1)\<rparr>"
    have "h' = mark_fail i err (push_dlq (he_now env (hk_world h1)) i ev p err h1)" "e = None"
      using assms(3,4) att out(1) Some by (simp_all add: deliver_one_def)
    then have h': "hk_posts h' = hk_posts h @ new" "hk_queue h' = hk_queue h" "hk_dlq h' = keep_newest_rows 1000 (fst (insert_row row (hk_dlq h)))"
        "\<And>j. find_sub j h' = (if j = i then Some (sub_failed err s) else find_sub j h)"
      using h1 out(2) assms(3) by (simp_all add: mark_fail_def push_dlq_def find_sub_def map_of_update_id sub_failed_def row_def)
    note kn = keep_newest_insert [OF assms(2), of 1000 row, folded h'(3)]
    have "dlq_step 1 h h'" using kn by (auto simp: dlq_step_def)
    moreover have "(seq (hk_dlq h) + 1, row) \<in> set (rows (hk_dlq h'))" using kn by simp
    then have "settled env ev p (seq (hk_dlq h)) new h' (i, s)"
      unfolding settled_def h'(4) by (intro disjI2 conjI bexI [of _ "(seq (hk_dlq h) + 1, row)"]) (simp_all add: row_def exI [of _ err])
    ultimately show ?thesis using h' out(5) len \<open>e = None\<close> by (intro exI [of _ new]) auto
  qed
qed

lemma settled_later:
  assumes "settled env ev p old new h1 sub" "find_sub (fst sub) h2 = find_sub (fst sub) h1" "dlq_step n h1 h2" "n + seq (hk_dlq h1) \<le> old + 1001"
  shows "settled env ev p old (new @ extra) h2 sub"
proof -
  have "q \<in> set (rows (hk_dlq h2))" if "q \<in> set (rows (hk_dlq h1))" "old < fst q" for q
    using assms(3,4) that by (auto simp: dlq_step_def)
  then show ?thesis using assms(1,2) unfolding settled_def by fastforce
qed

lemma settled_earlier: "settled env ev p old1 new h' sub \<Longrightarrow> old \<le> old1 \<Longrightarrow> settled env ev p old (before @ new) h' sub"
  unfolding settled_def by fastforce

text \<open>The loop over the subscribers: each of them is settled, and nobody else hears of the event.\<close>
lemma deliver_each_spec:
  assumes "never_raises env" "auto_ok (hk_dlq h)" "distinct (map fst subs)" "\<forall>(i, s) \<in> set subs. find_sub i h = Some s" "length subs \<le> 1001"
    and "deliver_each env ev p subs h = (h', e)"
  shows "\<exists>new. e = None \<and> hk_queue h' = hk_queue h \<and> dlq_step (length subs) h h' \<and> (\<forall>j. j \<notin> fst ` set subs \<longrightarrow> find_sub j h' = find_sub j h)
    \<and> hk_posts h' = hk_posts h @ new \<and> length new \<le> 3 * length subs
    \<and> (\<forall>(req, _) \<in> set new. \<exists>(i, s) \<in> set subs. addressed env (ws_url s) (ws_hmac_secret s) ev p req)
    \<and> (\<forall>sub \<in> set subs. settled env ev p (seq (hk_dlq h)) new h' sub)"
  using assms(2-)
proof (induction subs arbitrary: h)
  case Nil
  then show ?case by (auto simp: dlq_step_def intro: exI [of _ "[]"])
next
  case (Cons sub subs)
  obtain i s where sub: "sub = (i, s)" by force
  obtain h1 e1 where one: "deliver_one env ev p (i, s) h = (h1, e1)" by force
  have "find_sub i h = Some s" using Cons.prems(3) sub by auto
  from deliver_one_spec [OF assms(1) Cons.prems(1) this one] obtain new1 where
    o1: "e1 = None" "hk_queue h1 = hk_queue h" "dlq_step 1 h h1" "\<forall>j. j \<noteq> i \<longrightarrow> find_sub j h1 = find_sub j h" "hk_posts h1 = hk_posts h @ new1"
      "length new1 \<le> 3" "\<forall>(req, _) \<in> set new1. addressed env (ws_url s) (ws_hmac_secret s) ev p req" "settled env ev p (seq (hk_dlq h)) new1 h1 (i, s)"
    by blast
  have i: "i \<notin> fst ` set subs" using Cons.prems(2) sub by auto
  then have "\<forall>(j, t) \<in> set subs. find_sub j h1 = Some t" using Cons.prems(3) o1(4) by (fastforce simp: image_iff)
  moreover have "auto_ok (hk_dlq h1)" using o1(3) by (simp add: dlq_step_def)
  moreover have "deliver_each env ev p subs h1 = (h', e)" using Cons.prems(5) sub one o1(1) by simp
  ultimately obtain new2 where
    o2: "e = None" "hk_queue h' = hk_queue h1" "dlq_step (length subs) h1 h'" "\<forall>j. j \<notin> fst ` set subs \<longrightarrow> find_sub j h' = find_sub j h1"
      "hk_posts h' = hk_posts h1 @ new2" "length new2 \<le> 3 * length subs"
      "\<forall>(req, _) \<in> set new2. \<exists>(i, s) \<in> set subs. addressed env (ws_url s) (ws_hmac_secret s) ev p req"
      "\<forall>sub \<in> set subs. settled env ev p (seq (hk_dlq h1)) new2 h' sub"
    using Cons.IH [of h1] Cons.prems(2,4) by auto
  have step: "dlq_step (length (sub # subs)) h h'" using dlq_step_trans [OF o1(3) o2(3)] by simp
  have seqs: "seq (hk_dlq h) \<le> seq (hk_dlq h1)" "seq (hk_dlq h1) \<le> seq (hk_dlq h) + 1" using o1(3) by (simp_all add: dlq_step_def)
  have "settled env ev p (seq (hk_dlq h)) (new1 @ new2) h' (i, s)"
    using settled_later [OF o1(8) _ o2(3)] o2(4) i seqs Cons.prems(4) by auto
  moreover have "\<forall>sub \<in> set subs. settled env ev p (seq (hk_dlq h)) (new1 @ new2) h' sub"
    using o2(8) settled_earlier seqs(1) by blast
  ultimately have "\<forall>x \<in> set (sub # subs). settled env ev p (seq (hk_dlq h)) (new1 @ new2) h' x" using sub by simp
  moreover have "\<forall>(req, _) \<in> set (new1 @ new2). \<exists>(i, s) \<in> set (sub # subs). addressed env (ws_url s) (ws_hmac_secret s) ev p req"
    using o1(7) o2(7) sub by fastforce
  moreover have "\<forall>j. j \<notin> fst ` set (sub # subs) \<longrightarrow> find_sub j h' = find_sub j h" using o1(4) o2(4) sub by auto
  ultimately show ?case using step o1(2,5,6) o2(1,2,5,6) by (intro exI [of _ "new1 @ new2"]) simp
qed

lemma recipients_found:
  assumes "auto_ok t"
  shows "distinct (map fst (recipients ev t))" "(i, s) \<in> set (recipients ev t) \<longleftrightarrow> map_of (rows t) i = Some s \<and> ws_enabled s \<and> mask_match (ws_event_mask s) ev"
    "length (recipients ev t) \<le> length (rows t)"
proof -
  have d: "distinct (map fst (rows t))" using assms by (simp add: auto_ok_def)
  then have "distinct (map fst (list_subs t))" by (simp add: list_subs_def rev_map [symmetric])
  then show "distinct (map fst (recipients ev t))" unfolding recipients_def by (rule distinct_map_filter)
  show "(i, s) \<in> set (recipients ev t) \<longleftrightarrow> map_of (rows t) i = Some s \<and> ws_enabled s \<and> mask_match (ws_event_mask s) ev"
    using d by (auto simp: recipients_def list_subs_def map_of_eq_Some_iff)
  show "length (recipients ev t) \<le> length (rows t)" by (simp add: recipients_def list_subs_def) (metis length_filter_le length_rev)
qed

text \<open>(C25) No event is lost and none goes astray: when the worker takes an event from the queue, every enabled subscriber whose mask matches
  it was sent a request that the receiver's check accepts and that was answered with a success, or the event is a new entry of the dead-letter
  table for that subscriber; its row tells which of the two. All requests of the round go to such subscribers, at most three times as many as there are of them,
  and no other subscriber's row changes. This holds for up to 1001 subscribers, since the table keeps no more entries, and as long as
  \<open>requests.post\<close> raises no exception but its own.\<close>
theorem webhook_event_settled:
  assumes "never_raises env" "auto_ok (hk_subs h)" "auto_ok (hk_dlq h)" "length (rows (hk_subs h)) \<le> 1001"
    and "hk_queue h = (ev, p) # q" "h' = worker_step env h"
  shows "hk_queue h' = q \<and> (\<exists>new. hk_posts h' = hk_posts h @ new \<and> length new \<le> 3 * length (recipients ev (hk_subs h))
    \<and> (\<forall>(req, _) \<in> set new. \<exists>(i, s) \<in> set (recipients ev (hk_subs h)). addressed env (ws_url s) (ws_hmac_secret s) ev p req)
    \<and> (\<forall>i s. find_sub i h = Some s \<longrightarrow>
         (if ws_enabled s \<and> mask_match (ws_event_mask s) ev then settled env ev p (seq (hk_dlq h)) new h' (i, s) else find_sub i h' = Some s)))"
proof -
  let ?h = "h\<lparr>hk_queue := q\<rparr>" and ?subs = "recipients ev (hk_subs h)"
  note found = recipients_found [OF assms(2)]
  obtain e where each: "deliver_each env ev p ?subs ?h = (h', e)"
    using assms(5,6) by (cases "deliver_each env ev p ?subs ?h") (simp add: worker_step_def deliver_all_def)
  have fs: "\<And>i. find_sub i ?h = find_sub i h" by (simp add: find_sub_def)
  have rec: "\<forall>(i, s) \<in> set ?subs. find_sub i ?h = Some s" using found(2) by (auto simp: find_sub_def)
  have len: "length ?subs \<le> 1001" using found(3) [of ev] assms(4) by linarith
  have dlq: "auto_ok (hk_dlq ?h)" using assms(3) by simp
  from deliver_each_spec [OF assms(1) dlq found(1) rec len each] obtain new where
    spec: "hk_queue h' = q" "\<forall>j. j \<notin> fst ` set ?subs \<longrightarrow> find_sub j h' = find_sub j h" "hk_posts h' = hk_posts h @ new" "length new \<le> 3 * length ?subs"
      "\<forall>(req, _) \<in> set new. \<exists>(i, s) \<in> set ?subs. addressed env (ws_url s) (ws_hmac_secret s) ev p req"
      "\<forall>sub \<in> set ?subs. settled env ev p (seq (hk_dlq h)) new h' sub"
    by (auto simp: fs)
  have "if ws_enabled s \<and> mask_match (ws_event_mask s) ev then settled env ev p (seq (hk_dlq h)) new h' (i, s) else find_sub i h' = Some s"
    if s: "find_sub i h = Some s" for i s
  proof (cases "ws_enabled s \<and> mask_match (ws_event_mask s) ev")
    case True
    then have "(i, s) \<in> set ?subs" using s found(2) by (simp add: find_sub_def)
    then show ?thesis using True spec(6) by simp
  next
    case False
    then have "i \<notin> fst ` set ?subs" using s found(2) by (auto simp: find_sub_def)
    then show ?thesis unfolding if_not_P [OF False] using spec(2) s by simp
  qed
  then show ?thesis using spec(1,3,4,5) by blast
qed

definition demo_env :: "nat hook_env" where
  "demo_env = \<lparr>he_now = (\<lambda>w. int w * SECOND), he_sleep = (\<lambda>n w. w + n),
     he_post = (\<lambda>req w. (Response (if hp_url req = ''https://up'' then 200 else 503) ''busy'', w + 1)),
     he_host = Some, he_dumps = (\<lambda>ev p. ev), he_hmac = (\<lambda>secret msg. secret @ msg)\<rparr>"

definition demo_sub :: "string \<Rightarrow> webhook_sub" where
  "demo_sub url = \<lparr>ws_name = url, ws_url = url, ws_hmac_secret = ''k'', ws_event_mask = ''auth.*, decision.?reated'', ws_enabled = True,
     ws_created_at = 0, ws_last_ok_at = None, ws_last_error = [], ws_consec_failures = 0\<rparr>"

definition demo_hooks :: "nat hooks" where
  "demo_hooks = \<lparr>hk_subs = \<lparr>rows = [(1, demo_sub ''https://up''), (2, demo_sub ''https://down'')], seq = 2\<rparr>, hk_dlq = empty_table,
     hk_buckets = [], hk_settings = empty_store, hk_queue = [(''decision.created'', [])], hk_world = 1, hk_posts = []\<rparr>"

theorem webhook_event_settled_witness:
  "\<exists>new. hk_posts (worker_step demo_env demo_hooks) = new \<and> length new \<le> 6
    \<and> settled demo_env ''decision.created'' [] 0 new (worker_step demo_env demo_hooks) (1, demo_sub ''https://up'')
    \<and> settled demo_env ''decision.created'' [] 0 new (worker_step demo_env demo_hooks) (2, demo_sub ''https://down'')"
proof -
  have "never_raises demo_env" by (simp add: never_raises_def demo_env_def)
  moreover have "auto_ok (hk_subs demo_hooks)" "auto_ok (hk_dlq demo_hooks)" "length (rows (hk_subs demo_hooks)) \<le> 1001"
    by (simp_all add: demo_hooks_def auto_ok_def empty_table_def)
  moreover have "hk_queue demo_hooks = (''decision.created'', []) # []" by (simp add: demo_hooks_def)
  ultimately obtain new where new: "hk_posts (worker_step demo_env demo_hooks) = hk_posts demo_hooks @ new"
      "length new \<le> 3 * length (recipients ''decision.created'' (hk_subs demo_hooks))"
    "\<And>i s. find_sub i demo_hooks = Some s \<Longrightarrow>
         (if ws_enabled s \<and> mask_match (ws_event_mask s) ''decision.created''
          then settled demo_env ''decision.created'' [] (seq (hk_dlq demo_hooks)) new (worker_step demo_env demo_hooks) (i, s)
          else find_sub i (worker_step demo_env demo_hooks) = Some s)"
    using webhook_event_settled [of demo_env demo_hooks "''decision.created''" "[]" "[]"] by blast
  have subs: "find_sub 1 demo_hooks = Some (demo_sub ''https://up'')" "find_sub 2 demo_hooks = Some (demo_sub ''https://down'')"
    by (simp_all add: demo_hooks_def find_sub_def)
  have mask: "ws_enabled (demo_sub u) \<and> mask_match (ws_event_mask (demo_sub u)) ''decision.created''" for u
    unfolding demo_sub_def by code_simp
  have "length (recipients ''decision.created'' (hk_subs demo_hooks)) = 2" by code_simp
  moreover have "seq (hk_dlq demo_hooks) = 0" "hk_posts demo_hooks = []" by (simp_all add: demo_hooks_def empty_table_def)
  ultimately show ?thesis using new(1,2) new(3) [OF subs(1)] new(3) [OF subs(2)] mask by (intro exI [of _ new]) simp
qed

section \<open>The tables over any run\<close>

datatype hook_op =
    Emit_op string payload
  | Work_op
  | Add_op instant string string string string "string option"
  | Delete_op nat
  | Toggle_op nat bool
  | Replay_op nat

fun run_hook_op :: "('w, 'e) hook_env_scheme \<Rightarrow> hook_op \<Rightarrow> 'w hooks \<Rightarrow> 'w hooks" where
  "run_hook_op env (Emit_op ev p) h = emit_event ev p h"
| "run_hook_op env Work_op h = worker_step env h"
| "run_hook_op env (Add_op now fresh name url m secret) h = fst (add_sub now fresh name url m secret h)"
| "run_hook_op env (Delete_op i) h = delete_sub i h"
| "run_hook_op env (Toggle_op i b) h = toggle_sub i b h"
| "run_hook_op env (Replay_op i) h = fst (replay_dlq env i h)"

text \<open>Names are unique, dead letters belong to subscribers and are within the window, and the queue is bounded.\<close>
definition hooks_ok :: "'w hooks \<Rightarrow> bool" where
  "hooks_ok h =
     (auto_ok (hk_subs h) \<and> distinct (map (ws_name \<circ> snd) (rows (hk_subs h))) \<and> windowed 1000 (hk_dlq h)
      \<and> (\<forall>r \<in> set (contents (hk_dlq h)). dq_sub_id r \<in> fst ` set (rows (hk_subs h))) \<and> length (hk_queue h) \<le> HOOK_QUEUE_MAX)"

lemma send_once_frame: "send_once env url secret ev p h = (h', r) \<Longrightarrow> same_tables h h'"
proof -
  assume send: "send_once env url secret ev p h = (h', r)"
  obtain h1 got where tok: "take_token env url h = (h1, got)" by force
  obtain reply w where post: "he_post env (signed_post env (he_now env (hk_world h1)) url secret ev p) (hk_world h1) = (reply, w)" by force
  define h2 where "h2 = h1\<lparr>hk_world := w, hk_posts := hk_posts h1 @ [(signed_post env (he_now env (hk_world h1)) url secret ev p, reply)]\<rparr>"
  have "h' = h1 \<or> h' = h2 \<or> h' = penalise env url h2"
    using send tok post by (cases reply) (auto simp: send_once_def h2_def Let_def split: if_splits)
  moreover have "same_tables h h1" "same_tables h h2" using take_token_frame [OF tok] by (simp_all add: h2_def same_tables_def)
  ultimately show ?thesis using penalise_frame [of h2 env url] same_tables_trans by blast
qed

lemma attempts_frame: "attempts env url secret ev p waits err h = (h', r) \<Longrightarrow> same_tables h h'"
proof (induction waits arbitrary: h err)
  case (Cons wait waits)
  obtain h1 r1 where send: "send_once env url secret ev p h = (h1, r1)" by force
  note h1 = send_once_frame [OF send]
  let ?h2 = "if waits = [] then h1 else h1\<lparr>hk_world := he_sleep env wait (hk_world h1)\<rparr>"
  have "same_tables h ?h2" using h1 by (simp add: same_tables_def)
  moreover have "h' = h1 \<or> (\<exists>err1. attempts env url secret ev p waits err1 ?h2 = (h', r))"
    using Cons.prems send by (auto split: sum.splits prod.splits if_splits)
  ultimately show ?case using Cons.IH [of _ ?h2] h1 same_tables_trans by blast
qed (simp add: same_tables_def)

lemma hooks_ok_same: "hooks_ok h \<Longrightarrow> same_tables h h' \<Longrightarrow> hooks_ok h'"
  by (simp add: hooks_ok_def same_tables_def)

lemma hooks_ok_update_subs:
  fixes f :: "webhook_sub \<Rightarrow> webhook_sub"
  assumes "hooks_ok h" "\<And>s. ws_name (f s) = ws_name s"
  shows "hooks_ok (h\<lparr>hk_subs := update_rows P f (hk_subs h)\<rparr>)"
proof -
  have "fst ` set (rows (update_rows P f (hk_subs h))) = fst ` set (rows (hk_subs h))"
    using map_fst_update [of P f "hk_subs h"] by (metis set_map)
  moreover have "map (ws_name \<circ> snd) (rows (update_rows P f (hk_subs h))) = map (ws_name \<circ> snd) (rows (hk_subs h))"
    using assms(2) by (simp add: update_rows_def case_prod_beta)
  moreover have "auto_ok (update_rows P f (hk_subs h))" using assms(1) by (intro auto_ok_update) (simp add: hooks_ok_def)
  ultimately show ?thesis using assms(1) by (simp add: hooks_ok_def del: comp_apply)
qed

lemma hooks_ok_push:
  assumes "hooks_ok h" "i \<in> fst ` set (rows (hk_subs h))"
  shows "hooks_ok (push_dlq now i ev p err h)"
proof -
  have ok: "auto_ok (hk_dlq h)" using assms(1) by (simp add: hooks_ok_def windowed_def)
  show ?thesis using assms windowed_insert [OF ok] keep_newest_insert(1) [OF ok]
    by (auto simp: hooks_ok_def push_dlq_def contents_def)
qed

lemma find_sub_id: "find_sub i h = Some s \<Longrightarrow> i \<in> fst ` set (rows (hk_subs h))"
  unfolding find_sub_def by (force dest: map_of_SomeD)

lemma hooks_ok_deliver_one: "hooks_ok h \<Longrightarrow> deliver_one env ev p sub h = (h', e) \<Longrightarrow> hooks_ok h'"
proof (cases "find_sub (fst sub) h")
  case (Some row)
  assume ok: "hooks_ok h" and one: "deliver_one env ev p sub h = (h', e)"
  obtain h1 r where att: "attempts env (ws_url (snd sub)) (ws_hmac_secret row) ev p BACKOFF [] h = (h1, r)" by force
  note same = attempts_frame [OF att]
  have ok1: "hooks_ok h1" using hooks_ok_same [OF ok same] .
  have "fst sub \<in> fst ` set (rows (hk_subs h1))" using find_sub_id [OF Some] same by (simp add: same_tables_def)
  then have push: "hooks_ok (push_dlq now (fst sub) ev p err h1)" for now err using hooks_ok_push [OF ok1] by blast
  consider x where "r = Inl x" | "r = Inr None" | err where "r = Inr (Some err)" by (metis old.sum.exhaust option.exhaust)
  then show ?thesis
  proof cases
    case 1
    then show ?thesis using one att Some ok1 by (simp add: deliver_one_def)
  next
    case 2
    then show ?thesis using one att Some hooks_ok_update_subs [OF ok1] by (auto simp: deliver_one_def mark_ok_def)
  next
    case 3
    then have "h' = mark_fail (fst sub) err (push_dlq (he_now env (hk_world h1)) (fst sub) ev p err h1)"
      using one att Some by (simp add: deliver_one_def)
    then show ?thesis unfolding mark_fail_def using hooks_ok_update_subs [OF push] by simp
  qed
qed (simp add: deliver_one_def)

lemma hooks_ok_deliver_each: "hooks_ok h \<Longrightarrow> deliver_each env ev p subs h = (h', e) \<Longrightarrow> hooks_ok h'"
proof (induction subs arbitrary: h)
  case (Cons sub subs)
  obtain h1 e1 where one: "deliver_one env ev p sub h = (h1, e1)" by force
  have "hooks_ok h1" using hooks_ok_deliver_one [OF Cons.prems(1) one] .
  then show ?case using Cons.IH [of h1] Cons.prems(2) one by (cases e1) auto
qed simp

lemma hooks_ok_worker: "hooks_ok h \<Longrightarrow> hooks_ok (worker_step env h)"
proof (cases "hk_queue h")
  case (Cons evp q)
  assume ok: "hooks_ok h"
  let ?h = "h\<lparr>hk_queue := q\<rparr>"
  have "hooks_ok ?h" using ok Cons by (simp add: hooks_ok_def)
  then have "hooks_ok (fst (deliver_each env (fst evp) (snd evp) (recipients (fst evp) (hk_subs h)) ?h))"
    using hooks_ok_deliver_each by (metis prod.collapse)
  then show ?thesis by (simp add: worker_step_def Cons deliver_all_def case_prod_beta)
qed (simp add: worker_step_def)

lemma hooks_ok_add: "hooks_ok h \<Longrightarrow> hooks_ok (fst (add_sub now fresh name url m secret h))"
proof -
  assume ok: "hooks_ok h"
  define row where "row = \<lparr>ws_name = name, ws_url = url, ws_hmac_secret = str_or secret fresh, ws_event_mask = m, ws_enabled = True,
                                ws_created_at = now, ws_last_ok_at = None, ws_last_error = [], ws_consec_failures = 0\<rparr>"
  obtain t i where row: "insert_row row (hk_subs h) = (t, i)" "ws_name row = name" by (metis prod.exhaust row_def webhook_sub.select_convs(1))
  have add: "fst (add_sub now fresh name url m secret h) = h
       \<or> \<not> (\<exists>p \<in> set (rows (hk_subs h)). ws_name (snd p) = name) \<and> fst (add_sub now fresh name url m secret h) = h\<lparr>hk_subs := t\<rparr>"
    unfolding add_sub_def Let_def row_def [symmetric] row(1) by (simp split: if_split)
  have t: "rows t = rows (hk_subs h) @ [(i, row)]" "auto_ok t"
    using row(1) auto_ok_insert [of "hk_subs h" row] ok by (auto simp: insert_row_def Let_def hooks_ok_def)
  show ?thesis using add ok t row(2) by (fastforce simp: hooks_ok_def)
qed

lemma hooks_ok_delete: "hooks_ok h \<Longrightarrow> hooks_ok (delete_sub i h)"
proof -
  assume ok: "hooks_ok h"
  have "distinct (map (ws_name \<circ> snd) (rows (delete_rows (\<lambda>j _. j = i) (hk_subs h))))"
    using ok by (simp add: hooks_ok_def delete_rows_def distinct_map_filter)
  moreover have "dq_sub_id r \<in> fst ` set (rows (delete_rows (\<lambda>j _. j = i) (hk_subs h)))"
    if "r \<in> set (contents (delete_rows (\<lambda>_ r. dq_sub_id r = i) (hk_dlq h)))" for r
  proof -
    have "r \<in> set (contents (hk_dlq h))" "dq_sub_id r \<noteq> i" using that by (auto simp: contents_delete)
    then obtain p where "p \<in> set (rows (hk_subs h))" "fst p = dq_sub_id r" using ok by (force simp: hooks_ok_def)
    then show ?thesis using \<open>dq_sub_id r \<noteq> i\<close> by (force simp: delete_rows_def)
  qed
  ultimately show ?thesis using ok by (simp add: hooks_ok_def delete_sub_def windowed_delete auto_ok_delete)
qed

lemma hooks_ok_dlq_update:
  assumes "hooks_ok h" "\<And>r. dq_sub_id (f r) = dq_sub_id r"
  shows "hooks_ok (h\<lparr>hk_dlq := update_rows P f (hk_dlq h)\<rparr>)"
proof -
  have "map dq_sub_id (contents (update_rows P f (hk_dlq h))) = map dq_sub_id (contents (hk_dlq h))"
    using assms(2) by (rule map_contents_update)
  then have "dq_sub_id ` set (contents (update_rows P f (hk_dlq h))) = dq_sub_id ` set (contents (hk_dlq h))" by (metis set_map)
  then have "\<forall>r \<in> set (contents (update_rows P f (hk_dlq h))). dq_sub_id r \<in> fst ` set (rows (hk_subs h))"
    using assms(1) unfolding hooks_ok_def by (metis (no_types, lifting) image_iff)
  then show ?thesis using assms(1) by (simp add: hooks_ok_def windowed_update)
qed

lemma hooks_ok_replay: "hooks_ok h \<Longrightarrow> hooks_ok (fst (replay_dlq env i h))"
proof -
  assume ok: "hooks_ok h"
  show ?thesis
  proof (cases "\<exists>row s. map_of (rows (hk_dlq h)) i = Some row \<and> find_sub (dq_sub_id row) h = Some s \<and> ws_url s \<noteq> []")
    case True
    then obtain row s where rs: "map_of (rows (hk_dlq h)) i = Some row" "find_sub (dq_sub_id row) h = Some s" "ws_url s \<noteq> []" by blast
    obtain h1 r where send: "send_once env (ws_url s) (ws_hmac_secret s) (dq_event_type row) (dq_payload row) h = (h1, r)" by force
    have ok1: "hooks_ok h1" using hooks_ok_same [OF ok send_once_frame [OF send]] .
    have del: "hooks_ok (h1\<lparr>hk_dlq := delete_rows (\<lambda>j _. j = i) (hk_dlq h1)\<rparr>)"
      using ok1 windowed_delete by (auto simp: hooks_ok_def contents_def delete_rows_def)
    show ?thesis using rs send ok1 del hooks_ok_dlq_update [OF ok1]
      by (cases r) (auto simp: replay_dlq_def split: prod.splits)
  next
    case False
    then have "fst (replay_dlq env i h) = h" by (auto simp: replay_dlq_def split: option.splits)
    then show ?thesis using ok by simp
  qed
qed

text \<open>The delivery tables stay in order over any run of events, worker rounds and operator actions, whatever the receivers and the HTTP
  library do: names of subscribers are unique, every dead letter belongs to an existing subscriber, so that it can be replayed, the queue holds
  at most 10000 events and the dead-letter table at most 1001 rows.\<close>
theorem webhook_tables_bounded:
  assumes "hooks_ok h"
  shows "hooks_ok (fold (run_hook_op env) ops h) \<and> length (rows (hk_dlq (fold (run_hook_op env) ops h))) \<le> 1001
    \<and> length (hk_queue (fold (run_hook_op env) ops h)) \<le> 10000"
proof -
  have step: "hooks_ok (run_hook_op env op h)" if "hooks_ok h" for op and h :: "'a hooks"
  proof (cases op)
    case (Emit_op ev p)
    then show ?thesis using that by (auto simp: emit_event_def hooks_ok_def)
  next
    case (Toggle_op i b)
    then show ?thesis using hooks_ok_update_subs [OF that] by (simp add: toggle_sub_def)
  qed (use that in \<open>simp_all add: hooks_ok_worker hooks_ok_add hooks_ok_delete hooks_ok_replay\<close>)
  have ok: "hooks_ok (fold (run_hook_op env) ops h)" using assms by (induction ops arbitrary: h) (simp_all add: step)
  moreover have "windowed 1000 (hk_dlq (fold (run_hook_op env) ops h))" using ok by (simp add: hooks_ok_def)
  ultimately show ?thesis using windowed_length by (fastforce simp: hooks_ok_def HOOK_QUEUE_MAX_def)
qed

theorem webhook_tables_bounded_witness:
  "hooks_ok (fold (run_hook_op demo_env) [Work_op, Delete_op 1, Replay_op 1] demo_hooks)"
proof -
  have "hooks_ok demo_hooks"
    by (simp add: hooks_ok_def demo_hooks_def demo_sub_def auto_ok_def windowed_def empty_table_def HOOK_QUEUE_MAX_def contents_def)
  then show ?thesis using webhook_tables_bounded by blast
qed

text \<open>The bound is reached: the comment on the table speaks of the newest 1000.\<close>
lemma dlq_keeps_1001:
  "length (rows (hk_dlq ((push_dlq now i ev p err ^^ n) (demo_hooks\<lparr>hk_dlq := empty_table\<rparr>)))) = min n 1001"
proof -
  define h where "h n = (push_dlq now i ev p err ^^ n) (demo_hooks\<lparr>hk_dlq := empty_table\<rparr>)" for n
  have step: "h (Suc n) = push_dlq now i ev p err (h n)" for n by (simp add: h_def)
  have ids: "auto_ok (hk_dlq (h n)) \<and> seq (hk_dlq (h n)) = n \<and> fst ` set (rows (hk_dlq (h n))) = {j. 1 \<le> j \<and> j \<le> n \<and> n \<le> j + 1000}" for n
  proof (induction n)
    case 0
    have "hk_dlq (h 0) = empty_table" by (simp add: h_def)
    moreover have "{j :: nat. 1 \<le> j \<and> j \<le> 0 \<and> 0 \<le> j + 1000} = {}" by auto
    ultimately show ?case by (simp only: auto_ok_def) (simp add: empty_table_def)
  next
    case (Suc n)
    then have ok: "auto_ok (hk_dlq (h n))" by blast
    define row where "row = \<lparr>dq_sub_id = i, dq_event_type = ev, dq_payload = p, dq_last_error = take 300 err, dq_attempts = length BACKOFF,
          dq_first_seen_at = now, dq_last_attempt_at = now\<rparr>"
    have dlq: "hk_dlq (h (Suc n)) = keep_newest_rows 1000 (fst (insert_row row (hk_dlq (h n))))" by (simp add: step push_dlq_def row_def)
    note kn = keep_newest_insert [OF ok, of 1000 row, folded dlq]
    have "seq (hk_dlq (h n)) = n" using Suc by blast
    then have "fst ` set (rows (hk_dlq (h (Suc n)))) = {j \<in> fst ` set (rows (hk_dlq (h n))). n + 1 \<le> j + 1000} \<union> {n + 1}"
      unfolding kn(1) by (auto simp: image_iff case_prod_beta)
    also have "\<dots> = {j \<in> {j. 1 \<le> j \<and> j \<le> n \<and> n \<le> j + 1000}. n + 1 \<le> j + 1000} \<union> {n + 1}" using Suc by simp
    also have "\<dots> = {j. 1 \<le> j \<and> j \<le> Suc n \<and> Suc n \<le> j + 1000}"
      by (rule set_eqI) (simp only: Un_iff mem_Collect_eq singleton_iff, linarith)
    finally show ?case using Suc kn(2,3) by simp
  qed
  have "{j. 1 \<le> j \<and> j \<le> n \<and> n \<le> j + 1000} = {n - 1001 + 1..n}"
    by (rule set_eqI) (simp only: mem_Collect_eq atLeastAtMost_iff, linarith)
  then have "card (fst ` set (rows (hk_dlq (h n)))) = min n 1001" using ids [of n] by simp
  moreover have "distinct (map fst (rows (hk_dlq (h n))))" using ids [of n] by (simp add: auto_ok_def)
  ultimately have "length (rows (hk_dlq (h n))) = min n 1001" using distinct_card [of "map fst (rows (hk_dlq (h n)))"] by simp
  then show ?thesis by (simp add: h_def)
qed

section \<open>The queue of events\<close>

fun hook_offered :: "hook_op \<Rightarrow> 'w hooks \<Rightarrow> (string \<times> payload) list" where
  "hook_offered (Emit_op ev p) h = [(ev, p)]"
| "hook_offered _ h = []"

fun hook_taken :: "hook_op \<Rightarrow> 'w hooks \<Rightarrow> (string \<times> payload) list" where
  "hook_taken Work_op h = take 1 (hk_queue h)"
| "hook_taken _ h = []"

fun hook_dropped :: "hook_op \<Rightarrow> 'w hooks \<Rightarrow> nat" where
  "hook_dropped (Emit_op ev p) h = (if length (hk_queue h) < HOOK_QUEUE_MAX then 0 else 1)"
| "hook_dropped _ h = 0"

lemma deliver_one_queue: "deliver_one env ev p sub h = (h', e) \<Longrightarrow> hk_queue h' = hk_queue h"
proof (cases "find_sub (fst sub) h")
  case (Some row)
  assume one: "deliver_one env ev p sub h = (h', e)"
  obtain h1 r where att: "attempts env (ws_url (snd sub)) (ws_hmac_secret row) ev p BACKOFF [] h = (h1, r)" by force
  have "hk_queue h1 = hk_queue h" using attempts_frame [OF att] by (simp add: same_tables_def)
  then show ?thesis using one att Some
    by (auto simp: deliver_one_def mark_ok_def mark_fail_def push_dlq_def split: sum.splits option.splits)
qed (simp add: deliver_one_def)

lemma deliver_each_queue: "deliver_each env ev p subs h = (h', e) \<Longrightarrow> hk_queue h' = hk_queue h"
proof (induction subs arbitrary: h)
  case (Cons sub subs)
  obtain h1 e1 where one: "deliver_one env ev p sub h = (h1, e1)" by force
  then show ?case using Cons deliver_one_queue [OF one] by (cases e1) auto
qed simp

lemma worker_step_queue: "hk_queue (worker_step env h) = tl (hk_queue h)"
proof (cases "hk_queue h")
  case (Cons evp q)
  obtain h' e where each: "deliver_each env (fst evp) (snd evp) (recipients (fst evp) (hk_subs h)) (h\<lparr>hk_queue := q\<rparr>) = (h', e)" by force
  then show ?thesis using deliver_each_queue [OF each] Cons by (simp add: worker_step_def deliver_all_def case_prod_beta)
qed (simp add: worker_step_def)

lemma replay_queue: "hk_queue (fst (replay_dlq env i h)) = hk_queue h"
proof -
  have "hk_queue (fst (send_once env url secret ev p h)) = hk_queue h" for url secret ev p
    using send_once_frame [of env url secret ev p h] by (metis prod.collapse same_tables_def)
  then show ?thesis by (auto simp: replay_dlq_def split: option.splits prod.splits sum.splits) (metis fst_conv)+
qed

lemma run_hook_op_queue:
  "hk_queue (run_hook_op env op h) = (case op of
     Emit_op ev p \<Rightarrow> hk_queue h @ (if length (hk_queue h) < HOOK_QUEUE_MAX then [(ev, p)] else [])
   | Work_op \<Rightarrow> tl (hk_queue h) | _ \<Rightarrow> hk_queue h)"
  by (cases op) (auto simp: emit_event_def worker_step_queue replay_queue delete_sub_def toggle_sub_def add_sub_def Let_def split: prod.splits)

interpretation hook_queue: lossy_queue hk_queue "run_hook_op env" hook_offered hook_taken hook_dropped for env
proof
  fix op and h :: "'a hooks"
  have head: "take 1 xs @ tl xs = xs" for xs :: "(string \<times> payload) list" by (cases xs) simp_all
  show "subseq (hook_taken op h @ hk_queue (run_hook_op env op h)) (hk_queue h @ hook_offered op h)"
    unfolding run_hook_op_queue by (cases op) (simp_all add: head [simplified] subseq_rev_drop_many)
  show "length (hk_queue h) + length (hook_offered op h) =
      length (hook_taken op h) + length (hk_queue (run_hook_op env op h)) + hook_dropped op h"
    unfolding run_hook_op_queue by (cases op) (auto split: if_splits)
qed

end
