(* ===== verification/Siem.thy ===== *)
theory Siem
  imports Webhooks_Out Federation Iso_Time
begin

text \<open>
  The event pipeline (\<open>siem.py\<close>): the journal, the bounded queue that drops its oldest event, the worker that hands
  each event to every configured forwarder and stamps the journal, the replay, and the module's \<open>ship\<close>, which feeds the outbound
  webhooks as well. Outside lie, in the record \<open>siem_env\<close>, the clock, the environment (read again for every event), the
  name of the host and the process, the JSON texts, the sockets and the HTTP exchange. The JSON column of the journal is kept as
  the payload itself. The forwarders are built anew for each event, so no socket survives from one event to the next.
\<close>

section \<open>Events and forwarders\<close>

definition SEV_INFO :: int where "SEV_INFO = 6"

definition EVENT_SEVERITY :: "(string \<times> int) list" where
  "EVENT_SEVERITY =
    [(''decision.created'', 5), (''decision.deleted'', 6), (''sync.error'', 3), (''sync.threshold'', 4), (''auth.failure'', 4),
     (''auth.success'', 6), (''auth.locked'', 1), (''source.down'', 3), (''source.up'', 6), (''mt.unreachable'', 3), (''mt.recovered'', 6),
     (''bouncer.error'', 3), (''settings.changed'', 5)]"

record siem_row =
  sj_created_at :: instant
  sj_event_type :: string
  sj_severity :: int
  sj_payload :: payload
  sj_shipped_at :: "instant option"
  sj_ship_error :: string

text \<open>A syslog target has a host, a port, a protocol and a facility; a webhook a URL and a token.\<close>
datatype forwarder = Syslog string int string int | Webhook string string

text \<open>What a transmission over a socket ends in: sent, an \<open>OSError\<close>, or another exception, each with its text.\<close>
datatype send_io = Sent | Os_error string | Other_error string

record 'w siem_env =
  sv_now :: "'w \<Rightarrow> instant"
  sv_environ :: "'w \<Rightarrow> environment"
  sv_hostname :: string
  sv_pid :: nat
  sv_dumps :: "payload \<Rightarrow> string"
  sv_hec :: "instant \<Rightarrow> string \<Rightarrow> int \<Rightarrow> payload \<Rightarrow> string"
  sv_transmit :: "string \<Rightarrow> string \<Rightarrow> int \<Rightarrow> string \<Rightarrow> 'w \<Rightarrow> send_io \<times> 'w"
  sv_post :: "http_post \<Rightarrow> 'w \<Rightarrow> post_reply \<times> 'w"

text \<open>\<open>_active_forwarders\<close>.\<close>
definition active_forwarders :: "environment \<Rightarrow> forwarder list" where
  "active_forwarders environ =
     (let syslog_host = envstr environ ''SYSLOG_HOST'' []; webhook_url = envstr environ ''SIEM_WEBHOOK_URL'' []
      in (if syslog_host = [] then []
          else [Syslog syslog_host (envint environ ''SYSLOG_PORT'' 514) (envstr environ ''SYSLOG_PROTO'' ''udp'')
                (envint environ ''SYSLOG_FACILITY'' 16)])
       @ (if webhook_url = [] then [] else [Webhook webhook_url (envstr environ ''SIEM_WEBHOOK_TOKEN'' [])]))"

definition forwarder_name :: "forwarder \<Rightarrow> string" where
  "forwarder_name fw = (case fw of Syslog _ _ _ _ \<Rightarrow> ''syslog'' | Webhook _ _ \<Rightarrow> ''webhook'')"

text \<open>\<open>strftime("%Y-%m-%dT%H:%M:%S.%fZ")\<close>.\<close>
definition syslog_stamp :: "instant \<Rightarrow> string" where
  "syslog_stamp t =
     (let secs = t div SECOND; us = nat (t mod SECOND); tod = nat (secs mod 86400);
          (y, m, d) = ymd_of_ordinal (nat (secs div 86400 + EPOCH))
      in pad 4 y @ ''-'' @ pad 2 m @ ''-'' @ pad 2 d @ ''T'' @ pad 2 (tod div 3600) @ '':'' @ pad 2 (tod div 60 mod 60)
         @ '':'' @ pad 2 (tod mod 60) @ ''.'' @ pad 6 us @ ''Z'')"

definition SD_KEYS :: "string list" where
  "SD_KEYS = [''ip'', ''scenario'', ''origin'', ''source'', ''actor'', ''bouncer'']"

definition DQUOTE :: char where "DQUOTE = CHR 0x22"

text \<open>The structured-data block: a double quote in a value becomes a single one, nothing else is escaped.\<close>
definition sd_pair :: "payload \<Rightarrow> string \<Rightarrow> string list" where
  "sd_pair p k =
     (case map_of p k of
        Some (Some v) \<Rightarrow> if v = [] then [] else [k @ ''='' @ [DQUOTE] @ py_replace_char DQUOTE (CHR 0x27) v @ [DQUOTE]]
      | _ \<Rightarrow> [])"

definition structured_data :: "payload \<Rightarrow> string" where
  "structured_data p =
     (let pairs = concat (map (sd_pair p) SD_KEYS)
      in if pairs = [] then ''-'' else ''[protek@53595 '' @ py_join '' '' pairs @ '']'')"

definition syslog_line :: "('w, 'e) siem_env_scheme \<Rightarrow> int \<Rightarrow> instant \<Rightarrow> string \<Rightarrow> int \<Rightarrow> payload \<Rightarrow> string" where
  "syslog_line env facility now event_type severity p =
     ''<'' @ py_str_int (facility * 8 + severity) @ ''>1 '' @ syslog_stamp now @ '' '' @ str_or (Some (sv_hostname env)) ''-'' @ '' protek ''
     @ py_str_nat (sv_pid env) @ '' '' @ py_replace_char (CHR '' '') (CHR ''_'') event_type @ '' '' @ structured_data p @ '' '' @ sv_dumps env p"

text \<open>The number of bytes of the UTF-8 encoding.\<close>
definition utf8_length :: "string \<Rightarrow> nat" where
  "utf8_length s = sum_list (map (\<lambda>c. if code_point c < 128 then 1 else 2) s)"

text \<open>\<open>SyslogForwarder.send\<close>: TCP messages are prefixed with their length, and one \<open>OSError\<close> is forgiven; \<open>None\<close> means sent,
  else the text of the exception.\<close>
definition syslog_send :: "('w, 'e) siem_env_scheme \<Rightarrow> string \<Rightarrow> int \<Rightarrow> string \<Rightarrow> int \<Rightarrow> string \<Rightarrow> int \<Rightarrow> payload \<Rightarrow> 'w \<Rightarrow> string option \<times> 'w" where
  "syslog_send env host port proto facility event_type severity p w =
     (let proto = py_lower (if proto = [] then ''udp'' else proto);
          line = syslog_line env facility (sv_now env w) event_type severity p;
          data = (if proto = ''tcp'' then py_str_nat (utf8_length line) @ '' '' @ line else line)
      in case sv_transmit env proto host port data w of
           (Sent, w) \<Rightarrow> (None, w)
         | (Other_error e, w) \<Rightarrow> (Some e, w)
         | (Os_error _, w) \<Rightarrow>
             (case sv_transmit env proto host port data w of
                (Sent, w) \<Rightarrow> (None, w) | (Os_error e, w) \<Rightarrow> (Some e, w) | (Other_error e, w) \<Rightarrow> (Some e, w)))"

text \<open>\<open>WebhookForwarder.send\<close>; \<open>sv_hec\<close> is the JSON body with the time, the host, the event and its severity.\<close>
definition webhook_send :: "('w, 'e) siem_env_scheme \<Rightarrow> string \<Rightarrow> string \<Rightarrow> string \<Rightarrow> int \<Rightarrow> payload \<Rightarrow> 'w \<Rightarrow> string option \<times> 'w" where
  "webhook_send env url token event_type severity p w =
     (case sv_post env \<lparr>hp_url = url,
              hp_headers = (''Content-Type'', ''application/json'') # (if token = [] then [] else [(''Authorization'', ''Bearer '' @ token)]),
              hp_body = sv_hec env (sv_now env w) event_type severity p\<rparr> w of
        (Response code body, w) \<Rightarrow> (if 400 \<le> code then Some (''webhook HTTP '' @ py_str_int code @ '': '' @ take 200 body) else None, w)
      | (Request_failed e, w) \<Rightarrow> (Some e, w)
      | (Raised e, w) \<Rightarrow> (Some (exn_str e), w))"

definition forward :: "('w, 'e) siem_env_scheme \<Rightarrow> forwarder \<Rightarrow> string \<Rightarrow> int \<Rightarrow> payload \<Rightarrow> 'w \<Rightarrow> string option \<times> 'w" where
  "forward env fw event_type severity p w =
     (case fw of
        Syslog host port proto facility \<Rightarrow> syslog_send env host port proto facility event_type severity p w
      | Webhook url token \<Rightarrow> webhook_send env url token event_type severity p w)"

section \<open>Journal, queue and worker\<close>

type_synonym siem_item = "nat \<times> string \<times> int \<times> payload"

definition QUEUE_MAX :: nat where "QUEUE_MAX = 10000"

record 'w siem =
  sm_journal :: "siem_row auto_table"
  sm_q :: "siem_item list"
  sm_dropped :: nat
  sm_world :: 'w

text \<open>The entry at the back of the queue; a full queue loses the one at its front.\<close>
definition push_item :: "siem_item \<Rightarrow> 'w siem \<Rightarrow> 'w siem" where
  "push_item x s =
     (if QUEUE_MAX \<le> length (sm_q s) then s\<lparr>sm_q := tl (sm_q s) @ [x], sm_dropped := sm_dropped s + 1\<rparr>
      else s\<lparr>sm_q := sm_q s @ [x]\<rparr>)"

text \<open>What became of the two statements on the journal: both done, only the insert, none.\<close>
datatype journal_io = Journaled | Not_pruned | Not_journaled

text \<open>\<open>SIEMQueue.ship\<close>.\<close>
definition queue_ship :: "journal_io \<Rightarrow> instant \<Rightarrow> string \<Rightarrow> payload \<Rightarrow> int option \<Rightarrow> 'w siem \<Rightarrow> 'w siem \<times> nat option" where
  "queue_ship jio now event_type p severity s =
     (let sev = (case severity of Some n \<Rightarrow> n | None \<Rightarrow> (case map_of EVENT_SEVERITY event_type of Some n \<Rightarrow> n | None \<Rightarrow> SEV_INFO));
          (journal, row_id) =
            (if jio \<noteq> Not_journaled
             then (case insert_row \<lparr>sj_created_at = now, sj_event_type = event_type, sj_severity = sev, sj_payload = p,
                                    sj_shipped_at = None, sj_ship_error = []\<rparr> (sm_journal s) of
                     (t, i) \<Rightarrow> (if jio = Journaled then keep_newest_rows 10000 t else t, Some i))
             else (sm_journal s, None))
      in (push_item (case row_id of Some i \<Rightarrow> i | None \<Rightarrow> 0, event_type, sev, p) (s\<lparr>sm_journal := journal\<rparr>), row_id))"

text \<open>\<open>replay\<close>: the last rows again, the oldest first; a severity of 0 counts as missing.\<close>
definition replay_items :: "nat \<Rightarrow> 'w siem \<Rightarrow> siem_item list" where
  "replay_items n s =
     map (\<lambda>(i, r). (i, sj_event_type r, if sj_severity r = 0 then SEV_INFO else sj_severity r, sj_payload r))
       (rev (take n (rev (rows (sm_journal s)))))"

definition replay :: "nat \<Rightarrow> 'w siem \<Rightarrow> 'w siem \<times> nat" where
  "replay n s = (fold push_item (replay_items n s) s, length (replay_items n s))"

text \<open>\<open>_dispatch\<close>: every forwarder is tried, and the row is stamped whatever came of it.\<close>
fun forward_each :: "('w, 'e) siem_env_scheme \<Rightarrow> forwarder list \<Rightarrow> string \<Rightarrow> int \<Rightarrow> payload \<Rightarrow> 'w \<Rightarrow> string list \<times> 'w" where
  "forward_each env [] event_type severity p w = ([], w)"
| "forward_each env (fw # fws) event_type severity p w =
     (case forward env fw event_type severity p w of
        (res, w) \<Rightarrow>
          (case forward_each env fws event_type severity p w of
             (errors, w) \<Rightarrow> ((case res of None \<Rightarrow> [] | Some e \<Rightarrow> [forwarder_name fw @ '': '' @ e]) @ errors, w)))"

definition dispatch :: "('w, 'e) siem_env_scheme \<Rightarrow> bool \<Rightarrow> siem_item \<Rightarrow> 'w siem \<Rightarrow> 'w siem" where
  "dispatch env journal_ok item s =
     (case item of (row_id, event_type, severity, p) \<Rightarrow>
        let forwarders = active_forwarders (sv_environ env (sm_world s))
        in if forwarders = [] then s
           else case forward_each env forwarders event_type severity p (sm_world s) of
                  (errors, w) \<Rightarrow>
                    (let s = s\<lparr>sm_world := w\<rparr>
                     in if row_id \<noteq> 0 \<and> journal_ok
                        then s\<lparr>sm_journal := update_rows (\<lambda>i _. i = row_id)
                                 (\<lambda>r. r\<lparr>sj_shipped_at := Some (sv_now env w), sj_ship_error := take 300 (py_join ''; '' errors)\<rparr>) (sm_journal s)\<rparr>
                        else s))"

text \<open>One round of the worker's loop.\<close>
definition siem_work :: "('w, 'e) siem_env_scheme \<Rightarrow> bool \<Rightarrow> 'w siem \<Rightarrow> 'w siem" where
  "siem_work env journal_ok s = (case sm_q s of [] \<Rightarrow> s | item # q \<Rightarrow> dispatch env journal_ok item (s\<lparr>sm_q := q\<rparr>))"

text \<open>\<open>stats\<close>: queued, the bound, lost, and whether a forwarder is configured.\<close>
definition siem_stats :: "('w, 'e) siem_env_scheme \<Rightarrow> 'w siem \<Rightarrow> nat \<times> nat \<times> nat \<times> bool" where
  "siem_stats env s = (length (sm_q s), QUEUE_MAX, sm_dropped s, active_forwarders (sv_environ env (sm_world s)) \<noteq> [])"

text \<open>The module's \<open>ship\<close>: both pipelines get the event.\<close>
definition siem_ship :: "journal_io \<Rightarrow> instant \<Rightarrow> string \<Rightarrow> payload \<Rightarrow> int option \<Rightarrow> 'w siem \<times> 'v hooks \<Rightarrow> 'w siem \<times> 'v hooks" where
  "siem_ship jio now event_type p severity sh =
     (fst (queue_ship jio now event_type p severity (fst sh)), emit_event event_type p (snd sh))"

section \<open>The queue\<close>

datatype siem_op =
    Ship_op journal_io instant string payload "int option"
  | Replay_journal_op nat
  | Dispatch_op bool

fun run_siem_op :: "('w, 'e) siem_env_scheme \<Rightarrow> siem_op \<Rightarrow> 'w siem \<Rightarrow> 'w siem" where
  "run_siem_op env (Ship_op ok now ev p sev) s = fst (queue_ship ok now ev p sev s)"
| "run_siem_op env (Replay_journal_op n) s = fst (replay n s)"
| "run_siem_op env (Dispatch_op ok) s = siem_work env ok s"

definition shipped_item :: "journal_io \<Rightarrow> string \<Rightarrow> payload \<Rightarrow> int option \<Rightarrow> 'w siem \<Rightarrow> siem_item" where
  "shipped_item jio event_type p severity s =
     (if jio \<noteq> Not_journaled then seq (sm_journal s) + 1 else 0, event_type,
      case severity of Some n \<Rightarrow> n | None \<Rightarrow> (case map_of EVENT_SEVERITY event_type of Some n \<Rightarrow> n | None \<Rightarrow> SEV_INFO), p)"

fun siem_offered :: "siem_op \<Rightarrow> 'w siem \<Rightarrow> siem_item list" where
  "siem_offered (Ship_op ok now ev p sev) s = [shipped_item ok ev p sev s]"
| "siem_offered (Replay_journal_op n) s = replay_items n s"
| "siem_offered (Dispatch_op ok) s = []"

fun siem_taken :: "siem_op \<Rightarrow> 'w siem \<Rightarrow> siem_item list" where
  "siem_taken (Dispatch_op ok) s = take 1 (sm_q s)"
| "siem_taken _ s = []"

definition siem_lost :: "('w, 'e) siem_env_scheme \<Rightarrow> siem_op \<Rightarrow> 'w siem \<Rightarrow> nat" where
  "siem_lost env op s = sm_dropped (run_siem_op env op s) - sm_dropped s"

text \<open>What one step does to the queue and the counter of the lost events.\<close>
definition queue_step :: "siem_item list \<Rightarrow> siem_item list \<Rightarrow> 'w siem \<Rightarrow> 'w siem \<Rightarrow> bool" where
  "queue_step offered taken s s' =
     (subseq (taken @ sm_q s') (sm_q s @ offered) \<and> sm_dropped s \<le> sm_dropped s'
      \<and> length (sm_q s) + length offered = length taken + length (sm_q s') + (sm_dropped s' - sm_dropped s)
      \<and> (length (sm_q s) \<le> QUEUE_MAX \<longrightarrow> length (sm_q s') \<le> QUEUE_MAX)
      \<and> (length (sm_q s) + length offered \<le> QUEUE_MAX \<longrightarrow> sm_dropped s' = sm_dropped s))"

lemma queue_stepD:
  assumes "queue_step offered taken s s'"
  shows "subseq (taken @ sm_q s') (sm_q s @ offered)" "sm_dropped s \<le> sm_dropped s'"
    "length (sm_q s) + length offered = length taken + length (sm_q s') + (sm_dropped s' - sm_dropped s)"
    "length (sm_q s) \<le> QUEUE_MAX \<Longrightarrow> length (sm_q s') \<le> QUEUE_MAX"
    "length (sm_q s) + length offered \<le> QUEUE_MAX \<Longrightarrow> sm_dropped s' = sm_dropped s"
  using assms unfolding queue_step_def by blast+

lemma queue_step_push: "queue_step [x] [] s (push_item x s)"
proof (cases "sm_q s")
  case Nil
  then show ?thesis by (simp add: queue_step_def push_item_def QUEUE_MAX_def)
next
  case (Cons y q)
  then have "subseq (q @ [x]) (sm_q s @ [x])" by (simp add: list_emb_Cons)
  then show ?thesis using Cons by (auto simp: queue_step_def push_item_def)
qed

lemma queue_step_trans: "queue_step xs [] s s1 \<Longrightarrow> queue_step ys [] s1 s2 \<Longrightarrow> queue_step (xs @ ys) [] s s2"
proof -
  assume a: "queue_step xs [] s s1" and b: "queue_step ys [] s1 s2"
  have q: "subseq (sm_q s1) (sm_q s @ xs)" "subseq (sm_q s2) (sm_q s1 @ ys)" using queue_stepD(1) [OF a] queue_stepD(1) [OF b] by simp_all
  have "subseq (sm_q s1 @ ys) ((sm_q s @ xs) @ ys)" using q(1) by (rule list_emb_append_mono) (rule subseq_order.order_refl)
  with q(2) have "subseq (sm_q s2) ((sm_q s @ xs) @ ys)" by (rule subseq_order.order_trans)
  moreover note da = queue_stepD(2,3) [OF a] and db = queue_stepD(2,3) [OF b]
  moreover have "length (sm_q s) + length (xs @ ys) = length (sm_q s2) + (sm_dropped s2 - sm_dropped s)"
    using da db unfolding length_append list.size by linarith
  moreover have "sm_dropped s2 = sm_dropped s" if "length (sm_q s) + length (xs @ ys) \<le> QUEUE_MAX"
  proof -
    have "sm_dropped s1 = sm_dropped s" using that by (intro queue_stepD(5) [OF a]) simp
    moreover have "sm_dropped s2 = sm_dropped s1" using that da(2) unfolding length_append by (intro queue_stepD(5) [OF b]) linarith
    ultimately show ?thesis by simp
  qed
  moreover have "sm_dropped s \<le> sm_dropped s2" using da db by linarith
  ultimately show ?thesis unfolding queue_step_def append_assoc append_Nil list.size add_0
    using queue_stepD(4) [OF a] queue_stepD(4) [OF b] by blast
qed

lemma queue_step_pushes: "queue_step xs [] s (fold push_item xs s)"
proof (induction xs arbitrary: s)
  case Nil
  then show ?case by (simp add: queue_step_def)
next
  case (Cons x xs)
  then show ?case using queue_step_trans [OF queue_step_push Cons] by simp
qed

lemma dispatch_queue: "sm_q (dispatch env ok item s) = sm_q s \<and> sm_dropped (dispatch env ok item s) = sm_dropped s"
  by (auto simp: dispatch_def Let_def split: prod.splits)

lemma queue_ship_push: "\<exists>j. fst (queue_ship ok now ev p sev s) = push_item (shipped_item ok ev p sev s) (s\<lparr>sm_journal := j\<rparr>)"
proof (cases "ok \<noteq> Not_journaled")
  case True
  then show ?thesis by (intro exI [of _ "(if ok = Journaled then keep_newest_rows 10000 else id) (fst (insert_row \<lparr>sj_created_at = now, sj_event_type = ev,
      sj_severity = fst (snd (snd (shipped_item ok ev p sev s))), sj_payload = p, sj_shipped_at = None, sj_ship_error = []\<rparr> (sm_journal s)))"])
    (simp add: queue_ship_def shipped_item_def insert_row_def Let_def)
next
  case False
  then show ?thesis by (intro exI [of _ "sm_journal s"]) (simp add: queue_ship_def shipped_item_def)
qed

lemma queue_step_journal: "queue_step xs ys (s\<lparr>sm_journal := j\<rparr>) s' = queue_step xs ys s s'"
  by (simp add: queue_step_def)

lemma queue_step_run: "queue_step (siem_offered op s) (siem_taken op s) s (run_siem_op env op s)"
proof (cases op)
  case (Ship_op ok now ev p sev)
  obtain j where "fst (queue_ship ok now ev p sev s) = push_item (shipped_item ok ev p sev s) (s\<lparr>sm_journal := j\<rparr>)"
    using queue_ship_push [of ok now ev p sev s] by (elim exE)
  then show ?thesis using queue_step_push [of "shipped_item ok ev p sev s" "s\<lparr>sm_journal := j\<rparr>", unfolded queue_step_journal]
    by (simp only: Ship_op run_siem_op.simps siem_offered.simps siem_taken.simps)
next
  case (Replay_journal_op n)
  then show ?thesis using queue_step_pushes [of "replay_items n s" s] by (simp add: replay_def)
next
  case (Dispatch_op ok)
  show ?thesis
  proof (cases "sm_q s")
    case (Cons x q)
    then have "sm_q (run_siem_op env op s) = q" "sm_dropped (run_siem_op env op s) = sm_dropped s" "siem_taken op s = [x]" "siem_offered op s = []"
      by (simp_all add: Dispatch_op siem_work_def dispatch_queue)
    then show ?thesis unfolding queue_step_def Cons by simp
  qed (simp add: Dispatch_op siem_work_def queue_step_def)
qed

interpretation siem_queue: lossy_queue sm_q "run_siem_op env" siem_offered siem_taken "siem_lost env" for env
proof
  fix op and s :: "'a siem"
  note step = queue_step_run [of op s env]
  show "subseq (siem_taken op s @ sm_q (run_siem_op env op s)) (sm_q s @ siem_offered op s)" by (rule queue_stepD(1) [OF step])
  show "length (sm_q s) + length (siem_offered op s) = length (siem_taken op s) + length (sm_q (run_siem_op env op s)) + siem_lost env op s"
    unfolding siem_lost_def by (rule queue_stepD(3) [OF step])
qed

lemma dropped_run: "sm_dropped (run_steps (run_siem_op env) ops s) = sm_dropped s + run_sum (run_siem_op env) (siem_lost env) ops s"
proof (induction ops arbitrary: s)
  case (Cons op ops)
  have "sm_dropped (run_siem_op env op s) = sm_dropped s + siem_lost env op s"
    using queue_stepD(2) [OF queue_step_run [of op s env]] by (simp add: siem_lost_def)
  then show ?case using Cons by simp
qed simp

lemma queue_bounded_run: "length (sm_q s) \<le> QUEUE_MAX \<Longrightarrow> length (sm_q (run_steps (run_siem_op env) ops s)) \<le> QUEUE_MAX"
proof (induction ops arbitrary: s)
  case (Cons op ops)
  then show ?case using queue_stepD(4) [OF queue_step_run [of op s env]] by simp
qed simp

text \<open>While what waits and what is added fit into the queue nothing is lost.\<close>
lemma lost_run:
  "length (sm_q s) + length (run_collect (run_siem_op env) siem_offered ops s) \<le> QUEUE_MAX \<Longrightarrow> run_sum (run_siem_op env) (siem_lost env) ops s = 0"
proof (induction ops arbitrary: s)
  case (Cons op ops)
  have "siem_lost env op s = 0" using queue_stepD(5) [OF queue_step_run [of op s env]] Cons.prems by (simp add: siem_lost_def)
  moreover have "length (sm_q (run_siem_op env op s)) \<le> length (sm_q s) + length (siem_offered op s)"
    using siem_queue.counted [of s op env] by simp
  ultimately show ?case using Cons by simp
qed simp

text \<open>(C26) The event queue is an honest one: over any run of shipped events, replays and worker rounds, the worker gets events in the order they
  were shipped, none twice and none invented; every event is handed to the worker, still waiting, or counted in the statistics as lost, and at most
  10000 wait; and if never more than 10000 were to wait, then exactly what was shipped is handed over, in order, up to what still waits.\<close>
theorem siem_queue_accounts_for_events:
  assumes "length (sm_q s) \<le> QUEUE_MAX" "s' = run_steps (run_siem_op env) ops s"
    and "given = sm_q s @ run_collect (run_siem_op env) siem_offered ops s" "got = run_collect (run_siem_op env) siem_taken ops s"
  shows "subseq (got @ sm_q s') given \<and> length given = length got + length (sm_q s') + (sm_dropped s' - sm_dropped s)
    \<and> length (sm_q s') \<le> 10000 \<and> (length given \<le> 10000 \<longrightarrow> got @ sm_q s' = given)"
proof -
  have lost: "sm_dropped s' - sm_dropped s = run_sum (run_siem_op env) (siem_lost env) ops s" using dropped_run [of env ops s] by (simp add: assms(2))
  have "length given = length got + length (sm_q s') + (sm_dropped s' - sm_dropped s)"
    unfolding assms(3,4) lost unfolding assms(2) using siem_queue.run_counted [of s env ops] by simp
  moreover have "subseq (got @ sm_q s') given" unfolding assms(2-4) by (rule siem_queue.run_in_order)
  moreover have "length (sm_q s') \<le> 10000" using queue_bounded_run [OF assms(1), of env ops] by (simp add: assms(2) QUEUE_MAX_def)
  moreover have "got @ sm_q s' = given" if "length given \<le> 10000"
    using siem_queue.run_exact [OF lost_run [of s env ops]] that by (simp add: assms(2-4) QUEUE_MAX_def)
  ultimately show ?thesis by blast
qed

definition sample_siem_env :: "unit siem_env" where
  "sample_siem_env = \<lparr>sv_now = (\<lambda>_. 7), sv_environ = (\<lambda>_ k. if k = ''SYSLOG_HOST'' then Some ''logs'' else None), sv_hostname = ''fw'', sv_pid = 1,
     sv_dumps = (\<lambda>_. ''{}''), sv_hec = (\<lambda>_ _ _ _. ''{}''), sv_transmit = (\<lambda>_ _ _ _ w. (Os_error ''refused'', w)),
     sv_post = (\<lambda>_ w. (Response 200 [], w))\<rparr>"

definition empty_siem :: "unit siem" where
  "empty_siem = \<lparr>sm_journal = empty_table, sm_q = [], sm_dropped = 0, sm_world = ()\<rparr>"

theorem siem_queue_accounts_for_events_witness:
  "\<exists>got. got @ sm_q (run_steps (run_siem_op sample_siem_env) [Ship_op Journaled 5 ''source.up'' [] None, Ship_op Not_journaled 6 ''x'' [] None, Dispatch_op True] empty_siem)
      = [(1, ''source.up'', 6, []), (0, ''x'', 6, [])]"
proof -
  let ?ops = "[Ship_op Journaled 5 ''source.up'' [] None, Ship_op Not_journaled 6 ''x'' [] None, Dispatch_op True]"
  have given: "sm_q empty_siem @ run_collect (run_siem_op sample_siem_env) siem_offered ?ops empty_siem = [(1, ''source.up'', 6, []), (0, ''x'', 6, [])]"
    by code_simp
  have "length (sm_q empty_siem) \<le> QUEUE_MAX" by (simp add: empty_siem_def)
  from siem_queue_accounts_for_events [OF this refl refl refl, of sample_siem_env ?ops, unfolded given] show ?thesis by auto
qed

section \<open>The stamp in the journal\<close>

text \<open>A round of the worker stamps the row of its event, and no other, whatever the forwarders answered; the errors of all forwarders
  are kept.\<close>
lemma dispatch_stamps:
  assumes "active_forwarders (sv_environ env (sm_world s)) \<noteq> []" "i \<noteq> 0"
    and "forward_each env (active_forwarders (sv_environ env (sm_world s))) ev sev p (sm_world s) = (errors, w)"
  shows "map_of (rows (sm_journal (dispatch env True (i, ev, sev, p) s))) j =
    (if j = i then map_option (\<lambda>r. r\<lparr>sj_shipped_at := Some (sv_now env w), sj_ship_error := take 300 (py_join ''; '' errors)\<rparr>) (map_of (rows (sm_journal s)) j)
     else map_of (rows (sm_journal s)) j)"
  using assms by (simp add: dispatch_def map_of_update_id)

text \<open>So an event that no forwarder could deliver is stamped as shipped, too.\<close>
lemma undelivered_event_stamped_as_shipped:
  "map sj_shipped_at (contents (sm_journal (run_steps (run_siem_op sample_siem_env) [Ship_op Journaled 5 ''auth.locked'' [] None, Dispatch_op True] empty_siem))) = [Some 7]
   \<and> map sj_ship_error (contents (sm_journal (run_steps (run_siem_op sample_siem_env) [Ship_op Journaled 5 ''auth.locked'' [] None, Dispatch_op True] empty_siem))) = [''syslog: refused'']"
  by code_simp

text \<open>A bracket in a value ends the structured data early, since only double quotes are replaced.\<close>
lemma bracket_not_escaped:
  "structured_data [(''scenario'', Some ''a] b'')] = ''[protek@53595 scenario='' @ [DQUOTE] @ ''a] b'' @ [DQUOTE] @ '']''"
  by code_simp

end
