(* ===== verification/Retention.thy ===== *)
theory Retention
  imports Store "HOL-Library.Code_Target_Nat"
begin

text \<open>
  Retention (\<open>retention.py\<close>): the row caps of the two append-only tables, enforced by batched
  deletes under a time budget. The monotonic clock is a function from the number of the reading to
  its value, so that the loop's exits are exact. Errors of SQLite itself, which end a sweep with
  status \<open>error\<close>, are outside the model.
\<close>

section \<open>The sweep\<close>

definition DEFAULT_DECISIONS_TOMBSTONE_CAP :: int where "DEFAULT_DECISIONS_TOMBSTONE_CAP = 500000"
definition DEFAULT_MT_PUSHES_CAP :: int where "DEFAULT_MT_PUSHES_CAP = 500000"
definition DEFAULT_BATCH :: int where "DEFAULT_BATCH = 5000"
definition DEFAULT_MAX_SECONDS :: int where "DEFAULT_MAX_SECONDS = 15"

definition setting_int :: "store \<Rightarrow> string \<Rightarrow> int \<Rightarrow> int" where
  "setting_int db key default_value =
     (case get_setting key db of
        None \<Rightarrow> default_value
      | Some raw \<Rightarrow> if raw = [] then default_value
                    else case py_int raw of Some n \<Rightarrow> max 0 n | None \<Rightarrow> default_value)"

text \<open>The ids of the rows a condition selects, in ascending order.\<close>
definition ids_where :: "(nat \<Rightarrow> 'r \<Rightarrow> bool) \<Rightarrow> 'r auto_table \<Rightarrow> nat list" where
  "ids_where P t = sort (map fst (select_rows P t))"

text \<open>SQL's \<open>LIMIT n\<close>: a negative limit is none.\<close>
definition sql_limit :: "int \<Rightarrow> 'a list \<Rightarrow> 'a list" where
  "sql_limit n xs = (if n < 0 then xs else take (nat n) xs)"

definition cutoff_id :: "(nat \<Rightarrow> 'r \<Rightarrow> bool) \<Rightarrow> int \<Rightarrow> 'r auto_table \<Rightarrow> nat option" where
  "cutoff_id P cap t =
     (let ids = drop (nat cap) (rev (ids_where P t)) in case ids of [] \<Rightarrow> None | i # _ \<Rightarrow> Some i)"

definition delete_batch :: "(nat \<Rightarrow> 'r \<Rightarrow> bool) \<Rightarrow> int \<Rightarrow> 'r auto_table \<Rightarrow> 'r auto_table" where
  "delete_batch P batch t = (let ids = sql_limit batch (ids_where P t) in delete_rows (\<lambda>i _. i \<in> set ids) t)"

text \<open>The number of rows a statement deleted.\<close>
definition rowcount :: "'r auto_table \<Rightarrow> 'r auto_table \<Rightarrow> nat" where
  "rowcount t t' = length (rows t) - length (rows t')"

lemma delete_rows_le: "length (rows (delete_rows P t)) \<le> length (rows t)"
  by (simp add: delete_rows_def)

text \<open>\<open>_drain\<close>: the table, the number of removed rows and the next clock reading.\<close>
function drain :: "(nat \<Rightarrow> 'r \<Rightarrow> bool) \<Rightarrow> int \<Rightarrow> rat \<Rightarrow> (nat \<Rightarrow> rat) \<Rightarrow> nat \<Rightarrow> 'r auto_table \<Rightarrow> nat \<Rightarrow> 'r auto_table \<times> nat \<times> nat" where
  "drain P batch deadline clock n t removed =
     (if clock n < deadline
      then (let t' = delete_batch P batch t
            in if rowcount t t' = 0 then (t', removed, n + 1)
               else drain P batch deadline clock (n + 1) t' (removed + rowcount t t'))
      else (t, removed, n + 1))"
  by pat_completeness auto
termination
  by (relation "measure (\<lambda>(_, _, _, _, _, t, _). length (rows t))") (auto simp: rowcount_def)

declare drain.simps [simp del]

record prune_report =
  pr_status :: string
  pr_decisions :: nat
  pr_mt_pushes :: nat
  pr_truncated :: bool

text \<open>What \<open>_drain\<close> deletes: tombstones up to the cutoff no pending approval names.\<close>
definition pending_decision_ids :: "store \<Rightarrow> int set" where
  "pending_decision_ids db =
     {i. \<exists>r \<in> set (contents (approval_queue db)). aq_status r = Q_pending \<and> aq_decision_id r = Some i}"

lemma pending_decision_ids_code [code]:
  "pending_decision_ids db = set (List.map_filter
     (\<lambda>r. if aq_status r = Q_pending then aq_decision_id r else None) (contents (approval_queue db)))"
  by (force simp: pending_decision_ids_def List.map_filter_def split: if_splits)

definition tombstone_prunable :: "store \<Rightarrow> nat \<Rightarrow> nat \<Rightarrow> decision_row \<Rightarrow> bool" where
  "tombstone_prunable db cutoff i r =
     (dr_deleted_at r \<noteq> None \<and> i \<le> cutoff \<and> int i \<notin> pending_decision_ids db)"

definition is_tombstone :: "nat \<Rightarrow> decision_row \<Rightarrow> bool" where
  "is_tombstone i r = (dr_deleted_at r \<noteq> None)"

definition up_to :: "nat \<Rightarrow> nat \<Rightarrow> 'r \<Rightarrow> bool" where "up_to cutoff i r = (i \<le> cutoff)"
definition any_row :: "nat \<Rightarrow> 'r \<Rightarrow> bool" where "any_row i r = True"

definition retention_enabled :: "store \<Rightarrow> bool" where
  "retention_enabled db = (str_or (get_setting ''retention.enabled'' db) ''1'' = ''1'')"

definition prune :: "(nat \<Rightarrow> rat) \<Rightarrow> int option \<Rightarrow> int option \<Rightarrow> store \<Rightarrow> store \<times> prune_report" where
  "prune clock max_seconds batch db =
     (if \<not> retention_enabled db
      then (db, \<lparr>pr_status = ''disabled'', pr_decisions = 0, pr_mt_pushes = 0, pr_truncated = False\<rparr>)
      else
        let budget = (case max_seconds of Some n \<Rightarrow> n | None \<Rightarrow> setting_int db ''retention.max_seconds'' DEFAULT_MAX_SECONDS);
            size = (case batch of Some n \<Rightarrow> n | None \<Rightarrow> setting_int db ''retention.batch_size'' DEFAULT_BATCH);
            dec_cap = setting_int db ''retention.decisions_tombstone_cap'' DEFAULT_DECISIONS_TOMBSTONE_CAP;
            mt_cap = setting_int db ''retention.mt_pushes_cap'' DEFAULT_MT_PUSHES_CAP;
            deadline = clock 0 + of_int budget;
            (dt, dn, n) = (case cutoff_id is_tombstone dec_cap (decisions db) of
                None \<Rightarrow> (decisions db, 0, 1)
              | Some c \<Rightarrow> drain (tombstone_prunable db c) size deadline clock 1 (decisions db) 0);
            (mt, mn, n) = (case cutoff_id any_row mt_cap (mt_pushes db) of
                None \<Rightarrow> (mt_pushes db, 0, n)
              | Some c \<Rightarrow> drain (up_to c) size deadline clock n (mt_pushes db) 0)
        in (db\<lparr>decisions := dt, mt_pushes := mt\<rparr>,
            \<lparr>pr_status = ''ok'', pr_decisions = dn, pr_mt_pushes = mn, pr_truncated = (deadline \<le> clock n)\<rparr>))"

record retention_status =
  rt_decisions_active :: nat
  rt_decisions_tombstones :: nat
  rt_decisions_tombstone_cap :: int
  rt_mt_pushes :: nat
  rt_mt_pushes_cap :: int
  rt_enabled :: bool

definition retention_status_of :: "store \<Rightarrow> retention_status" where
  "retention_status_of db =
     \<lparr>rt_decisions_active = count_rows (\<lambda>_ r. dr_deleted_at r = None) (decisions db),
      rt_decisions_tombstones = count_rows is_tombstone (decisions db),
      rt_decisions_tombstone_cap = setting_int db ''retention.decisions_tombstone_cap'' DEFAULT_DECISIONS_TOMBSTONE_CAP,
      rt_mt_pushes = count_rows any_row (mt_pushes db),
      rt_mt_pushes_cap = setting_int db ''retention.mt_pushes_cap'' DEFAULT_MT_PUSHES_CAP,
      rt_enabled = retention_enabled db\<rparr>"

section \<open>The batched delete\<close>

lemma set_ids_where: "set (ids_where P t) = {i. \<exists>r. (i, r) \<in> set (rows t) \<and> P i r}"
  by (auto simp: ids_where_def select_rows_def image_iff)

lemma rows_delete_batch:
  "rows (delete_batch P batch t) = filter (\<lambda>(i, _). i \<notin> set (sql_limit batch (ids_where P t))) (rows t)"
  by (simp add: delete_batch_def Let_def delete_rows_def)

lemma sql_limit_subset: "set (sql_limit n xs) \<subseteq> set xs"
  by (auto simp: sql_limit_def dest: in_set_takeD)

text \<open>A batch deletes only what the condition selects.\<close>
lemma delete_batch_keeps:
  assumes "distinct (map fst (rows t))" and "(i, r) \<in> set (rows t)" and "\<not> P i r"
  shows "(i, r) \<in> set (rows (delete_batch P batch t))"
proof -
  have "i \<notin> set (ids_where P t)"
    using assms by (auto simp: set_ids_where dest: eq_key_imp_eq_value)
  then show ?thesis using assms(2) sql_limit_subset by (fastforce simp: rows_delete_batch)
qed

lemma delete_batch_subset: "set (rows (delete_batch P batch t)) \<subseteq> set (rows t)"
  by (auto simp: rows_delete_batch)

lemma delete_batch_distinct: "distinct (map fst (rows t)) \<Longrightarrow> distinct (map fst (rows (delete_batch P batch t)))"
  by (simp add: rows_delete_batch distinct_map_filter)

text \<open>If a batch deletes nothing, nothing was left to delete.\<close>
lemma delete_batch_stuck:
  assumes "rowcount t (delete_batch P batch t) = 0" and "batch \<noteq> 0"
  shows "ids_where P t = []"
proof (rule ccontr)
  assume "ids_where P t \<noteq> []"
  then obtain i xs where i: "ids_where P t = i # xs" by (cases "ids_where P t") auto
  then have s: "i \<in> set (sql_limit batch (ids_where P t))" using assms(2) by (cases "nat batch") (auto simp: sql_limit_def)
  obtain r where r: "(i, r) \<in> set (rows t)" using i set_ids_where [of P t] by auto
  have "length (rows (delete_batch P batch t)) < length (rows t)"
    unfolding rows_delete_batch by (rule length_filter_less [OF r]) (use s in simp)
  then show False using assms(1) by (simp add: rowcount_def)
qed

lemma drain_invariants:
  assumes "drain P batch deadline clock n t removed = (t', removed', n')" and "distinct (map fst (rows t))"
  shows "set (rows t') \<subseteq> set (rows t) \<and> distinct (map fst (rows t'))
    \<and> (\<forall>(i, r) \<in> set (rows t). \<not> P i r \<longrightarrow> (i, r) \<in> set (rows t'))
    \<and> removed' + length (rows t') = removed + length (rows t) \<and> n < n' \<and> seq t' = seq t"
  using assms
proof (induction P batch deadline clock n t removed arbitrary: t' removed' n' rule: drain.induct)
  case (1 P batch deadline clock n t removed)
  let ?t = "delete_batch P batch t"
  have step: "set (rows ?t) \<subseteq> set (rows t)" "distinct (map fst (rows ?t))"
    "\<forall>(i, r) \<in> set (rows t). \<not> P i r \<longrightarrow> (i, r) \<in> set (rows ?t)"
    "length (rows ?t) + rowcount t ?t = length (rows t)" "seq ?t = seq t"
    subgoal by (rule delete_batch_subset)
    subgoal by (rule delete_batch_distinct [OF 1(3)])
    subgoal using delete_batch_keeps [OF 1(3)] by blast
    subgoal by (simp add: rowcount_def delete_batch_def Let_def delete_rows_le)
    subgoal by (simp add: delete_batch_def Let_def delete_rows_def)
    done
  show ?case
  proof (cases "clock n < deadline \<and> rowcount t ?t \<noteq> 0")
    case True
    then have rec: "drain P batch deadline clock (n + 1) ?t (removed + rowcount t ?t) = (t', removed', n')"
      using 1(2) by (subst (asm) drain.simps) (simp add: Let_def)
    show ?thesis using 1(1) [OF _ refl _ rec step(2)] True step by fastforce
  next
    case False
    then have "t' = t \<and> removed' = removed \<and> n' = n + 1 \<or> t' = ?t \<and> removed' = removed \<and> n' = n + 1 \<and> rowcount t ?t = 0"
      using 1(2) by (subst (asm) drain.simps) (auto simp: Let_def split: if_splits)
    then show ?thesis using step 1(3) by auto
  qed
qed

text \<open>The sweep ends either because nothing is left or because a reading reached the deadline.\<close>
lemma drain_complete:
  assumes "drain P batch deadline clock n t removed = (t', removed', n')" and "batch \<noteq> 0"
    and "clock (n' - 1) < deadline"
  shows "ids_where P t' = []"
  using assms
proof (induction P batch deadline clock n t removed arbitrary: t' removed' n' rule: drain.induct)
  case (1 P batch deadline clock n t removed)
  let ?t = "delete_batch P batch t"
  show ?case
  proof (cases "clock n < deadline \<and> rowcount t ?t \<noteq> 0")
    case True
    then have "drain P batch deadline clock (n + 1) ?t (removed + rowcount t ?t) = (t', removed', n')"
      using 1(2) by (subst (asm) drain.simps) (simp add: Let_def)
    then show ?thesis using 1(1) [OF _ refl] True 1(3,4) by blast
  next
    case False
    then have stuck: "t' = ?t" "rowcount t ?t = 0"
      using 1(2,4) by (subst (asm) drain.simps; auto simp: Let_def split: if_splits)+
    then have "ids_where P t = []" using 1(3) delete_batch_stuck by blast
    then have "{i. \<exists>r. (i, r) \<in> set (rows t) \<and> P i r} = {}" using set_ids_where [of P t] by simp
    then have "{i. \<exists>r. (i, r) \<in> set (rows t') \<and> P i r} = {}"
      using delete_batch_subset [of P batch t] unfolding stuck(1) by blast
    then show ?thesis using set_ids_where [of P t'] by (metis set_empty)
  qed
qed

section \<open>The cutoff\<close>

lemma count_rows_card:
  assumes "distinct (map fst (rows t))"
  shows "count_rows P t = card (set (ids_where P t))"
proof -
  have "distinct (map fst (filter (\<lambda>(i, r). P i r) (rows t)))" using assms by (rule distinct_map_filter)
  then show ?thesis
    by (simp add: count_rows_def ids_where_def select_rows_def distinct_card flip: set_map)
qed

lemma distinct_ids: "distinct (map fst (rows t)) \<Longrightarrow> distinct (ids_where P t)"
  by (simp add: ids_where_def select_rows_def distinct_map_filter)

lemma cutoff_None: "cutoff_id P cap t = None \<Longrightarrow> length (ids_where P t) \<le> nat cap"
  by (auto simp: cutoff_id_def Let_def split: list.splits)

text \<open>Exactly the newest \<open>cap\<close> selected rows are newer than the cutoff.\<close>
lemma cutoff_Some:
  assumes "cutoff_id P cap t = Some c" and "distinct (map fst (rows t))"
  shows "card {i \<in> set (ids_where P t). c < i} = nat cap"
proof -
  define xs where "xs = rev (ids_where P t)"
  obtain ys where ys: "drop (nat cap) xs = c # ys"
    using assms(1) by (auto simp: cutoff_id_def Let_def xs_def split: list.splits)
  have split: "xs = take (nat cap) xs @ c # ys" using ys by (metis append_take_drop_id)
  have d: "distinct xs" using assms(2) by (simp add: xs_def distinct_ids)
  have "sorted_wrt (\<ge>) xs" by (simp add: xs_def sorted_wrt_rev ids_where_def)
  then have s: "sorted_wrt (>) xs" using d by (simp add: sorted_wrt_iff_nth_less distinct_conv_nth order_less_le)
  have "{i \<in> set xs. c < i} = set (take (nat cap) xs)"
    using s by (subst (asm) split, subst (1) split) (auto simp: sorted_wrt_append)
  moreover have "length (take (nat cap) xs) = nat cap" using ys by (metis drop_eq_Nil length_take linear list.simps(3) min.absorb2)
  ultimately show ?thesis using d by (simp add: distinct_card xs_def)
qed

section \<open>What a sweep does\<close>

lemma prune_enabled:
  assumes "prune clock max_seconds batch db = (db', rep)" and "retention_enabled db"
  obtains deadline sz dt dn n mt mn n' where
    "sz = (case batch of Some n \<Rightarrow> n | None \<Rightarrow> setting_int db ''retention.batch_size'' DEFAULT_BATCH)"
    "(dt, dn, n) = (case cutoff_id is_tombstone (rt_decisions_tombstone_cap (retention_status_of db)) (decisions db) of
        None \<Rightarrow> (decisions db, 0, 1) | Some c \<Rightarrow> drain (tombstone_prunable db c) sz deadline clock 1 (decisions db) 0)"
    "(mt, mn, n') = (case cutoff_id any_row (rt_mt_pushes_cap (retention_status_of db)) (mt_pushes db) of
        None \<Rightarrow> (mt_pushes db, 0, n) | Some c \<Rightarrow> drain (up_to c) sz deadline clock n (mt_pushes db) 0)"
    "db' = db\<lparr>decisions := dt, mt_pushes := mt\<rparr>"
    "rep = \<lparr>pr_status = ''ok'', pr_decisions = dn, pr_mt_pushes = mn, pr_truncated = (deadline \<le> clock n')\<rparr>"
proof -
  define deadline :: rat where "deadline = clock 0 + of_int
      (case max_seconds of Some n \<Rightarrow> n | None \<Rightarrow> setting_int db ''retention.max_seconds'' DEFAULT_MAX_SECONDS)"
  define sz where "sz = (case batch of Some n \<Rightarrow> n | None \<Rightarrow> setting_int db ''retention.batch_size'' DEFAULT_BATCH)"
  obtain dt dn n where d: "(case cutoff_id is_tombstone (rt_decisions_tombstone_cap (retention_status_of db)) (decisions db) of
        None \<Rightarrow> (decisions db, 0, 1) | Some c \<Rightarrow> drain (tombstone_prunable db c) sz deadline clock 1 (decisions db) 0) = (dt, dn, n)"
    using prod_cases3 by blast
  obtain mt mn n' where m: "(case cutoff_id any_row (rt_mt_pushes_cap (retention_status_of db)) (mt_pushes db) of
        None \<Rightarrow> (mt_pushes db, 0, n) | Some c \<Rightarrow> drain (up_to c) sz deadline clock n (mt_pushes db) 0) = (mt, mn, n')"
    using prod_cases3 by blast
  have "prune clock max_seconds batch db = (db\<lparr>decisions := dt, mt_pushes := mt\<rparr>,
      \<lparr>pr_status = ''ok'', pr_decisions = dn, pr_mt_pushes = mn, pr_truncated = (deadline \<le> clock n')\<rparr>)"
    unfolding prune_def Let_def sz_def [symmetric] deadline_def [symmetric]
    using d m assms(2) by (simp add: retention_status_of_def)
  with assms(1) show thesis by (intro that [OF sz_def d [symmetric] m [symmetric]]) auto
qed

text \<open>One capped table: what a drain up to the cutoff leaves.\<close>
lemma capped_drain:
  assumes "(t', removed, n') = (case cutoff_id Q cap t of
        None \<Rightarrow> (t, 0, n) | Some c \<Rightarrow> drain (P c) sz deadline clock n t 0)"
    and "distinct (map fst (rows t))"
    and P: "\<And>c i r. P c i r \<longleftrightarrow> Q i r \<and> i \<le> c \<and> \<not> spared i"
  shows "set (rows t') \<subseteq> set (rows t) \<and> distinct (map fst (rows t')) \<and> n \<le> n'
    \<and> removed + length (rows t') = length (rows t) \<and> seq t' = seq t
    \<and> (\<forall>(i, r) \<in> set (rows t). (i, r) \<notin> set (rows t') \<longrightarrow> Q i r \<and> \<not> spared i
         \<and> nat cap \<le> card {j \<in> set (ids_where Q t). i < j})
    \<and> (sz \<noteq> 0 \<longrightarrow> clock (n' - 1) < deadline \<longrightarrow> count_rows (\<lambda>i r. Q i r \<and> \<not> spared i) t' \<le> nat cap)"
proof (cases "cutoff_id Q cap t")
  case None
  have "set (ids_where (\<lambda>i r. Q i r \<and> \<not> spared i) t) \<subseteq> set (ids_where Q t)" by (auto simp: set_ids_where)
  then have "count_rows (\<lambda>i r. Q i r \<and> \<not> spared i) t \<le> card (set (ids_where Q t))"
    using assms(2) by (simp add: count_rows_card card_mono)
  also have "\<dots> \<le> nat cap" using cutoff_None [OF None] card_length le_trans by blast
  finally show ?thesis using None assms by auto
next
  case (Some c)
  then have d: "drain (P c) sz deadline clock n t 0 = (t', removed, n')" using assms(1) by simp
  note inv = drain_invariants [OF d assms(2)]
  have newer: "card {j \<in> set (ids_where Q t). c < j} = nat cap" by (rule cutoff_Some [OF Some assms(2)])
  have lost: "Q i r \<and> \<not> spared i \<and> nat cap \<le> card {j \<in> set (ids_where Q t). i < j}"
    if "(i, r) \<in> set (rows t)" "(i, r) \<notin> set (rows t')" for i r
  proof -
    have "P c i r" using that inv by blast
    then have "Q i r" "i \<le> c" "\<not> spared i" unfolding P by auto
    then show ?thesis unfolding newer [symmetric] by (auto intro!: card_mono)
  qed
  have "count_rows (\<lambda>i r. Q i r \<and> \<not> spared i) t' \<le> nat cap" if "sz \<noteq> 0" "clock (n' - 1) < deadline"
  proof -
    have "\<not> P c i r" if "(i, r) \<in> set (rows t')" for i r
      using drain_complete [OF d \<open>sz \<noteq> 0\<close> \<open>clock (n' - 1) < deadline\<close>] set_ids_where [of "P c" t'] that by auto
    then have "set (ids_where (\<lambda>i r. Q i r \<and> \<not> spared i) t') \<subseteq> {j \<in> set (ids_where Q t). c < j}"
      using inv unfolding P set_ids_where by (auto simp: not_le)
    then show ?thesis using inv unfolding newer [symmetric] by (simp add: count_rows_card card_mono)
  qed
  then show ?thesis using inv lost by auto
qed

lemma decisions_drain:
  assumes "(t', removed, n') = (case cutoff_id is_tombstone cap (decisions db) of
        None \<Rightarrow> (decisions db, 0, n) | Some c \<Rightarrow> drain (tombstone_prunable db c) sz deadline clock n (decisions db) 0)"
    and "auto_ok (decisions db)"
  shows "set (rows t') \<subseteq> set (rows (decisions db)) \<and> distinct (map fst (rows t')) \<and> n \<le> n'
    \<and> removed + length (rows t') = length (rows (decisions db)) \<and> seq t' = seq (decisions db)
    \<and> (\<forall>(i, r) \<in> set (rows (decisions db)). (i, r) \<notin> set (rows t') \<longrightarrow> is_tombstone i r
         \<and> \<not> int i \<in> pending_decision_ids db \<and> nat cap \<le> card {j \<in> set (ids_where is_tombstone (decisions db)). i < j})
    \<and> (sz \<noteq> 0 \<longrightarrow> clock (n' - 1) < deadline \<longrightarrow>
        count_rows (\<lambda>i r. is_tombstone i r \<and> \<not> int i \<in> pending_decision_ids db) t' \<le> nat cap)"
  by (rule capped_drain [OF assms(1)]) (use assms(2) in \<open>auto simp: auto_ok_def tombstone_prunable_def is_tombstone_def\<close>)

lemma pushes_drain:
  assumes "(t', removed, n') = (case cutoff_id any_row cap t of
        None \<Rightarrow> (t, 0, n) | Some c \<Rightarrow> drain (up_to c) sz deadline clock n t 0)"
    and "auto_ok t"
  shows "set (rows t') \<subseteq> set (rows t) \<and> distinct (map fst (rows t')) \<and> n \<le> n'
    \<and> removed + length (rows t') = length (rows t) \<and> seq t' = seq t
    \<and> (\<forall>(i, r) \<in> set (rows t). (i, r) \<notin> set (rows t') \<longrightarrow> any_row i r
         \<and> \<not> False \<and> nat cap \<le> card {j \<in> set (ids_where any_row t). i < j})
    \<and> (sz \<noteq> 0 \<longrightarrow> clock (n' - 1) < deadline \<longrightarrow> count_rows (\<lambda>i r. any_row i r \<and> \<not> False) t' \<le> nat cap)"
  by (rule capped_drain [OF assms(1), where spared = "\<lambda>_. False"])
    (use assms(2) in \<open>auto simp: auto_ok_def up_to_def any_row_def\<close>)

text \<open>(C36) A sweep only ever removes what it may: live decisions all stay, a tombstone or a push record goes only if at
  least as many newer ones exist as the cap keeps, no other table changes, and the reported numbers are the numbers of
  removed rows.\<close>
theorem prune_spares:
  assumes "prune clock max_seconds batch db = (db', rep)" and "auto_ok (decisions db)" and "auto_ok (mt_pushes db)"
  shows "(\<forall>(i, r) \<in> set (rows (decisions db)). (i, r) \<notin> set (rows (decisions db')) \<longrightarrow>
        is_tombstone i r \<and> int i \<notin> pending_decision_ids db
        \<and> nat (rt_decisions_tombstone_cap (retention_status_of db)) \<le> card {j \<in> set (ids_where is_tombstone (decisions db)). i < j})
    \<and> (\<forall>(i, r) \<in> set (rows (mt_pushes db)). (i, r) \<notin> set (rows (mt_pushes db')) \<longrightarrow>
        nat (rt_mt_pushes_cap (retention_status_of db)) \<le> card {j \<in> set (ids_where any_row (mt_pushes db)). i < j})
    \<and> set (rows (decisions db')) \<subseteq> set (rows (decisions db)) \<and> set (rows (mt_pushes db')) \<subseteq> set (rows (mt_pushes db))
    \<and> pr_decisions rep + length (rows (decisions db')) = length (rows (decisions db))
    \<and> pr_mt_pushes rep + length (rows (mt_pushes db')) = length (rows (mt_pushes db))
    \<and> db' = db\<lparr>decisions := decisions db', mt_pushes := mt_pushes db'\<rparr>"
proof (cases "retention_enabled db")
  case True
  obtain deadline sz dt dn n mt mn n' where
    d: "(dt, dn, n) = (case cutoff_id is_tombstone (rt_decisions_tombstone_cap (retention_status_of db)) (decisions db) of
        None \<Rightarrow> (decisions db, 0, 1) | Some c \<Rightarrow> drain (tombstone_prunable db c) sz deadline clock 1 (decisions db) 0)" and
    m: "(mt, mn, n') = (case cutoff_id any_row (rt_mt_pushes_cap (retention_status_of db)) (mt_pushes db) of
        None \<Rightarrow> (mt_pushes db, 0, n) | Some c \<Rightarrow> drain (up_to c) sz deadline clock n (mt_pushes db) 0)" and
    db': "db' = db\<lparr>decisions := dt, mt_pushes := mt\<rparr>" and
    rep: "rep = \<lparr>pr_status = ''ok'', pr_decisions = dn, pr_mt_pushes = mn, pr_truncated = (deadline \<le> clock n')\<rparr>"
    using prune_enabled [OF assms(1) True] by metis
  show ?thesis using decisions_drain [OF d assms(2)] pushes_drain [OF m assms(3)] unfolding db' rep by auto
next
  case False
  then show ?thesis using assms(1) by (auto simp: prune_def)
qed


section \<open>Examples\<close>

definition old_row :: "string \<Rightarrow> int \<Rightarrow> decision_row" where
  "old_row v lapi = \<lparr>dr_origin_source = ''local'', dr_lapi_id = lapi, dr_value = v, dr_scope = ''Ip'', dr_type = ''ban'',
     dr_scenario = ''s'', dr_origin = ''crowdsec'', dr_duration = ''4h'', dr_until = None, dr_first_seen_at = 0,
     dr_last_seen_at = 0, dr_deleted_at = Some 1\<rparr>"

definition pending_row :: "int \<Rightarrow> approval_row" where
  "pending_row i = \<lparr>aq_ip = ''10.0.0.1'', aq_scope = ''Ip'', aq_scenario = ''s'', aq_origin = ''crowdsec'',
     aq_origin_source = ''local'', aq_decision_id = Some i, aq_status = Q_pending, aq_decided_by = [], aq_decided_at = None,
     aq_created_at = 0\<rparr>"

text \<open>Three tombstones with the LAPI's ids 101, 102 and 103, and a cap of one.\<close>
definition full_store :: store where
  "full_store = set_setting 0 ''retention.decisions_tombstone_cap'' ''1'' (empty_store\<lparr>
     decisions := \<lparr>rows = [(1, old_row ''10.0.0.1'' 101), (2, old_row ''10.0.0.2'' 102), (3, old_row ''10.0.0.3'' 103)], seq = 3\<rparr>,
     approval_queue := \<lparr>rows = [(1, pending_row 101)], seq = 1\<rparr>\<rparr>)"

definition still_clock :: "nat \<Rightarrow> rat" where "still_clock n = 0"

text \<open>The queue holds the LAPI's id of a decision, the sweep compares it with the row id: the decision a pending approval
  names is deleted.\<close>
lemma prune_orphans_pending_approval:
  "map fst (rows (decisions (fst (prune still_clock None None full_store)))) = [3]
   \<and> dr_lapi_id (snd (hd (rows (decisions full_store)))) = 101 \<and> 101 \<in> pending_decision_ids full_store"
  by code_simp

theorem prune_spares_witness:
  "pr_decisions (snd (prune still_clock None None full_store)) = 2
   \<and> pr_decisions (snd (prune still_clock None None full_store))
       + length (rows (decisions (fst (prune still_clock None None full_store)))) = 3"
proof -
  have "auto_ok (decisions full_store)" "auto_ok (mt_pushes full_store)" by code_simp+
  note p = prune_spares [OF prod.collapse [symmetric] this]
  have "length (rows (decisions full_store)) = 3" "pr_decisions (snd (prune still_clock None None full_store)) = 2"
    by code_simp+
  then show ?thesis using p [of still_clock None None] by simp
qed


end
