(* ===== verification/Hygiene.thy ===== *)
theory Hygiene
  imports Alarms Iso_Time Retention
begin

text \<open>
  The check for slow, silent failures (\<open>hygiene.py\<close>): a stale backup, a failed restore test, retention switched off. Each
  finding alerts once, again after the nag interval while it lasts, and sends one recovery; the time of the last alert
  is kept in the settings table. Messages are sent on a best-effort basis and never raise. Floats are exact rationals, and the dash in the
  subject of a recovery is written as a hyphen.
\<close>

section \<open>Findings\<close>

definition HYGIENE_KEYS :: "string list" where
  "HYGIENE_KEYS = [''backup_stale'', ''backup_unverified'', ''retention_disabled'']"

definition hygiene_hours :: "store \<Rightarrow> string \<Rightarrow> rat \<Rightarrow> rat" where
  "hygiene_hours db key dflt =
     (case get_setting key db of
        None \<Rightarrow> max 1 dflt
      | Some v \<Rightarrow> if v = [] then max 1 dflt else case py_float v of Some x \<Rightarrow> max 1 x | None \<Rightarrow> dflt)"

text \<open>\<open>_parse\<close>: a stamp without an offset counts as UTC.\<close>
definition hygiene_parse :: "string option \<Rightarrow> instant option" where
  "hygiene_parse text_opt =
     (if \<not> str_truthy text_opt then None
      else case parse_any_stamp (the text_opt) of None \<Rightarrow> None | Some (Aware t) \<Rightarrow> Some t | Some (Naive t) \<Rightarrow> Some t)"

definition hours_between :: "instant \<Rightarrow> instant \<Rightarrow> rat" where
  "hours_between a b = of_int (b - a) / of_int HOUR"

definition findings :: "instant \<Rightarrow> store \<Rightarrow> (string \<times> string) list" where
  "findings now db =
     (case hygiene_parse (get_setting ''backup.last_daily_at'' db) of
        None \<Rightarrow> []
      | Some last_at \<Rightarrow>
          let age = hours_between last_at now
          in if hygiene_hours db ''hygiene.backup_max_age_h'' 36 < age
             then [(''backup_stale'', ''No successful Protek backup in '' @ (if 48 \<le> age then py_fmt 1 (age / 24) @ '' days'' else py_fmt0 age @ ''h'')
                 @ ''. Check `systemctl status protek-backup.timer protek-backup.service` and `journalctl -u protek-backup`.'')]
             else [])
     @ (if get_setting ''backup.last_test_ok'' db = Some ''0''
        then [(''backup_unverified'', ''The last Protek backup failed its restore-test - the newest bundle may not be restorable.'')] else [])
     @ (if str_or (get_setting ''retention.enabled'' db) ''1'' \<noteq> ''1''
        then [(''retention_disabled'', ''Protek retention is disabled (retention.enabled != '' @ [CHR 0x27] @ ''1'' @ [CHR 0x27]
           @ ''). mt_pushes and decision tombstones will grow without bound.'')] else [])"

section \<open>Alerts\<close>

definition hygiene_state_key :: "string \<Rightarrow> string" where
  "hygiene_state_key key = ''hygiene.'' @ key @ ''.alerted_at''"

definition alerted_at :: "string \<Rightarrow> store \<Rightarrow> instant option" where
  "alerted_at key db = hygiene_parse (get_setting (hygiene_state_key key) db)"

definition alert_subject :: "string \<Rightarrow> string" where
  "alert_subject key = ''[Protek] '' @ py_replace_char (CHR ''_'') (CHR '' '') key"

definition recovery_subject :: "string \<Rightarrow> string" where
  "recovery_subject key = alert_subject key @ '' - recovered''"

definition hygiene_key_step :: "instant \<Rightarrow> rat \<Rightarrow> (string \<times> string) list \<Rightarrow> string \<Rightarrow> store \<Rightarrow> store \<times> event list" where
  "hygiene_key_step now renag cur key db =
     (case map_of cur key of
        Some detail \<Rightarrow>
          if (case alerted_at key db of None \<Rightarrow> True | Some t \<Rightarrow> renag \<le> hours_between t now)
          then (set_setting now (hygiene_state_key key) (isoformat now) db, [Notify ''sync_error'' detail (alert_subject key)])
          else (db, [])
      | None \<Rightarrow>
          if alerted_at key db \<noteq> None
          then (set_setting now (hygiene_state_key key) [] db,
                [Notify ''sync_error'' (''Recovered: '' @ py_replace_char (CHR ''_'') (CHR '' '') key @ '' is no longer a problem.'') (recovery_subject key)])
          else (db, []))"

fun hygiene_keys_loop :: "instant \<Rightarrow> rat \<Rightarrow> (string \<times> string) list \<Rightarrow> string list \<Rightarrow> store \<Rightarrow> store \<times> event list" where
  "hygiene_keys_loop now renag cur [] db = (db, [])"
| "hygiene_keys_loop now renag cur (key # keys) db =
     (case hygiene_key_step now renag cur key db of
        (db, es) \<Rightarrow> (case hygiene_keys_loop now renag cur keys db of (db, es') \<Rightarrow> (db, es @ es')))"

definition hygiene_check :: "instant \<Rightarrow> store \<Rightarrow> store \<times> event list \<times> (string \<times> string) list" where
  "hygiene_check now db =
     (let cur = findings now db
      in case hygiene_keys_loop now (hygiene_hours db ''hygiene.renag_h'' 24) cur HYGIENE_KEYS db of (db, es) \<Rightarrow> (db, es, cur))"

text \<open>\<open>warnings\<close>: the names of the findings, sorted; they come in the order of the alphabet.\<close>
definition hygiene_warnings :: "instant \<Rightarrow> store \<Rightarrow> string list" where
  "hygiene_warnings now db = map fst (findings now db)"

text \<open>The check complains about retention exactly when a sweep would do nothing.\<close>
lemma retention_finding_iff: "''retention_disabled'' \<in> set (hygiene_warnings now db) \<longleftrightarrow> \<not> retention_enabled db"
  by (auto simp: hygiene_warnings_def findings_def retention_enabled_def Let_def split: option.split)

section \<open>One finding over many checks\<close>

definition about :: "string \<Rightarrow> event \<Rightarrow> bool" where
  "about key e = (case e of Notify _ _ subject \<Rightarrow> subject = alert_subject key \<or> subject = recovery_subject key | _ \<Rightarrow> False)"

lemma state_keys_distinct: "hygiene_state_key k = hygiene_state_key k' \<longleftrightarrow> k = k'"
  by (simp add: hygiene_state_key_def)

lemma alerted_at_other: "k \<noteq> k' \<Longrightarrow> alerted_at k (set_setting now (hygiene_state_key k') v db) = alerted_at k db"
  by (simp add: alerted_at_def state_keys_distinct)

lemma key_step_other: "k \<noteq> k' \<Longrightarrow> alerted_at k (fst (hygiene_key_step now renag cur k' db)) = alerted_at k db"
  by (auto simp: hygiene_key_step_def alerted_at_other split: option.split)

lemma key_step_about: "list_all (about k) (snd (hygiene_key_step now renag cur k db))"
  by (auto simp: hygiene_key_step_def about_def split: option.split)

lemma about_other:
  assumes "k \<in> set HYGIENE_KEYS" "k' \<in> set HYGIENE_KEYS" "k \<noteq> k'" "about k' e"
  shows "\<not> about k e"
proof -
  have "list_all (\<lambda>a. list_all (\<lambda>b. a = b \<or> (alert_subject a \<noteq> alert_subject b \<and> alert_subject a \<noteq> recovery_subject b
      \<and> recovery_subject a \<noteq> alert_subject b \<and> recovery_subject a \<noteq> recovery_subject b)) HYGIENE_KEYS) HYGIENE_KEYS"
    by code_simp
  then have "alert_subject k \<noteq> alert_subject k' \<and> alert_subject k \<noteq> recovery_subject k' \<and> recovery_subject k \<noteq> alert_subject k'
      \<and> recovery_subject k \<noteq> recovery_subject k'"
    using assms(1-3) unfolding list_all_iff by blast
  then show ?thesis using assms(4) by (cases e) (auto simp: about_def)
qed

lemma key_step_cong:
  "alerted_at k db = alerted_at k db' \<Longrightarrow>
     alerted_at k (fst (hygiene_key_step now renag cur k db)) = alerted_at k (fst (hygiene_key_step now renag cur k db'))
     \<and> snd (hygiene_key_step now renag cur k db) = snd (hygiene_key_step now renag cur k db')"
  by (auto simp: hygiene_key_step_def alerted_at_def split: option.splits)

text \<open>The loop treats each finding as if it were alone.\<close>
lemma keys_loop_alone:
  assumes "distinct keys" "set keys \<subseteq> set HYGIENE_KEYS" "k \<in> set HYGIENE_KEYS"
  shows "(alerted_at k (fst (hygiene_keys_loop now renag cur keys db)), filter (about k) (snd (hygiene_keys_loop now renag cur keys db)))
    = (if k \<in> set keys then (alerted_at k (fst (hygiene_key_step now renag cur k db)), snd (hygiene_key_step now renag cur k db))
       else (alerted_at k db, []))"
  using assms(1,2)
proof (induction keys arbitrary: db)
  case (Cons key keys)
  let ?db = "fst (hygiene_key_step now renag cur key db)"
  have IH: "(alerted_at k (fst (hygiene_keys_loop now renag cur keys ?db)), filter (about k) (snd (hygiene_keys_loop now renag cur keys ?db)))
    = (if k \<in> set keys then (alerted_at k (fst (hygiene_key_step now renag cur k ?db)), snd (hygiene_key_step now renag cur k ?db))
       else (alerted_at k ?db, []))"
    using Cons by simp
  have loop: "fst (hygiene_keys_loop now renag cur (key # keys) db) = fst (hygiene_keys_loop now renag cur keys ?db)"
    "snd (hygiene_keys_loop now renag cur (key # keys) db) = snd (hygiene_key_step now renag cur key db) @ snd (hygiene_keys_loop now renag cur keys ?db)"
    by (simp_all add: case_prod_beta)
  show ?case
  proof (cases "k = key")
    case True
    then have "k \<notin> set keys" "filter (about k) (snd (hygiene_key_step now renag cur key db)) = snd (hygiene_key_step now renag cur key db)"
      using Cons.prems key_step_about [of key now renag cur db] by (auto simp: list_all_iff)
    then show ?thesis unfolding loop using IH True by simp
  next
    case False
    then have other: "alerted_at k ?db = alerted_at k db" by (rule key_step_other)
    have "key \<in> set HYGIENE_KEYS" using Cons.prems by simp
    then have "filter (about k) (snd (hygiene_key_step now renag cur key db)) = []"
      using about_other [OF assms(3) _ False] key_step_about [of key now renag cur db] by (auto simp: list_all_iff filter_empty_conv)
    then show ?thesis unfolding loop using IH False other key_step_cong [OF other, of now renag cur] by simp
  qed
qed simp

lemma hygiene_check_key:
  assumes "k \<in> set HYGIENE_KEYS"
  shows "alerted_at k (fst (hygiene_check now db)) =
      alerted_at k (fst (hygiene_key_step now (hygiene_hours db ''hygiene.renag_h'' 24) (findings now db) k db))"
    "filter (about k) (fst (snd (hygiene_check now db))) =
      snd (hygiene_key_step now (hygiene_hours db ''hygiene.renag_h'' 24) (findings now db) k db)"
proof -
  have "distinct HYGIENE_KEYS" by (simp add: HYGIENE_KEYS_def)
  note alone = keys_loop_alone [OF this subset_refl assms, of now "hygiene_hours db ''hygiene.renag_h'' 24" "findings now db" db]
  show "alerted_at k (fst (hygiene_check now db)) =
      alerted_at k (fst (hygiene_key_step now (hygiene_hours db ''hygiene.renag_h'' 24) (findings now db) k db))"
    "filter (about k) (fst (snd (hygiene_check now db))) =
      snd (hygiene_key_step now (hygiene_hours db ''hygiene.renag_h'' 24) (findings now db) k db)"
    using alone assms by (simp_all add: hygiene_check_def Let_def case_prod_beta)
qed

text \<open>The stamp after a check: set by an alert, cleared by a recovery, else kept.\<close>
lemma key_step_stamp:
  assumes "datable now"
  shows "alerted_at k (fst (hygiene_key_step now renag cur k db)) =
    (if map_of cur k = None then None
     else case alerted_at k db of None \<Rightarrow> Some now | Some t \<Rightarrow> if renag \<le> hours_between t now then Some now else Some t)"
  using assms by (auto simp: hygiene_key_step_def alerted_at_def hygiene_parse_def str_truthy_def split: option.splits)

text \<open>A run of checks, each after whatever else happened to the settings; the times at which an alert about a finding is sent.\<close>
type_synonym hygiene_call = "(store \<Rightarrow> store) \<times> instant"

definition hygiene_step :: "hygiene_call \<Rightarrow> store \<Rightarrow> store" where
  "hygiene_step c db = fst (hygiene_check (snd c) (fst c db))"

definition alert_now :: "string \<Rightarrow> hygiene_call \<Rightarrow> store \<Rightarrow> instant list" where
  "alert_now k c db =
     (if \<exists>detail. Notify ''sync_error'' detail (alert_subject k) \<in> set (fst (snd (hygiene_check (snd c) (fst c db)))) then [snd c] else [])"

fun alert_times :: "string \<Rightarrow> hygiene_call list \<Rightarrow> store \<Rightarrow> instant list" where
  "alert_times k [] db = []"
| "alert_times k (c # cs) db = alert_now k c db @ alert_times k cs (hygiene_step c db)"

text \<open>Others leave the stamp alone, and the finding and the interval are as given.\<close>
definition persists :: "string \<Rightarrow> rat \<Rightarrow> hygiene_call \<Rightarrow> store \<Rightarrow> bool" where
  "persists k renag c db =
     (alerted_at k (fst c db) = alerted_at k db \<and> datable (snd c) \<and> k \<in> set (hygiene_warnings (snd c) (fst c db))
      \<and> hygiene_hours (fst c db) ''hygiene.renag_h'' 24 = renag)"

text \<open>The times that are kept when each must be at least so many hours after the one kept before.\<close>
fun spaced :: "rat \<Rightarrow> instant option \<Rightarrow> instant list \<Rightarrow> instant list" where
  "spaced renag prev [] = []"
| "spaced renag prev (t # ts) =
     (if (case prev of None \<Rightarrow> True | Some p \<Rightarrow> renag \<le> hours_between p t) then t # spaced renag (Some t) ts else spaced renag prev ts)"

definition hygiene_signals :: "string \<Rightarrow> hygiene_call \<Rightarrow> store \<Rightarrow> signal list" where
  "hygiene_signals k c db =
     (if alerted_at k (fst c db) = None then map (\<lambda>_. Raise) (alert_now k c db) else [])
     @ (if \<exists>detail. Notify ''sync_error'' detail (recovery_subject k) \<in> set (fst (snd (hygiene_check (snd c) (fst c db)))) then [Clear] else [])"

definition keeps_stamp :: "string \<Rightarrow> hygiene_call \<Rightarrow> store \<Rightarrow> bool" where
  "keeps_stamp k c db = (alerted_at k (fst c db) = alerted_at k db \<and> datable (snd c))"

lemma sent_iff:
  assumes "k \<in> set HYGIENE_KEYS"
  shows "Notify ''sync_error'' detail (alert_subject k) \<in> set (fst (snd (hygiene_check now db))) \<longleftrightarrow>
      map_of (findings now db) k = Some detail
      \<and> (case alerted_at k db of None \<Rightarrow> True | Some t \<Rightarrow> hygiene_hours db ''hygiene.renag_h'' 24 \<le> hours_between t now)"
    "(\<exists>d. Notify ''sync_error'' d (recovery_subject k) \<in> set (fst (snd (hygiene_check now db)))) \<longleftrightarrow>
      map_of (findings now db) k = None \<and> alerted_at k db \<noteq> None"
proof -
  have "e \<in> set (fst (snd (hygiene_check now db))) \<longleftrightarrow> e \<in> set (snd (hygiene_key_step now (hygiene_hours db ''hygiene.renag_h'' 24) (findings now db) k db))"
    if "about k e" for e
    using that unfolding hygiene_check_key(2) [OF assms, symmetric] by simp
  moreover have "about k (Notify a d (alert_subject k))" "about k (Notify a d (recovery_subject k))" for a d by (simp_all add: about_def)
  ultimately show "Notify ''sync_error'' detail (alert_subject k) \<in> set (fst (snd (hygiene_check now db))) \<longleftrightarrow>
      map_of (findings now db) k = Some detail
      \<and> (case alerted_at k db of None \<Rightarrow> True | Some t \<Rightarrow> hygiene_hours db ''hygiene.renag_h'' 24 \<le> hours_between t now)"
    "(\<exists>d. Notify ''sync_error'' d (recovery_subject k) \<in> set (fst (snd (hygiene_check now db)))) \<longleftrightarrow>
      map_of (findings now db) k = None \<and> alerted_at k db \<noteq> None"
    by (auto simp: hygiene_key_step_def recovery_subject_def split: option.splits)
qed

interpretation hygiene_alarm: edge_alarm "\<lambda>db. alerted_at k db \<noteq> None" hygiene_step "hygiene_signals k" "\<lambda>c db. k \<in> set HYGIENE_KEYS \<and> keeps_stamp k c db" for k
proof
  fix c db assume "k \<in> set HYGIENE_KEYS \<and> keeps_stamp k c db"
  then have k: "k \<in> set HYGIENE_KEYS" and keeps: "alerted_at k (fst c db) = alerted_at k db" "datable (snd c)" by (simp_all add: keeps_stamp_def)
  have "alerted_at k (hygiene_step c db) \<noteq> None \<longleftrightarrow> map_of (findings (snd c) (fst c db)) k \<noteq> None"
    unfolding hygiene_step_def hygiene_check_key(1) [OF k] key_step_stamp [OF keeps(2)] by (auto split: option.splits)
  then show "hygiene_signals k c db = edge_signal (alerted_at k db \<noteq> None) (alerted_at k (hygiene_step c db) \<noteq> None)"
    unfolding hygiene_signals_def alert_now_def sent_iff [OF k] keeps(1) by (auto simp: edge_signal_def)
qed

text \<open>(C32) Nagging is exact: while a finding persists, the alerts about it are sent at the first check and then at each check that is at least the nag
  interval after the last alert, and at no other check, whatever the other findings do. In particular a restart neither repeats
  nor forgets one, since the state is in the settings table.\<close>
theorem hygiene_nags_exactly:
  assumes "k \<in> set HYGIENE_KEYS" and "run_ok hygiene_step (persists k renag) calls db"
  shows "alert_times k calls db = spaced renag (alerted_at k db) (map snd calls)"
  using assms(2)
proof (induction calls arbitrary: db)
  case (Cons c calls)
  then have p: "alerted_at k (fst c db) = alerted_at k db" "datable (snd c)" "k \<in> set (hygiene_warnings (snd c) (fst c db))"
      "hygiene_hours (fst c db) ''hygiene.renag_h'' 24 = renag" by (simp_all add: persists_def)
  then obtain d where d: "map_of (findings (snd c) (fst c db)) k = Some d"
    unfolding hygiene_warnings_def set_map by (metis map_of_eq_None_iff option.exhaust)
  have stamp: "alerted_at k (hygiene_step c db) =
      (if case alerted_at k db of None \<Rightarrow> True | Some t \<Rightarrow> renag \<le> hours_between t (snd c) then Some (snd c) else alerted_at k db)"
    unfolding hygiene_step_def hygiene_check_key(1) [OF assms(1)] key_step_stamp [OF p(2)] p(1,4) d by (simp split: option.split)
  have alert: "alert_now k c db = (if case alerted_at k db of None \<Rightarrow> True | Some t \<Rightarrow> renag \<le> hours_between t (snd c) then [snd c] else [])"
    unfolding alert_now_def sent_iff [OF assms(1)] p(1,4) d by simp
  have "alert_times k calls (hygiene_step c db) = spaced renag (alerted_at k (hygiene_step c db)) (map snd calls)"
    using Cons by simp
  then show ?case unfolding alert_times.simps alert stamp by (simp split: option.split)
qed simp

definition unpruned :: store where
  "unpruned = set_setting 0 ''retention.enabled'' ''0'' empty_store"

theorem hygiene_nags_exactly_witness:
  "alert_times ''retention_disabled'' [(id, 0), (id, 5 * HOUR), (id, 30 * HOUR)] unpruned = [0, 30 * HOUR]"
proof -
  have k: "''retention_disabled'' \<in> set HYGIENE_KEYS" by (simp add: HYGIENE_KEYS_def)
  have "run_ok hygiene_step (persists ''retention_disabled'' 24) [(id, 0), (id, 5 * HOUR), (id, 30 * HOUR)] unpruned"
    unfolding run_ok.simps persists_def fst_conv snd_conv id_apply by code_simp
  note hygiene_nags_exactly [OF k this]
  also have "spaced 24 (alerted_at ''retention_disabled'' unpruned) (map snd [(id :: store \<Rightarrow> store, 0), (id, 5 * HOUR), (id, 30 * HOUR)]) = [0, 30 * HOUR]"
    by code_simp
  finally show ?thesis .
qed

end
