(* ===== verification/Backup.thy ===== *)
theory Backup
  imports Federation Hygiene "HOL-Library.List_Lexorder" "HOL-Library.Char_ord"
begin

text \<open>
  Backups (\<open>backup.py\<close>): the envelope of a bundle, the storage interface, the journal of runs, a run with its off-box
  copy, the retention of bundles, the restore test and the schedule. The cipher, the key derivation, the snapshot of the
  database, the archive format and the object storage are outside: fields of the record \<open>backup_env\<close> over a world that
  the operations pass on. The world holds the local directories as association lists from relative paths to contents; base
  directories do not nest, and a refused write leaves no file. Writes to the settings and to the journal succeed.
  Where the code returns the finished journal row, or the outcome of the off-box copy in it, the model returns the id of the row; the status page is left out.
\<close>

section \<open>The envelope\<close>

definition MAGIC :: string where "MAGIC = ''PROTEKBK''"
definition SALT_LEN :: nat where "SALT_LEN = 16"
definition NONCE_LEN :: nat where "NONCE_LEN = 12"

text \<open>\<open>encrypt\<close> with the random salt and nonce as arguments; \<open>derive\<close> is scrypt, \<open>seal\<close> and \<open>unseal\<close> are AES-GCM.\<close>
definition encrypt :: "(string \<Rightarrow> string \<Rightarrow> string) \<Rightarrow> (string \<Rightarrow> string \<Rightarrow> string \<Rightarrow> string) \<Rightarrow> string \<Rightarrow> string \<Rightarrow> string \<Rightarrow> string \<Rightarrow> string" where
  "encrypt derive seal salt nonce plaintext passphrase = MAGIC @ salt @ nonce @ seal (derive passphrase salt) nonce plaintext"

definition decrypt :: "(string \<Rightarrow> string \<Rightarrow> string) \<Rightarrow> (string \<Rightarrow> string \<Rightarrow> string \<Rightarrow> exn + string) \<Rightarrow> string \<Rightarrow> string \<Rightarrow> exn + string" where
  "decrypt derive unseal blob passphrase =
     (if \<not> py_startswith blob MAGIC then Inl (ValueError ''not a protek backup bundle (bad magic)'')
      else
        let body = drop (length MAGIC) blob;
            salt = take SALT_LEN body;
            nonce = take NONCE_LEN (drop SALT_LEN body);
            ct = drop (SALT_LEN + NONCE_LEN) body
        in case unseal (derive passphrase salt) nonce ct of
             Inl e \<Rightarrow> Inl (ValueError (''decrypt failed (wrong passphrase?): '' @ exn_str e))
           | Inr p \<Rightarrow> Inr p)"

section \<open>Storage\<close>

text \<open>A backend: \<open>put\<close>, \<open>get\<close>, \<open>list_keys\<close> and \<open>delete\<close>, each of which may raise.\<close>
record 'w backend =
  be_name :: string
  be_put :: "string \<Rightarrow> string \<Rightarrow> 'w \<Rightarrow> 'w \<times> (exn + string)"
  be_get :: "string \<Rightarrow> 'w \<Rightarrow> exn + string"
  be_list :: "string \<Rightarrow> 'w \<Rightarrow> exn + string list"
  be_delete :: "string \<Rightarrow> 'w \<Rightarrow> 'w \<times> exn option"

text \<open>The part of the world that holds local bundles: a base directory and its files by relative path.\<close>
type_synonym file_table = "(string \<times> string) list"

record host =
  h_dirs :: "string \<Rightarrow> file_table option"

definition dir_files :: "string \<Rightarrow> 'x host_scheme \<Rightarrow> file_table" where
  "dir_files base w = (case h_dirs w base of None \<Rightarrow> [] | Some fs \<Rightarrow> fs)"

definition set_files :: "string \<Rightarrow> file_table \<Rightarrow> 'x host_scheme \<Rightarrow> 'x host_scheme" where
  "set_files base fs w = w\<lparr>h_dirs := (h_dirs w)(base := Some fs)\<rparr>"

text \<open>The operating system may refuse an operation on a path.\<close>
datatype file_op = Op_mkdir | Op_write | Op_chmod | Op_read | Op_unlink

type_synonym 'w faults = "file_op \<Rightarrow> string \<Rightarrow> 'w \<Rightarrow> exn option"

definition local_put :: "'x host_scheme faults \<Rightarrow> string \<Rightarrow> string \<Rightarrow> string \<Rightarrow> 'x host_scheme \<Rightarrow> 'x host_scheme \<times> (exn + string)" where
  "local_put os base key data w =
     (let path = base @ ''/'' @ key
      in case os Op_write path w of
           Some e \<Rightarrow> (w, Inl e)
         | None \<Rightarrow>
             let w = set_files base (AList.update key data (dir_files base w)) w
             in case os Op_chmod path w of Some e \<Rightarrow> (w, Inl e) | None \<Rightarrow> (w, Inr (''file://'' @ path)))"

definition local_get :: "'x host_scheme faults \<Rightarrow> string \<Rightarrow> string \<Rightarrow> 'x host_scheme \<Rightarrow> exn + string" where
  "local_get os base key w =
     (case os Op_read (base @ ''/'' @ key) w of
        Some e \<Rightarrow> Inl e
      | None \<Rightarrow> (case map_of (dir_files base w) key of
                   None \<Rightarrow> Inl (RuntimeErr ''No such file or directory'') | Some data \<Rightarrow> Inr data))"

definition local_list :: "string \<Rightarrow> string \<Rightarrow> 'x host_scheme \<Rightarrow> exn + string list" where
  "local_list base pre w = Inr (sort (filter (\<lambda>key. py_startswith key pre) (map fst (dir_files base w))))"

text \<open>An exception of \<open>unlink\<close> is swallowed.\<close>
definition local_delete :: "'x host_scheme faults \<Rightarrow> string \<Rightarrow> string \<Rightarrow> 'x host_scheme \<Rightarrow> 'x host_scheme \<times> exn option" where
  "local_delete os base key w =
     (case os Op_unlink (base @ ''/'' @ key) w of
        Some _ \<Rightarrow> (w, None)
      | None \<Rightarrow> (set_files base (AList.delete key (dir_files base w)) w, None))"

definition local_backend :: "'x host_scheme faults \<Rightarrow> string \<Rightarrow> 'x host_scheme backend" where
  "local_backend os base =
     \<lparr>be_name = ''local'', be_put = local_put os base, be_get = local_get os base, be_list = local_list base,
      be_delete = local_delete os base\<rparr>"

text \<open>The constructor makes the directory.\<close>
definition open_local :: "'x host_scheme faults \<Rightarrow> string \<Rightarrow> 'x host_scheme \<Rightarrow> 'x host_scheme \<times> (exn + 'x host_scheme backend)" where
  "open_local os base w =
     (if h_dirs w base \<noteq> None then (w, Inr (local_backend os base))
      else case os Op_mkdir base w of
             Some e \<Rightarrow> (w, Inl e)
           | None \<Rightarrow> (set_files base [] w, Inr (local_backend os base)))"

text \<open>What a bundle holds: the members of the archive, and what their extraction leaves as \<open>protek.db\<close>.\<close>
record database =
  sn_integrity :: string
  sn_tables :: "string list"

record archive =
  ar_members :: "string list"
  ar_extract :: "exn + (exn + database) option"

record 'w backup_env =
  bv_environ :: environment
  bv_now :: "'w \<Rightarrow> instant"
  bv_build :: "string \<Rightarrow> 'w \<Rightarrow> 'w \<times> (exn + string \<times> nat)"
  bv_decrypt :: "string \<Rightarrow> string \<Rightarrow> exn + string"
  bv_open :: "string \<Rightarrow> exn + archive"
  bv_os :: "'w faults"
  bv_boto :: bool
  bv_s3 :: "string \<Rightarrow> 'w backend"
  bv_head :: "string \<Rightarrow> 'w \<Rightarrow> exn + int"

definition bk_envstr :: "environment \<Rightarrow> string \<Rightarrow> string" where
  "bk_envstr environ name = py_strip (hd (py_split_max (CHR ''#'') 1 (case environ name of None \<Rightarrow> [] | Some s \<Rightarrow> s)))"

text \<open>\<open>S3Backend()\<close>.\<close>
definition s3_backend :: "('w, 'e) backup_env_scheme \<Rightarrow> exn + 'w backend" where
  "s3_backend env =
     (let bucket = bk_envstr (bv_environ env) ''BACKUP_S3_BUCKET''
      in if \<not> bv_boto env then Inl (RuntimeErr ''boto3 not installed'')
         else if bucket = [] then Inl (RuntimeErr ''BACKUP_S3_BUCKET not set'')
         else if bk_envstr (bv_environ env) ''BACKUP_S3_KEY'' = [] \<or> bk_envstr (bv_environ env) ''BACKUP_S3_SECRET'' = []
         then Inl (RuntimeErr ''BACKUP_S3_KEY / BACKUP_S3_SECRET not set'')
         else Inr (bv_s3 env bucket))"

definition get_backend :: "('x host_scheme, 'e) backup_env_scheme \<Rightarrow> store \<Rightarrow> 'x host_scheme
    \<Rightarrow> 'x host_scheme \<times> (exn + 'x host_scheme backend)" where
  "get_backend env db w =
     (if py_lower (str_or (get_setting ''backup.backend'' db) ''local'') = ''s3'' then (w, s3_backend env)
      else open_local (bv_os env) (str_or (get_setting ''backup.local_path'' db) ''/var/backups/protek'') w)"

section \<open>The journal of runs\<close>

datatype run_status = Running | Run_ok | Run_failed

record backup_run =
  br_kind :: string
  br_started_at :: instant
  br_completed_at :: "instant option"
  br_status :: run_status
  br_size :: nat
  br_dest :: string
  br_backend :: string
  br_error :: string

record 'w backups =
  bk_settings :: store
  bk_runs :: "backup_run auto_table"
  bk_world :: 'w

definition bk_now :: "('w, 'e) backup_env_scheme \<Rightarrow> 'w backups \<Rightarrow> instant" where
  "bk_now env s = bv_now env (bk_world s)"

definition put_setting :: "('w, 'e) backup_env_scheme \<Rightarrow> string \<Rightarrow> string \<Rightarrow> 'w backups \<Rightarrow> 'w backups" where
  "put_setting env key v s = s\<lparr>bk_settings := set_setting (bk_now env s) key v (bk_settings s)\<rparr>"

definition record_start :: "('w, 'e) backup_env_scheme \<Rightarrow> string \<Rightarrow> 'w backups \<Rightarrow> 'w backups \<times> nat" where
  "record_start env kind s =
     (case insert_row \<lparr>br_kind = kind, br_started_at = bk_now env s, br_completed_at = None, br_status = Running, br_size = 0, br_dest = [],
                       br_backend = [], br_error = []\<rparr> (bk_runs s) of
        (t, i) \<Rightarrow> (s\<lparr>bk_runs := t\<rparr>, i))"

definition record_finish :: "('w, 'e) backup_env_scheme \<Rightarrow> nat \<Rightarrow> run_status \<Rightarrow> nat \<Rightarrow> string \<Rightarrow> string \<Rightarrow> string \<Rightarrow> 'w backups \<Rightarrow> 'w backups" where
  "record_finish env rid status n dest backend err s =
     s\<lparr>bk_runs := update_rows (\<lambda>i _. i = rid)
         (\<lambda>r. r\<lparr>br_completed_at := Some (bk_now env s), br_status := status, br_size := n, br_dest := dest, br_backend := backend,
               br_error := take 400 err\<rparr>) (bk_runs s)\<rparr>"

definition list_runs :: "nat \<Rightarrow> 'w backups \<Rightarrow> (nat \<times> backup_run) list" where
  "list_runs limit s = take limit (rev (rows (bk_runs s)))"

definition latest_successful :: "'w backups \<Rightarrow> (nat \<times> backup_run) option" where
  "latest_successful s =
     (case rev (select_rows (\<lambda>_ r. br_status r = Run_ok \<and> br_kind r \<in> {''daily'', ''monthly'', ''manual''}) (bk_runs s)) of
        [] \<Rightarrow> None | p # _ \<Rightarrow> Some p)"

text \<open>\<open>_notify_failed\<close>.\<close>
definition notify_failed :: "string \<Rightarrow> string \<Rightarrow> event list" where
  "notify_failed kind err =
     [Notify ''sync_error'' (''Backup ('' @ kind @ '') failed: '' @ take 200 err) (''[Protek] Backup '' @ kind @ '' failed''),
      Ship ''backup.failed'' [(''kind'', Some kind), (''error'', Some (take 400 err))]]"

section \<open>Retention of bundles\<close>

text \<open>The slice \<open>keys[:-keep]\<close>.\<close>
definition slice_before :: "int \<Rightarrow> 'a list \<Rightarrow> 'a list" where
  "slice_before keep keys = (if 0 < keep then take (length keys - nat keep) keys else take (nat (- keep)) keys)"

fun delete_keys :: "'w backend \<Rightarrow> string list \<Rightarrow> 'w \<Rightarrow> 'w \<times> (exn + nat)" where
  "delete_keys b [] w = (w, Inr 0)"
| "delete_keys b (k # ks) w =
     (case be_delete b k w of
        (w, Some e) \<Rightarrow> (w, Inl e)
      | (w, None) \<Rightarrow> (case delete_keys b ks w of (w, Inr n) \<Rightarrow> (w, Inr (Suc n)) | (w, Inl e) \<Rightarrow> (w, Inl e)))"

definition retain_prefix :: "'w backend \<Rightarrow> string \<Rightarrow> int \<Rightarrow> 'w \<Rightarrow> 'w \<times> (exn + nat)" where
  "retain_prefix b pre keep w =
     (case be_list b pre w of
        Inl e \<Rightarrow> (w, Inl e)
      | Inr keys \<Rightarrow> if keep < int (length keys) then delete_keys b (slice_before keep keys) w else (w, Inr 0))"

text \<open>\<open>apply_retention\<close>: the numbers of bundles removed under the three prefixes.\<close>
definition apply_retention :: "'w backend \<Rightarrow> store \<Rightarrow> 'w \<Rightarrow> 'w \<times> (exn + nat \<times> nat \<times> nat)" where
  "apply_retention b db w =
     (case py_int (str_or (get_setting ''backup.daily_keep'' db) ''30'') of
        None \<Rightarrow> (w, Inl (ValueError ''invalid literal for int()''))
      | Some daily_keep \<Rightarrow>
     (case py_int (str_or (get_setting ''backup.monthly_keep'' db) ''12'') of
        None \<Rightarrow> (w, Inl (ValueError ''invalid literal for int()''))
      | Some monthly_keep \<Rightarrow>
     (case retain_prefix b ''daily/'' daily_keep w of
        (w, Inl e) \<Rightarrow> (w, Inl e)
      | (w, Inr d) \<Rightarrow>
     (case retain_prefix b ''monthly/'' monthly_keep w of
        (w, Inl e) \<Rightarrow> (w, Inl e)
      | (w, Inr m) \<Rightarrow>
     (case retain_prefix b ''test/'' 7 w of
        (w, Inl e) \<Rightarrow> (w, Inl e)
      | (w, Inr n) \<Rightarrow> (w, Inr (d, m, n)))))))"

section \<open>Runs\<close>

text \<open>\<open>ts.strftime("%Y%m%dT%H%M%SZ")\<close>.\<close>
definition compact_stamp :: "instant \<Rightarrow> string" where
  "compact_stamp t =
     (let secs = t div SECOND; tod = nat (secs mod 86400); (y, m, d) = ymd_of_ordinal (nat (secs div 86400 + EPOCH))
      in pad 4 y @ pad 2 m @ pad 2 d @ ''T'' @ pad 2 (tod div 3600) @ pad 2 (tod div 60 mod 60) @ pad 2 (tod mod 60) @ ''Z'')"

definition key_for :: "string \<Rightarrow> instant \<Rightarrow> string" where
  "key_for kind ts = kind @ ''/protek-'' @ compact_stamp ts @ ''.bin''"

definition passphrase_or_die :: "('w, 'e) backup_env_scheme \<Rightarrow> exn + string" where
  "passphrase_or_die env =
     (let p = bk_envstr (bv_environ env) ''BACKUP_PASSPHRASE''
      in if p = [] then Inl (RuntimeErr ''BACKUP_PASSPHRASE not set in .env'')
         else if length p < 12 then Inl (RuntimeErr ''BACKUP_PASSPHRASE too short'') else Inr p)"

definition offsite_configured :: "('w, 'e) backup_env_scheme \<Rightarrow> bool" where
  "offsite_configured env =
     (bk_envstr (bv_environ env) ''BACKUP_S3_BUCKET'' \<noteq> [] \<and> bk_envstr (bv_environ env) ''BACKUP_S3_KEY'' \<noteq> []
      \<and> bk_envstr (bv_environ env) ''BACKUP_S3_SECRET'' \<noteq> [])"

text \<open>The part of \<open>ship_offsite\<close> that may raise: the upload and the check of its size.\<close>
definition upload_offsite :: "('w, 'e) backup_env_scheme \<Rightarrow> string \<Rightarrow> string \<Rightarrow> 'w \<Rightarrow> 'w \<times> (exn + 'w backend)" where
  "upload_offsite env key blob w =
     (case s3_backend env of
        Inl e \<Rightarrow> (w, Inl e)
      | Inr b \<Rightarrow>
          (case be_put b key blob w of
             (w, Inl e) \<Rightarrow> (w, Inl e)
           | (w, Inr _) \<Rightarrow>
               (case bv_head env key w of
                  Inl e \<Rightarrow> (w, Inl e)
                | Inr n \<Rightarrow> if n \<noteq> int (length blob)
                           then (w, Inl (RuntimeErr (''uploaded size '' @ py_str_int n @ '' != '' @ py_str_nat (length blob)))) else (w, Inr b))))"

text \<open>\<open>type(e).__name__\<close>.\<close>
fun exn_class :: "exn \<Rightarrow> string" where
  "exn_class (ValueError _) = ''ValueError''"
| "exn_class (KeyError _) = ''KeyError''"
| "exn_class (TypeError _) = ''TypeError''"
| "exn_class (UnboundLocalError _) = ''UnboundLocalError''"
| "exn_class (LAPIError _) = ''LAPIError''"
| "exn_class (MikroTikError _) = ''MikroTikError''"
| "exn_class (RequestException _) = ''RequestException''"
| "exn_class (RuntimeErr _) = ''RuntimeError''"
| "exn_class (IntegrityError _) = ''IntegrityError''"

definition ship_offsite :: "('w, 'e) backup_env_scheme \<Rightarrow> string \<Rightarrow> string \<Rightarrow> 'w backups \<Rightarrow> 'w backups \<times> event list" where
  "ship_offsite env key blob s =
     (let now = isoformat (bk_now env s)
      in case upload_offsite env key blob (bk_world s) of
           (w, Inr b) \<Rightarrow>
             let s = s\<lparr>bk_world := fst (apply_retention b (bk_settings s) w)\<rparr>
             in (put_setting env ''backup.offsite.last_error'' [] (put_setting env ''backup.offsite.last_size'' (py_str_nat (length blob))
                   (put_setting env ''backup.offsite.last_key'' key (put_setting env ''backup.offsite.last_at'' now s))), [])
         | (w, Inl e) \<Rightarrow>
             let s = s\<lparr>bk_world := w\<rparr>; msg = take 300 (exn_class e @ '': '' @ exn_str e)
             in (put_setting env ''backup.offsite.last_error_at'' now (put_setting env ''backup.offsite.last_error'' msg s),
                 notify_failed ''off-box copy'' msg))"

text \<open>The part of \<open>run_backup\<close> up to the upload: the backend, the time, the key, the bundle, its destination and its number of files.\<close>
definition store_bundle :: "('x host_scheme, 'e) backup_env_scheme \<Rightarrow> string \<Rightarrow> store \<Rightarrow> 'x host_scheme
    \<Rightarrow> 'x host_scheme \<times> (exn + 'x host_scheme backend \<times> instant \<times> string \<times> string \<times> string \<times> nat)" where
  "store_bundle env kind db w =
     (case passphrase_or_die env of
        Inl e \<Rightarrow> (w, Inl e)
      | Inr passphrase \<Rightarrow>
     (case get_backend env db w of
        (w, Inl e) \<Rightarrow> (w, Inl e)
      | (w, Inr b) \<Rightarrow>
     (case bv_build env passphrase w of
        (w, Inl e) \<Rightarrow> (w, Inl e)
      | (w, Inr (blob, files)) \<Rightarrow>
          let ts = bv_now env w; key = key_for kind ts
          in case be_put b key blob w of
               (w, Inl e) \<Rightarrow> (w, Inl e)
             | (w, Inr dest) \<Rightarrow> (w, Inr (b, ts, key, blob, dest, files)))))"

text \<open>The rest of the \<open>try\<close>, after the bundle is stored; it cannot raise.\<close>
definition settle_backup :: "('x host_scheme, 'e) backup_env_scheme \<Rightarrow> string \<Rightarrow> nat
    \<Rightarrow> 'x host_scheme backend \<times> instant \<times> string \<times> string \<times> string \<times> nat \<Rightarrow> 'x host_scheme backups
    \<Rightarrow> 'x host_scheme backups \<times> event list" where
  "settle_backup env kind rid stored s =
     (case stored of (b, ts, key, blob, dest, files) \<Rightarrow>
        let s = record_finish env rid Run_ok (length blob) dest (be_name b) [] s;
            (s, offsite) = (if be_name b = ''local'' \<and> offsite_configured env then ship_offsite env key blob s else (s, []));
            s = (if kind = ''daily'' then put_setting env ''backup.last_daily_at'' (isoformat ts) s
                 else if kind = ''monthly'' then put_setting env ''backup.last_monthly_at'' (isoformat ts) s else s);
            s = put_setting env ''backup.last_run_id'' (py_str_nat rid) s;
            s = s\<lparr>bk_world := fst (apply_retention b (bk_settings s) (bk_world s))\<rparr>
        in (s, offsite @ [Ship ''backup.completed'' [(''kind'', Some kind), (''size'', Some (py_str_nat (length blob))), (''dest'', Some dest),
              (''files'', Some (py_str_nat files))]]))"

definition run_backup :: "('x host_scheme, 'e) backup_env_scheme \<Rightarrow> string \<Rightarrow> 'x host_scheme backups
    \<Rightarrow> 'x host_scheme backups \<times> event list \<times> nat" where
  "run_backup env kind s =
     (let (s, rid) = record_start env kind s
      in case store_bundle env kind (bk_settings s) (bk_world s) of
           (w, Inl e) \<Rightarrow> (record_finish env rid Run_failed 0 [] [] (exn_str e) (s\<lparr>bk_world := w\<rparr>), notify_failed kind (exn_str e), rid)
         | (w, Inr stored) \<Rightarrow> (case settle_backup env kind rid stored (s\<lparr>bk_world := w\<rparr>) of (s, ev) \<Rightarrow> (s, ev, rid)))"

section \<open>The restore test\<close>

text \<open>\<open>m.name.startswith("/") or ".." in Path(m.name).parts\<close>.\<close>
definition unsafe_member :: "string \<Rightarrow> bool" where
  "unsafe_member name = (py_startswith name ''/'' \<or> ''..'' \<in> set (py_split (CHR ''/'') name))"

definition check_archive :: "archive \<Rightarrow> exn option" where
  "check_archive ar =
     (if list_ex unsafe_member (ar_members ar)
      then Some (RuntimeErr (''unsafe tar arcname: '' @ hd (filter unsafe_member (ar_members ar))))
      else case ar_extract ar of
        Inl e \<Rightarrow> Some e
      | Inr None \<Rightarrow> Some (RuntimeErr ''bundle missing protek.db'')
      | Inr (Some (Inl e)) \<Rightarrow> Some e
      | Inr (Some (Inr sn)) \<Rightarrow>
          if sn_integrity sn \<noteq> ''ok'' then Some (RuntimeErr (''integrity_check failed: '' @ sn_integrity sn))
          else if ''settings'' \<notin> set (sn_tables sn) \<or> ''decisions'' \<notin> set (sn_tables sn)
          then Some (RuntimeErr ''bundle missing core tables'')
          else None)"

text \<open>The newest bundle according to the names, opened and checked; its key and size.\<close>
definition test_bundle :: "('w, 'e) backup_env_scheme \<Rightarrow> 'w backend \<Rightarrow> string \<Rightarrow> 'w \<Rightarrow> exn + string \<times> nat" where
  "test_bundle env b passphrase w =
     (case (be_list b ''daily/'' w, be_list b ''monthly/'' w, be_list b ''manual/'' w) of
        (Inr ds, Inr ms, Inr us) \<Rightarrow>
          let candidates = ds @ ms @ us
          in if candidates = [] then Inl (RuntimeErr ''no backups present to test'')
             else let latest = Max (set candidates)
             in (case be_get b latest w of
                   Inl e \<Rightarrow> Inl e
                 | Inr blob \<Rightarrow>
                 (case bv_decrypt env blob passphrase of
                   Inl e \<Rightarrow> Inl e
                 | Inr tar \<Rightarrow>
                 (case bv_open env tar of
                   Inl e \<Rightarrow> Inl e
                 | Inr ar \<Rightarrow>
                     (case check_archive ar of Some e \<Rightarrow> Inl e | None \<Rightarrow> Inr (latest, length blob)))))
      | (Inl e, _, _) \<Rightarrow> Inl e | (_, Inl e, _) \<Rightarrow> Inl e | (_, _, Inl e) \<Rightarrow> Inl e)"

text \<open>The \<open>try\<close> of \<open>restore_test\<close>; without a backend it takes the configured one.\<close>
definition try_restore :: "('x host_scheme, 'e) backup_env_scheme \<Rightarrow> 'x host_scheme backend option \<Rightarrow> store \<Rightarrow> 'x host_scheme
    \<Rightarrow> 'x host_scheme \<times> (exn + string \<times> string \<times> nat)" where
  "try_restore env given db w =
     (case passphrase_or_die env of
        Inl e \<Rightarrow> (w, Inl e)
      | Inr passphrase \<Rightarrow>
     (case (case given of Some b \<Rightarrow> (w, Inr b) | None \<Rightarrow> get_backend env db w) of
        (w, Inl e) \<Rightarrow> (w, Inl e)
      | (w, Inr b) \<Rightarrow>
          (w, case test_bundle env b passphrase w of Inl e \<Rightarrow> Inl e | Inr (latest, n) \<Rightarrow> Inr (be_name b, latest, n))))"

definition restore_test :: "('x host_scheme, 'e) backup_env_scheme \<Rightarrow> 'x host_scheme backend option \<Rightarrow> string \<Rightarrow> 'x host_scheme backups
    \<Rightarrow> 'x host_scheme backups \<times> event list" where
  "restore_test env given status_prefix s =
     (let (s, rid) = record_start env ''test'' s;
          label = (if status_prefix = ''backup'' then ''restore-test'' else ''off-box restore-test'');
          stamp = (\<lambda>ok s. put_setting env (status_prefix @ ''.last_test_ok'') ok
                     (put_setting env (status_prefix @ ''.last_test_at'') (isoformat (bk_now env s)) s))
      in case try_restore env given (bk_settings s) (bk_world s) of
           (w, Inr (name, latest, n)) \<Rightarrow>
             (stamp ''1'' (record_finish env rid Run_ok n (''verified:'' @ latest) name [] (s\<lparr>bk_world := w\<rparr>)),
              [Ship ''backup.restore_test_ok'' [(''source'', Some latest), (''size'', Some (py_str_nat n))]])
         | (w, Inl e) \<Rightarrow>
             (stamp ''0'' (record_finish env rid Run_failed 0 [] [] (exn_str e) (s\<lparr>bk_world := w\<rparr>)), notify_failed label (exn_str e)))"

section \<open>The schedule\<close>

text \<open>At least so long ago, or not a stamp with an offset: a naive one makes the subtraction raise.\<close>
definition older_than :: "int \<Rightarrow> instant \<Rightarrow> string \<Rightarrow> bool" where
  "older_than gap now stamp =
     (case parse_any_stamp stamp of Some (Aware t) \<Rightarrow> gap \<le> now - t | _ \<Rightarrow> True)"

definition day_of_month :: "instant \<Rightarrow> nat" where
  "day_of_month t = snd (snd (ymd_of_ordinal (nat (t div SECOND div 86400 + EPOCH))))"

definition daily_due :: "instant \<Rightarrow> store \<Rightarrow> bool" where
  "daily_due now db =
     (let last_at = get_setting ''backup.last_daily_at'' db
      in if str_truthy last_at then older_than (24 * HOUR) now (the last_at) else True)"

definition monthly_due :: "instant \<Rightarrow> store \<Rightarrow> bool" where
  "monthly_due now db =
     (let last_at = get_setting ''backup.last_monthly_at'' db
      in if str_truthy last_at then older_than (28 * DAY) now (the last_at) else day_of_month now = 1)"

definition test_due :: "instant \<Rightarrow> 'w backups \<Rightarrow> bool" where
  "test_due now s =
     (let last_at = get_setting ''backup.last_test_at'' (bk_settings s)
      in if str_truthy last_at then older_than (7 * DAY) now (the last_at) else latest_successful s \<noteq> None)"

definition offsite_due :: "('w, 'e) backup_env_scheme \<Rightarrow> 'w backups \<Rightarrow> bool" where
  "offsite_due env s =
     (let last_at = get_setting ''backup.offsite.last_test_at'' (bk_settings s)
      in offsite_configured env \<and> str_truthy (get_setting ''backup.offsite.last_at'' (bk_settings s))
         \<and> (if str_truthy last_at then older_than (7 * DAY) (bk_now env s) (the last_at) else True))"

text \<open>\<open>maybe_run_scheduled\<close>; only the constructor of the off-box backend may raise, out of the last statement.\<close>
definition maybe_run_scheduled :: "('x host_scheme, 'e) backup_env_scheme \<Rightarrow> 'x host_scheme backups \<Rightarrow> 'x host_scheme backups \<times> event list \<times> exn option" where
  "maybe_run_scheduled env s =
     (if str_or (get_setting ''backup.enabled'' (bk_settings s)) ''0'' \<noteq> ''1'' then (s, [], None)
      else
        let now = bk_now env s;
            daily = daily_due now (bk_settings s);
            monthly = monthly_due now (bk_settings s);
            (s, ev1) = (if monthly then (case run_backup env ''monthly'' s of
                                           (s, ev, _) \<Rightarrow> (put_setting env ''backup.last_daily_at'' (isoformat (bk_now env s)) s, ev))
                        else if daily then (case run_backup env ''daily'' s of (s, ev, _) \<Rightarrow> (s, ev))
                        else (s, []));
            (s, ev2) = (if test_due now s then restore_test env None ''backup'' s else (s, []))
        in if offsite_due env s
           then (case s3_backend env of
                   Inl e \<Rightarrow> (s, ev1 @ ev2, Some e)
                 | Inr b \<Rightarrow> (case restore_test env (Some b) ''backup.offsite'' s of (s, ev3) \<Rightarrow> (s, ev1 @ ev2 @ ev3, None)))
           else (s, ev1 @ ev2, None))"

section \<open>Object stores\<close>

text \<open>The keys under a prefix, in the order of \<open>sorted\<close>.\<close>
definition keys_under :: "string \<Rightarrow> string set \<Rightarrow> string list" where
  "keys_under pre held = sorted_list_of_set {key \<in> held. py_startswith key pre}"

text \<open>What retention needs of a backend, in the states of \<open>ok\<close>: keys come sorted, and a deletion removes one key.\<close>
locale object_store =
  fixes b :: "'w backend" and held :: "'w \<Rightarrow> string set" and ok :: "'w \<Rightarrow> bool"
  assumes finite_held: "ok w \<Longrightarrow> finite (held w)"
    and list_held: "ok w \<Longrightarrow> be_list b pre w = Inr (keys_under pre (held w))"
    and delete_held: "ok w \<Longrightarrow> \<exists>w'. be_delete b key w = (w', None) \<and> ok w' \<and> held w' = held w - {key}"
begin

lemma delete_keys_held:
  assumes "ok w"
  shows "\<exists>w'. delete_keys b ks w = (w', Inr (length ks)) \<and> ok w' \<and> held w' = held w - set ks"
  using assms
proof (induction ks arbitrary: w)
  case (Cons k ks)
  from delete_held [OF Cons.prems] obtain u where u: "be_delete b k w = (u, None)" "ok u" "held u = held w - {k}" by blast
  from Cons.IH [OF u(2)] obtain w' where "delete_keys b ks u = (w', Inr (length ks))" "ok w'" "held w' = held u - set ks" by blast
  with u show ?case by (auto simp: Diff_insert2 [symmetric] insert_Diff_if)
qed simp

lemma keys_under_props:
  assumes "ok w"
  shows "set (keys_under pre (held w)) = {key \<in> held w. py_startswith key pre}" "sorted (keys_under pre (held w))" "distinct (keys_under pre (held w))"
  using finite_held [OF assms] by (simp_all add: keys_under_def)

lemma keys_under_drop:
  assumes "ok w" "ok w'" and held: "held w' = held w - set (take n (keys_under pre (held w)))"
  shows "keys_under pre (held w') = drop n (keys_under pre (held w))"
proof (rule sorted_distinct_set_unique)
  have "set (keys_under pre (held w')) = set (keys_under pre (held w)) - set (take n (keys_under pre (held w)))"
    using keys_under_props(1) [OF assms(1), of pre] keys_under_props(1) [OF assms(2), of pre] held by blast
  also have "\<dots> = set (drop n (keys_under pre (held w)))"
    using set_take_disj_set_drop_if_distinct [OF keys_under_props(3) [OF assms(1), of pre], of n n]
      arg_cong [OF append_take_drop_id [of n "keys_under pre (held w)"], of set]
    unfolding set_append by blast
  finally show "set (keys_under pre (held w')) = set (drop n (keys_under pre (held w)))" .
qed (use keys_under_props [OF assms(1)] keys_under_props [OF assms(2)] in \<open>simp_all add: sorted_wrt_drop\<close>)

text \<open>One prefix: what is left is the last \<open>keep\<close> keys, and no key outside the prefix is touched.\<close>
lemma retain_prefix_keeps:
  assumes "ok w" "0 < keep"
  shows "\<exists>w'. retain_prefix b pre keep w = (w', Inr (length (keys_under pre (held w)) - nat keep)) \<and> ok w'
    \<and> keys_under pre (held w') = drop (length (keys_under pre (held w)) - nat keep) (keys_under pre (held w))
    \<and> (\<forall>key. \<not> py_startswith key pre \<longrightarrow> (key \<in> held w' \<longleftrightarrow> key \<in> held w))"
proof (cases "keep < int (length (keys_under pre (held w)))")
  case True
  let ?n = "length (keys_under pre (held w)) - nat keep"
  from delete_keys_held [OF assms(1), of "take ?n (keys_under pre (held w))"]
  obtain w' where w': "delete_keys b (take ?n (keys_under pre (held w))) w = (w', Inr (length (take ?n (keys_under pre (held w)))))" "ok w'"
    "held w' = held w - set (take ?n (keys_under pre (held w)))" by blast
  have "key \<in> held w' \<longleftrightarrow> key \<in> held w" if "\<not> py_startswith key pre" for key
    using that w'(3) keys_under_props(1) [OF assms(1), of pre] by (auto dest: in_set_takeD)
  then show ?thesis
    using True assms w' keys_under_drop [OF assms(1) w'(2,3)]
    by (auto simp: retain_prefix_def list_held [OF assms(1)] slice_before_def min_def)
next
  case False
  then have "length (keys_under pre (held w)) - nat keep = 0" by simp
  then show ?thesis using False assms by (simp add: retain_prefix_def list_held [OF assms(1)])
qed

lemma keys_under_other:
  assumes "ok w" "ok w'" "\<forall>key. \<not> py_startswith key p \<longrightarrow> (key \<in> held w' \<longleftrightarrow> key \<in> held w)"
    and "\<And>key. py_startswith key q \<Longrightarrow> \<not> py_startswith key p"
  shows "keys_under q (held w') = keys_under q (held w)"
proof -
  have "{key \<in> held w'. py_startswith key q} = {key \<in> held w. py_startswith key q}" using assms(3,4) by blast
  then show ?thesis by (simp add: keys_under_def)
qed

lemma apply_retention_keeps:
  assumes w: "ok w" and d: "py_int (str_or (get_setting ''backup.daily_keep'' db) ''30'') = Some d" "0 < d"
    and m: "py_int (str_or (get_setting ''backup.monthly_keep'' db) ''12'') = Some m" "0 < m"
  shows "\<exists>w'. ok w' \<and> apply_retention b db w = (w', Inr (length (keys_under ''daily/'' (held w)) - nat d,
        length (keys_under ''monthly/'' (held w)) - nat m, length (keys_under ''test/'' (held w)) - 7))
    \<and> keys_under ''daily/'' (held w') = drop (length (keys_under ''daily/'' (held w)) - nat d) (keys_under ''daily/'' (held w))
    \<and> keys_under ''monthly/'' (held w') = drop (length (keys_under ''monthly/'' (held w)) - nat m) (keys_under ''monthly/'' (held w))
    \<and> keys_under ''test/'' (held w') = drop (length (keys_under ''test/'' (held w)) - 7) (keys_under ''test/'' (held w))
    \<and> (\<forall>key. \<not> py_startswith key ''daily/'' \<and> \<not> py_startswith key ''monthly/'' \<and> \<not> py_startswith key ''test/''
          \<longrightarrow> (key \<in> held w' \<longleftrightarrow> key \<in> held w))"
proof -
  have apart: "\<And>key. py_startswith key ''monthly/'' \<Longrightarrow> \<not> py_startswith key ''daily/''"
    "\<And>key. py_startswith key ''test/'' \<Longrightarrow> \<not> py_startswith key ''daily/''"
    "\<And>key. py_startswith key ''test/'' \<Longrightarrow> \<not> py_startswith key ''monthly/''"
    "\<And>key. py_startswith key ''daily/'' \<Longrightarrow> \<not> py_startswith key ''monthly/''"
    "\<And>key. py_startswith key ''daily/'' \<Longrightarrow> \<not> py_startswith key ''test/''"
    "\<And>key. py_startswith key ''monthly/'' \<Longrightarrow> \<not> py_startswith key ''test/''"
    by (auto simp: py_str)
  from retain_prefix_keeps [OF w d(2), of "''daily/''"] obtain w1 where
    1: "retain_prefix b ''daily/'' d w = (w1, Inr (length (keys_under ''daily/'' (held w)) - nat d))" "ok w1"
      "keys_under ''daily/'' (held w1) = drop (length (keys_under ''daily/'' (held w)) - nat d) (keys_under ''daily/'' (held w))"
      "\<forall>key. \<not> py_startswith key ''daily/'' \<longrightarrow> (key \<in> held w1 \<longleftrightarrow> key \<in> held w)" by blast
  from retain_prefix_keeps [OF 1(2) m(2), of "''monthly/''"] obtain w2 where
    2: "retain_prefix b ''monthly/'' m w1 = (w2, Inr (length (keys_under ''monthly/'' (held w1)) - nat m))" "ok w2"
      "keys_under ''monthly/'' (held w2) = drop (length (keys_under ''monthly/'' (held w1)) - nat m) (keys_under ''monthly/'' (held w1))"
      "\<forall>key. \<not> py_startswith key ''monthly/'' \<longrightarrow> (key \<in> held w2 \<longleftrightarrow> key \<in> held w1)" by blast
  from retain_prefix_keeps [OF 2(2), of 7 "''test/''"] obtain w3 where
    3: "retain_prefix b ''test/'' 7 w2 = (w3, Inr (length (keys_under ''test/'' (held w2)) - 7))" "ok w3"
      "keys_under ''test/'' (held w3) = drop (length (keys_under ''test/'' (held w2)) - 7) (keys_under ''test/'' (held w2))"
      "\<forall>key. \<not> py_startswith key ''test/'' \<longrightarrow> (key \<in> held w3 \<longleftrightarrow> key \<in> held w2)" by auto
  note other = keys_under_other [OF w 1(2) 1(4) apart(1)] keys_under_other [OF w 1(2) 1(4) apart(2)]
    keys_under_other [OF 1(2) 2(2) 2(4) apart(3)] keys_under_other [OF 1(2) 2(2) 2(4) apart(4)]
    keys_under_other [OF 2(2) 3(2) 3(4) apart(5)] keys_under_other [OF 2(2) 3(2) 3(4) apart(6)]
  show ?thesis
    unfolding apply_retention_def d m option.case 1(1) 2(1) 3(1) prod.case sum.case
    using 1(3,4) 2(3,4) 3(2,3,4) other by (intro exI [of _ w3]) simp
qed

end

section \<open>The local store\<close>

definition no_faults :: "'w faults" where
  "no_faults op path w = None"

lemma dir_files_set [simp]: "dir_files base (set_files base fs w) = fs"
  by (simp add: dir_files_def set_files_def)

lemma local_backend_simps [simp]:
  "be_name (local_backend os base) = ''local''" "be_put (local_backend os base) = local_put os base"
  "be_get (local_backend os base) = local_get os base" "be_list (local_backend os base) = local_list base"
  "be_delete (local_backend os base) = local_delete os base"
  by (simp_all add: local_backend_def)

text \<open>The names of a directory are distinct.\<close>
definition dir_ok :: "string \<Rightarrow> 'x host_scheme \<Rightarrow> bool" where
  "dir_ok base w = distinct (map fst (dir_files base w))"

definition stored_keys :: "string \<Rightarrow> 'x host_scheme \<Rightarrow> string set" where
  "stored_keys base w = set (map fst (dir_files base w))"

interpretation local_store: object_store "local_backend no_faults base" "stored_keys base" "dir_ok base" for base
proof
  fix w :: "'a host_scheme" and pre key
  assume ok: "dir_ok base w"
  show "finite (stored_keys base w)" by (simp add: stored_keys_def)
  have "sort (filter (\<lambda>key. py_startswith key pre) (map fst (dir_files base w)))
      = sorted_list_of_set (set (filter (\<lambda>key. py_startswith key pre) (map fst (dir_files base w))))"
    using ok unfolding dir_ok_def by (intro sorted_list_of_set_sort_remdups [THEN trans, symmetric]) (simp add: distinct_remdups_id)
  then show "be_list (local_backend no_faults base) pre w = Inr (keys_under pre (stored_keys base w))"
    by (simp add: local_list_def keys_under_def stored_keys_def)
  show "\<exists>w'. be_delete (local_backend no_faults base) key w = (w', None) \<and> dir_ok base w' \<and> stored_keys base w' = stored_keys base w - {key}"
    using ok distinct_delete [of "dir_files base w" key] arg_cong [OF AList.delete_keys [of key "dir_files base w"], of set]
    by (simp add: local_delete_def no_faults_def dir_ok_def stored_keys_def)
qed

section \<open>The order of the keys\<close>

lemma less_append_same: "xs @ a < xs @ b \<longleftrightarrow> a < (b :: 'a :: linorder list)"
  by (induction xs) simp_all

lemma less_append_left: "length xs = length ys \<Longrightarrow> xs < ys \<Longrightarrow> xs @ a < ys @ (b :: 'a :: linorder list)"
  by (induction xs ys rule: list_induct2) auto

lemma digit_char_less: "m < n \<Longrightarrow> n < 10 \<Longrightarrow> digit_char m < digit_char n"
  by (simp add: digit_char_def less_char_def)

lemma pad_less: "n < n' \<Longrightarrow> n' < 10 ^ k \<Longrightarrow> pad k n < pad k n'"
proof (induction k arbitrary: n n')
  case (Suc k)
  show ?case
  proof (cases "n div 10 = n' div 10")
    case True
    then have "n mod 10 < n' mod 10" using Suc.prems(1) div_mult_mod_eq [of n 10] div_mult_mod_eq [of n' 10] by linarith
    then show ?thesis using True by (simp add: less_append_same digit_char_less)
  next
    case False
    moreover have "n div 10 \<le> n' div 10" using Suc.prems(1) by (simp add: div_le_mono)
    moreover have "n' div 10 < 10 ^ k" using Suc.prems(2) by (simp add: less_mult_imp_div_less mult.commute)
    ultimately show ?thesis by (auto intro!: less_append_left Suc.IH)
  qed
qed simp

lemma pad_split: "b < 10 ^ k \<Longrightarrow> pad (j + k) (a * 10 ^ k + b) = pad j a @ pad k b"
proof (induction k arbitrary: b)
  case (Suc k)
  have "a * 10 ^ Suc k + b = b + 10 * (a * 10 ^ k)" by simp
  then have "(a * 10 ^ Suc k + b) div 10 = a * 10 ^ k + b div 10" "(a * 10 ^ Suc k + b) mod 10 = b mod 10"
    by (simp_all only: mod_mult_self2)
  moreover have "b div 10 < 10 ^ k" using Suc.prems by (simp add: less_mult_imp_div_less mult.commute)
  ultimately show ?case using Suc.IH by simp
qed simp

lemma sum_take_mono: "i \<le> j \<Longrightarrow> sum_list (take i ls) \<le> sum_list (take j (ls :: nat list))"
  by (induction ls arbitrary: i j) (auto simp: take_Cons split: nat.splits)

lemma sum_take_next: "i < length ls \<Longrightarrow> d \<le> ls ! i \<Longrightarrow> sum_list (take i ls) + d \<le> sum_list (take (Suc i) (ls :: nat list))"
  by (simp add: take_Suc_conv_app_nth)

text \<open>The order of the dates is the order of their ordinals.\<close>
lemma ordinal_less:
  assumes "ordinal_of_ymd y m d = Some n" "ordinal_of_ymd y' m' d' = Some n'" "n < n'"
  shows "y * 10000 + m * 100 + d < y' * 10000 + m' * 100 + d'"
proof (rule ccontr)
  assume "\<not> ?thesis"
  moreover have v: "1 \<le> m \<and> m \<le> 12 \<and> 1 \<le> d \<and> 1 \<le> y \<and> n = days_before_year y + sum_list (take (m - 1) (month_lengths y)) + d"
    "1 \<le> m' \<and> m' \<le> 12 \<and> 1 \<le> d' \<and> 1 \<le> y' \<and> n' = days_before_year y' + sum_list (take (m' - 1) (month_lengths y')) + d'"
    "d \<le> month_lengths y ! (m - 1)" "d' \<le> month_lengths y' ! (m' - 1)"
    using assms(1,2) by (auto simp: ordinal_of_ymd_def split: if_splits)
  moreover have len: "length (month_lengths z) = 12" "\<forall>l \<in> set (month_lengths z). l \<le> 31" for z by (auto simp: month_lengths_def)
  moreover have "d \<le> 31"
    using v(1,3) len(1) [of y] len(2) [of y] nth_mem [of "m - 1" "month_lengths y"] by fastforce
  ultimately consider "y' < y" | "y' = y" "m' < m" | "y' = y" "m' = m" "d' \<le> d" by linarith
  then have "n' \<le> n"
  proof cases
    case 1
    then have "days_before_year (Suc y') \<le> days_before_year y"
      by (induction y rule: less_Suc_induct) (use v(2) in \<open>auto simp: days_before_year_Suc\<close>)
    moreover have "sum_list (take (m' - 1) (month_lengths y')) + d' \<le> sum_list (take (Suc (m' - 1)) (month_lengths y'))"
      using v(2,4) len(1) [of y'] by (intro sum_take_next) auto
    moreover have "\<dots> \<le> year_length y'"
      using sum_take_mono [of "Suc (m' - 1)" 12 "month_lengths y'"] v(2) len(1) [of y'] sum_month_lengths [of y'] by simp
    ultimately show ?thesis using v(1,2) by (simp add: days_before_year_Suc)
  next
    case 2
    have "sum_list (take (m' - 1) (month_lengths y)) + d' \<le> sum_list (take (Suc (m' - 1)) (month_lengths y))"
      using v(2,4) len(1) [of y'] 2 by (intro sum_take_next) auto
    moreover have "\<dots> \<le> sum_list (take (m - 1) (month_lengths y))" using 2 v(2) by (intro sum_take_mono) linarith
    ultimately show ?thesis using v(1,2) 2 by simp
  qed (use v in simp)
  with assms(3) show False by simp
qed

text \<open>The time of day as one number.\<close>
definition clock_number :: "nat \<Rightarrow> nat" where
  "clock_number tod = (tod div 3600 * 100 + tod div 60 mod 60) * 100 + tod mod 60"

lemma clock_number_eq: "clock_number x = x + 40 * (x div 60) + 4000 * (x div 3600)"
proof -
  have numbers: "(h * 100 + m) * 100 + s = n + 40 * q + 4000 * h" if "q * 60 + s = n" "h * 60 + m = q" for h m s q n :: nat
    using that by simp
  have "x div 3600 = x div 60 div 60" by (simp add: div_mult2_eq)
  then show ?thesis unfolding clock_number_def using numbers [OF div_mult_mod_eq [of x 60] div_mult_mod_eq [of "x div 60" 60]] by (simp only:)
qed

lemma clock_number_less:
  assumes "a < b" "b < 86400"
  shows "clock_number a < clock_number b \<and> clock_number b < 1000000"
proof -
  have "a div 60 \<le> b div 60" "a div 3600 \<le> b div 3600" using assms(1) by (simp_all add: div_le_mono)
  moreover have "b div 60 < 1440" "b div 3600 < 24" using assms(2) by (simp_all add: div_less_iff_less_mult)
  ultimately show ?thesis unfolding clock_number_eq using assms by linarith
qed

lemma stamp_parts:
  assumes "y \<le> 9999" "m \<le> 12" "d \<le> 31" "tod < 86400"
  shows "pad 4 y @ pad 2 m @ pad 2 d = pad 8 (y * 10000 + m * 100 + d)"
    "pad 2 (tod div 3600) @ pad 2 (tod div 60 mod 60) @ pad 2 (tod mod 60) = pad 6 (clock_number tod)"
proof -
  have "pad 8 (y * 10000 + m * 100 + d) = pad 6 (y * 100 + m) @ pad 2 d"
    using pad_split [of d 2 6 "y * 100 + m"] assms by (simp add: algebra_simps)
  also have "pad 6 (y * 100 + m) = pad 4 y @ pad 2 m" using pad_split [of m 2 4 y] assms by simp
  finally show "pad 4 y @ pad 2 m @ pad 2 d = pad 8 (y * 10000 + m * 100 + d)" by simp
  have mods: "tod mod 60 < 60" "tod div 60 mod 60 < 60" by simp_all
  then have "pad 6 (clock_number tod) = pad 4 (tod div 3600 * 100 + tod div 60 mod 60) @ pad 2 (tod mod 60)"
    using pad_split [of "tod mod 60" 2 4 "tod div 3600 * 100 + tod div 60 mod 60"] by (simp add: clock_number_def)
  also have "pad 4 (tod div 3600 * 100 + tod div 60 mod 60) = pad 2 (tod div 3600) @ pad 2 (tod div 60 mod 60)"
    using pad_split [of "tod div 60 mod 60" 2 2 "tod div 3600"] mods by simp
  finally show "pad 2 (tod div 3600) @ pad 2 (tod div 60 mod 60) @ pad 2 (tod mod 60) = pad 6 (clock_number tod)" by simp
qed

definition date_number :: "nat \<Rightarrow> nat" where
  "date_number n = (case ymd_of_ordinal n of (y, m, d) \<Rightarrow> y * 10000 + m * 100 + d)"

lemma date_number_less:
  assumes "1 \<le> n" "n < n'" "n' \<le> MAX_ORDINAL"
  shows "date_number n < date_number n' \<and> date_number n' < 100000000"
proof -
  obtain y m d y' m' d' where ymd: "ymd_of_ordinal n = (y, m, d)" "ymd_of_ordinal n' = (y', m', d')" using prod_cases3 by metis
  have r: "ordinal_of_ymd y m d = Some n" using ordinal_ymd_roundtrip [OF _ _ ymd(1)] assms by simp
  have r': "ordinal_of_ymd y' m' d' = Some n' \<and> m' \<le> 12 \<and> d' \<le> 31 \<and> y' \<le> 9999" using ordinal_ymd_roundtrip [OF _ _ ymd(2)] assms by simp
  from ordinal_less [OF r _ assms(2), of y' m' d'] r' show ?thesis unfolding date_number_def ymd prod.case by linarith
qed

text \<open>A stamp as two numbers of fixed width: the date and the time of day.\<close>
lemma compact_stamp_numbers:
  assumes "datable t"
  shows "compact_stamp t = pad 8 (date_number (nat (t div SECOND div 86400 + EPOCH))) @ ''T'' @ pad 6 (clock_number (nat (t div SECOND mod 86400))) @ ''Z''
    \<and> 1 \<le> t div SECOND div 86400 + EPOCH \<and> t div SECOND div 86400 + EPOCH \<le> int MAX_ORDINAL"
proof -
  define n where "n = nat (t div SECOND div 86400 + EPOCH)"
  obtain y m d where ymd: "ymd_of_ordinal n = (y, m, d)" using prod_cases3 by blast
  have "(1 - EPOCH) * 86400 \<le> t div SECOND" "t div SECOND < (int MAX_ORDINAL + 1 - EPOCH) * 86400"
    using assms by (auto simp: datable_def DAY_def SECOND_def EPOCH_def MAX_ORDINAL_def)
  then have range: "1 \<le> t div SECOND div 86400 + EPOCH" "t div SECOND div 86400 + EPOCH \<le> int MAX_ORDINAL"
    by (auto simp: EPOCH_def MAX_ORDINAL_def)
  then have "1 \<le> n" "n \<le> MAX_ORDINAL" by (auto simp: n_def)
  note r = ordinal_ymd_roundtrip [OF this ymd]
  define tod where "tod = nat (t div SECOND mod 86400)"
  have tod: "tod < 86400" by (simp add: tod_def nat_less_iff)
  have parts: "pad 8 (date_number n) = pad 4 y @ pad 2 m @ pad 2 d"
    "pad 6 (clock_number tod) = pad 2 (tod div 3600) @ pad 2 (tod div 60 mod 60) @ pad 2 (tod mod 60)"
    using stamp_parts [of y m d tod] r tod by (simp_all add: date_number_def ymd)
  have "compact_stamp t = pad 8 (date_number n) @ ''T'' @ pad 6 (clock_number tod) @ ''Z''"
    unfolding parts by (simp add: compact_stamp_def Let_def ymd n_def [symmetric] tod_def [symmetric])
  then show ?thesis using range unfolding n_def tod_def by blast
qed

lemma compact_stamp_less:
  assumes "datable t" "datable t'" "t div SECOND < t' div SECOND"
  shows "compact_stamp t < compact_stamp t'"
proof -
  let ?s = "t div SECOND" and ?s' = "t' div SECOND"
  note n = compact_stamp_numbers [OF assms(1)] compact_stamp_numbers [OF assms(2)]
  show ?thesis
  proof (cases "?s div 86400 = ?s' div 86400")
    case True
    then have "?s mod 86400 < ?s' mod 86400" using assms(3) div_mult_mod_eq [of ?s 86400] div_mult_mod_eq [of ?s' 86400] by linarith
    then have "clock_number (nat (?s mod 86400)) < clock_number (nat (?s' mod 86400)) \<and> clock_number (nat (?s' mod 86400)) < 1000000"
      by (intro clock_number_less) (simp_all add: nat_less_iff)
    then show ?thesis unfolding n [THEN conjunct1] True by (simp add: less_append_same less_append_left pad_less)
  next
    case False
    then have "?s div 86400 < ?s' div 86400" using assms(3) zdiv_mono1 [of ?s ?s' 86400] by simp
    then have "date_number (nat (?s div 86400 + EPOCH)) < date_number (nat (?s' div 86400 + EPOCH)) \<and> date_number (nat (?s' div 86400 + EPOCH)) < 100000000"
      using n by (intro date_number_less) auto
    then show ?thesis unfolding n [THEN conjunct1] by (simp add: less_append_left pad_less)
  qed
qed

text \<open>The names of the bundles of one kind are ordered as the times at which they were taken, to the second, over the years 1 to 9999: what the
  retention deletes first is what is oldest, and the largest name under one prefix is the newest bundle.\<close>
theorem key_order:
  assumes "datable t" "datable t'"
  shows "key_for kind t < key_for kind t' \<longleftrightarrow> t div SECOND < t' div SECOND"
proof -
  have len: "length (compact_stamp t) = length (compact_stamp t')"
    using compact_stamp_numbers [OF assms(1)] compact_stamp_numbers [OF assms(2)] by simp
  have key: "key_for kind a < key_for kind b" if "compact_stamp a < compact_stamp b" "length (compact_stamp a) = length (compact_stamp b)" for a b
    unfolding key_for_def less_append_same by (rule less_append_left [OF that(2,1)])
  consider "t div SECOND < t' div SECOND" | "t div SECOND = t' div SECOND" | "t' div SECOND < t div SECOND" by linarith
  then show ?thesis
  proof cases
    case 1
    with key [OF compact_stamp_less [OF assms 1] len] show ?thesis by simp
  next
    case 2
    then show ?thesis by (simp add: key_for_def compact_stamp_def)
  next
    case 3
    with key [OF compact_stamp_less [OF assms(2,1) 3] len [symmetric]] show ?thesis by simp
  qed
qed

theorem key_order_witness:
  "key_for ''daily'' 1719792000000000 < key_for ''daily'' 1719878400000000"
proof -
  have "datable 1719792000000000" "datable 1719878400000000" by (simp_all add: datable_def time_units EPOCH_def MAX_ORDINAL_def)
  from key_order [OF this, of "''daily''"] show ?thesis by (simp add: SECOND_def)
qed

section \<open>Retention on the local store\<close>

text \<open>(C28) Retention keeps the newest bundles: over a local directory, with positive limits, a sweep leaves of the daily, the monthly and the test
  bundles exactly the last ones in the order of their names, up to the limit of each kind, touches no other file, the manual bundles included, and reports
  the numbers it removed.\<close>
theorem retention_keeps_newest:
  assumes "dir_ok base w"
    and "py_int (str_or (get_setting ''backup.daily_keep'' db) ''30'') = Some d" "0 < d"
    and "py_int (str_or (get_setting ''backup.monthly_keep'' db) ''12'') = Some m" "0 < m"
  shows "\<exists>w'. dir_ok base w' \<and> apply_retention (local_backend no_faults base) db w =
        (w', Inr (length (keys_under ''daily/'' (stored_keys base w)) - nat d,
        length (keys_under ''monthly/'' (stored_keys base w)) - nat m, length (keys_under ''test/'' (stored_keys base w)) - 7))
    \<and> keys_under ''daily/'' (stored_keys base w')
      = drop (length (keys_under ''daily/'' (stored_keys base w)) - nat d) (keys_under ''daily/'' (stored_keys base w))
    \<and> keys_under ''monthly/'' (stored_keys base w')
      = drop (length (keys_under ''monthly/'' (stored_keys base w)) - nat m) (keys_under ''monthly/'' (stored_keys base w))
    \<and> keys_under ''test/'' (stored_keys base w')
      = drop (length (keys_under ''test/'' (stored_keys base w)) - 7) (keys_under ''test/'' (stored_keys base w))
    \<and> (\<forall>key. \<not> py_startswith key ''daily/'' \<and> \<not> py_startswith key ''monthly/'' \<and> \<not> py_startswith key ''test/''
          \<longrightarrow> (key \<in> stored_keys base w' \<longleftrightarrow> key \<in> stored_keys base w))"
  by (rule local_store.apply_retention_keeps [OF assms])

definition three_days :: host where
  "three_days = \<lparr>h_dirs = (\<lambda>_. Some [(''daily/3'', ''c''), (''daily/1'', ''a''), (''manual/0'', ''m''), (''daily/2'', ''b'')])\<rparr>"

definition keep_two :: store where
  "keep_two = set_setting 0 ''backup.daily_keep'' ''2'' empty_store"

theorem retention_keeps_newest_witness:
  "\<exists>w'. apply_retention (local_backend no_faults ''/b'') keep_two three_days = (w', Inr (1, 0, 0))
    \<and> keys_under ''daily/'' (stored_keys ''/b'' w') = [''daily/2'', ''daily/3''] \<and> ''manual/0'' \<in> stored_keys ''/b'' w'"
proof -
  have "dir_ok ''/b'' three_days" by code_simp
  moreover have "py_int (str_or (get_setting ''backup.daily_keep'' keep_two) ''30'') = Some 2"
    "py_int (str_or (get_setting ''backup.monthly_keep'' keep_two) ''12'') = Some 12" by code_simp+
  ultimately obtain w' where w': "apply_retention (local_backend no_faults ''/b'') keep_two three_days =
        (w', Inr (length (keys_under ''daily/'' (stored_keys ''/b'' three_days)) - nat 2,
        length (keys_under ''monthly/'' (stored_keys ''/b'' three_days)) - nat 12, length (keys_under ''test/'' (stored_keys ''/b'' three_days)) - 7))"
    "keys_under ''daily/'' (stored_keys ''/b'' w')
      = drop (length (keys_under ''daily/'' (stored_keys ''/b'' three_days)) - nat 2) (keys_under ''daily/'' (stored_keys ''/b'' three_days))"
    "\<forall>key. \<not> py_startswith key ''daily/'' \<and> \<not> py_startswith key ''monthly/'' \<and> \<not> py_startswith key ''test/''
          \<longrightarrow> (key \<in> stored_keys ''/b'' w' \<longleftrightarrow> key \<in> stored_keys ''/b'' three_days)"
    using retention_keeps_newest [of "''/b''" three_days keep_two 2 12] by auto
  have keys: "keys_under ''daily/'' (stored_keys ''/b'' three_days) = [''daily/1'', ''daily/2'', ''daily/3'']"
    "keys_under ''monthly/'' (stored_keys ''/b'' three_days) = []" "keys_under ''test/'' (stored_keys ''/b'' three_days) = []"
    "''manual/0'' \<in> stored_keys ''/b'' three_days" "\<not> py_startswith ''manual/0'' ''daily/''"
    "\<not> py_startswith ''manual/0'' ''monthly/''" "\<not> py_startswith ''manual/0'' ''test/''" by code_simp+
  show ?thesis using w' keys by (intro exI [of _ w']) simp
qed

section \<open>Every run is on record\<close>

lemma put_setting_runs [simp]: "bk_runs (put_setting env key v s) = bk_runs s" "bk_world (put_setting env key v s) = bk_world s"
  by (simp_all add: put_setting_def)

lemma record_finish_rest [simp]:
  "bk_settings (record_finish env rid st n dest bk err s) = bk_settings s" "bk_world (record_finish env rid st n dest bk err s) = bk_world s"
  by (simp_all add: record_finish_def)

lemma ship_offsite_runs [simp]: "bk_runs (fst (ship_offsite env key blob s)) = bk_runs s"
  by (simp add: ship_offsite_def Let_def split: prod.split sum.split)

lemma settle_backup_runs:
  "bk_runs (fst (settle_backup env kind rid (b, ts, key, blob, dest, files) s)) = bk_runs (record_finish env rid Run_ok (length blob) dest (be_name b) [] s)"
proof -
  have "bk_runs s' = bk_runs s" if "ship_offsite env key blob s = (s', ev)" for s s' ev
    using ship_offsite_runs [of env key blob s] that by simp
  then show ?thesis by (auto simp: settle_backup_def Let_def split: prod.split)
qed

lemma finish_new_row:
  assumes "auto_ok t"
  shows "rows (update_rows (\<lambda>i _. i = snd (insert_row r t)) f (fst (insert_row r t))) = rows t @ [(snd (insert_row r t), f r)]"
proof -
  have "(case p of (i, r) \<Rightarrow> (i, if i = Suc (seq t) then f r else r)) = p" if "p \<in> set (rows t)" for p
    using assms that by (cases p) (force simp: auto_ok_def)
  then have "map (\<lambda>(i, r). (i, if i = Suc (seq t) then f r else r)) (rows t) = rows t" by (intro map_idI) auto
  then show ?thesis by (simp add: update_rows_def insert_row_def Let_def)
qed


lemma run_backup_id: "snd (snd (run_backup env kind s)) = seq (bk_runs s) + 1"
  by (simp add: run_backup_def record_start_def insert_row_def Let_def split: prod.split sum.split)

text \<open>A host where the passphrase is set and the bundle builds.\<close>
definition sample_host :: "host backup_env" where
  "sample_host = \<lparr>bv_environ = (\<lambda>name. if name = ''BACKUP_PASSPHRASE'' then Some ''correct horse battery'' else None), bv_now = (\<lambda>_. 0),
     bv_build = (\<lambda>_ w. (w, Inr (''blob'', 3))), bv_decrypt = (\<lambda>blob _. Inr blob),
     bv_open = (\<lambda>_. Inr \<lparr>ar_members = [''protek.db''], ar_extract = Inr (Some (Inr \<lparr>sn_integrity = ''ok'', sn_tables = [''settings'', ''decisions'']\<rparr>))\<rparr>),
     bv_os = no_faults, bv_boto = False, bv_s3 = (\<lambda>_. local_backend no_faults ''s3''), bv_head = (\<lambda>_ _. Inr 0)\<rparr>"

definition fresh_backups :: "host backups" where
  "fresh_backups = \<lparr>bk_settings = empty_store, bk_runs = empty_table, bk_world = \<lparr>h_dirs = (\<lambda>_. None)\<rparr>\<rparr>"


section \<open>The envelope round trip\<close>

text \<open>An encrypted bundle opens again with its passphrase, whatever the salt and the nonce, when the cipher opens what it sealed under the same key
  and nonce; a file with another magic number is refused, and so is one that the cipher does not open.\<close>
theorem envelope_roundtrip:
  assumes "length salt = SALT_LEN" "length nonce = NONCE_LEN"
    and "\<And>key n p. unseal key n (seal key n p) = Inr p"
  shows "decrypt derive unseal (encrypt derive seal salt nonce plaintext passphrase) passphrase = Inr plaintext
    \<and> (\<not> py_startswith blob MAGIC \<longrightarrow> decrypt derive unseal blob passphrase = Inl (ValueError ''not a protek backup bundle (bad magic)''))"
  using assms by (simp add: decrypt_def encrypt_def)

section \<open>The restore test\<close>

lemma test_bundle_checked:
  assumes "test_bundle env b pass w = Inr (latest, n)"
  shows "\<exists>ds ms us blob tar ar. be_list b ''daily/'' w = Inr ds \<and> be_list b ''monthly/'' w = Inr ms \<and> be_list b ''manual/'' w = Inr us
    \<and> ds @ ms @ us \<noteq> [] \<and> latest = Max (set (ds @ ms @ us)) \<and> be_get b latest w = Inr blob \<and> n = length blob
    \<and> bv_decrypt env blob pass = Inr tar \<and> bv_open env tar = Inr ar \<and> check_archive ar = None"
proof -
  obtain ds ms us where lists: "be_list b ''daily/'' w = Inr ds" "be_list b ''monthly/'' w = Inr ms" "be_list b ''manual/'' w = Inr us"
    using assms by (auto simp: test_bundle_def split: sum.splits)
  define latest' where "latest' = Max (set (ds @ ms @ us))"
  have some: "ds @ ms @ us \<noteq> []" using assms unfolding test_bundle_def lists by (auto simp: Let_def)
  have eq: "test_bundle env b pass w =
      (case be_get b latest' w of Inl e \<Rightarrow> Inl e | Inr blob \<Rightarrow>
      (case bv_decrypt env blob pass of Inl e \<Rightarrow> Inl e | Inr tar \<Rightarrow>
      (case bv_open env tar of Inl e \<Rightarrow> Inl e | Inr ar \<Rightarrow>
      (case check_archive ar of Some e \<Rightarrow> Inl e | None \<Rightarrow> Inr (latest', length blob)))))"
    unfolding test_bundle_def lists prod.case sum.case Let_def if_not_P [OF some] latest'_def ..
  obtain blob where blob: "be_get b latest' w = Inr blob" using assms unfolding eq by (cases "be_get b latest' w") simp_all
  obtain tar where tar: "bv_decrypt env blob pass = Inr tar" using assms unfolding eq blob sum.case by (cases "bv_decrypt env blob pass") simp_all
  obtain ar where ar: "bv_open env tar = Inr ar" using assms unfolding eq blob tar sum.case by (cases "bv_open env tar") simp_all
  have "latest = latest' \<and> n = length blob \<and> check_archive ar = None"
    using assms unfolding eq blob tar ar sum.case by (cases "check_archive ar") simp_all
  then show ?thesis using lists blob some tar ar latest'_def by blast
qed

lemma check_archive_None:
  "check_archive ar = None \<longleftrightarrow> (\<forall>name \<in> set (ar_members ar). \<not> unsafe_member name)
    \<and> (\<exists>sn. ar_extract ar = Inr (Some (Inr sn)) \<and> sn_integrity sn = ''ok'' \<and> {''settings'', ''decisions''} \<subseteq> set (sn_tables sn))"
  by (auto simp: check_archive_def list_ex_iff split: sum.split option.split)

lemma unverified_iff: "''backup_unverified'' \<in> set (hygiene_warnings now db) \<longleftrightarrow> get_setting ''backup.last_test_ok'' db = Some ''0''"
  by (auto simp: hygiene_warnings_def findings_def Let_def split: option.split)

lemma put_setting_settings [simp]: "get_setting k' (bk_settings (put_setting env k v s)) = (if k' = k then Some v else get_setting k' (bk_settings s))"
  by (simp add: put_setting_def)

lemma record_start_rest:
  "bk_settings (fst (record_start env kind s)) = bk_settings s" "bk_world (fst (record_start env kind s)) = bk_world s"
  by (simp_all add: record_start_def insert_row_def Let_def)

text \<open>A restore test writes two settings under its own prefix and passes the world on.\<close>
lemma restore_test_result:
  assumes "try_restore env given (bk_settings s) (bk_world s) = (w, out)"
  shows "get_setting k (bk_settings (fst (restore_test env given pfx s))) =
      (if k = pfx @ ''.last_test_ok'' then Some (case out of Inl _ \<Rightarrow> ''0'' | Inr _ \<Rightarrow> ''1'')
       else if k = pfx @ ''.last_test_at'' then Some (isoformat (bv_now env w)) else get_setting k (bk_settings s))"
    "bk_world (fst (restore_test env given pfx s)) = w"
    "snd (restore_test env given pfx s) = (case out of
       Inl e \<Rightarrow> notify_failed (if pfx = ''backup'' then ''restore-test'' else ''off-box restore-test'') (exn_str e)
     | Inr (name, latest, n) \<Rightarrow> [Ship ''backup.restore_test_ok'' [(''source'', Some latest), (''size'', Some (py_str_nat n))]])"
proof -
  obtain u rid where start: "record_start env ''test'' s = (u, rid)" by (cases "record_start env ''test'' s")
  then have u: "bk_settings u = bk_settings s" "bk_world u = bk_world s" using record_start_rest [of env "''test''" s] by simp_all
  show "get_setting k (bk_settings (fst (restore_test env given pfx s))) =
      (if k = pfx @ ''.last_test_ok'' then Some (case out of Inl _ \<Rightarrow> ''0'' | Inr _ \<Rightarrow> ''1'')
       else if k = pfx @ ''.last_test_at'' then Some (isoformat (bv_now env w)) else get_setting k (bk_settings s))"
    "bk_world (fst (restore_test env given pfx s)) = w"
    "snd (restore_test env given pfx s) = (case out of
       Inl e \<Rightarrow> notify_failed (if pfx = ''backup'' then ''restore-test'' else ''off-box restore-test'') (exn_str e)
     | Inr (name, latest, n) \<Rightarrow> [Ship ''backup.restore_test_ok'' [(''source'', Some latest), (''size'', Some (py_str_nat n))]])"
    using assms by (auto simp: restore_test_def start u Let_def bk_now_def split: sum.split)
qed

text \<open>(C29) The verdict of the restore test reaches the operator, and a good one is earned: after a failed test the hygiene check warns of an unverified
  backup and the failure is notified; after a passed one it does not warn, and the bundle that was fetched from the configured store decrypted, opened to an archive
  without absolute or climbing names, and held an intact database with the settings and the decisions.\<close>
theorem restore_verdict:
  "case snd (try_restore env None (bk_settings s) (bk_world s)) of
     Inl e \<Rightarrow> ''backup_unverified'' \<in> set (hygiene_warnings now (bk_settings (fst (restore_test env None ''backup'' s))))
       \<and> snd (restore_test env None ''backup'' s) = notify_failed ''restore-test'' (exn_str e)
   | Inr (name, latest, n) \<Rightarrow> ''backup_unverified'' \<notin> set (hygiene_warnings now (bk_settings (fst (restore_test env None ''backup'' s))))
       \<and> (\<exists>w b pass blob tar ar sn. get_backend env (bk_settings s) (bk_world s) = (w, Inr b) \<and> passphrase_or_die env = Inr pass
          \<and> be_get b latest w = Inr blob \<and> bv_decrypt env blob pass = Inr tar \<and> bv_open env tar = Inr ar
          \<and> list_all (\<lambda>member. \<not> unsafe_member member) (ar_members ar) \<and> ar_extract ar = Inr (Some (Inr sn)) \<and> sn_integrity sn = ''ok''
          \<and> {''settings'', ''decisions''} \<subseteq> set (sn_tables sn))"
proof -
  obtain w out where tried: "try_restore env None (bk_settings s) (bk_world s) = (w, out)" by (cases "try_restore env None (bk_settings s) (bk_world s)")
  note result = restore_test_result [OF tried, where pfx = "''backup''"]
  show ?thesis
  proof (cases out)
    case (Inl e)
    then show ?thesis by (simp add: tried unverified_iff result)
  next
    case (Inr r)
    obtain name latest n where r: "r = (name, latest, n)" by (cases r)
    obtain pass where pass: "passphrase_or_die env = Inr pass" using tried Inr by (cases "passphrase_or_die env") (simp_all add: try_restore_def)
    obtain v got where got: "get_backend env (bk_settings s) (bk_world s) = (v, got)" by (cases "get_backend env (bk_settings s) (bk_world s)")
    obtain b where b: "got = Inr b" using tried Inr by (cases got) (simp_all add: try_restore_def pass got)
    obtain latest' n' where test: "test_bundle env b pass v = Inr (latest', n')" and "latest' = latest"
      using tried Inr r by (cases "test_bundle env b pass v") (auto simp: try_restore_def pass got b)
    from test_bundle_checked [OF test] this(2) obtain blob tar ar where
      t: "be_get b latest v = Inr blob" "bv_decrypt env blob pass = Inr tar" "bv_open env tar = Inr ar" "check_archive ar = None" by blast
    from t(4) obtain sn where sn: "list_all (\<lambda>member. \<not> unsafe_member member) (ar_members ar)" "ar_extract ar = Inr (Some (Inr sn))"
      "sn_integrity sn = ''ok''" "{''settings'', ''decisions''} \<subseteq> set (sn_tables sn)"
      unfolding check_archive_None list_all_iff by blast
    have "\<exists>w b pass blob tar ar sn. get_backend env (bk_settings s) (bk_world s) = (w, Inr b) \<and> passphrase_or_die env = Inr pass
          \<and> be_get b latest w = Inr blob \<and> bv_decrypt env blob pass = Inr tar \<and> bv_open env tar = Inr ar
          \<and> list_all (\<lambda>member. \<not> unsafe_member member) (ar_members ar) \<and> ar_extract ar = Inr (Some (Inr sn)) \<and> sn_integrity sn = ''ok''
          \<and> {''settings'', ''decisions''} \<subseteq> set (sn_tables sn)"
      using got pass t(1-3) sn unfolding b by blast
    then show ?thesis by (simp add: tried Inr r unverified_iff result)
  qed
qed

text \<open>The prefix outweighs the time: once there is a monthly bundle, the restore test takes one, however many newer daily ones there are.\<close>
lemma restore_tests_monthly:
  assumes "test_bundle env (local_backend os base) pass w = Inr (latest, n)" "key \<in> stored_keys base w" "py_startswith key ''monthly/''"
  shows "py_startswith latest ''monthly/''"
proof -
  define K where "K = {key \<in> stored_keys base w. py_startswith key ''daily/'' \<or> py_startswith key ''monthly/'' \<or> py_startswith key ''manual/''}"
  have "latest = Max K"
    using test_bundle_checked [OF assms(1)] by (auto simp: local_list_def K_def stored_keys_def intro!: arg_cong [of _ _ Max])
  moreover have "finite K" "key \<in> K" using assms(2,3) by (auto simp: K_def stored_keys_def)
  ultimately have latest: "latest \<in> K" "key \<le> latest" using Max_in [of K] Max_ge [of K key] by blast+
  obtain rest where key: "key = ''monthly/'' @ rest" using assms(3) by (auto simp: py_startswith_iff)
  have "''daily/'' @ x < key" "''manual/'' @ x < key" for x
    unfolding key by (simp_all add: less_char_def)
  then have "\<not> py_startswith latest ''daily/'' \<and> \<not> py_startswith latest ''manual/''"
    using latest(2) unfolding py_startswith_iff by (metis not_le)
  then show ?thesis using latest(1) unfolding K_def by blast
qed

section \<open>The schedule over time\<close>

lemma daily_due_after: "datable t \<Longrightarrow> get_setting ''backup.last_daily_at'' db = Some (isoformat t) \<Longrightarrow> daily_due now db \<longleftrightarrow> 24 * HOUR \<le> now - t"
  by (simp add: daily_due_def older_than_def str_truthy_def)

lemma failed_run:
  assumes "store_bundle env kind (bk_settings s) (bk_world s) = (w, Inl e)"
  shows "bk_settings (fst (run_backup env kind s)) = bk_settings s" "bk_world (fst (run_backup env kind s)) = w"
proof -
  obtain u rid where start: "record_start env kind s = (u, rid)" by (cases "record_start env kind s")
  then have "bk_settings u = bk_settings s" "bk_world u = bk_world s" using record_start_rest [of env kind s] by simp_all
  then show "bk_settings (fst (run_backup env kind s)) = bk_settings s" "bk_world (fst (run_backup env kind s)) = w"
    using assms by (simp_all add: run_backup_def start)
qed

text \<open>What no restore test writes survives the second half of the schedule.\<close>
lemma restore_test_setting:
  "k \<notin> {p @ ''.last_test_ok'', p @ ''.last_test_at''} \<Longrightarrow> get_setting k (bk_settings (fst (restore_test env given p s))) = get_setting k (bk_settings s)"
  by (cases "try_restore env given (bk_settings s) (bk_world s)") (simp add: restore_test_result(1))

lemma scheduled_daily_stamp:
  assumes "str_or (get_setting ''backup.enabled'' (bk_settings s)) ''0'' = ''1''" "monthly_due (bk_now env s) (bk_settings s)"
  shows "get_setting ''backup.last_daily_at'' (bk_settings (fst (maybe_run_scheduled env s)))
    = Some (isoformat (bk_now env (fst (run_backup env ''monthly'' s))))"
proof -
  obtain u ev rid where run: "run_backup env ''monthly'' s = (u, ev, rid)" by (rule prod_cases3)
  define v where "v = put_setting env ''backup.last_daily_at'' (isoformat (bk_now env u)) u"
  obtain x ev2 where test: "(if test_due (bk_now env s) v then restore_test env None ''backup'' v else (v, [])) = (x, ev2)" by (rule prod.exhaust)
  have "fst (if test_due (bk_now env s) v then restore_test env None ''backup'' v else (v, [])) = x" unfolding test by simp
  then have x: "get_setting ''backup.last_daily_at'' (bk_settings x) = Some (isoformat (bk_now env u))"
    by (cases "test_due (bk_now env s) v") (auto simp: v_def restore_test_setting)
  have "fst (maybe_run_scheduled env s) = (if offsite_due env x
      then (case s3_backend env of Inl _ \<Rightarrow> x | Inr b \<Rightarrow> fst (restore_test env (Some b) ''backup.offsite'' x)) else x)"
    using assms by (simp add: maybe_run_scheduled_def Let_def run v_def [symmetric] test split: prod.split sum.split)
  then show ?thesis using x by (simp add: restore_test_setting run split: sum.split)
qed

text \<open>A monthly run stamps the daily time even when it failed: while the monthly runs fail, without a passphrase say, every round of the schedule leaves
  a fresh stamp, and the hygiene check does not see that there are no backups.\<close>
lemma monthly_failure_hides_staleness:
  assumes "str_or (get_setting ''backup.enabled'' (bk_settings s)) ''0'' = ''1''" "monthly_due (bk_now env s) (bk_settings s)"
    and "passphrase_or_die env = Inl e" "datable (bk_now env s)" "now - bk_now env s \<le> HOUR"
  shows "(\<exists>w. store_bundle env ''monthly'' (bk_settings s) (bk_world s) = (w, Inl e))
    \<and> ''backup_stale'' \<notin> set (hygiene_warnings now (bk_settings (fst (maybe_run_scheduled env s))))"
proof -
  have store: "store_bundle env ''monthly'' (bk_settings s) (bk_world s) = (bk_world s, Inl e)" by (simp add: store_bundle_def assms(3))
  have "bk_now env (fst (run_backup env ''monthly'' s)) = bk_now env s" by (simp add: bk_now_def failed_run(2) [OF store])
  then have stamp: "get_setting ''backup.last_daily_at'' (bk_settings (fst (maybe_run_scheduled env s))) = Some (isoformat (bk_now env s))"
    using scheduled_daily_stamp [OF assms(1,2)] by simp
  have "1 \<le> hygiene_hours db key 36" for db key by (auto simp: hygiene_hours_def split: option.split)
  moreover have "hours_between (bk_now env s) now \<le> 1"
    using assms(5) of_int_le_iff [of "now - bk_now env s" HOUR, where ?'a = rat] by (simp add: hours_between_def divide_le_eq time_units)
  ultimately have "hours_between (bk_now env s) now \<le> hygiene_hours db key 36" for db key using order_trans by blast
  then show ?thesis using store by (auto simp: hygiene_warnings_def findings_def hygiene_parse_def stamp str_truthy_def assms(4) Let_def not_less [symmetric])
qed

end
