(* ===== verification/Reputation.thy ===== *)
theory Reputation
  imports Store
begin

text \<open>
  The reputation score of an address (\<open>reputation.py\<close>): its five parts, the tier, the cache of scores and the set of addresses
  that reach a minimum, which the reconciler uses as a filter. The cached answer of the CrowdSec CTI service is a JSON text; reading it is
  the argument \<open>cti_of\<close>, and a breakdown goes through the cache unchanged. A cycle reads the clock once. SQLite's
  \<open>DISTINCT\<close> keeps the order of first appearance.
\<close>

section \<open>The score\<close>

definition SCENARIO_SEVERITY :: "(string \<times> int) list" where
  "SCENARIO_SEVERITY =
     [(''crowdsecurity/http-cve-2021-41773'', 30), (''crowdsecurity/http-cve-2021-42013'', 30), (''crowdsecurity/CVE-2017-9841'', 28),
      (''crowdsecurity/thinkphp-cve-2018-20062'', 28), (''crowdsecurity/apache_log4j2_cve-2021-44228'', 30),
      (''crowdsecurity/http-backdoors-attempts'', 28), (''crowdsecurity/http-sensitive-files'', 22),
      (''crowdsecurity/http-admin-interface-probing'', 20), (''crowdsecurity/http-open-proxy'', 18), (''crowdsecurity/ssh-bf'', 22),
      (''crowdsecurity/ssh-slow-bf'', 18), (''crowdsecurity/ssh-bf_user-enum'', 22), (''crowdsecurity/http-probing'', 14),
      (''crowdsecurity/http-bad-user-agent'', 12), (''crowdsecurity/http-technology-probing'', 10), (''crowdsecurity/http-crawl-non_statics'', 8),
      (''http:exploit'', 18), (''http:scan'', 10), (''ssh:bruteforce'', 18)]"

definition DEFAULT_SEVERITY :: int where "DEFAULT_SEVERITY = 12"

definition BEHAVIOR_WEIGHTS :: "(string \<times> int) list" where
  "BEHAVIOR_WEIGHTS = [(''ssh:bruteforce'', 5), (''http:exploit'', 5), (''http:scan'', 3), (''http:bruteforce'', 4), (''spam:'', 2),
     (''tcp:scan'', 2), (''generic:vuln-scan'', 4)]"

definition rep_setting_int :: "store \<Rightarrow> string \<Rightarrow> int \<Rightarrow> int" where
  "rep_setting_int db key dflt =
     (case get_setting key db of
        None \<Rightarrow> dflt
      | Some v \<Rightarrow> if v = [] then dflt else case py_int v of None \<Rightarrow> dflt | Some n \<Rightarrow> n)"

text \<open>A CTI answer: \<open>int(cti.get("score") or 0)\<close> and the names of its behaviours, each of which may raise.\<close>
record cti_doc =
  ct_score :: "exn + int"
  ct_behaviors :: "exn + string list"

datatype tier = Auto | Queue | Monitor

record score_parts =
  sp_cti :: int
  sp_scenario :: int
  sp_sources :: int
  sp_age :: int
  sp_behaviors :: int
  sp_scenarios :: "string set"
  sp_source_names :: "string set"
  sp_raw_score :: int
  sp_raw_behaviors :: "string list"

text \<open>Without active decisions the breakdown only holds a reason.\<close>
datatype breakdown = No_decisions | Parts score_parts

record reputation_score =
  rs_ip :: string
  rs_score :: int
  rs_tier :: tier
  rs_breakdown :: breakdown

record cache_row =
  rc_ip :: string
  rc_score :: int
  rc_tier :: tier
  rc_breakdown :: breakdown
  rc_computed_at :: instant

record reputation =
  rp_db :: store
  rp_cti :: "string \<Rightarrow> string option"
  rp_cache :: "cache_row list"

definition ip_active_rows :: "string \<Rightarrow> store \<Rightarrow> decision_row list" where
  "ip_active_rows ip db = filter (\<lambda>r. dr_value r = ip \<and> dr_deleted_at r = None) (contents (decisions db))"

definition caught_reading :: "exn \<Rightarrow> bool" where
  "caught_reading e = (case e of ValueError _ \<Rightarrow> True | TypeError _ \<Rightarrow> True | _ \<Rightarrow> False)"

text \<open>The CTI part of \<open>compute\<close>: the raw score and the behaviours; what was read before an exception stays.\<close>
definition read_cti :: "(string \<Rightarrow> exn + cti_doc) \<Rightarrow> string option \<Rightarrow> exn + int \<times> string list" where
  "read_cti cti_of raw =
     (if \<not> str_truthy raw then Inr (0, [])
      else case cti_of (the raw) of
        Inl e \<Rightarrow> if caught_reading e then Inr (0, []) else Inl e
      | Inr cti \<Rightarrow>
          (case ct_score cti of
             Inl e \<Rightarrow> if caught_reading e then Inr (0, []) else Inl e
           | Inr n \<Rightarrow>
               (case ct_behaviors cti of
                  Inl e \<Rightarrow> if caught_reading e then Inr (n, []) else Inl e
                | Inr bs \<Rightarrow> Inr (n, bs))))"

definition scenario_severity :: "string list \<Rightarrow> int" where
  "scenario_severity scenarios =
     fold (\<lambda>s best. max best (case map_of SCENARIO_SEVERITY s of None \<Rightarrow> DEFAULT_SEVERITY | Some n \<Rightarrow> n)) scenarios 0"

text \<open>\<open>int(days * 0.5)\<close> rounds towards zero.\<close>
definition age_score :: "instant \<Rightarrow> instant \<Rightarrow> int" where
  "age_score now first_seen =
     (let days = (now - first_seen) div DAY
      in max 0 (15 - (if 0 \<le> days then days div 2 else - ((- days) div 2))))"

definition behavior_score :: "string list \<Rightarrow> int" where
  "behavior_score behaviors =
     sum_list (map (\<lambda>b. sum_list (map (\<lambda>(pre, weight). if py_startswith b pre then weight else 0) BEHAVIOR_WEIGHTS)) behaviors)"

definition tier_of :: "store \<Rightarrow> int \<Rightarrow> tier" where
  "tier_of db n =
     (if rep_setting_int db ''reputation.auto_threshold'' 80 \<le> n then Auto
      else if rep_setting_int db ''reputation.queue_threshold'' 50 \<le> n then Queue else Monitor)"

definition score_parts_of :: "instant \<Rightarrow> decision_row list \<Rightarrow> int \<Rightarrow> string list \<Rightarrow> score_parts" where
  "score_parts_of now rs raw behaviors =
     (let scenarios = remdups (filter (\<lambda>s. s \<noteq> []) (map dr_scenario rs));
          sources = remdups (filter (\<lambda>s. s \<noteq> []) (map dr_origin_source rs))
      in \<lparr>sp_cti = min 20 (raw * 4), sp_scenario = scenario_severity scenarios, sp_sources = min 20 (int (length sources) * 4),
          sp_age = age_score now (Min (set (map dr_first_seen_at rs))), sp_behaviors = min 15 (behavior_score behaviors),
          sp_scenarios = set scenarios, sp_source_names = set sources, sp_raw_score = raw, sp_raw_behaviors = behaviors\<rparr>)"

definition total_score :: "score_parts \<Rightarrow> int" where
  "total_score p = max 0 (min 100 (sp_cti p + sp_scenario p + sp_sources p + sp_age p + sp_behaviors p))"

definition compute :: "(string \<Rightarrow> exn + cti_doc) \<Rightarrow> instant \<Rightarrow> string \<Rightarrow> reputation \<Rightarrow> exn + reputation_score" where
  "compute cti_of now ip s =
     (let rs = ip_active_rows ip (rp_db s)
      in if rs = [] then Inr \<lparr>rs_ip = ip, rs_score = 0, rs_tier = Monitor, rs_breakdown = No_decisions\<rparr>
         else case read_cti cti_of (rp_cti s ip) of
           Inl e \<Rightarrow> Inl e
         | Inr (raw, behaviors) \<Rightarrow>
             let p = score_parts_of now rs raw behaviors; n = total_score p
             in Inr \<lparr>rs_ip = ip, rs_score = n, rs_tier = tier_of (rp_db s) n, rs_breakdown = Parts p\<rparr>)"

section \<open>The cache\<close>

definition CACHE_AGE :: int where "CACHE_AGE = 6 * HOUR"

definition cache_put :: "instant \<Rightarrow> reputation_score \<Rightarrow> reputation \<Rightarrow> reputation" where
  "cache_put now score s =
     s\<lparr>rp_cache := upsert rc_ip \<lparr>rc_ip = rs_ip score, rc_score = rs_score score, rc_tier = rs_tier score,
                        rc_breakdown = rs_breakdown score, rc_computed_at = now\<rparr>
         (\<lambda>r. r\<lparr>rc_score := rs_score score, rc_tier := rs_tier score, rc_breakdown := rs_breakdown score, rc_computed_at := now\<rparr>) (rp_cache s)\<rparr>"

definition cache_get :: "instant \<Rightarrow> string \<Rightarrow> reputation \<Rightarrow> cache_row option" where
  "cache_get now ip s = List.find (\<lambda>r. rc_ip r = ip \<and> now - CACHE_AGE \<le> rc_computed_at r) (rp_cache s)"

definition get_or_compute :: "(string \<Rightarrow> exn + cti_doc) \<Rightarrow> instant \<Rightarrow> string \<Rightarrow> reputation \<Rightarrow> reputation \<times> (exn + reputation_score)" where
  "get_or_compute cti_of now ip s =
     (case cache_get now ip s of
        Some r \<Rightarrow> (s, Inr \<lparr>rs_ip = ip, rs_score = rc_score r, rs_tier = rc_tier r, rs_breakdown = rc_breakdown r\<rparr>)
      | None \<Rightarrow> (case compute cti_of now ip s of
                  Inl e \<Rightarrow> (s, Inl e)
                | Inr score \<Rightarrow> (cache_put now score s, Inr score)))"

section \<open>The filter of the reconciler\<close>

definition active_values :: "store \<Rightarrow> string list" where
  "active_values db = rev (remdups (rev (map dr_value (filter (\<lambda>r. dr_deleted_at r = None) (contents (decisions db))))))"

definition fresh_scores :: "instant \<Rightarrow> reputation \<Rightarrow> (string \<times> int) list" where
  "fresh_scores now s = map (\<lambda>r. (rc_ip r, rc_score r)) (filter (\<lambda>r. now - CACHE_AGE \<le> rc_computed_at r) (rp_cache s))"

text \<open>The loop over the addresses without a fresh score.\<close>
fun compute_each :: "(string \<Rightarrow> exn + cti_doc) \<Rightarrow> instant \<Rightarrow> int \<Rightarrow> string list \<Rightarrow> reputation \<Rightarrow> reputation \<times> (exn + string list)" where
  "compute_each cti_of now min_score [] s = (s, Inr [])"
| "compute_each cti_of now min_score (ip # ips) s =
     (case compute cti_of now ip s of
        Inl e \<Rightarrow> (s, Inl e)
      | Inr score \<Rightarrow>
          (case compute_each cti_of now min_score ips (cache_put now score s) of
             (s, Inl e) \<Rightarrow> (s, Inl e)
           | (s, Inr out) \<Rightarrow> (s, Inr (if min_score \<le> rs_score score then ip # out else out))))"

definition BULK_LIMIT :: nat where "BULK_LIMIT = 200"

definition bulk_compute_for_min :: "(string \<Rightarrow> exn + cti_doc) \<Rightarrow> instant \<Rightarrow> int \<Rightarrow> reputation \<Rightarrow> reputation \<times> (exn + string set)" where
  "bulk_compute_for_min cti_of now min_score s =
     (let active = active_values (rp_db s);
          cached = fresh_scores now s;
          qualifying = filter (\<lambda>ip. case map_of (rev cached) ip of None \<Rightarrow> False | Some n \<Rightarrow> min_score \<le> n) active;
          uncached = filter (\<lambda>ip. map_of (rev cached) ip = None) active
      in case compute_each cti_of now min_score (take BULK_LIMIT uncached) s of
           (s, Inl e) \<Rightarrow> (s, Inl e)
         | (s, Inr more_ips) \<Rightarrow> (s, Inr (set qualifying \<union> set more_ips)))"

section \<open>Bounds\<close>

lemma severity_bounds: "0 \<le> scenario_severity ss \<and> scenario_severity ss \<le> 30"
proof -
  have sev: "(case map_of SCENARIO_SEVERITY s of None \<Rightarrow> DEFAULT_SEVERITY | Some n \<Rightarrow> n) \<le> 30" for s
    by (simp add: SCENARIO_SEVERITY_def DEFAULT_SEVERITY_def)
  have "best \<le> fold (\<lambda>s best. max best (case map_of SCENARIO_SEVERITY s of None \<Rightarrow> DEFAULT_SEVERITY | Some n \<Rightarrow> n)) ss best
    \<and> fold (\<lambda>s best. max best (case map_of SCENARIO_SEVERITY s of None \<Rightarrow> DEFAULT_SEVERITY | Some n \<Rightarrow> n)) ss best \<le> max best 30" for best
  proof (induction ss arbitrary: best)
    case (Cons s ss)
    from Cons.IH [of "max best (case map_of SCENARIO_SEVERITY s of None \<Rightarrow> DEFAULT_SEVERITY | Some n \<Rightarrow> n)"] sev [of s]
    show ?case unfolding fold_Cons comp_apply by linarith
  qed simp
  from this [of 0] show ?thesis by (simp add: scenario_severity_def)
qed

lemma behavior_score_nonneg: "0 \<le> behavior_score bs"
  unfolding behavior_score_def BEHAVIOR_WEIGHTS_def by (induction bs) auto

text \<open>A score lies between 0 and 100 and is the sum of five parts that keep their ranges: at most 20 from the CTI, 30 from the scenarios, 20 from the
  agreement of the sources, 15 from the age and 15 from the behaviours. Without future stamps only the lower bound can clip the sum, and the tier is that
  of the thresholds. An address without active decisions scores 0.\<close>
theorem score_bounded:
  assumes "compute cti_of now ip s = Inr r" "list_all (\<lambda>d. dr_first_seen_at d \<le> now) (ip_active_rows ip (rp_db s))"
  shows "0 \<le> rs_score r \<and> rs_score r \<le> 100
    \<and> (case rs_breakdown r of
         No_decisions \<Rightarrow> ip_active_rows ip (rp_db s) = [] \<and> rs_score r = 0
       | Parts p \<Rightarrow> sp_cti p \<le> 20 \<and> sp_scenario p \<in> {0..30} \<and> sp_sources p \<in> {0..20} \<and> sp_age p \<in> {0..15} \<and> sp_behaviors p \<in> {0..15}
           \<and> rs_score r = max 0 (sp_cti p + sp_scenario p + sp_sources p + sp_age p + sp_behaviors p) \<and> rs_tier r = tier_of (rp_db s) (rs_score r))"
proof (cases "ip_active_rows ip (rp_db s) = []")
  case True
  then show ?thesis using assms(1) by (auto simp: compute_def)
next
  case False
  let ?rs = "ip_active_rows ip (rp_db s)"
  obtain raw behaviors where cti: "read_cti cti_of (rp_cti s ip) = Inr (raw, behaviors)"
    using assms(1) False by (auto simp: compute_def Let_def split: sum.splits)
  define p where "p = score_parts_of now ?rs raw behaviors"
  have r: "rs_score r = total_score p" "rs_tier r = tier_of (rp_db s) (total_score p)" "rs_breakdown r = Parts p"
    using assms(1) False cti by (auto simp: compute_def Let_def p_def)
  have "Min (set (map dr_first_seen_at ?rs)) \<in> set (map dr_first_seen_at ?rs)" using False by (intro Min_in) auto
  then have "Min (set (map dr_first_seen_at ?rs)) \<le> now" using assms(2) by (auto simp: list_all_iff)
  then have "0 \<le> (now - Min (set (map dr_first_seen_at ?rs))) div DAY" by (simp add: pos_imp_zdiv_nonneg_iff time_units)
  then have age: "sp_age p \<in> {0..15}" by (simp add: p_def score_parts_of_def Let_def age_score_def)
  have rest: "sp_cti p \<le> 20" "sp_scenario p \<in> {0..30}" "sp_sources p \<in> {0..20}" "sp_behaviors p \<in> {0..15}"
    using severity_bounds behavior_score_nonneg [of behaviors] by (simp_all add: p_def score_parts_of_def Let_def)
  have "total_score p = max 0 (sp_cti p + sp_scenario p + sp_sources p + sp_age p + sp_behaviors p)"
    using age rest by (simp add: total_score_def)
  then show ?thesis using age rest r by (simp add: total_score_def)
qed

section \<open>Filling the cache\<close>

definition score_at :: "(string \<Rightarrow> exn + cti_doc) \<Rightarrow> instant \<Rightarrow> string \<Rightarrow> reputation \<Rightarrow> int" where
  "score_at cti_of now ip s = (case compute cti_of now ip s of Inl _ \<Rightarrow> 0 | Inr r \<Rightarrow> rs_score r)"

definition readable :: "(string \<Rightarrow> exn + cti_doc) \<Rightarrow> string \<Rightarrow> reputation \<Rightarrow> bool" where
  "readable cti_of ip s = (case read_cti cti_of (rp_cti s ip) of Inl _ \<Rightarrow> False | Inr _ \<Rightarrow> True)"

lemma compute_readable:
  assumes "readable cti_of ip s"
  shows "\<exists>r. compute cti_of now ip s = Inr r \<and> rs_ip r = ip \<and> rs_score r = score_at cti_of now ip s"
  using assms by (auto simp: readable_def score_at_def compute_def Let_def split: sum.splits)

lemma compute_cong: "rp_db s' = rp_db s \<Longrightarrow> rp_cti s' = rp_cti s \<Longrightarrow> compute cti_of now ip s' = compute cti_of now ip s"
  by (simp only: compute_def)

lemma score_at_cong:
  assumes "rp_db s' = rp_db s" "rp_cti s' = rp_cti s"
  shows "score_at cti_of now ip s' = score_at cti_of now ip s \<and> readable cti_of ip s' = readable cti_of ip s"
  by (simp add: score_at_def readable_def compute_cong [OF assms] assms(2))

lemma cache_put_rest [simp]: "rp_db (cache_put now score s) = rp_db s" "rp_cti (cache_put now score s) = rp_cti s"
  by (simp_all add: cache_put_def)

text \<open>The entry of an address in the cache: its score and its time.\<close>
definition entry_of :: "string \<Rightarrow> reputation \<Rightarrow> (int \<times> instant) option" where
  "entry_of ip s = map_option (\<lambda>r. (rc_score r, rc_computed_at r)) (find_row rc_ip ip (rp_cache s))"

lemma entry_of_put:
  "entry_of ip (cache_put now score s) = (if ip = rs_ip score then Some (rs_score score, now) else entry_of ip s)"
proof (cases "ip = rs_ip score")
  case True
  then show ?thesis
    using find_row_upsert_same [of rc_ip "\<lambda>r. r\<lparr>rc_score := rs_score score, rc_tier := rs_tier score, rc_breakdown := rs_breakdown score, rc_computed_at := now\<rparr>"
        "\<lparr>rc_ip = rs_ip score, rc_score = rs_score score, rc_tier = rs_tier score, rc_breakdown = rs_breakdown score, rc_computed_at = now\<rparr>" "rp_cache s"]
    by (simp add: entry_of_def cache_put_def split: option.split)
next
  case False
  then show ?thesis by (simp add: entry_of_def cache_put_def find_row_upsert_other)
qed

lemma unique_put: "keys_unique rc_ip (rp_cache s) \<Longrightarrow> keys_unique rc_ip (rp_cache (cache_put now score s))"
  unfolding cache_put_def by (simp add: keys_unique_upsert)

lemma fresh_lookup:
  assumes "keys_unique rc_ip (rp_cache s)"
  shows "map_of (rev (fresh_scores now s)) ip = (case entry_of ip s of None \<Rightarrow> None | Some (n, t) \<Rightarrow> if now - CACHE_AGE \<le> t then Some n else None)"
proof -
  have key: "map_of (map (\<lambda>r. (rc_ip r, rc_score r)) (filter P c)) ip = (case find_row rc_ip ip c of None \<Rightarrow> None | Some r \<Rightarrow> if P r then Some (rc_score r) else None)"
    if "distinct (map rc_ip c)" for P c
    using that
  proof (induction c)
    case (Cons r c)
    have "find_row rc_ip ip c = None" if "rc_ip r = ip" using that Cons.prems by (auto simp: find_row_None)
    then show ?case using Cons by (auto simp: find_row_def split: option.splits)
  qed (simp add: find_row_def)
  have "distinct (map fst (fresh_scores now s))"
    using assms by (simp add: fresh_scores_def keys_unique_def comp_def distinct_map_filter)
  then have "map_of (rev (fresh_scores now s)) = map_of (fresh_scores now s)"
    by (intro map_of_inject_set [THEN iffD2]) (simp_all add: rev_map [symmetric])
  then show ?thesis using key [of "rp_cache s"] assms
    by (simp add: fresh_scores_def keys_unique_def entry_of_def split: option.split)
qed

lemma compute_each_effect:
  assumes "distinct ips" "\<forall>ip \<in> set ips. readable cti_of ip s" "keys_unique rc_ip (rp_cache s)"
  shows "\<exists>s'. compute_each cti_of now m ips s = (s', Inr (filter (\<lambda>ip. m \<le> score_at cti_of now ip s) ips))
    \<and> rp_db s' = rp_db s \<and> rp_cti s' = rp_cti s \<and> keys_unique rc_ip (rp_cache s')
    \<and> (\<forall>ip. entry_of ip s' = (if ip \<in> set ips then Some (score_at cti_of now ip s, now) else entry_of ip s))"
  using assms
proof (induction ips arbitrary: s)
  case (Cons ip ips)
  from compute_readable [of cti_of ip s now] Cons.prems obtain r where
    r: "compute cti_of now ip s = Inr r" "rs_ip r = ip" "rs_score r = score_at cti_of now ip s" by auto
  let ?u = "cache_put now r s"
  note same = score_at_cong [of ?u s, OF cache_put_rest]
  from Cons.IH [of ?u] Cons.prems obtain s' where s': "compute_each cti_of now m ips ?u = (s', Inr (filter (\<lambda>ip. m \<le> score_at cti_of now ip s) ips))"
    "rp_db s' = rp_db s" "rp_cti s' = rp_cti s" "keys_unique rc_ip (rp_cache s')"
    "\<forall>x. entry_of x s' = (if x \<in> set ips then Some (score_at cti_of now x s, now) else entry_of x ?u)"
    by (auto simp: same unique_put)
  then show ?case using r Cons.prems by (intro exI [of _ s']) (auto simp: entry_of_put)
qed simp

lemma filter_suffix:
  assumes "\<And>i. i < length xs \<Longrightarrow> P (xs ! i) \<longleftrightarrow> n \<le> i"
  shows "filter P xs = drop n xs"
proof -
  have "filter P (take n xs) = []" "filter P (drop n xs) = drop n xs"
    using assms by (auto simp: filter_empty_conv filter_id_conv in_set_conv_nth nth_take)
  then show ?thesis using filter_append [of P "take n xs" "drop n xs"] by simp
qed

lemma distinct_active_values [simp]: "distinct (active_values db)"
  by (simp add: active_values_def)

definition bulk_run :: "(string \<Rightarrow> exn + cti_doc) \<Rightarrow> int \<Rightarrow> instant list \<Rightarrow> reputation \<Rightarrow> reputation" where
  "bulk_run cti_of m ts s = fold (\<lambda>t s. fst (bulk_compute_for_min cti_of t m s)) ts s"

text \<open>The cache after the calls at the times \<open>ts\<close>: a block of addresses per call has its score, the others have none that is still good.\<close>
definition filled :: "(string \<Rightarrow> exn + cti_doc) \<Rightarrow> instant \<Rightarrow> instant list \<Rightarrow> reputation \<Rightarrow> reputation \<Rightarrow> bool" where
  "filled cti_of start ts s s' \<longleftrightarrow> rp_db s' = rp_db s \<and> rp_cti s' = rp_cti s \<and> keys_unique rc_ip (rp_cache s')
     \<and> (\<forall>i < length (active_values (rp_db s)).
          if i < BULK_LIMIT * length ts
          then entry_of (active_values (rp_db s) ! i) s'
            = Some (score_at cti_of (ts ! (i div BULK_LIMIT)) (active_values (rp_db s) ! i) s, ts ! (i div BULK_LIMIT))
          else case entry_of (active_values (rp_db s) ! i) s' of None \<Rightarrow> True | Some (_, t) \<Rightarrow> t < start - CACHE_AGE)"

lemma filled_start:
  assumes "keys_unique rc_ip (rp_cache s)" "list_all (\<lambda>r. rc_computed_at r < start - CACHE_AGE) (rp_cache s)"
  shows "filled cti_of start [] s s"
proof -
  have "t < start - CACHE_AGE" if "entry_of ip s = Some (n, t)" for ip n t
    using that assms(2) by (auto simp: entry_of_def list_all_iff dest!: find_row_Some)
  then show ?thesis using assms(1) by (auto simp: filled_def split: option.split)
qed

lemma block_nth:
  assumes "distinct xs" "i < length xs"
  shows "xs ! i \<in> set (take k (drop n xs)) \<longleftrightarrow> n \<le> i \<and> i < n + k"
proof
  assume "xs ! i \<in> set (take k (drop n xs))"
  then obtain j where "j < length (take k (drop n xs))" "take k (drop n xs) ! j = xs ! i" by (auto simp: in_set_conv_nth)
  then have "n + j < length xs" "j < k" "xs ! (n + j) = xs ! i" by auto
  moreover from this have "n + j = i" using assms nth_eq_iff_index_eq [of xs "n + j" i] by simp
  ultimately show "n \<le> i \<and> i < n + k" by simp
next
  assume "n \<le> i \<and> i < n + k"
  then have "i - n < length (take k (drop n xs))" "take k (drop n xs) ! (i - n) = xs ! i" using assms(2) by auto
  then show "xs ! i \<in> set (take k (drop n xs))" by (metis nth_mem)
qed

lemma block_time:
  assumes "0 < k" "i < k * length ts + k"
  shows "(ts @ [t]) ! (i div k) = (if i < k * length ts then ts ! (i div k) else t)"
proof (cases "i < k * length ts")
  case True
  then show ?thesis using assms(1) by (simp add: nth_append div_less_iff_less_mult mult.commute)
next
  case False
  then have "i div k = length ts" using assms by (intro div_nat_eqI) (simp_all add: mult.commute)
  then show ?thesis using False by simp
qed

lemma bulk_step:
  assumes filled: "filled cti_of start ts s s'" and ts: "\<forall>u \<in> set ts. start \<le> u" and t: "start \<le> t" "t \<le> start + CACHE_AGE"
    and readable: "\<forall>ip \<in> set (active_values (rp_db s)). readable cti_of ip s"
  shows "filled cti_of start (ts @ [t]) s (fst (bulk_compute_for_min cti_of t m s'))
    \<and> snd (bulk_compute_for_min cti_of t m s') = Inr {active_values (rp_db s) ! i | i.
          i < length (active_values (rp_db s)) \<and> i < BULK_LIMIT * Suc (length ts)
          \<and> m \<le> score_at cti_of ((ts @ [t]) ! (i div BULK_LIMIT)) (active_values (rp_db s) ! i) s}"
proof -
  define A where "A = active_values (rp_db s)"
  define n where "n = BULK_LIMIT * length ts"
  define L where "L ip = map_of (rev (fresh_scores t s')) ip" for ip
  have L200: "0 < BULK_LIMIT" by (simp add: BULK_LIMIT_def)
  have s': "rp_db s' = rp_db s" "rp_cti s' = rp_cti s" "keys_unique rc_ip (rp_cache s')" using filled by (simp_all add: filled_def)
  note same = score_at_cong [OF s'(1,2)]
  have entry: "if i < n then entry_of (A ! i) s' = Some (score_at cti_of (ts ! (i div BULK_LIMIT)) (A ! i) s, ts ! (i div BULK_LIMIT))
      else case entry_of (A ! i) s' of None \<Rightarrow> True | Some (_, t) \<Rightarrow> t < start - CACHE_AGE" if "i < length A" for i
    using filled that by (simp add: filled_def A_def n_def)
  have nth: "ts ! (i div BULK_LIMIT) \<in> set ts" if "i < n" for i
    using that L200 by (intro nth_mem) (simp add: n_def div_less_iff_less_mult mult.commute)
  have look: "L (A ! i) = (if i < n then Some (score_at cti_of (ts ! (i div BULK_LIMIT)) (A ! i) s) else None)" if i: "i < length A" for i
  proof (cases "i < n")
    case True
    then have "start \<le> ts ! (i div BULK_LIMIT)" using nth ts by blast
    then show ?thesis using True entry [OF i] t by (simp add: L_def fresh_lookup [OF s'(3)])
  next
    case False
    then show ?thesis using entry [OF i] t by (auto simp: L_def fresh_lookup [OF s'(3)] split: option.splits)
  qed
  have uncached: "filter (\<lambda>ip. L ip = None) A = drop n A" by (rule filter_suffix) (auto simp: look)
  define B where "B = take BULK_LIMIT (drop n A)"
  have B: "distinct B" "\<forall>ip \<in> set B. readable cti_of ip s'"
    using readable same by (auto simp: B_def A_def dest!: in_set_takeD in_set_dropD)
  from compute_each_effect [OF B s'(3), of t m] obtain u where
    u: "compute_each cti_of t m B s' = (u, Inr (filter (\<lambda>ip. m \<le> score_at cti_of t ip s) B))"
      "rp_db u = rp_db s" "rp_cti u = rp_cti s" "keys_unique rc_ip (rp_cache u)"
      "\<forall>ip. entry_of ip u = (if ip \<in> set B then Some (score_at cti_of t ip s, t) else entry_of ip s')"
    by (auto simp: same s'(1,2))
  have bulk: "bulk_compute_for_min cti_of t m s' = (u, Inr (set (filter (\<lambda>ip. case L ip of None \<Rightarrow> False | Some k \<Rightarrow> m \<le> k) A)
      \<union> set (filter (\<lambda>ip. m \<le> score_at cti_of t ip s) B)))"
    using u(1) by (simp add: bulk_compute_for_min_def Let_def s'(1) A_def [symmetric] L_def [symmetric] uncached B_def)
  note inB = block_nth [of A _ BULK_LIMIT n, OF distinct_active_values [of "rp_db s", folded A_def], folded B_def]
  note time = block_time [OF L200, of _ ts t, folded n_def]
  have "filled cti_of start (ts @ [t]) s u"
    unfolding filled_def A_def [symmetric]
  proof (intro conjI u(2-4) allI impI)
    fix i assume i: "i < length A"
    show "if i < BULK_LIMIT * length (ts @ [t])
        then entry_of (A ! i) u = Some (score_at cti_of ((ts @ [t]) ! (i div BULK_LIMIT)) (A ! i) s, (ts @ [t]) ! (i div BULK_LIMIT))
        else case entry_of (A ! i) u of None \<Rightarrow> True | Some (_, t) \<Rightarrow> t < start - CACHE_AGE"
      using entry [OF i] time [of i] inB [OF i] u(5) by (auto simp: n_def algebra_simps split: if_splits)
  qed
  moreover have "set (filter (\<lambda>ip. case L ip of None \<Rightarrow> False | Some k \<Rightarrow> m \<le> k) A) \<union> set (filter (\<lambda>ip. m \<le> score_at cti_of t ip s) B)
      = {A ! i | i. i < length A \<and> i < BULK_LIMIT * Suc (length ts) \<and> m \<le> score_at cti_of ((ts @ [t]) ! (i div BULK_LIMIT)) (A ! i) s}"
    (is "?P \<union> ?Q = ?R")
  proof (rule set_eqI)
    fix ip
    have P: "ip \<in> ?P \<longleftrightarrow> (\<exists>i < length A. ip = A ! i \<and> i < n \<and> m \<le> score_at cti_of (ts ! (i div BULK_LIMIT)) (A ! i) s)"
    proof -
      have "(case L (A ! i) of None \<Rightarrow> False | Some k \<Rightarrow> m \<le> k) \<longleftrightarrow> i < n \<and> m \<le> score_at cti_of (ts ! (i div BULK_LIMIT)) (A ! i) s"
        if "i < length A" for i using look [OF that] by simp
      then show ?thesis unfolding set_filter mem_Collect_eq in_set_conv_nth by metis
    qed
    have "set B \<subseteq> set A" by (auto simp: B_def dest!: in_set_takeD in_set_dropD)
    then have Q: "ip \<in> ?Q \<longleftrightarrow> (\<exists>i < length A. ip = A ! i \<and> n \<le> i \<and> i < n + BULK_LIMIT \<and> m \<le> score_at cti_of t (A ! i) s)"
      using inB by (auto simp: in_set_conv_nth [of _ A] subset_iff)
    have each: "i < BULK_LIMIT * Suc (length ts) \<and> m \<le> score_at cti_of ((ts @ [t]) ! (i div BULK_LIMIT)) (A ! i) s \<longleftrightarrow>
        i < n \<and> m \<le> score_at cti_of (ts ! (i div BULK_LIMIT)) (A ! i) s \<or> n \<le> i \<and> i < n + BULK_LIMIT \<and> m \<le> score_at cti_of t (A ! i) s" for i
      using time [of i] by (cases "i < n") (auto simp: n_def)
    have "ip \<in> ?R \<longleftrightarrow> (\<exists>i < length A. ip = A ! i \<and> (i < n \<and> m \<le> score_at cti_of (ts ! (i div BULK_LIMIT)) (A ! i) s
        \<or> n \<le> i \<and> i < n + BULK_LIMIT \<and> m \<le> score_at cti_of t (A ! i) s))"
      unfolding mem_Collect_eq each [symmetric] by blast
    then show "ip \<in> ?P \<union> ?Q \<longleftrightarrow> ip \<in> ?R" unfolding Un_iff P Q by blast
  qed
  ultimately show ?thesis unfolding bulk fst_conv snd_conv A_def by simp
qed

text \<open>(C31) A lapsed cache fills in, 200 addresses per cycle: when no score in the cache is still good, the calls at times within six hours of the first score the active addresses
  block by block, and each call returns exactly those addresses of the blocks scored so far whose score, as of the call that computed it, reaches the
  minimum. So after enough calls the filter is complete; until then it leaves out addresses that would qualify.\<close>
theorem bulk_fills_in:
  assumes "keys_unique rc_ip (rp_cache s)" "list_all (\<lambda>r. rc_computed_at r < start - CACHE_AGE) (rp_cache s)"
    and "list_all (\<lambda>ip. readable cti_of ip s) (active_values (rp_db s))"
    and "list_all (\<lambda>u. start \<le> u \<and> u \<le> start + CACHE_AGE) (ts @ [t])"
  shows "snd (bulk_compute_for_min cti_of t m (bulk_run cti_of m ts s)) = Inr {active_values (rp_db s) ! i | i.
          i < length (active_values (rp_db s)) \<and> i < BULK_LIMIT * Suc (length ts)
          \<and> m \<le> score_at cti_of ((ts @ [t]) ! (i div BULK_LIMIT)) (active_values (rp_db s) ! i) s}"
proof -
  have ok: "\<forall>ip \<in> set (active_values (rp_db s)). readable cti_of ip s" using assms(3) by (simp add: list_all_iff)
  have "filled cti_of start ts s (bulk_run cti_of m ts s)" if "\<forall>u \<in> set ts. start \<le> u \<and> u \<le> start + CACHE_AGE" for ts
    using that
  proof (induction ts rule: rev_induct)
    case Nil
    show ?case using filled_start [OF assms(1,2)] by (simp add: bulk_run_def)
  next
    case (snoc u ts)
    then show ?case using bulk_step [OF _ _ _ _ ok, of start ts "bulk_run cti_of m ts s" u m] by (simp add: bulk_run_def)
  qed
  from bulk_step [OF this _ _ _ ok, of ts t m] assms(4) show ?thesis by (simp add: list_all_iff)
qed

text \<open>In one cycle at most 200 addresses pass, however many were let through by the scores that have just lapsed.\<close>
lemma lapsed_cache_filters:
  assumes "keys_unique rc_ip (rp_cache s)" "list_all (\<lambda>r. rc_computed_at r < now - CACHE_AGE) (rp_cache s)"
    and "list_all (\<lambda>ip. readable cti_of ip s) (active_values (rp_db s))" "BULK_LIMIT \<le> i" "i < length (active_values (rp_db s))"
  shows "case snd (bulk_compute_for_min cti_of now m s) of Inl _ \<Rightarrow> False | Inr ips \<Rightarrow> active_values (rp_db s) ! i \<notin> ips"
proof -
  from bulk_step [OF filled_start [OF assms(1,2)], of now cti_of m] assms(3) have "snd (bulk_compute_for_min cti_of now m s) = Inr {active_values (rp_db s) ! i | i.
      i < length (active_values (rp_db s)) \<and> i < BULK_LIMIT \<and> m \<le> score_at cti_of ([now] ! (i div BULK_LIMIT)) (active_values (rp_db s) ! i) s}"
    by (simp add: list_all_iff CACHE_AGE_def time_units)
  then show ?thesis using assms(4,5) by (auto simp: nth_eq_iff_index_eq)
qed

text \<open>Seven days cost three points and thirty days all fifteen.\<close>
lemma age_score_week: "age_score now (now - 7 * DAY) = 12" "age_score now (now - 30 * DAY) = 0"
  by (simp_all add: age_score_def time_units)

definition one_ban :: reputation where
  "one_ban = \<lparr>rp_db = empty_store\<lparr>decisions := fst (insert_row \<lparr>dr_origin_source = ''local'', dr_lapi_id = 1, dr_value = ''192.0.2.1'', dr_scope = ''Ip'',
       dr_type = ''ban'', dr_scenario = ''crowdsecurity/ssh-bf'', dr_origin = ''crowdsec'', dr_duration = ''4h'', dr_until = None, dr_first_seen_at = 0,
       dr_last_seen_at = 0, dr_deleted_at = None\<rparr> empty_table)\<rparr>, rp_cti = (\<lambda>_. None), rp_cache = []\<rparr>"

definition no_cti :: "string \<Rightarrow> exn + cti_doc" where
  "no_cti _ = Inl (ValueError ''no JSON'')"

theorem score_bounded_witness:
  "case compute no_cti 0 ''192.0.2.1'' one_ban of Inl _ \<Rightarrow> False | Inr r \<Rightarrow> 0 \<le> rs_score r \<and> rs_score r \<le> 100"
proof -
  obtain r where r: "compute no_cti 0 ''192.0.2.1'' one_ban = Inr r"
    using compute_readable [of no_cti "''192.0.2.1''" one_ban 0] by (auto simp: readable_def read_cti_def one_ban_def)
  have "list_all (\<lambda>d. dr_first_seen_at d \<le> 0) (ip_active_rows ''192.0.2.1'' (rp_db one_ban))"
    by (simp add: ip_active_rows_def one_ban_def contents_insert)
  from score_bounded [OF r this] show ?thesis by (simp add: r)
qed

theorem bulk_fills_in_witness:
  "snd (bulk_compute_for_min no_cti HOUR 40 (bulk_run no_cti 40 [0] one_ban)) = Inr {''192.0.2.1''}"
proof -
  have active: "active_values (rp_db one_ban) = [''192.0.2.1'']"
    by (simp add: active_values_def one_ban_def contents_insert)
  have score: "score_at no_cti 0 ''192.0.2.1'' one_ban = 41" by code_simp
  have "list_all (\<lambda>ip. readable no_cti ip one_ban) (active_values (rp_db one_ban))"
    unfolding active by (simp add: readable_def read_cti_def one_ban_def)
  moreover have "keys_unique rc_ip (rp_cache one_ban)" "list_all (\<lambda>r. rc_computed_at r < 0 - CACHE_AGE) (rp_cache one_ban)"
    by (simp_all add: one_ban_def keys_unique_def)
  moreover have "list_all (\<lambda>u. 0 \<le> u \<and> u \<le> 0 + CACHE_AGE) ([0] @ [HOUR])" by (simp add: CACHE_AGE_def time_units)
  ultimately have "snd (bulk_compute_for_min no_cti HOUR 40 (bulk_run no_cti 40 [0] one_ban)) = Inr {active_values (rp_db one_ban) ! i | i.
          i < length (active_values (rp_db one_ban)) \<and> i < BULK_LIMIT * Suc (length [0 :: int])
          \<and> 40 \<le> score_at no_cti (([0] @ [HOUR]) ! (i div BULK_LIMIT)) (active_values (rp_db one_ban) ! i) one_ban}"
    by (intro bulk_fills_in)
  also have "{active_values (rp_db one_ban) ! i | i. i < length (active_values (rp_db one_ban)) \<and> i < BULK_LIMIT * Suc (length [0 :: int])
      \<and> 40 \<le> score_at no_cti (([0] @ [HOUR]) ! (i div BULK_LIMIT)) (active_values (rp_db one_ban) ! i) one_ban} = {''192.0.2.1''}"
    unfolding active using score by (auto simp: BULK_LIMIT_def)
  finally show ?thesis .
qed

end
