(* ===== verification/Honeypot.thy ===== *)
theory Honeypot
  imports Reputation "HOL-Library.List_Lexorder" "HOL-Library.Char_ord"
begin

text \<open>
  The honeypot list (\<open>honeypot.py\<close>): addresses of high reputation score get the tag \<open>honeypot-bound\<close> in the table \<open>ip_tags\<close>, those that no longer
  qualify lose it. The refresh asks \<open>Reputation\<close> for the qualifying addresses; a set is visited in the order of its sorted list.
\<close>

record ip_tag =
  it_ip :: string
  it_tag :: string
  it_source :: string
  it_created_at :: instant
  it_expires_at :: "instant option"

record honeypot =
  hp_reputation :: reputation
  hp_tags :: "ip_tag list"

definition tag_key :: "ip_tag \<Rightarrow> string \<times> string" where
  "tag_key r = (it_ip r, it_tag r)"

definition BOUND :: string where "BOUND = ''honeypot-bound''"

definition honeypot_enabled :: "store \<Rightarrow> bool" where
  "honeypot_enabled db = (str_or (get_setting ''honeypot.enabled'' db) ''0'' = ''1'')"

definition tag_live :: "instant \<Rightarrow> ip_tag \<Rightarrow> bool" where
  "tag_live now r = (case it_expires_at r of None \<Rightarrow> True | Some t \<Rightarrow> iso_after_sql t now)"

definition bound_ips :: "instant \<Rightarrow> ip_tag list \<Rightarrow> string set" where
  "bound_ips now tags = it_ip ` {r \<in> set tags. it_tag r = BOUND \<and> tag_live now r}"

text \<open>The upsert of both operations: a conflict only moves the expiry.\<close>
definition put_tag :: "instant \<Rightarrow> string \<Rightarrow> string \<Rightarrow> instant \<Rightarrow> string \<Rightarrow> ip_tag list \<Rightarrow> ip_tag list" where
  "put_tag now tag source expires ip tags =
     (if \<exists>r \<in> set tags. tag_key r = (ip, tag)
      then map (\<lambda>r. if tag_key r = (ip, tag) then r\<lparr>it_expires_at := Some expires\<rparr> else r) tags
      else tags @ [\<lparr>it_ip = ip, it_tag = tag, it_source = source, it_created_at = now, it_expires_at = Some expires\<rparr>])"

definition drop_tag :: "string \<Rightarrow> string \<Rightarrow> ip_tag list \<Rightarrow> ip_tag list" where
  "drop_tag tag ip tags = filter (\<lambda>r. tag_key r \<noteq> (ip, tag)) tags"

text \<open>The slice \<open>xs[:n]\<close>.\<close>
definition slice_to :: "int \<Rightarrow> 'a list \<Rightarrow> 'a list" where
  "slice_to n xs = (if 0 \<le> n then take (nat n) xs else take (length xs - nat (- n)) xs)"

record refresh_report =
  rr_qualifying :: nat
  rr_added :: nat
  rr_removed :: nat
  rr_min_reputation :: int
  rr_max_targets :: int

text \<open>\<open>refresh_targets\<close>; \<open>None\<close> as a report when the feature is off.\<close>
definition refresh_targets :: "(string \<Rightarrow> exn + cti_doc) \<Rightarrow> instant \<Rightarrow> honeypot \<Rightarrow> honeypot \<times> (exn + refresh_report option)" where
  "refresh_targets cti_of now s =
     (let db = rp_db (hp_reputation s)
      in if \<not> honeypot_enabled db then (s, Inr None)
         else
           let min_rep = rep_setting_int db ''honeypot.min_reputation'' 80; max_targets = rep_setting_int db ''honeypot.max_targets'' 1000
           in case bulk_compute_for_min cti_of now min_rep (hp_reputation s) of
                (rp, Inl e) \<Rightarrow> (s\<lparr>hp_reputation := rp\<rparr>, Inl e)
              | (rp, Inr ips) \<Rightarrow>
                  let qualifying = slice_to max_targets (sorted_list_of_set ips);
                      existing = bound_ips now (hp_tags s);
                      new_ips = filter (\<lambda>ip. ip \<notin> existing) qualifying;
                      old_ips = sorted_list_of_set (existing - set qualifying);
                      tags = fold (put_tag now BOUND ''honeypot.refresh'' (now + 6 * HOUR)) new_ips (hp_tags s);
                      tags = fold (drop_tag BOUND) old_ips tags
                  in (s\<lparr>hp_reputation := rp, hp_tags := tags\<rparr>,
                      Inr (Some \<lparr>rr_qualifying = length qualifying, rr_added = length new_ips, rr_removed = length old_ips,
                        rr_min_reputation = min_rep, rr_max_targets = max_targets\<rparr>)))"

definition list_targets :: "instant \<Rightarrow> int \<Rightarrow> ip_tag list \<Rightarrow> string list" where
  "list_targets now limit tags =
     map it_ip ((if limit < 0 then id else take (nat limit)) (sort_key (\<lambda>r. - it_created_at r) (filter (\<lambda>r. it_tag r = BOUND \<and> tag_live now r) tags)))"

definition record_callback :: "instant \<Rightarrow> string \<Rightarrow> string \<Rightarrow> honeypot \<Rightarrow> honeypot \<times> event list" where
  "record_callback now ip payload s =
     (s\<lparr>hp_tags := put_tag now ''honeypot-confirmed'' ''honeypot.callback'' (now + 14 * DAY) ip (hp_tags s)\<rparr>,
      [Ship ''honeypot.callback'' [(''ip'', Some ip), (''payload'', Some payload)]])"

section \<open>What a refresh achieves\<close>

lemma bound_ips_iff: "ip \<in> bound_ips now tags \<longleftrightarrow> (\<exists>r \<in> set tags. it_ip r = ip \<and> it_tag r = BOUND \<and> tag_live now r)"
  by (auto simp: bound_ips_def)

lemma bound_ips_put:
  assumes "iso_after_sql t now"
  shows "bound_ips now (put_tag now BOUND src t ip tags) = insert ip (bound_ips now tags)"
proof (cases "\<exists>r \<in> set tags. tag_key r = (ip, BOUND)")
  case True
  let ?f = "\<lambda>r. if tag_key r = (ip, BOUND) then r\<lparr>it_expires_at := Some t\<rparr> else r"
  have "it_ip (?f r) = x \<and> it_tag (?f r) = BOUND \<and> tag_live now (?f r) \<longleftrightarrow>
      x = ip \<and> tag_key r = (ip, BOUND) \<or> it_ip r = x \<and> it_tag r = BOUND \<and> tag_live now r" for r x
    using assms by (auto simp: tag_key_def tag_live_def)
  then have "x \<in> bound_ips now (map ?f tags) \<longleftrightarrow> x \<in> insert ip (bound_ips now tags)" for x
    using True by (simp only: bound_ips_iff set_map bex_simps insert_iff) blast
  then show ?thesis using True by (simp only: put_tag_def if_True) blast
next
  case False
  then have "put_tag now BOUND src t ip tags = tags @ [\<lparr>it_ip = ip, it_tag = BOUND, it_source = src, it_created_at = now, it_expires_at = Some t\<rparr>]"
    by (simp only: put_tag_def if_False)
  then show ?thesis using assms by (auto simp: bound_ips_iff tag_live_def)
qed

lemma bound_ips_drop: "bound_ips now (drop_tag BOUND ip tags) = bound_ips now tags - {ip}"
  by (auto simp: bound_ips_def drop_tag_def tag_key_def image_iff)

lemma filter_map_other: "(\<And>r. it_tag (f r) = it_tag r) \<Longrightarrow> (\<And>r. it_tag r = tag \<Longrightarrow> f r = r) \<Longrightarrow> filter (\<lambda>r. it_tag r = tag) (map f tags) = filter (\<lambda>r. it_tag r = tag) tags"
  by (induction tags) auto

lemma other_tags_put:
  assumes "tag \<noteq> tag'"
  shows "filter (\<lambda>r. it_tag r = tag) (put_tag now tag' src t ip tags) = filter (\<lambda>r. it_tag r = tag) tags"
proof -
  have "filter (\<lambda>r. it_tag r = tag) (map (\<lambda>r. if tag_key r = (ip, tag') then r\<lparr>it_expires_at := Some t\<rparr> else r) tags) = filter (\<lambda>r. it_tag r = tag) tags"
    by (rule filter_map_other) (use assms in \<open>auto simp: tag_key_def\<close>)
  then show ?thesis using assms by (simp add: put_tag_def)
qed

lemma other_tags_drop: "tag \<noteq> tag' \<Longrightarrow> filter (\<lambda>r. it_tag r = tag) (drop_tag tag' ip tags) = filter (\<lambda>r. it_tag r = tag) tags"
  by (auto simp: drop_tag_def tag_key_def intro!: filter_cong)

lemma bound_ips_puts:
  "bound_ips now (fold (put_tag now BOUND src (now + 6 * HOUR)) ips tags) = bound_ips now tags \<union> set ips"
proof (induction ips arbitrary: tags)
  case (Cons ip ips)
  have "iso_after_sql (now + 6 * HOUR) now" by (rule iso_after_sql_of_le) (simp add: time_units)
  then show ?case by (simp add: Cons.IH bound_ips_put)
qed simp

lemma bound_ips_drops: "bound_ips now (fold (drop_tag BOUND) ips tags) = bound_ips now tags - set ips"
  by (induction ips arbitrary: tags) (auto simp: bound_ips_drop)

lemma other_tags_fold:
  "tag \<noteq> BOUND \<Longrightarrow> filter (\<lambda>r. it_tag r = tag) (fold (put_tag now BOUND src t) ips tags) = filter (\<lambda>r. it_tag r = tag) tags"
  "tag \<noteq> BOUND \<Longrightarrow> filter (\<lambda>r. it_tag r = tag) (fold (drop_tag BOUND) ips tags) = filter (\<lambda>r. it_tag r = tag) tags"
  by (induction ips arbitrary: tags) (simp_all add: other_tags_put other_tags_drop)

text \<open>After a refresh the addresses in force on the honeypot list are exactly the qualifying ones, the first of them in the order of the texts when
  there are more than the limit, and the tags of other features are as before.\<close>
theorem honeypot_list_exact:
  assumes "honeypot_enabled (rp_db (hp_reputation s))"
    and "bulk_compute_for_min cti_of now (rep_setting_int (rp_db (hp_reputation s)) ''honeypot.min_reputation'' 80) (hp_reputation s) = (rp, Inr ips)"
    and "tag \<noteq> BOUND"
  shows "bound_ips now (hp_tags (fst (refresh_targets cti_of now s)))
      = set (slice_to (rep_setting_int (rp_db (hp_reputation s)) ''honeypot.max_targets'' 1000) (sorted_list_of_set ips))
    \<and> filter (\<lambda>r. it_tag r = tag) (hp_tags (fst (refresh_targets cti_of now s))) = filter (\<lambda>r. it_tag r = tag) (hp_tags s)"
proof -
  have "finite (bound_ips now (hp_tags s))" by (simp add: bound_ips_def)
  then show ?thesis
    using assms by (simp add: refresh_targets_def Let_def bound_ips_puts bound_ips_drops other_tags_fold) blast
qed

text \<open>A target that keeps qualifying is not renewed: its expiry stays that of the refresh that first tagged it.\<close>
lemma target_not_renewed:
  assumes "it_ip r \<in> bound_ips now (hp_tags s)" "r \<in> set (hp_tags s)" "it_tag r = BOUND"
    and "bulk_compute_for_min cti_of now (rep_setting_int (rp_db (hp_reputation s)) ''honeypot.min_reputation'' 80) (hp_reputation s) = (rp, Inr ips)"
    and "it_ip r \<in> set (slice_to (rep_setting_int (rp_db (hp_reputation s)) ''honeypot.max_targets'' 1000) (sorted_list_of_set ips))"
  shows "r \<in> set (hp_tags (fst (refresh_targets cti_of now s)))"
proof -
  have put: "r \<in> set (fold (put_tag now BOUND src t) xs tags)" if "r \<in> set tags" "it_ip r \<notin> set xs" for src t xs tags
    using that by (induction xs arbitrary: tags) (auto simp: put_tag_def tag_key_def image_iff intro: bexI [of _ r])
  have drop: "r \<in> set (fold (drop_tag BOUND) xs tags)" if "r \<in> set tags" "it_ip r \<notin> set xs" for xs tags
    using that by (induction xs arbitrary: tags) (auto simp: drop_tag_def tag_key_def)
  have "finite (bound_ips now (hp_tags s))" by (simp add: bound_ips_def)
  then show ?thesis using assms by (simp add: refresh_targets_def Let_def put drop)
qed

end
