(* ===== verification/Notifications.thy ===== *)
theory Notifications
  imports Federation
begin

text \<open>
  The notification channels (\<open>notifications.py\<close>): credentials from the settings table with the environment as fallback, the toggles per event and
  channel, the three senders and the fan-out. HTTP, name resolution, the classification of addresses by \<open>ipaddress\<close>, the SMTP session and
  the text of the current time are fields of the record \<open>notify_env\<close>. Dashes and bullets outside ASCII are written as \<open>-\<close> and \<open>*\<close>.
\<close>

section \<open>Credentials\<close>

record cred_spec =
  cs_field :: string
  cs_env :: string
  cs_secret :: bool

definition CREDENTIAL_SCHEMA :: "(string \<times> cred_spec list) list" where
  "CREDENTIAL_SCHEMA =
     [(''discord'', [\<lparr>cs_field = ''webhook'', cs_env = ''DISCORD_WEBHOOK'', cs_secret = True\<rparr>]),
      (''telegram'', [\<lparr>cs_field = ''bot_token'', cs_env = ''TELEGRAM_BOT_TOKEN'', cs_secret = True\<rparr>,
         \<lparr>cs_field = ''chat_id'', cs_env = ''TELEGRAM_CHAT_ID'', cs_secret = False\<rparr>]),
      (''email'', [\<lparr>cs_field = ''smtp_host'', cs_env = ''SMTP_HOST'', cs_secret = False\<rparr>,
         \<lparr>cs_field = ''smtp_port'', cs_env = ''SMTP_PORT'', cs_secret = False\<rparr>,
         \<lparr>cs_field = ''smtp_user'', cs_env = ''SMTP_USERNAME'', cs_secret = False\<rparr>,
         \<lparr>cs_field = ''smtp_password'', cs_env = ''SMTP_PASSWORD'', cs_secret = True\<rparr>,
         \<lparr>cs_field = ''smtp_from'', cs_env = ''SMTP_FROM'', cs_secret = False\<rparr>,
         \<lparr>cs_field = ''smtp_to'', cs_env = ''SMTP_TO'', cs_secret = False\<rparr>])]"

definition cred_key :: "string \<Rightarrow> string \<Rightarrow> string" where
  "cred_key channel field = ''notify.cred.'' @ channel @ ''.'' @ field"

definition cred_spec_of :: "string \<Rightarrow> string \<Rightarrow> cred_spec option" where
  "cred_spec_of channel field =
     List.find (\<lambda>f. cs_field f = field) (case map_of CREDENTIAL_SCHEMA channel of None \<Rightarrow> [] | Some fs \<Rightarrow> fs)"

definition get_credential :: "environment \<Rightarrow> store \<Rightarrow> string \<Rightarrow> string \<Rightarrow> string" where
  "get_credential environ db channel field =
     (case cred_spec_of channel field of
        None \<Rightarrow> []
      | Some sp \<Rightarrow>
          let v = get_setting (cred_key channel field) db
          in if str_truthy v then the v else envstr environ (cs_env sp) [])"

definition set_credential :: "instant \<Rightarrow> string \<Rightarrow> string \<Rightarrow> string \<Rightarrow> store \<Rightarrow> store" where
  "set_credential now channel field v db =
     (case cred_spec_of channel field of None \<Rightarrow> db | Some _ \<Rightarrow> set_setting now (cred_key channel field) v db)"

definition mask_credential :: "environment \<Rightarrow> store \<Rightarrow> string \<Rightarrow> string \<Rightarrow> string" where
  "mask_credential environ db channel field =
     (let v = get_credential environ db channel field
      in if v = [] then ''(unset)''
         else case cred_spec_of channel field of
           Some sp \<Rightarrow> if cs_secret sp then ''**** '' @ (if 4 \<le> length v then drop (length v - 4) v else ''**'') else v
         | None \<Rightarrow> v)"

section \<open>Toggles\<close>

definition EVENTS :: "string list" where
  "EVENTS = [''new_ban'', ''sync_threshold'', ''sync_error'', ''lapi_down'', ''mt_down'', ''login_failure'', ''login_locked'', ''whitelist_hit'',
     ''hourly_digest'', ''daily_digest'']"

definition DEFAULT_TOGGLES :: "(string \<times> bool) list" where
  "DEFAULT_TOGGLES = [(''new_ban'', False), (''sync_threshold'', True), (''sync_error'', True), (''lapi_down'', True), (''mt_down'', True),
     (''login_failure'', False), (''login_locked'', True), (''whitelist_hit'', False), (''hourly_digest'', False), (''daily_digest'', True)]"

definition toggle_key :: "string \<Rightarrow> string \<Rightarrow> string" where
  "toggle_key channel ev = ''notify.'' @ channel @ ''.'' @ ev"

definition is_event_enabled :: "store \<Rightarrow> string \<Rightarrow> string \<Rightarrow> bool" where
  "is_event_enabled db channel ev =
     (case get_setting (toggle_key channel ev) db of
        None \<Rightarrow> (case map_of DEFAULT_TOGGLES ev of None \<Rightarrow> False | Some on \<Rightarrow> on)
      | Some v \<Rightarrow> v \<in> {''1'', ''true'', ''yes''})"

definition set_event_enabled :: "instant \<Rightarrow> string \<Rightarrow> string \<Rightarrow> bool \<Rightarrow> store \<Rightarrow> store" where
  "set_event_enabled now channel ev on db = set_setting now (toggle_key channel ev) (if on then ''1'' else ''0'') db"

definition get_threshold :: "store \<Rightarrow> string \<Rightarrow> int \<Rightarrow> int" where
  "get_threshold db ev dflt =
     (let v = get_setting (''notify.threshold.'' @ ev) db
      in if str_truthy v then (case py_int (the v) of None \<Rightarrow> dflt | Some n \<Rightarrow> n) else dflt)"

section \<open>The senders\<close>

record telegram_reply =
  tg_ok :: bool
  tg_description :: "string option"

record smtp_message =
  sm_host :: string
  sm_port :: int
  sm_ssl :: bool
  sm_login :: "(string \<times> string) option"
  sm_from :: string
  sm_to :: string
  sm_subject :: string
  sm_body :: string

text \<open>\<open>getaddrinfo\<close>: addresses, \<open>gaierror\<close>, or the \<open>UnicodeError\<close> of a name that cannot be encoded.\<close>
datatype resolution = Resolved "string list" | Unresolved | Unencodable string

record 'w notify_env =
  ne_environ :: environment
  ne_stamp :: "'w \<Rightarrow> string"
  ne_discord :: "string \<Rightarrow> string \<Rightarrow> 'w \<Rightarrow> 'w \<times> (string + unit response)"
  ne_telegram :: "string \<Rightarrow> string \<Rightarrow> string \<Rightarrow> 'w \<Rightarrow> 'w \<times> (string + telegram_reply response)"
  ne_resolve :: "string \<Rightarrow> 'w \<Rightarrow> resolution"
  ne_internal :: "string \<Rightarrow> bool option"
  ne_smtp :: "smtp_message \<Rightarrow> 'w \<Rightarrow> 'w \<times> string option"

definition discord_url :: "string \<Rightarrow> bool" where
  "discord_url url = list_ex (py_startswith url)
     [''https://discord.com/'', ''https://discordapp.com/'', ''https://ptb.discord.com/'', ''https://canary.discord.com/'']"

definition discord_body :: "string \<Rightarrow> string \<Rightarrow> string" where
  "discord_body message subject = (if subject = [] then message else ''**[Protek] '' @ subject @ ''**'' @ [CHR 0x0A] @ message)"

definition discord_verdict :: "string + unit response \<Rightarrow> bool \<times> string" where
  "discord_verdict reply =
     (case reply of
        Inl e \<Rightarrow> (False, ''discord error: '' @ e)
      | Inr r \<Rightarrow> if status_code r \<in> {200, 204} then (True, [])
                else (False, ''discord '' @ py_str_nat (status_code r) @ '': '' @ take 200 (r_text r)))"

definition send_discord :: "('w, 'e) notify_env_scheme \<Rightarrow> store \<Rightarrow> string \<Rightarrow> string \<Rightarrow> 'w \<Rightarrow> 'w \<times> (exn + bool \<times> string)" where
  "send_discord env db message subject w =
     (let url = get_credential (ne_environ env) db ''discord'' ''webhook''
      in if url = [] then (w, Inr (False, ''Discord webhook not set''))
         else if \<not> discord_url url then (w, Inr (False, ''invalid Discord webhook host''))
         else case ne_discord env url (take 1900 (discord_body message subject)) w of (w, reply) \<Rightarrow> (w, Inr (discord_verdict reply)))"

definition telegram_body :: "string \<Rightarrow> string \<Rightarrow> string" where
  "telegram_body message subject = (if subject = [] then message else ''<b>[Protek] '' @ subject @ ''</b>'' @ [CHR 0x0A] @ message)"

definition telegram_verdict :: "string + telegram_reply response \<Rightarrow> bool \<times> string" where
  "telegram_verdict reply =
     (case reply of
        Inl e \<Rightarrow> (False, ''telegram error: '' @ e)
      | Inr r \<Rightarrow>
          (case (if r_content r then r_json r else Inr \<lparr>tg_ok = False, tg_description = None\<rparr>) of
             Inl e \<Rightarrow> (False, ''telegram error: '' @ e)
           | Inr j \<Rightarrow>
               if status_code r = 200 \<and> tg_ok j then (True, [])
               else (False, ''telegram '' @ py_str_nat (status_code r) @ '': ''
                 @ (case tg_description j of None \<Rightarrow> take 200 (r_text r) | Some d \<Rightarrow> d))))"

definition send_telegram :: "('w, 'e) notify_env_scheme \<Rightarrow> store \<Rightarrow> string \<Rightarrow> string \<Rightarrow> 'w \<Rightarrow> 'w \<times> (exn + bool \<times> string)" where
  "send_telegram env db message subject w =
     (let token = get_credential (ne_environ env) db ''telegram'' ''bot_token'';
          chat_id = get_credential (ne_environ env) db ''telegram'' ''chat_id''
      in if token = [] \<or> chat_id = [] then (w, Inr (False, ''Telegram bot_token / chat_id not set''))
         else case ne_telegram env (''https://api.telegram.org/bot'' @ token @ ''/sendMessage'') chat_id (take 3800 (telegram_body message subject)) w of
           (w, reply) \<Rightarrow> (w, Inr (telegram_verdict reply)))"

text \<open>\<open>_smtp_host_is_internal\<close>: only \<open>gaierror\<close> is caught.\<close>
definition smtp_host_is_internal :: "('w, 'e) notify_env_scheme \<Rightarrow> string \<Rightarrow> 'w \<Rightarrow> exn + bool" where
  "smtp_host_is_internal env host w =
     (case ne_resolve env host w of
        Unresolved \<Rightarrow> Inr True
      | Unencodable e \<Rightarrow> Inl (ValueError e)
      | Resolved addrs \<Rightarrow> Inr (list_ex (\<lambda>a. ne_internal env a = Some True) addrs))"

text \<open>The message and the session that the credentials ask for; \<open>None\<close> if they are incomplete.\<close>
definition smtp_message_of :: "environment \<Rightarrow> store \<Rightarrow> string \<Rightarrow> string \<Rightarrow> smtp_message option" where
  "smtp_message_of environ db message subject =
     (let cred = get_credential environ db ''email'';
          port_text = cred ''smtp_port'';
          port = (if port_text = [] then 587 else case py_int port_text of None \<Rightarrow> 587 | Some n \<Rightarrow> n);
          user = cred ''smtp_user''; pw = cred ''smtp_password'';
          sender = (if cred ''smtp_from'' = [] then user else cred ''smtp_from'');
          to_addr = (if cred ''smtp_to'' = [] then sender else cred ''smtp_to'')
      in if user = [] \<or> sender = [] \<or> to_addr = [] then None
         else Some \<lparr>sm_host = cred ''smtp_host'', sm_port = port, sm_ssl = (port = 465), sm_login = (if pw = [] then None else Some (user, pw)),
                sm_from = sender, sm_to = to_addr, sm_subject = ''[Protek] '' @ (if subject = [] then ''notification'' else subject), sm_body = message\<rparr>)"

definition send_email :: "('w, 'e) notify_env_scheme \<Rightarrow> store \<Rightarrow> string \<Rightarrow> string \<Rightarrow> 'w \<Rightarrow> 'w \<times> (exn + bool \<times> string)" where
  "send_email env db message subject w =
     (let host = get_credential (ne_environ env) db ''email'' ''smtp_host''
      in if host = [] then (w, Inr (False, ''SMTP host not set''))
         else case smtp_host_is_internal env host w of
           Inl e \<Rightarrow> (w, Inl e)
         | Inr internal \<Rightarrow>
             if internal then (w, Inr (False, ''SMTP host rejected as internal/private network''))
             else case smtp_message_of (ne_environ env) db message subject of
                    None \<Rightarrow> (w, Inr (False, ''SMTP credentials incomplete''))
                  | Some m \<Rightarrow> (case ne_smtp env m w of
                        (w, None) \<Rightarrow> (w, Inr (True, [])) | (w, Some e) \<Rightarrow> (w, Inr (False, ''smtp error: '' @ e))))"

definition CHANNELS :: "string list" where
  "CHANNELS = [''discord'', ''telegram'', ''email'']"

text \<open>The function that \<open>CHANNELS\<close> holds for a channel.\<close>
definition sender_of :: "('w, 'e) notify_env_scheme \<Rightarrow> store \<Rightarrow> string \<Rightarrow> (string \<Rightarrow> string \<Rightarrow> 'w \<Rightarrow> 'w \<times> (exn + bool \<times> string)) option" where
  "sender_of env db ch =
     (if ch = ''discord'' then Some (send_discord env db) else if ch = ''telegram'' then Some (send_telegram env db)
      else if ch = ''email'' then Some (send_email env db) else None)"

definition channel_configured :: "environment \<Rightarrow> store \<Rightarrow> string \<Rightarrow> bool" where
  "channel_configured environ db channel =
     (if channel = ''discord'' then get_credential environ db ''discord'' ''webhook'' \<noteq> []
      else if channel = ''telegram'' then get_credential environ db ''telegram'' ''bot_token'' \<noteq> [] \<and> get_credential environ db ''telegram'' ''chat_id'' \<noteq> []
      else if channel = ''email'' then get_credential environ db ''email'' ''smtp_host'' \<noteq> [] \<and> get_credential environ db ''email'' ''smtp_user'' \<noteq> []
        \<and> get_credential environ db ''email'' ''smtp_from'' \<noteq> []
      else False)"

section \<open>The fan-out\<close>

record send_result =
  sr_channel :: string
  sr_ok :: bool
  sr_error :: string

fun send_each :: "('w, 'e) notify_env_scheme \<Rightarrow> store \<Rightarrow> bool \<Rightarrow> string \<Rightarrow> string \<Rightarrow> string \<Rightarrow> string list \<Rightarrow> 'w \<Rightarrow> 'w \<times> (exn + send_result list)" where
  "send_each env db explicit ev message subject [] w = (w, Inr [])"
| "send_each env db explicit ev message subject (ch # chs) w =
     (case sender_of env db ch of
        None \<Rightarrow> send_each env db explicit ev message subject chs w
      | Some fn \<Rightarrow>
          if \<not> channel_configured (ne_environ env) db ch \<or> (\<not> explicit \<and> \<not> is_event_enabled db ch ev)
          then send_each env db explicit ev message subject chs w
          else case fn message subject w of
            (w, Inl e) \<Rightarrow> (w, Inl e)
          | (w, Inr (ok, err)) \<Rightarrow>
              (case send_each env db explicit ev message subject chs w of
                 (w, Inl e) \<Rightarrow> (w, Inl e)
               | (w, Inr out) \<Rightarrow> (w, Inr (\<lparr>sr_channel = ch, sr_ok = ok, sr_error = err\<rparr> # out))))"

definition send :: "('w, 'e) notify_env_scheme \<Rightarrow> store \<Rightarrow> string \<Rightarrow> string \<Rightarrow> string option \<Rightarrow> string list option \<Rightarrow> 'w \<Rightarrow> 'w \<times> (exn + send_result list)" where
  "send env db ev message subject channels w =
     send_each env db (channels \<noteq> None) ev (message @ [CHR 0x0A] @ ''- '' @ ne_stamp env w) (str_or subject ev)
       (case channels of None \<Rightarrow> CHANNELS | Some chs \<Rightarrow> chs) w"

text \<open>What becomes of the messages of the other theories.\<close>
definition post_event :: "('w, 'e) notify_env_scheme \<Rightarrow> store \<Rightarrow> event \<Rightarrow> 'w \<Rightarrow> 'w \<times> (exn + send_result list)" where
  "post_event env db e w =
     (case e of
        Notify ev message subject \<Rightarrow> send env db ev message (Some subject) None w
      | Notify_on chs ev message subject \<Rightarrow> send env db ev message (Some subject) (Some chs) w
      | Ship _ _ \<Rightarrow> (w, Inr []))"

definition test_channel :: "('w, 'e) notify_env_scheme \<Rightarrow> store \<Rightarrow> string \<Rightarrow> 'w \<Rightarrow> 'w \<times> (exn + send_result)" where
  "test_channel env db channel w =
     (case sender_of env db channel of
        None \<Rightarrow> (w, Inr \<lparr>sr_channel = channel, sr_ok = False, sr_error = ''unknown channel''\<rparr>)
      | Some fn \<Rightarrow>
          if \<not> channel_configured (ne_environ env) db channel
          then (w, Inr \<lparr>sr_channel = channel, sr_ok = False, sr_error = ''channel not configured''\<rparr>)
          else case fn (''Test notification from Protek ('' @ channel @ ''). If you see this, it'' @ [CHR 0x27] @ ''s working.'') ''test'' w of
            (w, Inl e) \<Rightarrow> (w, Inl e)
          | (w, Inr (ok, err)) \<Rightarrow> (w, Inr \<lparr>sr_channel = channel, sr_ok = ok, sr_error = err\<rparr>))"

section \<open>Who hears of a message\<close>

lemma sender_of_iff: "sender_of env db ch = None \<longleftrightarrow> ch \<notin> set CHANNELS"
  by (simp add: sender_of_def CHANNELS_def)

lemma send_discord_returns: "snd (send_discord env db m subj w) \<noteq> Inl e"
  by (simp add: send_discord_def Let_def split: prod.split)

lemma send_telegram_returns: "snd (send_telegram env db m subj w) \<noteq> Inl e"
  by (simp add: send_telegram_def Let_def split: prod.split)

lemma send_email_raises:
  assumes "snd (send_email env db m subj w) = Inl e"
  shows "\<exists>t. ne_resolve env (get_credential (ne_environ env) db ''email'' ''smtp_host'') w = Unencodable t \<and> e = ValueError t"
proof -
  have "smtp_host_is_internal env (get_credential (ne_environ env) db ''email'' ''smtp_host'') w = Inl e"
    using assms by (simp add: send_email_def Let_def split: if_splits sum.splits prod.splits option.splits)
  then show ?thesis by (simp add: smtp_host_is_internal_def split: resolution.splits)
qed

lemma sender_raises:
  assumes "sender_of env db ch = Some fn" "fn m subj w = (v, Inl e)"
  shows "ch = ''email'' \<and> (\<exists>t. ne_resolve env (get_credential (ne_environ env) db ''email'' ''smtp_host'') w = Unencodable t \<and> e = ValueError t)"
  using assms send_discord_returns [of env db m subj w e] send_telegram_returns [of env db m subj w e] send_email_raises [of env db m subj w e]
  by (auto simp: sender_of_def split: if_splits)

text \<open>Whether a channel gets the message.\<close>
definition hears :: "('w, 'e) notify_env_scheme \<Rightarrow> store \<Rightarrow> bool \<Rightarrow> string \<Rightarrow> string \<Rightarrow> bool" where
  "hears env db explicit ev ch = (ch \<in> set CHANNELS \<and> channel_configured (ne_environ env) db ch \<and> (explicit \<or> is_event_enabled db ch ev))"

lemma send_each_channels:
  "case snd (send_each env db explicit ev m subj chs w) of
     Inl e \<Rightarrow> ''email'' \<in> set (filter (hears env db explicit ev) chs)
       \<and> (\<exists>t v. ne_resolve env (get_credential (ne_environ env) db ''email'' ''smtp_host'') v = Unencodable t \<and> e = ValueError t)
   | Inr results \<Rightarrow> map sr_channel results = filter (hears env db explicit ev) chs"
proof (induction chs arbitrary: w)
  case (Cons ch chs)
  show ?case
  proof (cases "hears env db explicit ev ch")
    case False
    then have "send_each env db explicit ev m subj (ch # chs) w = send_each env db explicit ev m subj chs w"
      using sender_of_iff [of env db ch] by (auto simp: hears_def split: option.split)
    then show ?thesis using Cons.IH [of w] False by (simp split: sum.splits)
  next
    case True
    then obtain fn where fn: "sender_of env db ch = Some fn" using sender_of_iff [of env db ch] by (auto simp: hears_def)
    obtain v out where out: "fn m subj w = (v, out)" by (cases "fn m subj w")
    have step: "send_each env db explicit ev m subj (ch # chs) w = (case out of Inl e \<Rightarrow> (v, Inl e)
        | Inr (ok, err) \<Rightarrow> (case send_each env db explicit ev m subj chs v of
             (w, Inl e) \<Rightarrow> (w, Inl e) | (w, Inr rs) \<Rightarrow> (w, Inr (\<lparr>sr_channel = ch, sr_ok = ok, sr_error = err\<rparr> # rs))))"
      using True by (auto simp: fn out hears_def split: sum.split)
    show ?thesis
    proof (cases out)
      case (Inl e)
      from sender_raises [OF fn out [unfolded Inl]] show ?thesis using True unfolding step Inl by auto
    next
      case (Inr r)
      then show ?thesis using Cons.IH [of v] True unfolding step by (auto split: prod.split sum.splits)
    qed
  qed
qed simp

text \<open>(C30) A message goes to exactly the channels that exist, have their credentials and, unless the caller named the channels, have the event switched on,
  in the order of the channels, each tried once whatever became of the others. The one way it can end early is a mail host whose name cannot be encoded.\<close>
theorem send_reaches_exactly:
  "case snd (send env db ev message subject channels w) of
     Inl e \<Rightarrow> channel_configured (ne_environ env) db ''email''
       \<and> (\<exists>t v. ne_resolve env (get_credential (ne_environ env) db ''email'' ''smtp_host'') v = Unencodable t \<and> e = ValueError t)
   | Inr results \<Rightarrow> map sr_channel results = filter (\<lambda>ch. ch \<in> set CHANNELS \<and> channel_configured (ne_environ env) db ch
         \<and> (case channels of None \<Rightarrow> is_event_enabled db ch ev | Some _ \<Rightarrow> True)) (case channels of None \<Rightarrow> CHANNELS | Some chs \<Rightarrow> chs)"
  using send_each_channels [of env db "channels \<noteq> None" ev "case channels of None \<Rightarrow> CHANNELS | Some chs \<Rightarrow> chs"
      "message @ [CHR 0x0A] @ ''- '' @ ne_stamp env w" "str_or subject ev" w]
  unfolding send_def hears_def by (cases channels) (auto split: sum.splits)

section \<open>Where the messages may go\<close>

text \<open>Another network outside the Discord hosts and, for mail, inside the private ranges.\<close>
definition with_outside :: "(string \<Rightarrow> string \<Rightarrow> 'w \<Rightarrow> 'w \<times> (string + unit response)) \<Rightarrow> (smtp_message \<Rightarrow> 'w \<Rightarrow> 'w \<times> string option)
    \<Rightarrow> 'w notify_env \<Rightarrow> 'w notify_env" where
  "with_outside f g env = env\<lparr>
     ne_discord := (\<lambda>url body w. if discord_url url then ne_discord env url body w else f url body w),
     ne_smtp := (\<lambda>m w. if smtp_host_is_internal env (sm_host m) w = Inr False then ne_smtp env m w else g m w)\<rparr>"

lemma with_outside_simps [simp]:
  "ne_environ (with_outside f g env) = ne_environ env" "ne_stamp (with_outside f g env) = ne_stamp env"
  "ne_telegram (with_outside f g env) = ne_telegram env" "smtp_host_is_internal (with_outside f g env) = smtp_host_is_internal env"
  by (simp_all add: with_outside_def smtp_host_is_internal_def fun_eq_iff split: resolution.split)

lemma senders_outside:
  "send_discord (with_outside f g env) db m subj w = send_discord env db m subj w"
  "send_telegram (with_outside f g env) db m subj w = send_telegram env db m subj w"
  "send_email (with_outside f g env) db m subj w = send_email env db m subj w"
proof -
  show "send_discord (with_outside f g env) db m subj w = send_discord env db m subj w"
    unfolding send_discord_def with_outside_simps Let_def by (simp add: with_outside_def)
  show "send_telegram (with_outside f g env) db m subj w = send_telegram env db m subj w"
    unfolding send_telegram_def with_outside_simps ..
  show "send_email (with_outside f g env) db m subj w = send_email env db m subj w"
  proof (cases "smtp_message_of (ne_environ env) db m subj")
    case (Some sm)
    then have "sm_host sm = get_credential (ne_environ env) db ''email'' ''smtp_host''"
      by (auto simp: smtp_message_of_def Let_def split: if_splits)
    then show ?thesis unfolding send_email_def with_outside_simps Let_def Some by (simp add: with_outside_def split: sum.split)
  qed (simp add: send_email_def Let_def split: sum.split)
qed

text \<open>Messages stay off foreign and internal hosts: whatever answered at web addresses other than Discord's or at mail hosts that resolve to private,
  loopback or otherwise internal addresses, a sending would do the same, since no such host is contacted.\<close>
theorem send_contacts_admitted_hosts:
  "send (with_outside f g env) db ev message subject channels w = send env db ev message subject channels w"
proof -
  have senders: "sender_of (with_outside f g env) db ch = sender_of env db ch" for ch
    by (simp add: sender_of_def senders_outside fun_eq_iff)
  have "send_each (with_outside f g env) db explicit ev m subj chs w = send_each env db explicit ev m subj chs w" for explicit m subj chs
    by (induction chs arbitrary: w) (simp_all only: send_each.simps senders with_outside_simps)
  then show ?thesis by (simp add: send_def)
qed

section \<open>Saving a credential\<close>

definition known_credentials :: "(string \<times> string) list" where
  "known_credentials = concat (map (\<lambda>(ch, fs). map (\<lambda>f. (ch, cs_field f)) fs) CREDENTIAL_SCHEMA)"

lemma cred_spec_known: "cred_spec_of ch field = Some sp \<Longrightarrow> (ch, field) \<in> set known_credentials"
  by (force simp: cred_spec_of_def known_credentials_def find_Some_iff in_set_conv_nth split: option.splits dest: map_of_SomeD)

lemma cred_keys_distinct:
  assumes "p \<in> set known_credentials" "q \<in> set known_credentials" "p \<noteq> q"
  shows "cred_key (fst p) (snd p) \<noteq> cred_key (fst q) (snd q)"
proof -
  have "list_all (\<lambda>p. list_all (\<lambda>q. p = q \<or> cred_key (fst p) (snd p) \<noteq> cred_key (fst q) (snd q)) known_credentials) known_credentials"
    by code_simp
  then show ?thesis using assms unfolding list_all_iff by blast
qed

text \<open>A credential that is saved is read back as it was, an empty one gives way to the environment, and no other credential changes.\<close>
theorem credential_roundtrip:
  assumes "cred_spec_of channel field = Some sp"
  shows "get_credential environ (set_credential now channel field v db) channel' field' =
    (if channel' = channel \<and> field' = field then (if v = [] then envstr environ (cs_env sp) [] else v)
     else get_credential environ db channel' field')"
proof (cases "channel' = channel \<and> field' = field")
  case True
  then show ?thesis using assms by (simp add: get_credential_def set_credential_def str_truthy_def)
next
  case False
  show ?thesis
  proof (cases "cred_spec_of channel' field'")
    case None
    then show ?thesis using False by (auto simp: get_credential_def)
  next
    case (Some sp')
    have "cred_key channel' field' \<noteq> cred_key channel field"
      using cred_keys_distinct [OF cred_spec_known [OF Some] cred_spec_known [OF assms]] False by auto
    then show ?thesis using False Some assms by (auto simp: get_credential_def set_credential_def Let_def)
  qed
qed

theorem credential_roundtrip_witness:
  "get_credential (\<lambda>_. None) (set_credential 0 ''email'' ''smtp_host'' ''mail.example.org'' empty_store) ''email'' ''smtp_host'' = ''mail.example.org''"
proof -
  have "cred_spec_of ''email'' ''smtp_host'' = Some \<lparr>cs_field = ''smtp_host'', cs_env = ''SMTP_HOST'', cs_secret = False\<rparr>" by code_simp
  from credential_roundtrip [OF this] show ?thesis by simp
qed

section \<open>Findings\<close>

text \<open>Without a sender address the mail sender falls back to the user name, but the channel then counts as not configured and is skipped.\<close>
lemma sender_fallback_unreachable:
  assumes "get_credential environ db ''email'' ''smtp_from'' = []" "get_credential environ db ''email'' ''smtp_user'' \<noteq> []"
  shows "\<not> channel_configured environ db ''email''
    \<and> (\<exists>m. smtp_message_of environ db message subject = Some m \<and> sm_from m = get_credential environ db ''email'' ''smtp_user'')"
  using assms by (simp add: channel_configured_def smtp_message_of_def Let_def)

text \<open>A mail host whose name cannot be encoded makes the whole call raise, after the other channels have been tried.\<close>
lemma unencodable_host_raises:
  assumes "channel_configured (ne_environ env) db ''email''"
    and "ne_resolve env (get_credential (ne_environ env) db ''email'' ''smtp_host'') w = Unencodable t"
  shows "snd (send env db ev message subject (Some [''email'']) w) = Inl (ValueError t)"
  using assms by (simp add: send_def sender_of_def send_email_def smtp_host_is_internal_def channel_configured_def Let_def)

end
