(* ===== verification/Digest.thy ===== *)
theory Digest
  imports Notifications Auth
begin

text \<open>
  The daily digest (\<open>digest.py\<close>): the counts of the last day, their text, and the call of every cycle that sends it once a day. Characters outside ASCII
  are written as \<open>-\<close> and \<open>*\<close>; groups of equal count come in the order of first appearance. The stamp of the last digest is one the code
  wrote, so its calendar day is the UTC day.
\<close>

section \<open>The text\<close>

record digest =
  dg_new_bans :: nat
  dg_active_total :: nat
  dg_top_scenarios :: "(string \<times> nat) list"
  dg_top_countries :: "(string \<times> nat) list"
  dg_sync_cycles :: nat
  dg_sync_errors :: nat
  dg_login_fails :: nat
  dg_whitelist_saves :: nat

text \<open>\<open>COUNT(DISTINCT value)\<close>.\<close>
definition distinct_values :: "decision_row list \<Rightarrow> nat" where
  "distinct_values rs = card (set (map dr_value rs))"

text \<open>\<open>GROUP BY key ORDER BY n DESC LIMIT 5\<close> over pairs of a key and a row.\<close>
definition top_groups :: "(string \<times> decision_row) list \<Rightarrow> (string \<times> nat) list" where
  "top_groups ps =
     take 5 (sort_key (\<lambda>(_, n). - int n)
       (map (\<lambda>k. (k, distinct_values (map snd (filter (\<lambda>p. fst p = k) ps)))) (rev (remdups (rev (map fst ps))))))"

definition country_of :: "store \<Rightarrow> string \<Rightarrow> string option" where
  "country_of db ip =
     (case find_row gc_ip ip (geo_cache db) of
        None \<Rightarrow> None | Some g \<Rightarrow> if gc_country_code g = [] then None else Some (gc_country_code g))"

definition build_payload :: "instant \<Rightarrow> store \<Rightarrow> login_audit_row auto_table \<Rightarrow> digest" where
  "build_payload now db audit =
     (let since = now - 24 * HOUR;
          live_rows = filter (\<lambda>r. dr_deleted_at r = None) (contents (decisions db));
          new_rows = filter (\<lambda>r. since \<le> dr_first_seen_at r) live_rows;
          cycles = filter (\<lambda>e. since \<le> se_started_at e) (contents (sync_events db))
      in \<lparr>dg_new_bans = distinct_values new_rows, dg_active_total = distinct_values live_rows,
          dg_top_scenarios = top_groups (map (\<lambda>r. (dr_scenario r, r)) new_rows),
          dg_top_countries = top_groups (concat (map (\<lambda>r. case country_of db (dr_value r) of None \<Rightarrow> [] | Some c \<Rightarrow> [(c, r)]) new_rows)),
          dg_sync_cycles = length cycles, dg_sync_errors = sum_list (map se_errors cycles),
          dg_login_fails = length (filter (\<lambda>a. since \<le> la_created_at a \<and> \<not> la_success a) (contents audit)),
          dg_whitelist_saves = length (filter (\<lambda>h. since \<le> wh_created_at h) (contents (whitelist_hits db)))\<rparr>)"

definition format_digest :: "digest \<Rightarrow> string" where
  "format_digest p =
     py_join [CHR 0x0A]
       ([''* **Last 24h** - '' @ py_str_nat (dg_new_bans p) @ '' new bans (total active: '' @ py_str_nat (dg_active_total p) @ '')'', [], ''Top scenarios:'']
        @ map (\<lambda>(s, n). ''  * '' @ s @ '' - '' @ py_str_nat n) (if dg_top_scenarios p = [] then [(''(none)'', 0)] else dg_top_scenarios p)
        @ (if dg_top_countries p = [] then []
           else [[], ''Top source countries:''] @ map (\<lambda>(c, n). ''  * '' @ c @ '' - '' @ py_str_nat n) (dg_top_countries p))
        @ [[], ''Reconcile: '' @ py_str_nat (dg_sync_cycles p) @ '' cycles * '' @ py_str_nat (dg_sync_errors p) @ '' errors  *  Whitelist saves: ''
           @ py_str_nat (dg_whitelist_saves p) @ ''  *  Failed logins: '' @ py_str_nat (dg_login_fails p)])"

section \<open>The call of every cycle\<close>

definition same_day :: "instant \<Rightarrow> instant \<Rightarrow> bool" where
  "same_day s t = (s div DAY = t div DAY)"

definition fired_today :: "instant \<Rightarrow> store \<Rightarrow> bool" where
  "fired_today now db =
     (let last_at = str_or (get_setting ''digest.last_daily_at'' db) []
      in if last_at = [] then False
         else case parse_any_stamp last_at of None \<Rightarrow> False | Some (Aware t) \<Rightarrow> same_day t now | Some (Naive t) \<Rightarrow> same_day t now)"

text \<open>\<open>maybe_fire_daily\<close>: the new database, the SIEM events and whether the digest counts as sent.\<close>
definition maybe_fire_daily :: "('w, 'e) notify_env_scheme \<Rightarrow> instant \<Rightarrow> login_audit_row auto_table \<Rightarrow> store \<Rightarrow> 'w \<Rightarrow> 'w \<times> store \<times> event list \<times> bool" where
  "maybe_fire_daily env now audit db w =
     (if fired_today now db then (w, db, [], False)
      else
        let p = build_payload now db audit
        in case send env db ''daily_digest'' (format_digest p) (Some ''Daily digest'') None w of
             (w, Inl _) \<Rightarrow> (w, db, [], False)
           | (w, Inr _) \<Rightarrow>
               (w, set_setting now ''digest.last_daily_at'' (isoformat now) db,
                [Ship ''digest.daily'' [(''new_bans'', Some (py_str_nat (dg_new_bans p))), (''active_total'', Some (py_str_nat (dg_active_total p))),
                   (''sync_cycles'', Some (py_str_nat (dg_sync_cycles p))), (''sync_errors'', Some (py_str_nat (dg_sync_errors p))),
                   (''login_fails'', Some (py_str_nat (dg_login_fails p))), (''whitelist_saves'', Some (py_str_nat (dg_whitelist_saves p)))]], True))"

section \<open>Once a day\<close>

text \<open>The days of the calls that sent a digest, over calls at the given times; between them anything but the stamp may change.\<close>
fun digest_days :: "('w, 'e) notify_env_scheme \<Rightarrow> (instant \<times> (store \<Rightarrow> store) \<times> login_audit_row auto_table) list \<Rightarrow> store \<Rightarrow> 'w \<Rightarrow> int list" where
  "digest_days env [] db w = []"
| "digest_days env ((now, change, audit) # calls) db w =
     (case maybe_fire_daily env now audit (change db) w of
        (w, db, _, fired) \<Rightarrow> (if fired then [now div DAY] else []) @ digest_days env calls db w)"

definition keeps_last_digest :: "(store \<Rightarrow> store) \<Rightarrow> bool" where
  "keeps_last_digest change \<longleftrightarrow> (\<forall>db. get_setting ''digest.last_daily_at'' (change db) = get_setting ''digest.last_daily_at'' db)"

lemma send_returns:
  assumes "\<And>h v t. ne_resolve env h v \<noteq> Unencodable t"
  shows "\<exists>v rs. send env db ev m subj chs w = (v, Inr rs)"
  using send_each_channels [of env db "chs \<noteq> None" ev "case chs of None \<Rightarrow> CHANNELS | Some chs \<Rightarrow> chs" "m @ [CHR 0x0A] @ ''- '' @ ne_stamp env w" "str_or subj ev" w]
    assms by (cases "send env db ev m subj chs w") (auto simp: send_def split: sum.splits)

lemma fired_today_stamp:
  "get_setting ''digest.last_daily_at'' db = Some (isoformat t) \<Longrightarrow> datable t \<Longrightarrow> fired_today now db \<longleftrightarrow> t div DAY = now div DAY"
  by (simp add: fired_today_def same_day_def Let_def str_or_def)

lemma fire_step:
  assumes "\<And>h v t. ne_resolve env h v \<noteq> Unencodable t"
  shows "\<exists>v ev. maybe_fire_daily env now audit db w =
    (if fired_today now db then (w, db, [], False) else (v, set_setting now ''digest.last_daily_at'' (isoformat now) db, ev, True))"
proof -
  obtain v rs where "send env db ''daily_digest'' (format_digest (build_payload now db audit)) (Some ''Daily digest'') None w = (v, Inr rs)"
    using send_returns [OF assms] by blast
  then show ?thesis by (simp add: maybe_fire_daily_def Let_def)
qed

lemma digest_days_after:
  assumes "\<And>h v t. ne_resolve env h v \<noteq> Unencodable t" "list_all (\<lambda>(now, change, _). datable now \<and> keeps_last_digest change) calls"
    and "get_setting ''digest.last_daily_at'' db = Some (isoformat t)" "datable t"
  shows "digest_days env calls db w = tl (remdups_adj (t div DAY # map (\<lambda>c. fst c div DAY) calls))"
  using assms(2-)
proof (induction calls arbitrary: db w t)
  case (Cons c calls)
  obtain now change audit where c: "c = (now, change, audit)" by (cases c)
  then have stamp: "get_setting ''digest.last_daily_at'' (change db) = Some (isoformat t)" and d: "datable now"
    using Cons.prems by (auto simp: keeps_last_digest_def)
  note today = fired_today_stamp [OF stamp Cons.prems(3), of now]
  obtain v ev where step: "maybe_fire_daily env now audit (change db) w = (if fired_today now (change db) then (w, change db, [], False)
      else (v, set_setting now ''digest.last_daily_at'' (isoformat now) (change db), ev, True))"
    using fire_step [OF assms(1)] by blast
  show ?case
  proof (cases "t div DAY = now div DAY")
    case True
    then have "digest_days env (c # calls) db w = digest_days env calls (change db) w" by (simp add: c step today)
    then show ?thesis using Cons.IH [OF _ stamp] Cons.prems True by (simp add: c)
  next
    case False
    then have "digest_days env (c # calls) db w
        = now div DAY # digest_days env calls (set_setting now ''digest.last_daily_at'' (isoformat now) (change db)) v"
      by (simp add: c step today)
    also have "digest_days env calls (set_setting now ''digest.last_daily_at'' (isoformat now) (change db)) v
        = tl (remdups_adj (now div DAY # map (\<lambda>c. fst c div DAY) calls))"
      using Cons.prems d by (intro Cons.IH) auto
    finally show ?thesis using False by (simp add: c)
  qed
qed simp

text \<open>The digest goes out once a day: when every mail host name can be encoded, the calls of all cycles send it at the first call and then at each first
  call of a new day, whatever the channels answer and whatever else changes in the database meanwhile.\<close>
theorem digest_once_a_day:
  assumes "\<And>h v t. ne_resolve env h v \<noteq> Unencodable t" "list_all (\<lambda>(now, change, _). datable now \<and> keeps_last_digest change) calls"
    and "get_setting ''digest.last_daily_at'' db = None"
  shows "digest_days env calls db w = remdups_adj (map (\<lambda>c. fst c div DAY) calls)"
proof (cases calls)
  case (Cons c rest)
  obtain now change audit where c: "c = (now, change, audit)" by (cases c)
  have now: "datable now" and none: "get_setting ''digest.last_daily_at'' (change db) = None"
    using assms(2,3) by (auto simp: Cons c keeps_last_digest_def)
  have first: "\<not> fired_today now (change db)" by (simp add: fired_today_def none)
  obtain v ev where step: "maybe_fire_daily env now audit (change db) w = (if fired_today now (change db) then (w, change db, [], False)
      else (v, set_setting now ''digest.last_daily_at'' (isoformat now) (change db), ev, True))"
    using fire_step [OF assms(1)] by blast
  have "digest_days env calls db w = now div DAY # digest_days env rest (set_setting now ''digest.last_daily_at'' (isoformat now) (change db)) v"
    by (simp add: Cons c step first)
  also have "digest_days env rest (set_setting now ''digest.last_daily_at'' (isoformat now) (change db)) v
      = tl (remdups_adj (now div DAY # map (\<lambda>c. fst c div DAY) rest))"
    using assms(2) now by (intro digest_days_after [OF assms(1)]) (auto simp: Cons)
  also have "now div DAY # tl (remdups_adj (now div DAY # map (\<lambda>c. fst c div DAY) rest)) = remdups_adj (now div DAY # map (\<lambda>c. fst c div DAY) rest)"
    using hd_remdups_adj [of "now div DAY # map (\<lambda>c. fst c div DAY) rest"]
    by (metis hd_Cons_tl list.distinct(1) list.sel(1) remdups_adj_Nil_iff)
  finally show ?thesis by (simp add: Cons c)
qed simp

text \<open>When the fan-out raises, which it does for a mail host that cannot be encoded after the other channels were served, the digest does not count as
  sent, so the next cycle sends it to those channels again.\<close>
lemma digest_repeats:
  assumes "\<not> fired_today now db" "send env db ''daily_digest'' (format_digest (build_payload now db audit)) (Some ''Daily digest'') None w = (v, Inl e)"
  shows "maybe_fire_daily env now audit db w = (v, db, [], False)"
  using assms by (simp add: maybe_fire_daily_def Let_def)

end
