(* ===== verification/Spec2Isabelle.thy ===== *)
theory Spec2Isabelle
  imports Poller Asn_Detector Connection Slo Disk_Watchdog Alerting Api_Tokens Sso Ha Siem Backup Honeypot Digest
begin

text \<open>
  Protek takes the ban decisions of one or several CrowdSec LAPIs, mirrors them in an SQLite database and keeps the
  block lists of routers and other devices equal to what the mirror wants, touching only the entries it owns. Around that loop are
  watchdogs, alerts, an event pipeline, tokens, logins and settings. This development models the loop and most of what surrounds
  it, and proves what makes each part correct.

  \<^bold>\<open>How the parts interact.\<close> The poller (\<open>poller.py\<close>) runs one round every few seconds: upkeep first (disk, retention,
  hygiene, connection settings, blocking check), then a pull from every source that is not in backoff into the mirror, then the
  reconcile run, then the scheduled jobs. The reconcile run (\<open>reconciler.py\<close>) computes what is desired from the mirror, the
  whitelist and the approval queue, reads each device, computes the difference with the diff engine (\<open>reconcile.py\<close>) and applies it
  through the device's adapter. Everything reads and writes the store (\<open>db.py\<close>). Messages to the operator and events for
  the SIEM are values of the type \<open>event\<close> that the operations return in order; the event pipeline takes the events from there.

  \<^bold>\<open>Theories and the code they model.\<close>
  \<^item> \<open>Py_Prelude\<close>: the Python string methods, \<open>int\<close>, \<open>float\<close>, \<open>fnmatch\<close>, the exceptions and the outbound effects, with shared lemmas.
    \<open>Iso_Time\<close>: ISO stamps and the calendar. \<open>Ip_Address\<close>: the standard library's \<open>ipaddress\<close>. \<open>Store\<close>: the tables of \<open>db.py\<close>.
  \<^item> \<open>Reconcile\<close> (\<open>reconcile.py\<close>), \<open>Mikrotik\<close> (\<open>mikrotik.py\<close> and its adapters), \<open>Adapters\<close> (the other adapters under \<open>bouncers/\<close>), \<open>Bouncers\<close>
    (\<open>bouncers/__init__.py\<close>), \<open>Scenarios_Admin\<close> (\<open>scenarios_admin.py\<close>), \<open>Reconciler\<close> (\<open>reconciler.py\<close>), \<open>Blocking\<close> (\<open>blocking.py\<close>).
  \<^item> \<open>Ratelimit\<close>, \<open>Crowdsec\<close>, \<open>Federation\<close> (the files of these names), \<open>Mirror\<close>, \<open>Source_Pull\<close> and \<open>Poller\<close> (the pull half, one
    source's pull, and the round of \<open>poller.py\<close>).
  \<^item> \<open>Alarms\<close>: edge-triggered alarms as an interface. \<open>Slo\<close>, \<open>Disk_Watchdog\<close>, \<open>Alerting\<close>, \<open>Retention\<close>, \<open>Hygiene\<close>, \<open>Ha\<close>, \<open>Asn_Detector\<close> and
    \<open>Audit_Log\<close> (\<open>audit.py\<close>): the files of these names.
  \<^item> \<open>Backup\<close> (\<open>backup.py\<close>): the envelope, the local store, the journal, runs, retention of bundles, the restore test, the schedule.
    \<open>Notifications\<close> (\<open>notifications.py\<close>): what becomes of the messages. \<open>Reputation\<close> (\<open>reputation.py\<close>): the scores behind the
    filter that the reconcile run takes as an argument; \<open>Honeypot\<close> (\<open>honeypot.py\<close>): the list drawn from them. \<open>Digest\<close> (\<open>digest.py\<close>): the daily
    summary.
  \<^item> \<open>Queues\<close>: bounded queues as an interface. \<open>Webhooks_Out\<close> and \<open>Siem\<close>: the event pipeline.
  \<^item> \<open>Auth\<close> (\<open>auth.py\<close>, the login route and the per-request check of \<open>app.py\<close>), \<open>Sso\<close> (\<open>google_auth.py\<close>, \<open>oidc.py\<close>, \<open>saml.py\<close> and the
    callback routes), \<open>Api_Tokens\<close>, \<open>Connection\<close>.

  A table is the list of its rows with their ids and the id counter, an object of the code is a record, an operation is a function
  from the state to the new state, the effects and a result, and an exception is the left case of a sum. What lies outside (HTTP, sockets,
  the RouterOS API, bcrypt, HMAC, the clock, the file system) is a function argument or a field of an environment record; the
  assumptions on it stand in the theorems that need them.

  \<^bold>\<open>What the lemmas show.\<close> The diff engine refines the set difference, converges and never removes a foreign entry, also through
  the device models; pulls refine map updates, commute between sources and lead, through the desired set, to the property at the end of this theory: what is
  blocked is exactly what some source reports and no rule protects. The reconcile run is characterised on every branch that matters (dry run, failed
  snapshot, approval mode, limits). The round of the poller starves no upkeep job and isolates the failures of its jobs; a failing source is
  retried with the exact backoff. The alarms alternate, debounce and repeat as configured. No event is lost or reordered silently in the
  two queues, and every webhook event is delivered or kept as a dead letter. Logins, sign-ins, sessions and tokens open exactly what the tables
  and the environment allow, and the lockout bounds guessing. Settings saved from the browser reach \<open>.env\<close> without touching other
  lines and reach each worker once. Every backup run ends in the journal, the newest bundles survive retention, and the verdict of the
  restore test reaches the hygiene check. A message goes to exactly the configured channels that have its event switched on and to no foreign
  or internal host. Scores keep their range, and a lapsed cache of scores fills in block by block. The
  digest goes out once a day.

  \<^bold>\<open>Interfaces.\<close> \<open>key_value_store\<close> (interpreted on the settings table), \<open>edge_alarm\<close> and \<open>threshold_alarm\<close> (interpreted on
  the objectives, the disk thresholds, the alert rules, the sources and the hygiene findings), \<open>lossy_queue\<close> (on both event queues), \<open>object_store\<close>
  (on the local backup directory), \<open>call_frame\<close> (what a
  part of the poller's round may call and change, on the upkeep and the scheduled half) and \<open>routeros\<close> (the laws of a
  device's list, on a table that answers as the RouterOS API does).

  \<^bold>\<open>Termination and bounds.\<close> Loops over lists are structural, other loops are functions with a measure; there is no fuel. The
  paging loop of the Cloudflare adapter may run for ever against an API that always names a next page, so it is a partial function into options, and
  \<open>cf_snapshot_complete\<close> shows that it returns, with every item, when the API pages through a list. Strings hold code points
  below 256; floats are exact rationals; integers are Python's unbounded ones.

  \<^bold>\<open>Not modelled.\<close> The pages and the JSON interfaces of the web application, the export of the configuration (\<open>bundle.py\<close>), replication, enrichment
  services, fleet, reports: they format data or drive outside programs. Schema migrations and SQLite's own errors, except where
  a model says so. Threads appear as sequences of atomic steps: each statement runs in autocommit mode and the code guards its shared objects
  with locks, but interleavings inside an operation are not explored. The scheduled jobs of the poller are an argument of its round, so that
  their isolation is proved for every behaviour of theirs; the jobs that are modelled have theories of their own.
\<close>

section \<open>From the LAPI to what is desired\<close>

lemma live_pulls: "(\<forall>p \<in> set ps. pull_ok p) \<Longrightarrow> live (fold run_pull ps db) = fold spec_pull ps (live db)"
  by (induction ps arbitrary: db) (simp_all add: live_run_pull)

lemma mirror_ok_pulls: "mirror_ok db \<Longrightarrow> mirror_ok (fold run_pull ps db)"
proof -
  have "grows UNIV db (fold run_pull ps db)" by (rule grows_fold) (rule grows_run_pull, simp)
  then show "mirror_ok db \<Longrightarrow> mirror_ok (fold run_pull ps db)" by (simp add: grows_def)
qed

lemma find_row_unique: "keys_unique key t \<Longrightarrow> r \<in> set t \<Longrightarrow> find_row key (key r) t = Some r"
  unfolding keys_unique_def find_row_def by (induction t) auto

lemma live_row_iff:
  assumes "mirror_ok db"
  shows "(\<exists>r \<in> set (contents (decisions db)). row_key r = k \<and> dr_deleted_at r = None) \<longleftrightarrow> live db k \<noteq> None"
proof -
  have *: "lookup db (row_key r) = Some r" if "r \<in> set (contents (decisions db))" for r
    using assms that find_row_unique by (auto simp: mirror_ok_def lookup_def)
  show ?thesis
    using * by (auto simp: live_def live_id_def lookup_def split: option.splits dest: find_row_Some lookup_key)
qed

lemma image_filter_set: "f ` set (filter (\<lambda>x. P (f x)) xs) = {v \<in> f ` set xs. P v}"
  by auto

lemma desired_values:
  assumes "keys_unique gc_ip (geo_cache db)" "confidence_threshold db \<le> 1" "\<not> approval_required db" "mirror_ok db"
  shows "dec_value ` set (snd (snd (desired_from_db now db)))
    = {v. (\<exists>s sc scn. live db (s, v, sc, scn) \<noteq> None) \<and> \<not> protected now db v}"
proof -
  let ?rs = "filter (\<lambda>r. dr_deleted_at r = None) (contents (decisions db))"
  have dv: "dec_value (group_decision ?rs k) = fst k" for k by (simp add: group_decision_def Let_def str_or_def)
  have group: "dec_value ` set (group_decisions ?rs) = dr_value ` set ?rs"
    by (auto simp: group_decisions_def dv image_image)
  have rows: "v \<in> dr_value ` set ?rs \<longleftrightarrow> (\<exists>s sc scn. live db (s, v, sc, scn) \<noteq> None)" for v
  proof -
    have "v \<in> dr_value ` set ?rs \<longleftrightarrow> (\<exists>s sc scn. \<exists>r \<in> set (contents (decisions db)). row_key r = (s, v, sc, scn) \<and> dr_deleted_at r = None)"
      by (auto simp: row_key_def image_iff)
    then show ?thesis by (simp only: live_row_iff [OF assms(4)])
  qed
  have all: "dec_value ` set (group_decisions ?rs) = {v. \<exists>s sc scn. live db (s, v, sc, scn) \<noteq> None}"
    unfolding group by (rule set_eqI) (simp only: rows mem_Collect_eq)
  have rs: "candidate_rows now db = ?rs" using assms(2) by (simp add: candidate_rows_def Let_def)
  have "snd (snd (desired_from_db now db)) = filter (\<lambda>d. \<not> protected now db (dec_value d)) (group_decisions ?rs)"
    using assms(3) unfolding desired_from_db_eq [OF assms(1)] rs by simp
  then show ?thesis
    by (simp only: image_filter_set [where f = dec_value and P = "\<lambda>v. \<not> protected now db v"] all mem_Collect_eq)
qed


definition sample_pulls :: "pull list" where
  "sample_pulls = [Full ''local'' 1 [sample_ld 1 ''192.0.2.1'' ''ssh-bf'', sample_ld 2 ''192.0.2.2'' ''ssh-bf''],
     Full ''remote'' 2 [sample_ld 7 ''192.0.2.2'' ''ssh-bf''], Full ''local'' 3 [sample_ld 1 ''192.0.2.1'' ''ssh-bf''],
     Full ''remote'' 4 []]"


end
